(* ===== verification/S390_Prelude.thy ===== *)
theory S390_Prelude
  imports Main "HOL-Library.Word" "HOL-Library.Multiset"
begin

text \<open>
  Shared vocabulary of the development: names for the C integer types, the
  collections of facts the component proofs draw on, and generic lemmas on
  lists and words that more than one component needs.
\<close>

unbundle bit_operations_syntax

section \<open>Machine types\<close>

type_synonym u8 = "8 word"
type_synonym u16 = "16 word"
type_synonym u32 = "32 word"
type_synonym u64 = "64 word"

text \<open>An address; address 0 is \<^verbatim>\<open>NULL\<close>.\<close>

type_synonym ptr = u64

abbreviation NULL :: ptr where
  "NULL \<equiv> 0"

section \<open>Collections of facts\<close>

named_theorems dll_simps \<open>equations of doubly linked segments\<close>
named_theorems vtoc_simps \<open>field equations of the volume labels\<close>

section \<open>Lists\<close>

lemma take_Suc_update_nth:
  "i < length xs \<Longrightarrow> take (Suc i) (xs[i := x]) = take i xs @ [x]"
  by (simp add: take_Suc_conv_app_nth)

lemma drop_update_eq [simp]: "i < n \<Longrightarrow> drop n (xs[i := x]) = drop n xs"
  by (simp add: drop_update_cancel)

lemma mset_swap_list:
  "i < length xs \<Longrightarrow> j < length xs \<Longrightarrow> mset (xs[i := xs ! j, j := xs ! i]) = mset xs"
  by (simp add: mset_swap)

lemma not_isl_iff: "\<not> isl x \<longleftrightarrow> (\<exists>y. x = Inr y)"
  by (cases x) auto

section \<open>Words\<close>

lemma distinct_words_length:
  fixes xs :: "'a::len word list"
  assumes "distinct xs" and "0 \<notin> set xs"
  shows "length xs < 2 ^ LENGTH('a)"
proof -
  have "set xs \<subset> (UNIV :: 'a word set)"
    using assms(2) by auto
  then have "card (set xs) < card (UNIV :: 'a word set)"
    by (intro psubset_card_mono) auto
  then show ?thesis
    using assms(1) by (simp add: distinct_card card_word)
qed

lemma bit_lt_exp:
  fixes w :: "'a::len word"
  assumes "w < 2 ^ k" and "k \<le> n"
  shows "\<not> bit w n"
proof -
  have "take_bit k w = w"
    using assms(1) by (simp add: take_bit_eq_mod mod_word_less)
  then have "bit w n = bit (take_bit k w) n" by simp
  with assms(2) show ?thesis by (simp add: bit_take_bit_iff)
qed

lemma lt_exp_bits:
  fixes w :: "'a::len word"
  assumes "\<And>n. k \<le> n \<Longrightarrow> \<not> bit w n" and "k < LENGTH('a)"
  shows "w < 2 ^ k"
proof -
  have "take_bit k w = w"
    using assms(1) by (intro bit_word_eqI) (metis bit_take_bit_iff not_less)
  then have "unat w mod 2 ^ k = unat w"
    by (metis take_bit_eq_mod unsigned_take_bit_eq)
  then have "unat w < 2 ^ k"
    by (metis mod_less_divisor zero_less_numeral zero_less_power)
  then show ?thesis
    using assms(2) unat_of_nat [of "2 ^ k", where 'a = 'a] by (simp add: word_less_nat_alt)
qed

lemma unat_ucast: "unat (ucast w :: 'b::len word) = unat w mod 2 ^ LENGTH('b)"
  for w :: "'a::len word"
  by (simp add: unsigned_ucast_eq take_bit_eq_mod)

lemma unat_ucast_le:
  fixes w :: "'a::len word"
  assumes "LENGTH('a) \<le> LENGTH('b::len)"
  shows "unat (ucast w :: 'b word) = unat w"
proof -
  have "unat w < 2 ^ LENGTH('a)" by (rule unsigned_less)
  also have "\<dots> \<le> 2 ^ LENGTH('b)" using assms by simp
  finally show ?thesis by (simp add: unat_ucast)
qed

text \<open>Sums, products and differences of words that do not wrap.\<close>

lemma unat_add_exact:
  fixes a b :: "'a::len word"
  shows "unat a + unat b < 2 ^ LENGTH('a) \<Longrightarrow> unat (a + b) = unat a + unat b"
  by (simp add: unat_word_ariths)

lemma unat_mult_exact:
  fixes a b :: "'a::len word"
  shows "unat a * unat b < 2 ^ LENGTH('a) \<Longrightarrow> unat (a * b) = unat a * unat b"
  by (simp add: unat_word_ariths)

end
