(* ===== verification/Util_List.thy ===== *)
theory Util_List
  imports S390_Prelude
begin

text \<open>
  The intrusive doubly linked list of \<^verbatim>\<open>libutil/util_list.c\<close>.  The nodes live in
  an explicit store from addresses to \<^verbatim>\<open>struct util_list_node\<close>; every operation
  takes the store and the list head and returns both.  A representation
  predicate relates a store and a head to the HOL list of the node addresses,
  and each operation is shown to refine the corresponding list function.  The
  bubble sort of \<^verbatim>\<open>util_list_sort\<close> is proved to refine a bubble sort on lists,
  which sorts for every comparison that respects a linear key.
\<close>

section \<open>State\<close>

record util_list_node =
  nxt :: ptr
  prv :: ptr

record util_list =
  offset :: u64
  list_start :: ptr
  list_end :: ptr

type_synonym store = "ptr \<Rightarrow> util_list_node"
type_synonym lstate = "store \<times> util_list"

definition set_next :: "ptr \<Rightarrow> ptr \<Rightarrow> store \<Rightarrow> store" where
  "set_next p v h = h(p := (h p)\<lparr>nxt := v\<rparr>)"

definition set_prev :: "ptr \<Rightarrow> ptr \<Rightarrow> store \<Rightarrow> store" where
  "set_prev p v h = h(p := (h p)\<lparr>prv := v\<rparr>)"

section \<open>Operations\<close>

text \<open>Node to entry and entry to node.\<close>

definition n2e :: "util_list \<Rightarrow> ptr \<Rightarrow> ptr" where
  "n2e l node = node - offset l"

definition e2n :: "util_list \<Rightarrow> ptr \<Rightarrow> ptr" where
  "e2n l entry = entry + offset l"

definition util_list_init_offset :: "u64 \<Rightarrow> util_list" where
  "util_list_init_offset off = \<lparr>offset = off, list_start = NULL, list_end = NULL\<rparr>"

definition util_list_add_tail :: "lstate \<Rightarrow> ptr \<Rightarrow> lstate" where
  "util_list_add_tail s entry =
     (case s of (h, l) \<Rightarrow>
       let node = e2n l entry;
           h = set_next node NULL h;
           (h, l) = (if list_start l = NULL
                     then (set_prev node NULL h, l\<lparr>list_start := node\<rparr>)
                     else (set_prev node (list_end l) (set_next (list_end l) node h), l))
       in (h, l\<lparr>list_end := node\<rparr>))"

definition util_list_add_head :: "lstate \<Rightarrow> ptr \<Rightarrow> lstate" where
  "util_list_add_head s entry =
     (case s of (h, l) \<Rightarrow>
       let node = e2n l entry;
           h = set_next node NULL (set_prev node NULL h);
           (h, l) = (if list_start l = NULL
                     then (h, l\<lparr>list_end := node\<rparr>)
                     else (set_next node (list_start l) (set_prev (list_start l) node h), l))
       in (h, l\<lparr>list_start := node\<rparr>))"

definition util_list_add_next :: "lstate \<Rightarrow> ptr \<Rightarrow> ptr \<Rightarrow> lstate" where
  "util_list_add_next s entry list_entry =
     (case s of (h, l) \<Rightarrow>
       let node = e2n l entry;
           list_node = e2n l list_entry;
           h = set_next node (nxt (h list_node)) h;
           h = set_prev node list_node h;
           (h, l) = (if nxt (h list_node) \<noteq> NULL
                     then (set_prev (nxt (h list_node)) node h, l)
                     else (h, l\<lparr>list_end := node\<rparr>))
       in (set_next list_node node h, l))"

definition util_list_add_prev :: "lstate \<Rightarrow> ptr \<Rightarrow> ptr \<Rightarrow> lstate" where
  "util_list_add_prev s entry list_entry =
     (case s of (h, l) \<Rightarrow>
       let node = e2n l entry;
           list_node = e2n l list_entry;
           h = set_prev node (prv (h list_node)) h;
           h = set_next node list_node h;
           (h, l) = (if prv (h list_node) \<noteq> NULL
                     then (set_next (prv (h list_node)) node h, l)
                     else (h, l\<lparr>list_start := node\<rparr>))
       in (set_prev list_node node h, l))"

definition util_list_remove :: "lstate \<Rightarrow> ptr \<Rightarrow> lstate" where
  "util_list_remove s entry =
     (case s of (h, l) \<Rightarrow>
       let node = e2n l entry;
           l = (if list_start l = node then l\<lparr>list_start := nxt (h node)\<rparr> else l);
           l = (if list_end l = node then l\<lparr>list_end := prv (h node)\<rparr> else l);
           h = (if prv (h node) \<noteq> NULL then set_next (prv (h node)) (nxt (h node)) h else h);
           h = (if nxt (h node) \<noteq> NULL then set_prev (nxt (h node)) (prv (h node)) h else h)
       in (h, l))"

definition util_list_start :: "lstate \<Rightarrow> ptr" where
  "util_list_start s = (case s of (h, l) \<Rightarrow> if list_start l = NULL then NULL else list_start l - offset l)"

definition util_list_end :: "lstate \<Rightarrow> ptr" where
  "util_list_end s = (case s of (h, l) \<Rightarrow> if list_end l = NULL then NULL else n2e l (list_end l))"

definition util_list_next :: "lstate \<Rightarrow> ptr \<Rightarrow> ptr" where
  "util_list_next s entry =
     (case s of (h, l) \<Rightarrow>
       if entry = NULL then NULL
       else let node = nxt (h (e2n l entry))
            in if node = NULL then NULL else n2e l node)"

definition util_list_prev :: "lstate \<Rightarrow> ptr \<Rightarrow> ptr" where
  "util_list_prev s entry =
     (case s of (h, l) \<Rightarrow>
       if entry = NULL then NULL
       else let node = prv (h (e2n l entry))
            in if node = NULL then NULL else n2e l node)"

text \<open>
  The loop of \<^verbatim>\<open>util_list_iterate\<close> in \<^verbatim>\<open>util_list_len\<close>: it counts until the
  iterator is \<^verbatim>\<open>NULL\<close>, and does not return on a cyclic list.
\<close>

partial_function (option) util_list_len_loop :: "lstate \<Rightarrow> ptr \<Rightarrow> u64 \<Rightarrow> u64 option" where
  "util_list_len_loop s entry cnt =
     (if entry = NULL then Some cnt
      else util_list_len_loop s (util_list_next s entry) (cnt + 1))"

definition util_list_len :: "lstate \<Rightarrow> u64 option" where
  "util_list_len s = util_list_len_loop s (util_list_start s) 0"

text \<open>
  One exchange of the sort: the node \<^term>\<open>node1\<close> and its successor
  \<^term>\<open>node2\<close> change places.
\<close>

definition util_list_swap :: "lstate \<Rightarrow> ptr \<Rightarrow> ptr \<Rightarrow> lstate" where
  "util_list_swap s node1 node2 =
     (case s of (h, l) \<Rightarrow>
       let h = set_next node1 (nxt (h node2)) h;
           (h, l) = (if nxt (h node1) \<noteq> NULL then (set_prev (nxt (h node1)) node1 h, l)
                     else (h, l\<lparr>list_end := node1\<rparr>));
           h = set_next node2 node1 h;
           h = set_prev node2 (prv (h node1)) h;
           (h, l) = (if prv (h node2) \<noteq> NULL then (set_next (prv (h node2)) node2 h, l)
                     else (h, l\<lparr>list_start := node2\<rparr>))
       in (set_prev node1 node2 h, l))"

fun util_list_sort_pass :: "(ptr \<Rightarrow> ptr \<Rightarrow> int) \<Rightarrow> nat \<Rightarrow> lstate \<Rightarrow> ptr \<Rightarrow> lstate" where
  "util_list_sort_pass cmp_fn 0 s node1 = s"
| "util_list_sort_pass cmp_fn (Suc j) s node1 =
     (case s of (h, l) \<Rightarrow>
       let node2 = nxt (h node1);
           entry1 = n2e l node1;
           entry2 = n2e l node2
       in if cmp_fn entry1 entry2 > 0
          then util_list_sort_pass cmp_fn j (util_list_swap s node1 node2) node1
          else util_list_sort_pass cmp_fn j s node2)"

text \<open>
  The outer loop runs \<open>i = 1, \<dots>, list_cnt - 1\<close>; its pass makes
  \<open>list_cnt - i\<close> comparisons from the head, that is \<open>k, k - 1, \<dots>, 1\<close>
  comparisons for \<open>k = list_cnt - 1\<close>.
\<close>

fun util_list_sort_loop :: "(ptr \<Rightarrow> ptr \<Rightarrow> int) \<Rightarrow> nat \<Rightarrow> lstate \<Rightarrow> lstate" where
  "util_list_sort_loop cmp_fn 0 s = s"
| "util_list_sort_loop cmp_fn (Suc k) s =
     util_list_sort_loop cmp_fn k (util_list_sort_pass cmp_fn (Suc k) s (list_start (snd s)))"

definition util_list_sort :: "(ptr \<Rightarrow> ptr \<Rightarrow> int) \<Rightarrow> lstate \<Rightarrow> lstate option" where
  "util_list_sort cmp_fn s =
     (case util_list_len s of
        None \<Rightarrow> None
      | Some list_cnt \<Rightarrow> Some (util_list_sort_loop cmp_fn (unat list_cnt - 1) s))"

definition util_list_is_empty :: "lstate \<Rightarrow> bool" where
  "util_list_is_empty s = (list_start (snd s) = NULL)"

section \<open>Representation of a HOL list\<close>

definition first_of :: "ptr list \<Rightarrow> ptr \<Rightarrow> ptr" where
  "first_of xs n = (case xs of [] \<Rightarrow> n | x # _ \<Rightarrow> x)"

definition last_of :: "ptr \<Rightarrow> ptr list \<Rightarrow> ptr" where
  "last_of p xs = (if xs = [] then p else last xs)"

fun dlseg :: "store \<Rightarrow> ptr \<Rightarrow> ptr list \<Rightarrow> ptr \<Rightarrow> bool" where
  "dlseg h p [] n = True"
| "dlseg h p (x # xs) n \<longleftrightarrow> prv (h x) = p \<and> nxt (h x) = first_of xs n \<and> dlseg h x xs n"

definition dll :: "lstate \<Rightarrow> ptr list \<Rightarrow> bool" where
  "dll s xs = (case s of (h, l) \<Rightarrow>
     dlseg h NULL xs NULL \<and> list_start l = first_of xs NULL \<and> list_end l = last_of NULL xs \<and>
     distinct xs \<and> NULL \<notin> set xs)"

text \<open>
  A list head holds the entries \<open>es\<close>: the nodes embedded in them are linked in
  this order.
\<close>

definition entries :: "lstate \<Rightarrow> ptr list \<Rightarrow> bool" where
  "entries s es \<longleftrightarrow> dll s (map (e2n (snd s)) es) \<and> NULL \<notin> set es"

text \<open>What an entry must satisfy to be linked into a list.\<close>

definition linkable :: "lstate \<Rightarrow> ptr \<Rightarrow> bool" where
  "linkable s e \<longleftrightarrow> e \<noteq> NULL \<and> e2n (snd s) e \<noteq> NULL"

section \<open>The sort on lists\<close>

fun bubble_pass :: "('a \<Rightarrow> 'a \<Rightarrow> bool) \<Rightarrow> nat \<Rightarrow> 'a list \<Rightarrow> 'a list" where
  "bubble_pass gt (Suc k) (x # y # zs) =
     (if gt x y then y # bubble_pass gt k (x # zs) else x # bubble_pass gt k (y # zs))"
| "bubble_pass gt k xs = xs"

fun bubble_loop :: "('a \<Rightarrow> 'a \<Rightarrow> bool) \<Rightarrow> nat \<Rightarrow> 'a list \<Rightarrow> 'a list" where
  "bubble_loop gt 0 xs = xs"
| "bubble_loop gt (Suc k) xs = bubble_loop gt k (bubble_pass gt (Suc k) xs)"

definition bubble_sort :: "('a \<Rightarrow> 'a \<Rightarrow> bool) \<Rightarrow> 'a list \<Rightarrow> 'a list" where
  "bubble_sort gt xs = bubble_loop gt (length xs - 1) xs"

text \<open>A list of three entries whose nodes are at offset 8, for the witnesses.\<close>

definition demo_list :: lstate where
  "demo_list = fold (\<lambda>e s. util_list_add_tail s e) [0x3000, 0x1000, 0x2000]
     (\<lambda>_. \<lparr>nxt = NULL, prv = NULL\<rparr>, util_list_init_offset 8)"

section \<open>Links of a segment\<close>

lemma first_of_simps [simp, dll_simps]:
  "first_of [] n = n" "first_of (x # xs) n = x"
  by (simp_all add: first_of_def)

lemma first_of_append [simp]: "first_of (xs @ ys) n = first_of xs (first_of ys n)"
  by (simp add: first_of_def split: list.split)

lemma last_of_simps [simp, dll_simps]:
  "last_of p [] = p" "last_of p (x # xs) = last_of x xs"
  by (simp_all add: last_of_def)

lemma last_of_append [simp]: "last_of p (xs @ ys) = last_of (last_of p xs) ys"
  by (induction xs arbitrary: p) simp_all

lemma dlseg_append [simp]:
  "dlseg h p (xs @ ys) n \<longleftrightarrow> dlseg h p xs (first_of ys n) \<and> dlseg h (last_of p xs) ys n"
  by (induction xs arbitrary: p) auto

lemma set_next_simps [simp]:
  "nxt (set_next p v h q) = (if q = p then v else nxt (h q))"
  "prv (set_next p v h q) = prv (h q)"
  by (simp_all add: set_next_def)

lemma set_prev_simps [simp]:
  "prv (set_prev p v h q) = (if q = p then v else prv (h q))"
  "nxt (set_prev p v h q) = nxt (h q)"
  by (simp_all add: set_prev_def)

lemma dlseg_frame_next [simp]: "x \<notin> set xs \<Longrightarrow> dlseg (set_next x v h) p xs n = dlseg h p xs n"
  by (induction xs arbitrary: p) auto

lemma dlseg_frame_prev [simp]: "x \<notin> set xs \<Longrightarrow> dlseg (set_prev x v h) p xs n = dlseg h p xs n"
  by (induction xs arbitrary: p) auto

lemma e2n_n2e [simp]: "e2n l (n2e l x) = x" "n2e l (e2n l x) = x"
  by (simp_all add: e2n_def n2e_def)

text \<open>The first and the last node of a nonempty segment are proper addresses.\<close>

lemma first_of_NULL: "NULL \<notin> set xs \<Longrightarrow> first_of xs NULL = NULL \<longleftrightarrow> xs = []"
  by (cases xs) auto

lemma last_of_NULL: "NULL \<notin> set xs \<Longrightarrow> last_of NULL xs = NULL \<longleftrightarrow> xs = []"
  by (cases xs rule: rev_cases) auto

lemma first_of_in: "first_of xs n \<in> insert n (set xs)"
  by (cases xs) auto

lemma last_of_in: "last_of p xs \<in> insert p (set xs)"
  by (cases xs rule: rev_cases) auto

lemma first_of_neq [simp]:
  "z \<notin> set xs \<Longrightarrow> z \<noteq> n \<Longrightarrow> first_of xs n \<noteq> z" "z \<notin> set xs \<Longrightarrow> z \<noteq> n \<Longrightarrow> z \<noteq> first_of xs n"
  using first_of_in [of xs n] by auto

lemma last_of_neq [simp]:
  "z \<notin> set xs \<Longrightarrow> z \<noteq> p \<Longrightarrow> last_of p xs \<noteq> z" "z \<notin> set xs \<Longrightarrow> z \<noteq> p \<Longrightarrow> z \<noteq> last_of p xs"
  using last_of_in [of p xs] by auto

lemma dll_add_tail:
  assumes "dll (h, l) xs" and "e2n l e \<notin> set xs" and "e2n l e \<noteq> NULL"
  shows "dll (util_list_add_tail (h, l) e) (xs @ [e2n l e])"
  using assms
  by (cases xs rule: rev_cases)
     (auto simp: dll_def util_list_add_tail_def Let_def)

lemma dll_add_head:
  assumes "dll (h, l) xs" and "e2n l e \<notin> set xs" and "e2n l e \<noteq> NULL"
  shows "dll (util_list_add_head (h, l) e) (e2n l e # xs)"
  using assms
  by (cases xs) (auto simp: dll_def util_list_add_head_def Let_def)

lemma dll_add_next:
  assumes "dll (h, l) (xs @ e2n l le # ys)"
    and "e2n l e \<notin> set (xs @ e2n l le # ys)" and "e2n l e \<noteq> NULL"
  shows "dll (util_list_add_next (h, l) e le) (xs @ e2n l le # e2n l e # ys)"
  using assms
  by (cases ys) (auto simp: dll_def util_list_add_next_def Let_def)

lemma dll_add_prev:
  assumes "dll (h, l) (xs @ e2n l le # ys)"
    and "e2n l e \<notin> set (xs @ e2n l le # ys)" and "e2n l e \<noteq> NULL"
  shows "dll (util_list_add_prev (h, l) e le) (xs @ e2n l e # e2n l le # ys)"
  using assms
  by (cases xs rule: rev_cases) (auto simp: dll_def util_list_add_prev_def Let_def)

lemma dll_remove:
  assumes "dll (h, l) (xs @ e2n l e # ys)"
  shows "dll (util_list_remove (h, l) e) (xs @ ys)"
  using assms
  by (cases xs rule: rev_cases; cases ys)
     (auto simp: dll_def util_list_remove_def Let_def)

lemma dll_swap:
  assumes "dll (h, l) (xs @ n1 # n2 # ys)"
  shows "dll (util_list_swap (h, l) n1 n2) (xs @ n2 # n1 # ys)"
  using assms
  by (cases xs rule: rev_cases; cases ys)
     (auto simp: dll_def util_list_swap_def Let_def)

section \<open>Bubble sort\<close>

lemma n2e_eqs: "offset l = offset l' \<Longrightarrow> n2e l = n2e l'" "offset l = offset l' \<Longrightarrow> e2n l = e2n l'"
  by (auto simp: n2e_def e2n_def)

lemma offset_swap [simp]: "offset (snd (util_list_swap s a b)) = offset (snd s)"
  by (cases s) (simp add: util_list_swap_def Let_def)

lemma mset_bubble_pass [simp]: "mset (bubble_pass gt k xs) = mset xs"
  by (induction gt k xs rule: bubble_pass.induct) auto

lemma length_bubble_pass [simp]: "length (bubble_pass gt k xs) = length xs"
  by (metis mset_bubble_pass size_mset)

lemma set_bubble_pass [simp]: "set (bubble_pass gt k xs) = set xs"
  by (metis mset_bubble_pass set_mset_mset)

lemma mset_bubble_loop [simp]: "mset (bubble_loop gt k xs) = mset xs"
  by (induction k arbitrary: xs) simp_all

lemma mset_bubble_sort [simp]: "mset (bubble_sort gt xs) = mset xs"
  by (simp add: bubble_sort_def)

lemma bubble_pass_append:
  "length xs = Suc k \<Longrightarrow> bubble_pass gt k (xs @ ys) = bubble_pass gt k xs @ ys"
proof (induction k arbitrary: xs)
  case 0
  then show ?case by (cases xs) simp_all
next
  case (Suc k)
  then obtain x y zs where "xs = x # y # zs"
    by (cases xs; cases "tl xs") auto
  with Suc.IH [of "x # zs"] Suc.IH [of "y # zs"] Suc.prems show ?case by simp
qed

lemma bubble_pass_map:
  "bubble_pass gt k (map f xs) = map f (bubble_pass (\<lambda>x y. gt (f x) (f y)) k xs)"
  by (induction "\<lambda>x y. gt (f x) (f y)" k xs rule: bubble_pass.induct) auto

lemma bubble_loop_map:
  "bubble_loop gt k (map f xs) = map f (bubble_loop (\<lambda>x y. gt (f x) (f y)) k xs)"
  by (induction k arbitrary: xs) (simp_all add: bubble_pass_map)

locale cmp_key =
  fixes gt :: "'a \<Rightarrow> 'a \<Rightarrow> bool" and key :: "'a \<Rightarrow> 'k::linorder"
  assumes gt_key: "gt x y \<Longrightarrow> key y \<le> key x"
    and not_gt_key: "\<not> gt x y \<Longrightarrow> key x \<le> key y"
begin

lemma pass_last_max:
  "length xs = Suc k \<Longrightarrow> a \<in> set xs \<Longrightarrow> key a \<le> key (last (bubble_pass gt k xs))"
proof (induction k arbitrary: xs a)
  case 0
  then show ?case by (cases xs) auto
next
  case (Suc k)
  then obtain x y zs where xs: "xs = x # y # zs" and len: "length zs = k"
    by (cases xs; cases "tl xs") auto
  let ?w = "if gt x y then x else y" and ?v = "if gt x y then y else x"
  have pass: "bubble_pass gt (Suc k) xs = ?v # bubble_pass gt k (?w # zs)"
    by (simp add: xs)
  have ne: "bubble_pass gt k (?w # zs) \<noteq> []"
    by (metis length_bubble_pass length_Cons length_0_conv nat.distinct(1))
  have IH: "key b \<le> key (last (bubble_pass gt k (?w # zs)))" if "b \<in> set (?w # zs)" for b
    using Suc.IH that len by simp
  have "key ?v \<le> key ?w"
    using gt_key not_gt_key by auto
  with IH [of ?w] have v: "key ?v \<le> key (last (bubble_pass gt k (?w # zs)))"
    by auto
  have "a = ?v \<or> a \<in> set (?w # zs)"
    using Suc.prems(2) by (auto simp: xs)
  then show ?case
    using v IH ne by (auto simp: pass)
qed

definition settled :: "nat \<Rightarrow> 'a list \<Rightarrow> bool" where
  "settled k xs \<longleftrightarrow> sorted (map key (drop (Suc k) xs)) \<and>
     (\<forall>a \<in> set (take (Suc k) xs). \<forall>b \<in> set (drop (Suc k) xs). key a \<le> key b)"

lemma pass_settled:
  assumes "settled (Suc k) xs" and "Suc k < length xs"
  shows "settled k (bubble_pass gt (Suc k) xs)"
proof -
  let ?as = "take (Suc (Suc k)) xs" and ?bs = "drop (Suc (Suc k)) xs"
  let ?ps = "bubble_pass gt (Suc k) ?as"
  have len: "length ?as = Suc (Suc k)" using assms(2) by simp
  have eq: "bubble_pass gt (Suc k) xs = ?ps @ ?bs"
    using bubble_pass_append [OF len, of gt ?bs] by simp
  have lp: "length ?ps = Suc (Suc k)" using len by simp
  then have split: "?ps = butlast ?ps @ [last ?ps]" by (metis append_butlast_last_id length_0_conv nat.distinct(1))
  have lb: "length (butlast ?ps) = Suc k" using lp by simp
  have max: "key a \<le> key (last ?ps)" if "a \<in> set ?as" for a
    using pass_last_max [OF len that] .
  have sub: "set ?ps = set ?as" by simp
  have low: "a \<in> set ?as" if "a \<in> set (butlast ?ps)" for a
    using that sub by (metis in_set_butlastD)
  have lastin: "last ?ps \<in> set ?as"
    using sub split by (metis in_set_conv_decomp)
  have tk: "take (Suc k) (?ps @ ?bs) = butlast ?ps" and dr: "drop (Suc k) (?ps @ ?bs) = last ?ps # ?bs"
    using lb split by (metis append.assoc append_eq_conv_conj append_Cons append_Nil)+
  show ?thesis
    using assms(1) max low lastin unfolding settled_def eq tk dr by auto
qed

lemma loop_sorted:
  "settled k xs \<Longrightarrow> k < length xs \<Longrightarrow> sorted (map key (bubble_loop gt k xs))"
proof (induction k arbitrary: xs)
  case 0
  then obtain x ys where "xs = x # ys" by (cases xs) auto
  with "0.prems"(1) show ?case by (simp add: settled_def)
next
  case (Suc k)
  then show ?case using pass_settled [of k xs] by simp
qed

lemma bubble_sort_sorted: "sorted (map key (bubble_sort gt xs))"
proof (cases "xs = []")
  case True
  then show ?thesis by (simp add: bubble_sort_def)
next
  case False
  then have "settled (length xs - 1) xs" by (simp add: settled_def)
  with False show ?thesis by (simp add: bubble_sort_def loop_sorted)
qed

end

section \<open>Refinement of the sort\<close>

lemma dll_sort_pass:
  assumes "dll s (ps @ n1 # zs)" and "k \<le> length zs"
  shows "dll (util_list_sort_pass cmp k s n1)
           (ps @ bubble_pass (\<lambda>x y. cmp (n2e (snd s) x) (n2e (snd s) y) > 0) k (n1 # zs))
         \<and> offset (snd (util_list_sort_pass cmp k s n1)) = offset (snd s)"
  using assms
proof (induction k arbitrary: s ps n1 zs)
  case 0
  then show ?case by simp
next
  case (Suc k)
  obtain h l where s: "s = (h, l)" by (cases s)
  from Suc.prems(2) obtain n2 rs where zs: "zs = n2 # rs" and len: "k \<le> length rs"
    by (cases zs) auto
  have n2: "nxt (h n1) = n2"
    using Suc.prems(1) by (simp add: s zs dll_def)
  show ?case
  proof (cases "cmp (n2e l n1) (n2e l n2) > 0")
    case True
    let ?s = "util_list_swap (h, l) n1 n2"
    have "dll ?s ((ps @ [n2]) @ n1 # rs)"
      using dll_swap [of h l ps n1 n2 rs] Suc.prems(1) by (simp add: s zs)
    from Suc.IH [OF this len] show ?thesis
      using True
      by (simp add: s zs n2 n2e_eqs(1) [of "snd ?s" l])
  next
    case False
    have "dll (h, l) ((ps @ [n1]) @ n2 # rs)"
      using Suc.prems(1) by (simp add: s zs)
    from Suc.IH [OF this len] show ?thesis
      using False by (simp add: s zs n2)
  qed
qed

lemma dll_sort_loop:
  assumes "dll s xs" and "k < length xs \<or> k = 0"
  shows "dll (util_list_sort_loop cmp k s)
           (bubble_loop (\<lambda>x y. cmp (n2e (snd s) x) (n2e (snd s) y) > 0) k xs)
         \<and> offset (snd (util_list_sort_loop cmp k s)) = offset (snd s)"
  using assms
proof (induction k arbitrary: s xs)
  case 0
  then show ?case by simp
next
  case (Suc k)
  let ?gt = "\<lambda>x y. cmp (n2e (snd s) x) (n2e (snd s) y) > 0"
  from Suc.prems obtain x zs where xs: "xs = x # zs" and len: "Suc k \<le> length zs"
    by (cases xs) auto
  have st: "list_start (snd s) = x"
    using Suc.prems(1) by (cases s) (simp add: dll_def xs)
  let ?s = "util_list_sort_pass cmp (Suc k) s x"
  have pass: "dll ?s (bubble_pass ?gt (Suc k) xs)" and off: "offset (snd ?s) = offset (snd s)"
    using dll_sort_pass [of s "[]" x zs "Suc k" cmp] Suc.prems(1) len by (simp_all add: xs)
  have "k < length (bubble_pass ?gt (Suc k) xs) \<or> k = 0"
    using len by (simp add: xs)
  from Suc.IH [OF pass this] show ?case
    by (simp only: util_list_sort_loop.simps bubble_loop.simps st n2e_eqs(1) [OF off] off)
qed

section \<open>Entries\<close>

lemma e2n_inject [simp]: "e2n l a = e2n l b \<longleftrightarrow> a = b"
  by (simp add: e2n_def)

lemma e2n_image [simp]: "e2n l a \<in> e2n l ` A \<longleftrightarrow> a \<in> A"
  by (auto simp: image_iff)

lemma offset_simps [simp]:
  "offset (snd (util_list_add_tail s e)) = offset (snd s)"
  "offset (snd (util_list_add_head s e)) = offset (snd s)"
  "offset (snd (util_list_add_next s e le)) = offset (snd s)"
  "offset (snd (util_list_add_prev s e le)) = offset (snd s)"
  "offset (snd (util_list_remove s e)) = offset (snd s)"
  by (cases s; simp add: util_list_add_tail_def util_list_add_head_def util_list_add_next_def
      util_list_add_prev_def util_list_remove_def Let_def)+

lemmas e2n_off = offset_simps [THEN n2e_eqs(2)]

lemma entries_distinct: "entries s es \<Longrightarrow> distinct es"
  by (cases s) (auto simp: entries_def dll_def distinct_map)

lemma entries_empty: "entries (h, util_list_init_offset off) []"
  by (simp add: entries_def dll_def util_list_init_offset_def)

lemma entries_add_tail:
  "entries s es \<Longrightarrow> linkable s e \<Longrightarrow> e \<notin> set es \<Longrightarrow> entries (util_list_add_tail s e) (es @ [e])"
  using dll_add_tail [of "fst s" "snd s" "map (e2n (snd s)) es" e]
  by (cases s) (auto simp: entries_def linkable_def e2n_off)

lemma entries_add_head:
  "entries s es \<Longrightarrow> linkable s e \<Longrightarrow> e \<notin> set es \<Longrightarrow> entries (util_list_add_head s e) (e # es)"
  using dll_add_head [of "fst s" "snd s" "map (e2n (snd s)) es" e]
  by (cases s) (auto simp: entries_def linkable_def e2n_off)

lemma entries_add_next:
  "entries s (as @ x # bs) \<Longrightarrow> linkable s e \<Longrightarrow> e \<notin> set (as @ x # bs) \<Longrightarrow>
   entries (util_list_add_next s e x) (as @ x # e # bs)"
  using dll_add_next [of "fst s" "snd s" "map (e2n (snd s)) as" x "map (e2n (snd s)) bs" e]
  by (cases s) (auto simp: entries_def linkable_def e2n_off)

lemma entries_add_prev:
  "entries s (as @ x # bs) \<Longrightarrow> linkable s e \<Longrightarrow> e \<notin> set (as @ x # bs) \<Longrightarrow>
   entries (util_list_add_prev s e x) (as @ e # x # bs)"
  using dll_add_prev [of "fst s" "snd s" "map (e2n (snd s)) as" x "map (e2n (snd s)) bs" e]
  by (cases s) (auto simp: entries_def linkable_def e2n_off)

lemma entries_remove:
  assumes "entries s es" and "e \<in> set es"
  shows "entries (util_list_remove s e) (remove1 e es)"
proof -
  obtain as bs where es: "es = as @ e # bs" and "e \<notin> set as"
    using assms(2) by (meson split_list_first)
  then have "remove1 e es = as @ bs"
    by (simp add: remove1_append)
  with dll_remove [of "fst s" "snd s" "map (e2n (snd s)) as" e "map (e2n (snd s)) bs"] assms(1)
  show ?thesis
    by (cases s) (auto simp: entries_def es e2n_off)
qed

lemma entries_start: "entries s es \<Longrightarrow> util_list_start s = (case es of [] \<Rightarrow> NULL | e # _ \<Rightarrow> e)"
  by (cases s) (auto simp: entries_def dll_def util_list_start_def e2n_def split: list.split)

lemma entries_end: "entries s es \<Longrightarrow> util_list_end s = (if es = [] then NULL else last es)"
  by (cases s; cases es rule: rev_cases)
     (auto simp: entries_def dll_def util_list_end_def)

lemma entries_next:
  "entries s (as @ e # bs) \<Longrightarrow> util_list_next s e = (case bs of [] \<Rightarrow> NULL | b # _ \<Rightarrow> b)"
  by (cases s) (auto simp: entries_def dll_def util_list_next_def Let_def split: list.split)

lemma entries_prev:
  "entries s (as @ e # bs) \<Longrightarrow> util_list_prev s e = (if as = [] then NULL else last as)"
  by (cases s; cases as rule: rev_cases)
     (auto simp: entries_def dll_def util_list_prev_def Let_def)

lemma entries_is_empty: "entries s es \<Longrightarrow> util_list_is_empty s \<longleftrightarrow> es = []"
  by (cases s; cases es) (auto simp: entries_def dll_def util_list_is_empty_def)

lemma len_loop:
  "entries s (as @ es) \<Longrightarrow>
   util_list_len_loop s (case es of [] \<Rightarrow> NULL | e # _ \<Rightarrow> e) c = Some (c + of_nat (length es))"
proof (induction es arbitrary: as c)
  case Nil
  then show ?case by (simp add: util_list_len_loop.simps)
next
  case (Cons e es)
  have "e \<noteq> NULL" using Cons.prems by (auto simp: entries_def)
  moreover have "util_list_next s e = (case es of [] \<Rightarrow> NULL | b # _ \<Rightarrow> b)"
    using entries_next [OF Cons.prems] .
  ultimately show ?case
    using Cons.IH [of "as @ [e]" "c + 1"] Cons.prems
    by (simp add: util_list_len_loop.simps [of s e])
qed

lemma entries_len: "entries s es \<Longrightarrow> util_list_len s = Some (of_nat (length es))"
  using len_loop [of s "[]" es 0] by (simp add: util_list_len_def entries_start)

lemma entries_length: "entries s es \<Longrightarrow> length es < 2 ^ 64"
  using distinct_words_length [of es] entries_distinct [of s es] by (simp add: entries_def)

lemma entries_sort:
  assumes "entries s es"
  shows "\<exists>s'. util_list_sort cmp s = Some s' \<and>
     entries s' (bubble_sort (\<lambda>a b. cmp a b > 0) es) \<and> offset (snd s') = offset (snd s)"
proof -
  let ?f = "e2n (snd s)" and ?k = "length es - 1"
  let ?s = "util_list_sort_loop cmp ?k s"
  have k: "unat (of_nat (length es) :: u64) = length es"
    using entries_length [OF assms] by (simp add: unat_of_nat)
  have sort: "util_list_sort cmp s = Some ?s"
    by (simp add: util_list_sort_def entries_len [OF assms] k)
  have le: "?k < length (map ?f es) \<or> ?k = 0"
    by (cases es) auto
  have "dll ?s (bubble_loop (\<lambda>x y. cmp (n2e (snd s) x) (n2e (snd s) y) > 0) ?k (map ?f es))"
    and off: "offset (snd ?s) = offset (snd s)"
    using dll_sort_loop [OF _ le, of s cmp] assms by (auto simp: entries_def)
  then have "dll ?s (map (e2n (snd ?s)) (bubble_sort (\<lambda>a b. cmp a b > 0) es))"
    by (simp add: bubble_loop_map bubble_sort_def n2e_eqs(2) [OF off, simplified])
  moreover have "NULL \<notin> set (bubble_sort (\<lambda>a b. cmp a b > 0) es)"
    using assms by (metis entries_def mset_bubble_sort set_mset_mset)
  ultimately show ?thesis
    using sort off by (auto simp: entries_def)
qed

section \<open>The interface its clients use\<close>

text \<open>
  A client of the list sees a state that represents a sequence of entries.
\<close>

locale entry_list =
  fixes repr :: "'s \<Rightarrow> 'e list \<Rightarrow> bool"
    and ok :: "'s \<Rightarrow> 'e \<Rightarrow> bool"
    and add_tail :: "'s \<Rightarrow> 'e \<Rightarrow> 's"
    and remove :: "'s \<Rightarrow> 'e \<Rightarrow> 's"
  assumes repr_distinct: "repr s es \<Longrightarrow> distinct es"
    and repr_add_tail: "repr s es \<Longrightarrow> ok s e \<Longrightarrow> e \<notin> set es \<Longrightarrow> repr (add_tail s e) (es @ [e])"
    and repr_remove: "repr s es \<Longrightarrow> e \<in> set es \<Longrightarrow> repr (remove s e) (remove1 e es)"
    and ok_add_tail: "ok (add_tail s e) e' = ok s e'"
    and ok_remove: "ok (remove s e) e' = ok s e'"
begin

lemma repr_add_all:
  "repr s es \<Longrightarrow> \<forall>e \<in> set as. ok s e \<Longrightarrow> distinct (es @ as) \<Longrightarrow>
   repr (fold (\<lambda>e s. add_tail s e) as s) (es @ as)"
proof (induction as arbitrary: s es)
  case Nil
  then show ?case by simp
next
  case (Cons a as)
  have "repr (add_tail s a) (es @ [a])"
    using Cons.prems by (intro repr_add_tail) auto
  then show ?case
    using Cons.IH [of "add_tail s a" "es @ [a]"] Cons.prems by (simp add: ok_add_tail)
qed

lemma repr_remove_all:
  "repr s es \<Longrightarrow> set as \<subseteq> set es \<Longrightarrow> distinct as \<Longrightarrow>
   repr (fold (\<lambda>e s. remove s e) as s) (filter (\<lambda>e. e \<notin> set as) es)"
proof (induction as arbitrary: s es)
  case Nil
  then show ?case by simp
next
  case (Cons a as)
  have d: "distinct es" using Cons.prems(1) by (rule repr_distinct)
  have r: "remove1 a es = filter (\<lambda>e. a \<noteq> e) es"
    using distinct_remove1_removeAll [OF d] by (simp add: removeAll_filter_not_eq)
  have "repr (remove s a) (filter (\<lambda>e. a \<noteq> e) es)"
    using repr_remove [OF Cons.prems(1), of a] Cons.prems(2) by (simp add: r)
  moreover have "set as \<subseteq> set (filter (\<lambda>e. a \<noteq> e) es)"
    using Cons.prems by auto
  ultimately have "repr (fold (\<lambda>e s. remove s e) as (remove s a))
      (filter (\<lambda>e. e \<notin> set as) (filter (\<lambda>e. a \<noteq> e) es))"
    using Cons.prems(3) by (intro Cons.IH) auto
  then show ?case
    by (simp add: conj_commute eq_commute)
qed

end

interpretation ul: entry_list entries linkable util_list_add_tail util_list_remove
  by unfold_locales
     (simp_all add: entries_distinct entries_add_tail entries_remove linkable_def e2n_off)


section \<open>Properties\<close>

text \<open>
  C19.  The four insertions of the intrusive list implement insertion into a
  sequence: for a list that holds the entries \<open>as @ x # bs\<close> and a fresh entry
  \<open>e\<close>, \<^verbatim>\<open>util_list_add_tail\<close> appends it, \<^verbatim>\<open>util_list_add_head\<close> prepends it,
  and \<^verbatim>\<open>util_list_add_next\<close>/\<^verbatim>\<open>util_list_add_prev\<close> put it right behind/before
  \<open>x\<close>; all links and both end pointers are again those of the new sequence.
\<close>

theorem util_list_insert_refines:
  assumes "entries s (as @ x # bs)" and "linkable s e" and "e \<notin> set (as @ x # bs)"
  shows "entries (util_list_add_tail s e) (as @ x # bs @ [e]) \<and>
         entries (util_list_add_head s e) (e # as @ x # bs) \<and>
         entries (util_list_add_next s e x) (as @ x # e # bs) \<and>
         entries (util_list_add_prev s e x) (as @ e # x # bs)"
  using entries_add_tail [OF assms] entries_add_head [OF assms]
    entries_add_next [OF assms] entries_add_prev [OF assms] by simp

lemma demo_list_entries: "entries demo_list [0x3000, 0x1000, 0x2000]"
  using ul.repr_add_all [OF entries_empty, of "[0x3000, 0x1000, 0x2000]" "\<lambda>_. \<lparr>nxt = NULL, prv = NULL\<rparr>" 8]
  by (simp add: demo_list_def linkable_def e2n_def util_list_init_offset_def)

lemma demo_list_offset: "offset (snd demo_list) = 8"
  by (simp add: demo_list_def util_list_init_offset_def)

theorem util_list_insert_refines_witness:
  "entries (util_list_add_next demo_list 0x4000 0x1000) [0x3000, 0x1000, 0x4000, 0x2000]"
proof -
  have "entries demo_list ([0x3000] @ 0x1000 # [0x2000])" "linkable demo_list 0x4000"
    "(0x4000 :: ptr) \<notin> set ([0x3000] @ 0x1000 # [0x2000])"
    using demo_list_entries by (simp_all add: linkable_def e2n_def demo_list_offset)
  from util_list_insert_refines [OF this] show ?thesis by simp
qed

text \<open>
  C15.  Building a list with \<^verbatim>\<open>util_list_add_tail\<close> and then unlinking any of its
  entries with \<^verbatim>\<open>util_list_remove\<close>, in any order, leaves exactly the other
  entries, in the order they were added.
\<close>

theorem util_list_remove_refines:
  assumes "distinct as" and "\<forall>e \<in> set as. e \<noteq> NULL \<and> e + off \<noteq> NULL"
    and "set bs \<subseteq> set as" and "distinct bs"
  shows "entries (fold (\<lambda>e s. util_list_remove s e) bs
            (fold (\<lambda>e s. util_list_add_tail s e) as (h, util_list_init_offset off)))
          (filter (\<lambda>e. e \<notin> set bs) as)"
proof -
  have "\<forall>e \<in> set as. linkable (h, util_list_init_offset off) e"
    using assms(2) by (simp add: linkable_def e2n_def util_list_init_offset_def)
  then have "entries (fold (\<lambda>e s. util_list_add_tail s e) as (h, util_list_init_offset off)) as"
    using ul.repr_add_all [OF entries_empty] assms(1) by fastforce
  then show ?thesis
    using assms(3,4) by (rule ul.repr_remove_all)
qed

theorem util_list_remove_refines_witness:
  "entries (util_list_remove (util_list_remove demo_list 0x2000) 0x3000) [0x1000]"
  using util_list_remove_refines [of "[0x3000, 0x1000, 0x2000]" 8 "[0x2000, 0x3000]"
      "\<lambda>_. \<lparr>nxt = NULL, prv = NULL\<rparr>"]
  by (simp add: demo_list_def)

text \<open>
  C3.  Walking the list: \<^verbatim>\<open>util_list_start\<close>, \<^verbatim>\<open>util_list_end\<close>,
  \<^verbatim>\<open>util_list_next\<close> and \<^verbatim>\<open>util_list_prev\<close> visit the entries in order and
  return \<^verbatim>\<open>NULL\<close> at both ends, so the counting loop of \<^verbatim>\<open>util_list_len\<close>
  terminates with the number of entries.
\<close>

theorem util_list_walk:
  assumes "entries s (as @ x # bs)"
  shows "util_list_len s = Some (of_nat (length (as @ x # bs))) \<and>
         util_list_start s = hd (as @ [x]) \<and> util_list_end s = last (x # bs) \<and>
         util_list_next s x = (case bs of [] \<Rightarrow> NULL | b # _ \<Rightarrow> b) \<and>
         util_list_prev s x = (if as = [] then NULL else last as) \<and> \<not> util_list_is_empty s"
  using entries_len [OF assms] entries_start [OF assms] entries_end [OF assms]
    entries_next [OF assms] entries_prev [OF assms] entries_is_empty [OF assms]
  by (cases as) simp_all

theorem util_list_walk_witness:
  "util_list_len demo_list = Some 3 \<and> util_list_next demo_list 0x1000 = 0x2000 \<and>
   util_list_next demo_list 0x2000 = NULL"
  using util_list_walk [of demo_list "[0x3000]" "0x1000" "[0x2000]"]
    util_list_walk [of demo_list "[0x3000, 0x1000]" "0x2000" "[]"] demo_list_entries
  by simp

text \<open>
  C12.  \<^verbatim>\<open>util_list_sort\<close> returns on every well-formed list and sorts it: for a
  comparison callback that orders by some key (ties may be answered either
  way), the relinked list holds the same entries with the keys ascending.
\<close>

theorem util_list_sort_sorts:
  fixes key :: "ptr \<Rightarrow> 'k::linorder"
  assumes "entries s es"
    and "\<And>a b. cmp_fn a b > 0 \<Longrightarrow> key b \<le> key a"
    and "\<And>a b. \<not> cmp_fn a b > 0 \<Longrightarrow> key a \<le> key b"
  shows "\<exists>s' es'. util_list_sort cmp_fn s = Some s' \<and> entries s' es' \<and>
           mset es' = mset es \<and> sorted (map key es')"
proof -
  have "cmp_key (\<lambda>a b. cmp_fn a b > 0) key"
    using assms(2,3) by unfold_locales
  then have "sorted (map key (bubble_sort (\<lambda>a b. cmp_fn a b > 0) es))"
    by (rule cmp_key.bubble_sort_sorted)
  moreover obtain s' where "util_list_sort cmp_fn s = Some s'"
    "entries s' (bubble_sort (\<lambda>a b. cmp_fn a b > 0) es)"
    using entries_sort [OF assms(1)] by blast
  ultimately show ?thesis
    by (intro exI [of _ s'] exI [of _ "bubble_sort (\<lambda>a b. cmp_fn a b > 0) es"]) simp
qed

theorem util_list_sort_sorts_witness:
  "\<exists>s' es'. util_list_sort (\<lambda>a b. if a < b then - 1 else 1) demo_list = Some s' \<and> entries s' es' \<and>
     mset es' = {#0x3000, 0x1000, 0x2000#} \<and> sorted (map unat es')"
proof -
  have "(if a < b then - 1 else 1 :: int) > 0 \<Longrightarrow> unat b \<le> unat a"
    "\<not> (if a < b then - 1 else 1 :: int) > 0 \<Longrightarrow> unat a \<le> unat b" for a b :: ptr
    by (auto simp: word_less_nat_alt split: if_splits)
  from util_list_sort_sorts [OF demo_list_entries this] show ?thesis by simp
qed

end
