(* ===== verification/Vtoc_Ebcdic.thy ===== *)
theory Vtoc_Ebcdic
  imports S390_Prelude
begin

text \<open>
  The code page tables of \<^verbatim>\<open>libvtoc/vtoc.c\<close> and the two translation loops
  \<^verbatim>\<open>vtoc_ebcdic_enc\<close> and \<^verbatim>\<open>vtoc_ebcdic_dec\<close>.  A C buffer is a list of bytes.
  The callers translate both from one buffer to another and in place; the
  two are separate definitions and shown to give the same bytes.
\<close>

section \<open>Tables\<close>

definition EBCtoASC :: "u8 list" where
  "EBCtoASC = [
     0x00, 0x01, 0x02, 0x03, 0x07, 0x09, 0x07, 0x7F, 0x07, 0x07, 0x07, 0x0B, 0x0C, 0x0D, 0x0E, 0x0F,
     0x10, 0x11, 0x12, 0x13, 0x07, 0x0A, 0x08, 0x07, 0x18, 0x19, 0x07, 0x07, 0x07, 0x07, 0x07, 0x07,
     0x07, 0x07, 0x1C, 0x07, 0x07, 0x0A, 0x17, 0x1B, 0x07, 0x07, 0x07, 0x07, 0x07, 0x05, 0x06, 0x07,
     0x07, 0x07, 0x16, 0x07, 0x07, 0x07, 0x07, 0x04, 0x07, 0x07, 0x07, 0x07, 0x14, 0x15, 0x07, 0x1A,
     0x20, 0xFF, 0x83, 0x84, 0x85, 0xA0, 0x07, 0x86, 0x87, 0xA4, 0x9B, 0x2E, 0x3C, 0x28, 0x2B, 0x7C,
     0x26, 0x82, 0x88, 0x89, 0x8A, 0xA1, 0x8C, 0x07, 0x8D, 0xE1, 0x21, 0x24, 0x2A, 0x29, 0x3B, 0xAA,
     0x2D, 0x2F, 0x07, 0x8E, 0x07, 0x07, 0x07, 0x8F, 0x80, 0xA5, 0x07, 0x2C, 0x25, 0x5F, 0x3E, 0x3F,
     0x07, 0x90, 0x07, 0x07, 0x07, 0x07, 0x07, 0x07, 0x70, 0x60, 0x3A, 0x23, 0x40, 0x27, 0x3D, 0x22,
     0x07, 0x61, 0x62, 0x63, 0x64, 0x65, 0x66, 0x67, 0x68, 0x69, 0xAE, 0xAF, 0x07, 0x07, 0x07, 0xF1,
     0xF8, 0x6A, 0x6B, 0x6C, 0x6D, 0x6E, 0x6F, 0x70, 0x71, 0x72, 0xA6, 0xA7, 0x91, 0x07, 0x92, 0x07,
     0xE6, 0x7E, 0x73, 0x74, 0x75, 0x76, 0x77, 0x78, 0x79, 0x7A, 0xAD, 0xAB, 0x07, 0x07, 0x07, 0x07,
     0x5E, 0x9C, 0x9D, 0xFA, 0x07, 0x07, 0x07, 0xAC, 0xAB, 0x07, 0x5B, 0x5D, 0x07, 0x07, 0x07, 0x07,
     0x7B, 0x41, 0x42, 0x43, 0x44, 0x45, 0x46, 0x47, 0x48, 0x49, 0x07, 0x93, 0x94, 0x95, 0xA2, 0x07,
     0x7D, 0x4A, 0x4B, 0x4C, 0x4D, 0x4E, 0x4F, 0x50, 0x51, 0x52, 0x07, 0x96, 0x81, 0x97, 0xA3, 0x98,
     0x5C, 0xF6, 0x53, 0x54, 0x55, 0x56, 0x57, 0x58, 0x59, 0x5A, 0xFD, 0x07, 0x99, 0x07, 0x07, 0x07,
     0x30, 0x31, 0x32, 0x33, 0x34, 0x35, 0x36, 0x37, 0x38, 0x39, 0x07, 0x07, 0x9A, 0x07, 0x07, 0x07]"

definition ASCtoEBC :: "u8 list" where
  "ASCtoEBC = [
     0x00, 0x01, 0x02, 0x03, 0x37, 0x2D, 0x2E, 0x2F, 0x16, 0x05, 0x15, 0x0B, 0x0C, 0x0D, 0x0E, 0x0F,
     0x10, 0x11, 0x12, 0x13, 0x3C, 0x15, 0x32, 0x26, 0x18, 0x19, 0x3F, 0x27, 0x1C, 0x1D, 0x1E, 0x1F,
     0x40, 0x5A, 0x7F, 0x7B, 0x5B, 0x6C, 0x50, 0x7D, 0x4D, 0x5D, 0x5C, 0x4E, 0x6B, 0x60, 0x4B, 0x61,
     0xF0, 0xF1, 0xF2, 0xF3, 0xF4, 0xF5, 0xF6, 0xF7, 0xF8, 0xF9, 0x7A, 0x5E, 0x4C, 0x7E, 0x6E, 0x6F,
     0x7C, 0xC1, 0xC2, 0xC3, 0xC4, 0xC5, 0xC6, 0xC7, 0xC8, 0xC9, 0xD1, 0xD2, 0xD3, 0xD4, 0xD5, 0xD6,
     0xD7, 0xD8, 0xD9, 0xE2, 0xE3, 0xE4, 0xE5, 0xE6, 0xE7, 0xE8, 0xE9, 0xAD, 0xE0, 0xBD, 0x5F, 0x6D,
     0x79, 0x81, 0x82, 0x83, 0x84, 0x85, 0x86, 0x87, 0x88, 0x89, 0x91, 0x92, 0x93, 0x94, 0x95, 0x96,
     0x97, 0x98, 0x99, 0xA2, 0xA3, 0xA4, 0xA5, 0xA6, 0xA7, 0xA8, 0xA9, 0xC0, 0x4F, 0xD0, 0xA1, 0x07,
     0x3F, 0x3F, 0x3F, 0x3F, 0x3F, 0x3F, 0x3F, 0x3F, 0x3F, 0x3F, 0x3F, 0x3F, 0x3F, 0x3F, 0x3F, 0x3F,
     0x3F, 0x3F, 0x3F, 0x3F, 0x3F, 0x3F, 0x3F, 0x3F, 0x3F, 0x3F, 0x3F, 0x3F, 0x3F, 0x3F, 0x3F, 0x3F,
     0x3F, 0x3F, 0x3F, 0x3F, 0x3F, 0x3F, 0x3F, 0x3F, 0x3F, 0x3F, 0x3F, 0x3F, 0x3F, 0x3F, 0x3F, 0x3F,
     0x3F, 0x3F, 0x3F, 0x3F, 0x3F, 0x3F, 0x3F, 0x3F, 0x3F, 0x3F, 0x3F, 0x3F, 0x3F, 0x3F, 0x3F, 0x3F,
     0x3F, 0x3F, 0x3F, 0x3F, 0x3F, 0x3F, 0x3F, 0x3F, 0x3F, 0x3F, 0x3F, 0x3F, 0x3F, 0x3F, 0x3F, 0x3F,
     0x3F, 0x3F, 0x3F, 0x3F, 0x3F, 0x3F, 0x3F, 0x3F, 0x3F, 0x3F, 0x3F, 0x3F, 0x3F, 0x3F, 0x3F, 0x3F,
     0x3F, 0x3F, 0x3F, 0x3F, 0x3F, 0x3F, 0x3F, 0x3F, 0x3F, 0x3F, 0x3F, 0x3F, 0x3F, 0x3F, 0x3F, 0x3F,
     0x3F, 0x3F, 0x3F, 0x3F, 0x3F, 0x3F, 0x3F, 0x3F, 0x3F, 0x3F, 0x3F, 0x3F, 0x3F, 0x3F, 0x3F, 0xFF]"

section \<open>Translation\<close>

text \<open>One table access; \<^verbatim>\<open>char\<close> is converted to \<^verbatim>\<open>unsigned char\<close> first.\<close>

definition asc2ebc :: "u8 \<Rightarrow> u8" where
  "asc2ebc c = ASCtoEBC ! unat c"

definition ebc2asc :: "u8 \<Rightarrow> u8" where
  "ebc2asc c = EBCtoASC ! unat c"

text \<open>The loop \<^verbatim>\<open>for (i = 0; i < l; i++) target[i] = f(source[i])\<close>.\<close>

fun xlate_loop :: "(u8 \<Rightarrow> u8) \<Rightarrow> u8 list \<Rightarrow> u8 list \<Rightarrow> nat \<Rightarrow> u8 list" where
  "xlate_loop f source target 0 = target"
| "xlate_loop f source target (Suc i) =
     (xlate_loop f source target i)[i := f (source ! i)]"

text \<open>The same loop with \<^verbatim>\<open>source == target\<close>: each step reads the current buffer.\<close>

fun xlate_inplace :: "(u8 \<Rightarrow> u8) \<Rightarrow> u8 list \<Rightarrow> nat \<Rightarrow> u8 list" where
  "xlate_inplace f buf 0 = buf"
| "xlate_inplace f buf (Suc i) =
     (let buf' = xlate_inplace f buf i in buf'[i := f (buf' ! i)])"

definition vtoc_ebcdic_enc :: "u8 list \<Rightarrow> u8 list \<Rightarrow> nat \<Rightarrow> u8 list" where
  "vtoc_ebcdic_enc source target l = xlate_loop asc2ebc source target l"

definition vtoc_ebcdic_dec :: "u8 list \<Rightarrow> u8 list \<Rightarrow> nat \<Rightarrow> u8 list" where
  "vtoc_ebcdic_dec source target l = xlate_loop ebc2asc source target l"

definition vtoc_ebcdic_enc_inplace :: "u8 list \<Rightarrow> nat \<Rightarrow> u8 list" where
  "vtoc_ebcdic_enc_inplace buf l = xlate_inplace asc2ebc buf l"

text \<open>The printable ASCII characters the two tables translate back and forth.\<close>

definition ebcdic_safe :: "u8 \<Rightarrow> bool" where
  "ebcdic_safe c \<longleftrightarrow> 0x20 \<le> c \<and> c \<le> 0x7E \<and> c \<notin> {0x5B, 0x5D, 0x5E}"

section \<open>Lemmas\<close>

lemma length_tables: "length ASCtoEBC = 256" "length EBCtoASC = 256"
  by (simp_all add: ASCtoEBC_def EBCtoASC_def)

lemma xlate_loop_map:
  "l \<le> length source \<Longrightarrow> l \<le> length target \<Longrightarrow>
   xlate_loop f source target l = map f (take l source) @ drop l target"
proof (induction l)
  case 0
  then show ?case by simp
next
  case (Suc l)
  then have "xlate_loop f source target (Suc l) =
      (map f (take l source) @ drop l target)[l := f (source ! l)]"
    by simp
  also have "\<dots> = map f (take l source) @ f (source ! l) # drop (Suc l) target"
    using Suc.prems by (simp add: list_update_append Cons_nth_drop_Suc [symmetric])
  also have "\<dots> = map f (take (Suc l) source) @ drop (Suc l) target"
    using Suc.prems by (simp add: take_Suc_conv_app_nth)
  finally show ?case .
qed

lemma xlate_inplace_map:
  "l \<le> length buf \<Longrightarrow> xlate_inplace f buf l = map f (take l buf) @ drop l buf"
proof (induction l)
  case 0
  then show ?case by simp
next
  case (Suc l)
  then have "xlate_inplace f buf (Suc l) =
      (map f (take l buf) @ drop l buf)[l := f (buf ! l)]"
    by (simp add: nth_append Let_def)
  also have "\<dots> = map f (take l buf) @ f (buf ! l) # drop (Suc l) buf"
    using Suc.prems by (simp add: list_update_append Cons_nth_drop_Suc [symmetric])
  also have "\<dots> = map f (take (Suc l) buf) @ drop (Suc l) buf"
    using Suc.prems by (simp add: take_Suc_conv_app_nth)
  finally show ?case .
qed

lemma roundtrip_table:
  "list_all (\<lambda>n. (ebc2asc (asc2ebc (word_of_nat n)) = word_of_nat n) = (n \<notin> {91, 93, 94})) [32..<127]"
  by code_simp

lemma asc2ebc_roundtrip:
  assumes "0x20 \<le> c" and "c \<le> 0x7E"
  shows "ebc2asc (asc2ebc c) = c \<longleftrightarrow> ebcdic_safe c"
proof -
  have "32 \<le> unat c \<and> unat c < 127"
    using assms by (simp add: word_le_nat_alt)
  then have "unat c \<in> set [32..<127]"
    by (simp only: set_upt atLeastLessThan_iff)
  with roundtrip_table have "(ebc2asc (asc2ebc (word_of_nat (unat c))) = word_of_nat (unat c)) = (unat c \<notin> {91, 93, 94})"
    unfolding list_all_iff by blast
  then show ?thesis
    using assms by (simp add: ebcdic_safe_def word_unat_eq_iff)
qed

lemma asc2ebc_safe: "ebcdic_safe c \<Longrightarrow> ebc2asc (asc2ebc c) = c"
  using asc2ebc_roundtrip [of c] by (simp add: ebcdic_safe_def)

lemma map_ebcdic_safe: "list_all ebcdic_safe xs \<Longrightarrow> map ebc2asc (map asc2ebc xs) = xs"
  by (induction xs) (simp_all add: asc2ebc_safe)

text \<open>No character but NUL is encoded as a zero byte, so \<^verbatim>\<open>strncpy\<close> copies an encoded name in full.\<close>

lemma asc2ebc_zero_table: "list_all (\<lambda>n. asc2ebc (word_of_nat n) \<noteq> 0) [1..<256]"
  by code_simp

lemma asc2ebc_nonzero: "c \<noteq> 0 \<Longrightarrow> asc2ebc c \<noteq> 0"
proof -
  assume "c \<noteq> 0"
  then have "1 \<le> unat c \<and> unat c < 256"
    using unsigned_less [of c] by (simp add: Suc_le_eq unat_gt_0)
  then have "unat c \<in> set [1..<256]"
    by (simp only: set_upt atLeastLessThan_iff)
  with asc2ebc_zero_table have "asc2ebc (word_of_nat (unat c)) \<noteq> 0"
    unfolding list_all_iff by blast
  then show ?thesis by simp
qed

section \<open>Properties\<close>

text \<open>
  C20.  Of the printable ASCII characters exactly \<^verbatim>\<open>[\<close>, \<^verbatim>\<open>]\<close> and \<^verbatim>\<open>^\<close> do not
  survive a translation to EBCDIC and back with the two tables; every other
  one does.
\<close>

theorem ebcdic_printable_roundtrip:
  assumes "0x20 \<le> c" and "c \<le> 0x7E"
  shows "ebc2asc (asc2ebc c) = c \<longleftrightarrow> c \<notin> {0x5B, 0x5D, 0x5E}"
  using asc2ebc_roundtrip [OF assms] assms by (simp add: ebcdic_safe_def)

theorem ebcdic_printable_roundtrip_witness:
  "ebc2asc (asc2ebc 0x41) = 0x41 \<and> ebc2asc (asc2ebc 0x5B) \<noteq> 0x5B"
  using ebcdic_printable_roundtrip [of "0x41"] ebcdic_printable_roundtrip [of "0x5B"] by simp

text \<open>
  C23.  Encoding \<open>l\<close> characters into a buffer and decoding them into another
  gives back the characters and leaves the rest of the target alone, and
  encoding a buffer in place writes the same bytes as encoding it into a copy.
\<close>

theorem vtoc_ebcdic_roundtrip:
  assumes "l \<le> length source" and "l \<le> length target" and "l \<le> length target'"
    and "list_all ebcdic_safe (take l source)"
  shows "vtoc_ebcdic_dec (vtoc_ebcdic_enc source target l) target' l = take l source @ drop l target' \<and>
         vtoc_ebcdic_enc_inplace source l = vtoc_ebcdic_enc source source l"
  using assms map_ebcdic_safe [OF assms(4)]
  by (simp add: vtoc_ebcdic_dec_def vtoc_ebcdic_enc_def vtoc_ebcdic_enc_inplace_def
      xlate_loop_map xlate_inplace_map)

theorem vtoc_ebcdic_roundtrip_witness:
  "vtoc_ebcdic_dec (vtoc_ebcdic_enc [0x56, 0x4F, 0x4C, 0x31] [0, 0, 0, 0] 4) [9, 9, 9, 9, 9] 4
     = [0x56, 0x4F, 0x4C, 0x31, 9]"
  using vtoc_ebcdic_roundtrip [of 4 "[0x56, 0x4F, 0x4C, 0x31]" "[0, 0, 0, 0]" "[9, 9, 9, 9, 9]"]
  by (simp add: ebcdic_safe_def)

end
