(* ===== verification/Vtoc_Labels.thy ===== *)
theory Vtoc_Labels
  imports Vtoc_Ebcdic
begin

text \<open>
  The on-disk structures of \<^verbatim>\<open>include/lib/vtoc.h\<close>, their initialisation and
  update in \<^verbatim>\<open>libvtoc/vtoc.c\<close>.  A C structure is a record with the fields of the
  source; a \<^verbatim>\<open>char\<close> array is a list of bytes.  The lemmas are about cylinder and
  head addresses (which survive encoding, and convert to track and block
  numbers and back) and about the volume serial number.
\<close>

section \<open>Addresses and dates\<close>

record ttr =
  ttr_tt :: u16
  ttr_r :: u8

record cchh =
  addr_cc :: u16
  addr_hh :: u16

record cchhb =
  baddr_cc :: u16
  baddr_hh :: u16
  baddr_b :: u8

record labeldate =
  ld_year :: u8
  ld_day :: u16

record extent =
  typeind :: u8
  seqno :: u8
  llimit :: cchh
  ulimit :: cchh

text \<open>The part of \<^verbatim>\<open>struct hd_geometry\<close> the conversions use.\<close>

record hd_geometry =
  heads :: u8
  sectors :: u8

section \<open>Labels\<close>

record volume_label =
  volkey :: "u8 list"
  vollbl :: "u8 list"
  volid :: "u8 list"
  security :: u8
  vtoc :: cchhb
  vl_res1 :: "u8 list"
  cisize :: "u8 list"
  blkperci :: "u8 list"
  labperci :: "u8 list"
  vl_res2 :: "u8 list"
  lvtoc :: "u8 list"
  vl_res3 :: "u8 list"
  ldl_version :: u8
  formatted_blocks :: u64

record dev_const =
  DS4DSCYL :: u16
  DS4DSTRK :: u16
  DS4DEVTK :: u16
  DS4DEVI :: u8
  DS4DEVL :: u8
  DS4DEVK :: u8
  DS4DEVFG :: u8
  DS4DEVTL :: u16
  DS4DEVDT :: u8
  DS4DEVDB :: u8

record format1_label =
  DS1DSNAM :: "u8 list"
  DS1FMTID :: u8
  DS1DSSN :: "u8 list"
  DS1VOLSQ :: u16
  DS1CREDT :: labeldate
  DS1EXPDT :: labeldate
  DS1NOEPV :: u8
  DS1NOBDB :: u8
  DS1FLAG1 :: u8
  DS1SYSCD :: "u8 list"
  DS1REFD :: labeldate
  DS1SMSFG :: u8
  DS1SCXTF :: u8
  DS1SCXTV :: u16
  DS1DSRG1 :: u8
  DS1DSRG2 :: u8
  DS1RECFM :: u8
  DS1OPTCD :: u8
  DS1BLKL :: u16
  DS1LRECL :: u16
  DS1KEYL :: u8
  DS1RKP :: u16
  DS1DSIND :: u8
  DS1SCAL1 :: u8
  DS1SCAL3 :: "u8 list"
  DS1LSTAR :: ttr
  DS1TRBAL :: u16
  DS1res1 :: u16
  DS1EXT1 :: extent
  DS1EXT2 :: extent
  DS1EXT3 :: extent
  DS1PTRDS :: cchhb

record format4_label =
  DS4KEYCD :: "u8 list"
  DS4IDFMT :: u8
  DS4HPCHR :: cchhb
  DS4DSREC :: u16
  DS4HCCHH :: cchh
  DS4NOATK :: u16
  DS4VTOCI :: u8
  DS4NOEXT :: u8
  DS4SMSFG :: u8
  DS4DEVAC :: u8
  DS4DEVCT :: dev_const
  DS4AMTIM :: "u8 list"
  DS4AMCAT :: "u8 list"
  DS4R2TIM :: "u8 list"
  DS4res1 :: "u8 list"
  DS4F6PTR :: "u8 list"
  DS4VTOCE :: extent
  DS4res2 :: "u8 list"
  DS4EFLVL :: u8
  DS4EFPTR :: cchhb
  DS4res3 :: u8
  DS4DCYL :: u32
  DS4res4 :: "u8 list"
  DS4DEVF2 :: u8
  DS4res5 :: u8

record ds5ext =
  ds5_t :: u16
  ds5_fc :: u16
  ds5_ft :: u8

record format5_label =
  DS5KEYID :: "u8 list"
  DS5AVEXT :: ds5ext
  DS5EXTAV :: "ds5ext list"
  DS5FMTID :: u8
  DS5MAVET :: "ds5ext list"
  DS5PTRDS :: cchhb

record ds7ext =
  ds7_a :: u32
  ds7_b :: u32

record format7_label =
  DS7KEYID :: "u8 list"
  DS7EXTNT :: "ds7ext list"
  DS7FMTID :: u8
  DS7ADEXT :: "ds7ext list"
  DS7res1 :: "u8 list"
  DS7PTRDS :: cchhb

record format9_label =
  DS9KEYID :: u8
  DS9SUBTY :: u8
  DS9NUMF9 :: u8
  DS9res1 :: "u8 list"
  DS9FMTID :: u8
  DS9res2 :: "u8 list"
  DS9PTRDS :: cchhb

section \<open>Setting and reading addresses\<close>

definition vtoc_set_extent :: "u8 \<Rightarrow> u8 \<Rightarrow> cchh \<Rightarrow> cchh \<Rightarrow> extent" where
  "vtoc_set_extent ti sn lower upper =
     \<lparr>typeind = ti, seqno = sn, llimit = lower, ulimit = upper\<rparr>"

text \<open>
  The cylinder has 28 bits: the low 16 go to \<^verbatim>\<open>cc\<close>, the high 12 to the upper
  bits of \<^verbatim>\<open>hh\<close>, whose low 4 bits hold the head.
\<close>

definition vtoc_set_cchh :: "u32 \<Rightarrow> u16 \<Rightarrow> cchh" where
  "vtoc_set_cchh cyl hh =
     (let h = (ucast (drop_bit 16 cyl) :: u16);
          h = push_bit 4 h;
          h = h OR hh
      in \<lparr>addr_cc = ucast cyl, addr_hh = h\<rparr>)"

definition vtoc_get_cyl_from_cchh :: "cchh \<Rightarrow> u32" where
  "vtoc_get_cyl_from_cchh addr =
     (let cyl = (ucast (addr_hh addr AND 0xFFF0) :: u32);
          cyl = push_bit 12 cyl
      in cyl OR ucast (addr_cc addr))"

definition vtoc_get_head_from_cchh :: "cchh \<Rightarrow> u16" where
  "vtoc_get_head_from_cchh addr = addr_hh addr AND 0x000F"

definition vtoc_set_ttr :: "u16 \<Rightarrow> u8 \<Rightarrow> ttr" where
  "vtoc_set_ttr tt r = \<lparr>ttr_tt = tt, ttr_r = r\<rparr>"

definition vtoc_set_cchhb :: "u32 \<Rightarrow> u16 \<Rightarrow> u8 \<Rightarrow> cchhb" where
  "vtoc_set_cchhb cyl hh blk =
     (let h = (ucast (drop_bit 16 cyl) :: u16);
          h = push_bit 4 h;
          h = h OR hh
      in \<lparr>baddr_cc = ucast cyl, baddr_hh = h, baddr_b = blk\<rparr>)"

definition vtoc_get_cyl_from_cchhb :: "cchhb \<Rightarrow> u32" where
  "vtoc_get_cyl_from_cchhb addr =
     (let cyl = (ucast (baddr_hh addr AND 0xFFF0) :: u32);
          cyl = push_bit 12 cyl
      in cyl OR ucast (baddr_cc addr))"

definition vtoc_get_head_from_cchhb :: "cchhb \<Rightarrow> u16" where
  "vtoc_get_head_from_cchhb addr = baddr_hh addr AND 0x000F"

text \<open>
  Block and track numbers.  The products with the cylinder are computed in 64
  bits for blocks and in 32 bits for tracks; \<^verbatim>\<open>head * sectors\<close> is an \<^verbatim>\<open>int\<close>
  product of small values that is then widened.
\<close>

definition cchhb2blk :: "cchhb \<Rightarrow> hd_geometry \<Rightarrow> u64" where
  "cchhb2blk p geo =
     ucast (vtoc_get_cyl_from_cchhb p) * ucast (heads geo) * ucast (sectors geo) +
     ucast (vtoc_get_head_from_cchhb p) * ucast (sectors geo) + ucast (baddr_b p)"

definition cchh2blk :: "cchh \<Rightarrow> hd_geometry \<Rightarrow> u64" where
  "cchh2blk p geo =
     ucast (vtoc_get_cyl_from_cchh p) * ucast (heads geo) * ucast (sectors geo) +
     ucast (vtoc_get_head_from_cchh p) * ucast (sectors geo)"

definition cchh2trk :: "cchh \<Rightarrow> hd_geometry \<Rightarrow> u32" where
  "cchh2trk p geo =
     vtoc_get_cyl_from_cchh p * ucast (heads geo) + ucast (vtoc_get_head_from_cchh p)"

definition vtoc_set_date :: "u8 \<Rightarrow> u16 \<Rightarrow> labeldate" where
  "vtoc_set_date year day = \<lparr>ld_year = year, ld_day = day\<rparr>"

section \<open>Initialisation and update of labels\<close>

abbreviation zeros :: "nat \<Rightarrow> u8 list" where
  "zeros n \<equiv> replicate n 0"

definition ascii :: "string \<Rightarrow> u8 list" where
  "ascii s = map of_char s"

definition zero_cchh :: cchh where
  "zero_cchh = \<lparr>addr_cc = 0, addr_hh = 0\<rparr>"

definition zero_cchhb :: cchhb where
  "zero_cchhb = \<lparr>baddr_cc = 0, baddr_hh = 0, baddr_b = 0\<rparr>"

definition zero_extent :: extent where
  "zero_extent = \<lparr>typeind = 0, seqno = 0, llimit = zero_cchh, ulimit = zero_cchh\<rparr>"

definition zero_ds5ext :: ds5ext where
  "zero_ds5ext = \<lparr>ds5_t = 0, ds5_fc = 0, ds5_ft = 0\<rparr>"

definition zero_ds7ext :: ds7ext where
  "zero_ds7ext = \<lparr>ds7_a = 0, ds7_b = 0\<rparr>"

text \<open>
  \<^verbatim>\<open>memcpy(vlabel, buffer, 84)\<close> writes EBCDIC blanks over every field up to and
  including \<^verbatim>\<open>ldl_version\<close>; \<^verbatim>\<open>formatted_blocks\<close> lies behind the 84 bytes.
\<close>

definition vtoc_volume_label_init :: "volume_label \<Rightarrow> volume_label" where
  "vtoc_volume_label_init vlabel =
     (let buffer = replicate 84 0x20;
          buffer = vtoc_ebcdic_enc_inplace buffer 84;
          word16 = (\<lambda>i. word_cat (buffer ! i) (buffer ! Suc i) :: u16)
      in vlabel\<lparr>volkey := take 4 buffer, vollbl := take 4 (drop 4 buffer),
                volid := take 6 (drop 8 buffer), security := buffer ! 14,
                vtoc := \<lparr>baddr_cc = word16 15, baddr_hh = word16 17, baddr_b = buffer ! 19\<rparr>,
                vl_res1 := take 5 (drop 20 buffer), cisize := take 4 (drop 25 buffer),
                blkperci := take 4 (drop 29 buffer), labperci := take 4 (drop 33 buffer),
                vl_res2 := take 4 (drop 37 buffer), lvtoc := take 14 (drop 41 buffer),
                vl_res3 := take 28 (drop 55 buffer), ldl_version := buffer ! 83\<rparr>)"

text \<open>\<^verbatim>\<open>toupper\<close> of the C locale.\<close>

definition toupper :: "u8 \<Rightarrow> u8" where
  "toupper c = (if 0x61 \<le> c \<and> c \<le> 0x7A then c - 0x20 else c)"

text \<open>\<^verbatim>\<open>strncpy(dst, src, n)\<close>: copies up to a NUL, then pads with NUL bytes.\<close>

fun strncpy :: "u8 list \<Rightarrow> u8 list \<Rightarrow> nat \<Rightarrow> u8 list" where
  "strncpy dst src 0 = dst"
| "strncpy [] src (Suc n) = []"
| "strncpy (d # dst) [] (Suc n) = 0 # strncpy dst [] n"
| "strncpy (d # dst) (c # src) (Suc n) =
     (if c = 0 then 0 # strncpy dst [] n else c # strncpy dst src n)"

text \<open>
  The argument \<^term>\<open>volser\<close> is a C string: the bytes before its NUL.
\<close>

definition vtoc_volume_label_set_volser :: "volume_label \<Rightarrow> u8 list \<Rightarrow> volume_label" where
  "vtoc_volume_label_set_volser vlabel volser =
     (let i = length volser;
          s = replicate 6 0x20 @ [0];
          s = vtoc_ebcdic_enc_inplace s 6;
          vlabel = vlabel\<lparr>volid := take 6 s\<rparr>;
          i = (if i > 6 then 6 else i);
          s = strncpy s volser i;
          s = map toupper (take i s) @ drop i s;
          s = s[6 := 0];
          s = vtoc_ebcdic_enc_inplace s i
      in vlabel\<lparr>volid := strncpy (volid vlabel) s i\<rparr>)"

definition vtoc_volume_label_get_volser :: "volume_label \<Rightarrow> u8 list \<Rightarrow> u8 list" where
  "vtoc_volume_label_get_volser vlabel volser =
     (vtoc_ebcdic_dec (volid vlabel) volser 6)[6 := 0]"

definition vtoc_volume_label_set_key :: "volume_label \<Rightarrow> u8 list \<Rightarrow> volume_label" where
  "vtoc_volume_label_set_key vlabel key =
     (let s = vtoc_ebcdic_enc key (zeros 4) 4
      in vlabel\<lparr>volkey := strncpy (volkey vlabel) s 4\<rparr>)"

definition vtoc_volume_label_set_label :: "volume_label \<Rightarrow> u8 list \<Rightarrow> volume_label" where
  "vtoc_volume_label_set_label vlabel lbl =
     (let s = vtoc_ebcdic_enc lbl (zeros 4) 4
      in vlabel\<lparr>vollbl := strncpy (vollbl vlabel) s 4\<rparr>)"

definition vtoc_volume_label_get_label :: "volume_label \<Rightarrow> u8 list \<Rightarrow> u8 list" where
  "vtoc_volume_label_get_label vlabel lbl =
     (vtoc_ebcdic_dec (vollbl vlabel) lbl 4)[4 := 0]"

text \<open>\<^verbatim>\<open>strncmp(this, "VOL1" in EBCDIC, 4)\<close>; none of the four bytes is NUL.\<close>

definition is_vol1 :: "u8 list \<Rightarrow> bool" where
  "is_vol1 this = (take 4 this = [0xE5, 0xD6, 0xD3, 0xF1])"

text \<open>The device types with a known track length.\<close>

definition DS4DEVTK_of :: "u16 \<Rightarrow> u32 \<Rightarrow> u32 \<Rightarrow> u16" where
  "DS4DEVTK_of dev_type blocks blksize =
     (if dev_type = 13184 then 0xBB60
      else if dev_type = 13200 then 0xE5A2
      else if dev_type = 37701 then 0xBC98
      else ucast (blocks * blksize))"

text \<open>Every field is assigned, so the result does not depend on the old contents.\<close>

definition vtoc_init_format4_label ::
    "u32 \<Rightarrow> u32 \<Rightarrow> u32 \<Rightarrow> u32 \<Rightarrow> u32 \<Rightarrow> u16 \<Rightarrow> format4_label" where
  "vtoc_init_format4_label compat_cylinders real_cylinders tracks blocks blksize dev_type =
     (let lower = \<lparr>addr_cc = 0, addr_hh = 1\<rparr>;
          upper = \<lparr>addr_cc = 0, addr_hh = 1\<rparr>
      in \<lparr>DS4KEYCD = replicate 44 0x04, DS4IDFMT = 0xF4,
          DS4HPCHR = vtoc_set_cchhb 0 0 0, DS4DSREC = ucast (blocks - 2),
          DS4HCCHH = vtoc_set_cchh 0 0, DS4NOATK = 0, DS4VTOCI = 0, DS4NOEXT = 1,
          DS4SMSFG = 0, DS4DEVAC = 0,
          DS4DEVCT = \<lparr>DS4DSCYL = ucast compat_cylinders, DS4DSTRK = ucast tracks,
                      DS4DEVTK = DS4DEVTK_of dev_type blocks blksize,
                      DS4DEVI = 0, DS4DEVL = 0, DS4DEVK = 0, DS4DEVFG = 0x30, DS4DEVTL = 0,
                      DS4DEVDT = ucast blocks, DS4DEVDB = 0\<rparr>,
          DS4AMTIM = zeros 8, DS4AMCAT = zeros 3, DS4R2TIM = zeros 8, DS4res1 = zeros 5,
          DS4F6PTR = zeros 5, DS4VTOCE = vtoc_set_extent 1 0 lower upper,
          DS4res2 = zeros 10, DS4EFLVL = 0, DS4EFPTR = zero_cchhb, DS4res3 = 0,
          DS4DCYL = real_cylinders, DS4res4 = zeros 2, DS4DEVF2 = 0x40, DS4res5 = 0\<rparr>)"

definition vtoc_init_format5_label :: format5_label where
  "vtoc_init_format5_label =
     \<lparr>DS5KEYID = replicate 4 0x05, DS5AVEXT = zero_ds5ext, DS5EXTAV = replicate 7 zero_ds5ext,
      DS5FMTID = 0xF5, DS5MAVET = replicate 18 zero_ds5ext, DS5PTRDS = zero_cchhb\<rparr>"

definition vtoc_init_format7_label :: format7_label where
  "vtoc_init_format7_label =
     \<lparr>DS7KEYID = replicate 4 0x07, DS7EXTNT = replicate 5 zero_ds7ext, DS7FMTID = 0xF7,
      DS7ADEXT = replicate 11 zero_ds7ext, DS7res1 = zeros 2, DS7PTRDS = zero_cchhb\<rparr>"

text \<open>
  The date of the label is the current date, \<^verbatim>\<open>gmtime(time(NULL))\<close>: the
  parameters \<^term>\<open>tm_year\<close> and \<^term>\<open>tm_yday\<close>, already truncated to the
  label's widths.  All fields but \<^verbatim>\<open>DS1FMTID\<close> are assigned.
\<close>

definition vtoc_init_format_1_8_label ::
    "u8 \<Rightarrow> u16 \<Rightarrow> u32 \<Rightarrow> extent \<Rightarrow> format1_label \<Rightarrow> format1_label" where
  "vtoc_init_format_1_8_label tm_year tm_yday blksize part_extent f1 =
     (let str = ascii ''PART    .NEW                                '';
          str = vtoc_ebcdic_enc_inplace str 44;
          syscd = vtoc_ebcdic_enc (ascii ''IBM LINUX    '') (take 13 str) 13
      in \<lparr>DS1DSNAM = take 44 str, DS1FMTID = DS1FMTID f1, DS1DSSN = ascii ''      '',
          DS1VOLSQ = 1, DS1CREDT = vtoc_set_date tm_year tm_yday,
          DS1EXPDT = vtoc_set_date 0x63 0x016D, DS1NOEPV = 1, DS1NOBDB = 0, DS1FLAG1 = 0,
          DS1SYSCD = take 13 syscd, DS1REFD = vtoc_set_date tm_year tm_yday,
          DS1SMSFG = 0, DS1SCXTF = 0, DS1SCXTV = 0, DS1DSRG1 = 0, DS1DSRG2 = 0,
          DS1RECFM = 0x88, DS1OPTCD = 0, DS1BLKL = ucast blksize, DS1LRECL = ucast blksize,
          DS1KEYL = 0, DS1RKP = 0, DS1DSIND = 0x80, DS1SCAL1 = 0x80, DS1SCAL3 = zeros 3,
          DS1LSTAR = vtoc_set_ttr 0 0, DS1TRBAL = 0, DS1res1 = 0, DS1EXT1 = part_extent,
          DS1EXT2 = zero_extent, DS1EXT3 = zero_extent, DS1PTRDS = vtoc_set_cchhb 0 0 0\<rparr>)"

definition vtoc_init_format1_label ::
    "u8 \<Rightarrow> u16 \<Rightarrow> u32 \<Rightarrow> extent \<Rightarrow> format1_label \<Rightarrow> format1_label" where
  "vtoc_init_format1_label tm_year tm_yday blksize part_extent f1 =
     (vtoc_init_format_1_8_label tm_year tm_yday blksize part_extent f1)\<lparr>DS1FMTID := 0xF1\<rparr>"

definition vtoc_init_format8_label ::
    "u8 \<Rightarrow> u16 \<Rightarrow> u32 \<Rightarrow> extent \<Rightarrow> format1_label \<Rightarrow> format1_label" where
  "vtoc_init_format8_label tm_year tm_yday blksize part_extent f8 =
     (vtoc_init_format_1_8_label tm_year tm_yday blksize part_extent f8)\<lparr>DS1FMTID := 0xF8\<rparr>"

definition vtoc_update_format8_label :: "cchhb \<Rightarrow> format1_label \<Rightarrow> format1_label" where
  "vtoc_update_format8_label associated_f9 f8 = f8\<lparr>DS1PTRDS := associated_f9\<rparr>"

definition vtoc_init_format9_label :: "format9_label \<Rightarrow> format9_label" where
  "vtoc_init_format9_label f9 =
     f9\<lparr>DS9KEYID := 0x09, DS9SUBTY := 0x01, DS9NUMF9 := 1, DS9FMTID := 0xF9\<rparr>"

definition vtoc_update_format4_label :: "format4_label \<Rightarrow> cchhb \<Rightarrow> u16 \<Rightarrow> format4_label" where
  "vtoc_update_format4_label f4 highest_f1 unused_update =
     f4\<lparr>DS4HPCHR := highest_f1, DS4DSREC := unused_update\<rparr>"

text \<open>An initialised label over a zeroed structure, as the callers of the API have it.\<close>

definition blank_label :: volume_label where
  "blank_label = vtoc_volume_label_init
     \<lparr>volkey = [], vollbl = [], volid = [], security = 0, vtoc = zero_cchhb, vl_res1 = [], cisize = [],
      blkperci = [], labperci = [], vl_res2 = [], lvtoc = [], vl_res3 = [], ldl_version = 0,
      formatted_blocks = 7\<rparr>"

section \<open>Addresses\<close>

lemma hh_masks: "(0xFFF0 :: u16) = push_bit 4 (mask 12)" "(0xF :: u16) = mask 4"
  by (simp_all add: mask_eq_exp_minus_1)

lemma cyl_word_roundtrip:
  fixes cyl :: u32 and hh :: u16
  assumes "cyl < 2 ^ 28" and "hh < 16"
  shows "push_bit 12 (ucast ((push_bit 4 (ucast (drop_bit 16 cyl) :: u16) OR hh) AND 0xFFF0) :: u32) OR
           ucast (ucast cyl :: u16) = cyl"
    and "(push_bit 4 (ucast (drop_bit 16 cyl) :: u16) OR hh) AND 0xF = hh"
proof -
  have c: "\<not> bit cyl n" if "28 \<le> n" for n
    using bit_lt_exp [of cyl 28 n] assms(1) that by simp
  have h: "\<not> bit hh n" if "4 \<le> n" for n
    using bit_lt_exp [of hh 4 n] assms(2) that by simp
  show "push_bit 12 (ucast ((push_bit 4 (ucast (drop_bit 16 cyl) :: u16) OR hh) AND 0xFFF0) :: u32) OR
           ucast (ucast cyl :: u16) = cyl"
  proof (rule bit_word_eqI)
    fix n assume "n < LENGTH(32)"
    then show "bit (push_bit 12 (ucast ((push_bit 4 (ucast (drop_bit 16 cyl) :: u16) OR hh) AND 0xFFF0) :: u32) OR
           ucast (ucast cyl :: u16)) n = bit cyl n"
      using c [of n] h [of "n - 12"]
      by (cases "n < 16"; cases "n < 28") (auto simp: bit_simps hh_masks)
  qed
  show "(push_bit 4 (ucast (drop_bit 16 cyl) :: u16) OR hh) AND 0xF = hh"
  proof (rule bit_word_eqI)
    fix n assume "n < LENGTH(16)"
    then show "bit ((push_bit 4 (ucast (drop_bit 16 cyl) :: u16) OR hh) AND 0xF) n = bit hh n"
      using h [of n] by (cases "n < 4") (auto simp: bit_simps hh_masks)
  qed
qed

lemma cchh_get_set [vtoc_simps]:
  assumes "cyl < 2 ^ 28" and "hh < 16"
  shows "vtoc_get_cyl_from_cchh (vtoc_set_cchh cyl hh) = cyl"
    and "vtoc_get_head_from_cchh (vtoc_set_cchh cyl hh) = hh"
    and "vtoc_get_cyl_from_cchhb (vtoc_set_cchhb cyl hh b) = cyl"
    and "vtoc_get_head_from_cchhb (vtoc_set_cchhb cyl hh b) = hh"
  using cyl_word_roundtrip [OF assms]
  by (simp_all add: vtoc_get_cyl_from_cchh_def vtoc_set_cchh_def vtoc_get_head_from_cchh_def
      vtoc_get_cyl_from_cchhb_def vtoc_set_cchhb_def vtoc_get_head_from_cchhb_def)

text \<open>The cylinder and head of a track number.\<close>

lemma trk_split:
  fixes trk n :: u32
  assumes "0 < n" and "n \<le> 16"
  shows "(ucast (trk mod n) :: u16) < 16" and "ucast (ucast (trk mod n) :: u16) = trk mod n"
proof -
  have lt: "unat (trk mod n) < 16"
  proof -
    have "0 < unat n" "unat n \<le> 16"
      using assms by (simp_all add: word_less_nat_alt word_le_nat_alt)
    then have "unat trk mod unat n < 16"
      using mod_less_divisor [of "unat n" "unat trk"] by linarith
    then show ?thesis by (simp add: unat_mod_distrib)
  qed
  then show "(ucast (trk mod n) :: u16) < 16"
    by (simp add: word_less_nat_alt unat_ucast)
  show "ucast (ucast (trk mod n) :: u16) = trk mod n"
    using lt by (simp add: word_unat_eq_iff unat_ucast)
qed

lemma track_of_cylinder_head:
  fixes trk :: u32
  assumes "0 < heads geo" and "heads geo \<le> 16" and "trk div ucast (heads geo) < 2 ^ 28"
  shows "cchh2trk (vtoc_set_cchh (trk div ucast (heads geo)) (ucast (trk mod ucast (heads geo)))) geo = trk"
proof -
  let ?n = "ucast (heads geo) :: u32"
  have n: "0 < ?n" "?n \<le> 16"
    using assms(1,2) by (simp_all add: word_less_nat_alt word_le_nat_alt unat_ucast_le)
  have "trk div ?n * ?n + trk mod ?n = trk"
    by (simp add: word_mod_div_equality)
  then show ?thesis
    using cchh_get_set [OF assms(3) trk_split(1) [OF n]] trk_split(2) [OF n]
    by (simp add: cchh2trk_def)
qed

lemma cchh_bounds:
  "vtoc_get_cyl_from_cchh p < 2 ^ 28" "vtoc_get_head_from_cchh p < 16"
proof -
  show "vtoc_get_cyl_from_cchh p < 2 ^ 28"
    by (rule lt_exp_bits) (auto simp: vtoc_get_cyl_from_cchh_def Let_def bit_simps dest: bit_imp_le_length)
  have "vtoc_get_head_from_cchh p < 2 ^ 4"
    by (rule lt_exp_bits) (auto simp: vtoc_get_head_from_cchh_def hh_masks bit_simps)
  then show "vtoc_get_head_from_cchh p < 16" by simp
qed

lemma unat_cchh2trk:
  assumes "heads geo \<le> 16"
  shows "unat (cchh2trk p geo) =
    unat (vtoc_get_cyl_from_cchh p) * unat (heads geo) + unat (vtoc_get_head_from_cchh p)"
proof -
  let ?c = "unat (vtoc_get_cyl_from_cchh p)" and ?h = "unat (heads geo)"
    and ?t = "unat (vtoc_get_head_from_cchh p)"
  have "?c \<le> 2 ^ 28 - 1" "?h \<le> 16" "?t \<le> 15"
    using cchh_bounds [of p] assms by (simp_all add: word_less_nat_alt word_le_nat_alt)
  then have "?c * ?h \<le> (2 ^ 28 - 1) * 16"
    by (intro mult_mono) auto
  with \<open>?t \<le> 15\<close> have "?c * ?h + ?t < 2 ^ 32" by simp
  then show ?thesis
    by (simp add: cchh2trk_def unat_word_ariths unat_ucast_le)
qed

lemma unat_cchh2blk:
  "unat (cchh2blk p geo) =
    (unat (vtoc_get_cyl_from_cchh p) * unat (heads geo) + unat (vtoc_get_head_from_cchh p)) * unat (sectors geo)"
proof -
  let ?c = "unat (vtoc_get_cyl_from_cchh p)" and ?h = "unat (heads geo)"
    and ?t = "unat (vtoc_get_head_from_cchh p)" and ?s = "unat (sectors geo)"
  have b: "?c \<le> 2 ^ 28" "?h \<le> 2 ^ 8" "?t \<le> 2 ^ 8" "?s \<le> 2 ^ 8"
    using cchh_bounds [of p] unsigned_less [of "heads geo", where 'a = nat] unsigned_less [of "sectors geo", where 'a = nat]
    by (simp_all add: word_less_nat_alt word_le_nat_alt)
  have m: "?c * ?h \<le> 2 ^ 36" "?t * ?s \<le> 2 ^ 16"
    using mult_mono [OF b(1,2)] mult_mono [OF b(3,4)] by simp_all
  have "?c * ?h * ?s \<le> 2 ^ 44"
    using mult_mono [OF m(1) b(4)] by simp
  with m have "?c * ?h < 2 ^ 64" "?t * ?s < 2 ^ 64" "?c * ?h * ?s < 2 ^ 64"
      "?c * ?h * ?s + ?t * ?s < 2 ^ 64"
    by simp_all
  then show ?thesis
    by (simp add: cchh2blk_def unat_mult_exact unat_add_exact unat_ucast_le distrib_right)
qed

section \<open>The volume serial\<close>

lemma toupper_safe:
  assumes "ebcdic_safe c"
  shows "ebcdic_safe (toupper c)"
proof (cases "0x61 \<le> c \<and> c \<le> 0x7A")
  case True
  then have "unat c \<in> {97..122}" by (simp add: word_le_nat_alt)
  moreover from True have "unat (c - 0x20) = unat c - 32"
    by (subst unat_sub) (simp_all add: word_le_nat_alt)
  ultimately have "unat (toupper c) \<in> {65..90}"
    using True by (auto simp: toupper_def)
  then show ?thesis
    by (simp add: ebcdic_safe_def word_le_nat_alt word_unat_eq_iff)
next
  case False
  with assms show ?thesis by (auto simp: toupper_def)
qed

lemma strncpy_nonzero:
  "0 \<notin> set (take n src) \<Longrightarrow> n \<le> length src \<Longrightarrow> n \<le> length dst \<Longrightarrow>
   strncpy dst src n = take n src @ drop n dst"
proof (induction dst src n rule: strncpy.induct)
  case (4 d dst c src n)
  then show ?case by auto
qed auto

lemma toupper_nonzero: "c \<noteq> 0 \<Longrightarrow> toupper c \<noteq> 0"
  by (auto simp: toupper_def)

lemma blank_volser: "vtoc_ebcdic_enc_inplace (replicate 6 0x20 @ [0]) 6 = replicate 6 (asc2ebc 0x20) @ [0]"
  by (simp add: vtoc_ebcdic_enc_inplace_def xlate_inplace_map)

lemma update_last_same: "length xs = n \<Longrightarrow> (xs @ [c])[n := c] = xs @ [c]"
  by (simp add: list_update_append)

lemma set_volser_volid:
  assumes "0 \<notin> set volser"
  shows "volid (vtoc_volume_label_set_volser vlabel volser) =
    map (asc2ebc \<circ> toupper) (take 6 volser) @ replicate (6 - length volser) (asc2ebc 0x20)"
proof -
  define i where "i = (if length volser > 6 then 6 else length volser)"
  define e where "e = replicate 6 (asc2ebc 0x20)"
  define u where "u = map (asc2ebc \<circ> toupper) (take i volser)"
  have i: "i \<le> 6" "i \<le> length volser" "length e = 6" "length u = i"
    by (auto simp: i_def e_def u_def)
  have nz': "asc2ebc (toupper c) \<noteq> 0" if "c \<in> set volser" for c
    using that assms by (intro asc2ebc_nonzero toupper_nonzero) auto
  have nz: "0 \<notin> set (take i volser)" "0 \<notin> set u"
    using assms nz' by (auto simp: u_def dest!: in_set_takeD)
  have s2: "strncpy (e @ [0]) volser i = take i volser @ drop i e @ [0]"
    using i nz by (simp add: strncpy_nonzero)
  have s4: "(map toupper (take i volser) @ drop i e @ [0])[6 := 0] =
      map toupper (take i volser) @ drop i e @ [0]"
    using i update_last_same [of "map toupper (take i volser) @ drop i e" 6 0] by simp
  have s5: "vtoc_ebcdic_enc_inplace (map toupper (take i volser) @ drop i e @ [0]) i = u @ drop i e @ [0]"
    using i by (simp add: vtoc_ebcdic_enc_inplace_def xlate_inplace_map u_def)
  have s6: "strncpy e (u @ drop i e @ [0]) i = u @ drop i e"
    using i nz by (simp add: strncpy_nonzero)
  have "volid (vtoc_volume_label_set_volser vlabel volser) = u @ drop i e"
    unfolding vtoc_volume_label_set_volser_def Let_def blank_volser e_def [symmetric] i_def [symmetric]
    by (simp add: i s2 s4 s5 s6)
  also have "u = map (asc2ebc \<circ> toupper) (take 6 volser)"
    by (simp add: u_def i_def)
  also have "drop i e = replicate (6 - length volser) (asc2ebc 0x20)"
    unfolding e_def drop_replicate by (simp add: i_def)
  finally show ?thesis .
qed

lemma safe_nonzero: "list_all ebcdic_safe xs \<Longrightarrow> 0 \<notin> set xs"
  by (auto simp: list_all_iff ebcdic_safe_def)

section \<open>Properties\<close>

text \<open>
  C22. A cylinder number below \<open>2^28\<close> and a head number below 16 survive the packed CCHH (and
  CCHHB) address: the readers return the numbers the writers were given.
\<close>

theorem vtoc_address_roundtrip:
  assumes "cyl < 2 ^ 28" and "hh < 16"
  shows "vtoc_get_cyl_from_cchh (vtoc_set_cchh cyl hh) = cyl \<and>
    vtoc_get_head_from_cchh (vtoc_set_cchh cyl hh) = hh \<and>
    vtoc_get_cyl_from_cchhb (vtoc_set_cchhb cyl hh b) = cyl \<and>
    vtoc_get_head_from_cchhb (vtoc_set_cchhb cyl hh b) = hh"
  using assms by (simp add: vtoc_simps)

theorem vtoc_address_roundtrip_witness:
  "vtoc_get_cyl_from_cchh (vtoc_set_cchh 0x12345 14) = 0x12345 \<and>
   vtoc_get_head_from_cchhb (vtoc_set_cchhb 0x12345 14 3) = 14"
  using vtoc_address_roundtrip [of "0x12345" 14 3] by simp

text \<open>
  Splitting a track number into cylinder and head with the disk's geometry and storing it as
  a CCHH address loses nothing: the address converts back to the same track, and to the first
  block of that track, without wrapping around.
\<close>

theorem vtoc_track_block_numbers:
  fixes trk :: u32
  assumes "0 < heads geo" and "heads geo \<le> 16" and "trk div ucast (heads geo) < 2 ^ 28"
  defines "p \<equiv> vtoc_set_cchh (trk div ucast (heads geo)) (ucast (trk mod ucast (heads geo)))"
  shows "cchh2trk p geo = trk \<and> unat (cchh2blk p geo) = unat trk * unat (sectors geo)"
  using track_of_cylinder_head [OF assms(1-3)] unat_cchh2trk [OF assms(2), of p]
  by (simp add: unat_cchh2blk p_def)

theorem vtoc_track_block_numbers_witness:
  "cchh2trk (vtoc_set_cchh 3339 5) \<lparr>heads = 15, sectors = 12\<rparr> = 50090"
  using vtoc_track_block_numbers [of "\<lparr>heads = 15, sectors = 12\<rparr>" 50090] by simp

text \<open>
  Reading back the volume serial gives the first six characters of the one set, in upper
  case, filled with blanks up to six characters and terminated by a NUL, for every serial of
  characters the code page keeps.
\<close>

theorem vtoc_volser_roundtrip:
  assumes "list_all ebcdic_safe volser" and "length buf = 7"
  shows "vtoc_volume_label_get_volser (vtoc_volume_label_set_volser vlabel volser) buf =
    map toupper (take 6 volser) @ replicate (6 - length volser) 0x20 @ [0]"
proof -
  let ?u = "map toupper (take 6 volser) @ replicate (6 - length volser) 0x20"
  have "list_all ebcdic_safe ?u"
    using assms(1) toupper_safe
    by (auto simp: list_all_iff ebcdic_safe_def [of "0x20"] dest!: in_set_takeD)
  note safe = map_ebcdic_safe [OF this]
  have "volid (vtoc_volume_label_set_volser vlabel volser) = map asc2ebc ?u"
    using set_volser_volid [OF safe_nonzero [OF assms(1)]] by simp
  then show ?thesis
    using assms(2) safe update_last_same [of ?u 6]
    by (simp add: vtoc_volume_label_get_volser_def vtoc_ebcdic_dec_def xlate_loop_map
        list_update_append Cons_nth_drop_Suc [symmetric])
qed

theorem vtoc_volser_roundtrip_witness:
  "vtoc_volume_label_get_volser (vtoc_volume_label_set_volser blank_label [0x6C, 0x6E, 0x31]) (zeros 7) =
    [0x4C, 0x4E, 0x31, 0x20, 0x20, 0x20, 0]"
  using vtoc_volser_roundtrip [of "[0x6C, 0x6E, 0x31]" "zeros 7" blank_label]
  by (simp add: ebcdic_safe_def toupper_def numeral_3_eq_3)

end
