(* ===== verification/Vtoc_Disk.thy ===== *)
theory Vtoc_Disk
  imports Vtoc_Labels
begin

text \<open>
  The bytes of the label structures and the reading and writing of labels in
  \<^verbatim>\<open>libvtoc/vtoc.c\<close>.  The structures are packed and the machine is big-endian, so
  the bytes that \<^verbatim>\<open>read\<close> and \<^verbatim>\<open>write\<close> transfer are given by \<^verbatim>\<open>enc_*\<close> and \<^verbatim>\<open>dec_*\<close>;
  the length of a \<^verbatim>\<open>char\<close> array is part of the well-formedness \<^verbatim>\<open>wf_*\<close> of a label.
  A device is the sequence of its bytes with flags that say whether it can be
  opened.  The locale \<open>packed_struct\<close> states what a structure needs for a label
  to be read back as it was written; it is interpreted for every label.
\<close>

section \<open>Bytes of the packed structures\<close>

named_theorems enc_dec \<open>decoders applied to encoded values\<close>

type_synonym 'a dec = "u8 list \<Rightarrow> 'a \<times> u8 list"

definition enc_u8 :: "u8 \<Rightarrow> u8 list" where
  "enc_u8 w = [w]"

definition enc_u16 :: "u16 \<Rightarrow> u8 list" where
  "enc_u16 w = [ucast (drop_bit 8 w), ucast w]"

definition enc_u32 :: "u32 \<Rightarrow> u8 list" where
  "enc_u32 w = [ucast (drop_bit 24 w), ucast (drop_bit 16 w), ucast (drop_bit 8 w), ucast w]"

definition dec_u8 :: "u8 dec" where
  "dec_u8 bs = (bs ! 0, drop 1 bs)"

definition dec_u16 :: "u16 dec" where
  "dec_u16 bs = (push_bit 8 (ucast (bs ! 0)) OR ucast (bs ! 1), drop 2 bs)"

definition dec_u32 :: "u32 dec" where
  "dec_u32 bs =
     (push_bit 24 (ucast (bs ! 0)) OR push_bit 16 (ucast (bs ! 1)) OR
      push_bit 8 (ucast (bs ! 2)) OR ucast (bs ! 3), drop 4 bs)"

definition dec_bytes :: "nat \<Rightarrow> u8 list dec" where
  "dec_bytes n bs = (take n bs, drop n bs)"

fun dec_array :: "'a dec \<Rightarrow> nat \<Rightarrow> 'a list dec" where
  "dec_array d 0 bs = ([], bs)"
| "dec_array d (Suc n) bs =
     (let (x, bs) = d bs; (xs, bs) = dec_array d n bs in (x # xs, bs))"

definition enc_ttr :: "ttr \<Rightarrow> u8 list" where
  "enc_ttr v =
     enc_u16 (ttr_tt v) @
     enc_u8 (ttr_r v)"

definition dec_ttr :: "ttr dec" where
  "dec_ttr bs =
     (let (x0, bs) = dec_u16 bs;
          (x1, bs) = dec_u8 bs
      in (\<lparr>ttr_tt = x0,
            ttr_r = x1\<rparr>, bs))"

definition enc_cchh :: "cchh \<Rightarrow> u8 list" where
  "enc_cchh v =
     enc_u16 (addr_cc v) @
     enc_u16 (addr_hh v)"

definition dec_cchh :: "cchh dec" where
  "dec_cchh bs =
     (let (x0, bs) = dec_u16 bs;
          (x1, bs) = dec_u16 bs
      in (\<lparr>addr_cc = x0,
            addr_hh = x1\<rparr>, bs))"

definition enc_cchhb :: "cchhb \<Rightarrow> u8 list" where
  "enc_cchhb v =
     enc_u16 (baddr_cc v) @
     enc_u16 (baddr_hh v) @
     enc_u8 (baddr_b v)"

definition dec_cchhb :: "cchhb dec" where
  "dec_cchhb bs =
     (let (x0, bs) = dec_u16 bs;
          (x1, bs) = dec_u16 bs;
          (x2, bs) = dec_u8 bs
      in (\<lparr>baddr_cc = x0,
            baddr_hh = x1,
            baddr_b = x2\<rparr>, bs))"

definition enc_labeldate :: "labeldate \<Rightarrow> u8 list" where
  "enc_labeldate v =
     enc_u8 (ld_year v) @
     enc_u16 (ld_day v)"

definition dec_labeldate :: "labeldate dec" where
  "dec_labeldate bs =
     (let (x0, bs) = dec_u8 bs;
          (x1, bs) = dec_u16 bs
      in (\<lparr>ld_year = x0,
            ld_day = x1\<rparr>, bs))"

definition enc_extent :: "extent \<Rightarrow> u8 list" where
  "enc_extent v =
     enc_u8 (typeind v) @
     enc_u8 (seqno v) @
     enc_cchh (llimit v) @
     enc_cchh (ulimit v)"

definition dec_extent :: "extent dec" where
  "dec_extent bs =
     (let (x0, bs) = dec_u8 bs;
          (x1, bs) = dec_u8 bs;
          (x2, bs) = dec_cchh bs;
          (x3, bs) = dec_cchh bs
      in (\<lparr>typeind = x0,
            seqno = x1,
            llimit = x2,
            ulimit = x3\<rparr>, bs))"

definition enc_dev_const :: "dev_const \<Rightarrow> u8 list" where
  "enc_dev_const v =
     enc_u16 (DS4DSCYL v) @
     enc_u16 (DS4DSTRK v) @
     enc_u16 (DS4DEVTK v) @
     enc_u8 (DS4DEVI v) @
     enc_u8 (DS4DEVL v) @
     enc_u8 (DS4DEVK v) @
     enc_u8 (DS4DEVFG v) @
     enc_u16 (DS4DEVTL v) @
     enc_u8 (DS4DEVDT v) @
     enc_u8 (DS4DEVDB v)"

definition dec_dev_const :: "dev_const dec" where
  "dec_dev_const bs =
     (let (x0, bs) = dec_u16 bs;
          (x1, bs) = dec_u16 bs;
          (x2, bs) = dec_u16 bs;
          (x3, bs) = dec_u8 bs;
          (x4, bs) = dec_u8 bs;
          (x5, bs) = dec_u8 bs;
          (x6, bs) = dec_u8 bs;
          (x7, bs) = dec_u16 bs;
          (x8, bs) = dec_u8 bs;
          (x9, bs) = dec_u8 bs
      in (\<lparr>DS4DSCYL = x0,
            DS4DSTRK = x1,
            DS4DEVTK = x2,
            DS4DEVI = x3,
            DS4DEVL = x4,
            DS4DEVK = x5,
            DS4DEVFG = x6,
            DS4DEVTL = x7,
            DS4DEVDT = x8,
            DS4DEVDB = x9\<rparr>, bs))"

definition enc_ds5ext :: "ds5ext \<Rightarrow> u8 list" where
  "enc_ds5ext v =
     enc_u16 (ds5_t v) @
     enc_u16 (ds5_fc v) @
     enc_u8 (ds5_ft v)"

definition dec_ds5ext :: "ds5ext dec" where
  "dec_ds5ext bs =
     (let (x0, bs) = dec_u16 bs;
          (x1, bs) = dec_u16 bs;
          (x2, bs) = dec_u8 bs
      in (\<lparr>ds5_t = x0,
            ds5_fc = x1,
            ds5_ft = x2\<rparr>, bs))"

definition enc_ds7ext :: "ds7ext \<Rightarrow> u8 list" where
  "enc_ds7ext v =
     enc_u32 (ds7_a v) @
     enc_u32 (ds7_b v)"

definition dec_ds7ext :: "ds7ext dec" where
  "dec_ds7ext bs =
     (let (x0, bs) = dec_u32 bs;
          (x1, bs) = dec_u32 bs
      in (\<lparr>ds7_a = x0,
            ds7_b = x1\<rparr>, bs))"

definition enc_format1_label :: "format1_label \<Rightarrow> u8 list" where
  "enc_format1_label v =
     DS1DSNAM v @
     enc_u8 (DS1FMTID v) @
     DS1DSSN v @
     enc_u16 (DS1VOLSQ v) @
     enc_labeldate (DS1CREDT v) @
     enc_labeldate (DS1EXPDT v) @
     enc_u8 (DS1NOEPV v) @
     enc_u8 (DS1NOBDB v) @
     enc_u8 (DS1FLAG1 v) @
     DS1SYSCD v @
     enc_labeldate (DS1REFD v) @
     enc_u8 (DS1SMSFG v) @
     enc_u8 (DS1SCXTF v) @
     enc_u16 (DS1SCXTV v) @
     enc_u8 (DS1DSRG1 v) @
     enc_u8 (DS1DSRG2 v) @
     enc_u8 (DS1RECFM v) @
     enc_u8 (DS1OPTCD v) @
     enc_u16 (DS1BLKL v) @
     enc_u16 (DS1LRECL v) @
     enc_u8 (DS1KEYL v) @
     enc_u16 (DS1RKP v) @
     enc_u8 (DS1DSIND v) @
     enc_u8 (DS1SCAL1 v) @
     DS1SCAL3 v @
     enc_ttr (DS1LSTAR v) @
     enc_u16 (DS1TRBAL v) @
     enc_u16 (DS1res1 v) @
     enc_extent (DS1EXT1 v) @
     enc_extent (DS1EXT2 v) @
     enc_extent (DS1EXT3 v) @
     enc_cchhb (DS1PTRDS v)"

definition dec_format1_label :: "format1_label dec" where
  "dec_format1_label bs =
     (let (x0, bs) = dec_bytes 44 bs;
          (x1, bs) = dec_u8 bs;
          (x2, bs) = dec_bytes 6 bs;
          (x3, bs) = dec_u16 bs;
          (x4, bs) = dec_labeldate bs;
          (x5, bs) = dec_labeldate bs;
          (x6, bs) = dec_u8 bs;
          (x7, bs) = dec_u8 bs;
          (x8, bs) = dec_u8 bs;
          (x9, bs) = dec_bytes 13 bs;
          (x10, bs) = dec_labeldate bs;
          (x11, bs) = dec_u8 bs;
          (x12, bs) = dec_u8 bs;
          (x13, bs) = dec_u16 bs;
          (x14, bs) = dec_u8 bs;
          (x15, bs) = dec_u8 bs;
          (x16, bs) = dec_u8 bs;
          (x17, bs) = dec_u8 bs;
          (x18, bs) = dec_u16 bs;
          (x19, bs) = dec_u16 bs;
          (x20, bs) = dec_u8 bs;
          (x21, bs) = dec_u16 bs;
          (x22, bs) = dec_u8 bs;
          (x23, bs) = dec_u8 bs;
          (x24, bs) = dec_bytes 3 bs;
          (x25, bs) = dec_ttr bs;
          (x26, bs) = dec_u16 bs;
          (x27, bs) = dec_u16 bs;
          (x28, bs) = dec_extent bs;
          (x29, bs) = dec_extent bs;
          (x30, bs) = dec_extent bs;
          (x31, bs) = dec_cchhb bs
      in (\<lparr>DS1DSNAM = x0,
            DS1FMTID = x1,
            DS1DSSN = x2,
            DS1VOLSQ = x3,
            DS1CREDT = x4,
            DS1EXPDT = x5,
            DS1NOEPV = x6,
            DS1NOBDB = x7,
            DS1FLAG1 = x8,
            DS1SYSCD = x9,
            DS1REFD = x10,
            DS1SMSFG = x11,
            DS1SCXTF = x12,
            DS1SCXTV = x13,
            DS1DSRG1 = x14,
            DS1DSRG2 = x15,
            DS1RECFM = x16,
            DS1OPTCD = x17,
            DS1BLKL = x18,
            DS1LRECL = x19,
            DS1KEYL = x20,
            DS1RKP = x21,
            DS1DSIND = x22,
            DS1SCAL1 = x23,
            DS1SCAL3 = x24,
            DS1LSTAR = x25,
            DS1TRBAL = x26,
            DS1res1 = x27,
            DS1EXT1 = x28,
            DS1EXT2 = x29,
            DS1EXT3 = x30,
            DS1PTRDS = x31\<rparr>, bs))"

definition wf_format1_label :: "format1_label \<Rightarrow> bool" where
  "wf_format1_label v \<longleftrightarrow>
     length (DS1DSNAM v) = 44 \<and>
     length (DS1DSSN v) = 6 \<and>
     length (DS1SYSCD v) = 13 \<and>
     length (DS1SCAL3 v) = 3"

definition enc_format4_label :: "format4_label \<Rightarrow> u8 list" where
  "enc_format4_label v =
     DS4KEYCD v @
     enc_u8 (DS4IDFMT v) @
     enc_cchhb (DS4HPCHR v) @
     enc_u16 (DS4DSREC v) @
     enc_cchh (DS4HCCHH v) @
     enc_u16 (DS4NOATK v) @
     enc_u8 (DS4VTOCI v) @
     enc_u8 (DS4NOEXT v) @
     enc_u8 (DS4SMSFG v) @
     enc_u8 (DS4DEVAC v) @
     enc_dev_const (DS4DEVCT v) @
     DS4AMTIM v @
     DS4AMCAT v @
     DS4R2TIM v @
     DS4res1 v @
     DS4F6PTR v @
     enc_extent (DS4VTOCE v) @
     DS4res2 v @
     enc_u8 (DS4EFLVL v) @
     enc_cchhb (DS4EFPTR v) @
     enc_u8 (DS4res3 v) @
     enc_u32 (DS4DCYL v) @
     DS4res4 v @
     enc_u8 (DS4DEVF2 v) @
     enc_u8 (DS4res5 v)"

definition dec_format4_label :: "format4_label dec" where
  "dec_format4_label bs =
     (let (x0, bs) = dec_bytes 44 bs;
          (x1, bs) = dec_u8 bs;
          (x2, bs) = dec_cchhb bs;
          (x3, bs) = dec_u16 bs;
          (x4, bs) = dec_cchh bs;
          (x5, bs) = dec_u16 bs;
          (x6, bs) = dec_u8 bs;
          (x7, bs) = dec_u8 bs;
          (x8, bs) = dec_u8 bs;
          (x9, bs) = dec_u8 bs;
          (x10, bs) = dec_dev_const bs;
          (x11, bs) = dec_bytes 8 bs;
          (x12, bs) = dec_bytes 3 bs;
          (x13, bs) = dec_bytes 8 bs;
          (x14, bs) = dec_bytes 5 bs;
          (x15, bs) = dec_bytes 5 bs;
          (x16, bs) = dec_extent bs;
          (x17, bs) = dec_bytes 10 bs;
          (x18, bs) = dec_u8 bs;
          (x19, bs) = dec_cchhb bs;
          (x20, bs) = dec_u8 bs;
          (x21, bs) = dec_u32 bs;
          (x22, bs) = dec_bytes 2 bs;
          (x23, bs) = dec_u8 bs;
          (x24, bs) = dec_u8 bs
      in (\<lparr>DS4KEYCD = x0,
            DS4IDFMT = x1,
            DS4HPCHR = x2,
            DS4DSREC = x3,
            DS4HCCHH = x4,
            DS4NOATK = x5,
            DS4VTOCI = x6,
            DS4NOEXT = x7,
            DS4SMSFG = x8,
            DS4DEVAC = x9,
            DS4DEVCT = x10,
            DS4AMTIM = x11,
            DS4AMCAT = x12,
            DS4R2TIM = x13,
            DS4res1 = x14,
            DS4F6PTR = x15,
            DS4VTOCE = x16,
            DS4res2 = x17,
            DS4EFLVL = x18,
            DS4EFPTR = x19,
            DS4res3 = x20,
            DS4DCYL = x21,
            DS4res4 = x22,
            DS4DEVF2 = x23,
            DS4res5 = x24\<rparr>, bs))"

definition wf_format4_label :: "format4_label \<Rightarrow> bool" where
  "wf_format4_label v \<longleftrightarrow>
     length (DS4KEYCD v) = 44 \<and>
     length (DS4AMTIM v) = 8 \<and>
     length (DS4AMCAT v) = 3 \<and>
     length (DS4R2TIM v) = 8 \<and>
     length (DS4res1 v) = 5 \<and>
     length (DS4F6PTR v) = 5 \<and>
     length (DS4res2 v) = 10 \<and>
     length (DS4res4 v) = 2"

definition enc_format9_label :: "format9_label \<Rightarrow> u8 list" where
  "enc_format9_label v =
     enc_u8 (DS9KEYID v) @
     enc_u8 (DS9SUBTY v) @
     enc_u8 (DS9NUMF9 v) @
     DS9res1 v @
     enc_u8 (DS9FMTID v) @
     DS9res2 v @
     enc_cchhb (DS9PTRDS v)"

definition dec_format9_label :: "format9_label dec" where
  "dec_format9_label bs =
     (let (x0, bs) = dec_u8 bs;
          (x1, bs) = dec_u8 bs;
          (x2, bs) = dec_u8 bs;
          (x3, bs) = dec_bytes 41 bs;
          (x4, bs) = dec_u8 bs;
          (x5, bs) = dec_bytes 90 bs;
          (x6, bs) = dec_cchhb bs
      in (\<lparr>DS9KEYID = x0,
            DS9SUBTY = x1,
            DS9NUMF9 = x2,
            DS9res1 = x3,
            DS9FMTID = x4,
            DS9res2 = x5,
            DS9PTRDS = x6\<rparr>, bs))"

definition wf_format9_label :: "format9_label \<Rightarrow> bool" where
  "wf_format9_label v \<longleftrightarrow>
     length (DS9res1 v) = 41 \<and>
     length (DS9res2 v) = 90"

definition enc_format5_label :: "format5_label \<Rightarrow> u8 list" where
  "enc_format5_label v =
     DS5KEYID v @
     enc_ds5ext (DS5AVEXT v) @
     concat (map enc_ds5ext (DS5EXTAV v)) @
     enc_u8 (DS5FMTID v) @
     concat (map enc_ds5ext (DS5MAVET v)) @
     enc_cchhb (DS5PTRDS v)"

definition dec_format5_label :: "format5_label dec" where
  "dec_format5_label bs =
     (let (x0, bs) = dec_bytes 4 bs;
          (x1, bs) = dec_ds5ext bs;
          (x2, bs) = dec_array dec_ds5ext 7 bs;
          (x3, bs) = dec_u8 bs;
          (x4, bs) = dec_array dec_ds5ext 18 bs;
          (x5, bs) = dec_cchhb bs
      in (\<lparr>DS5KEYID = x0, DS5AVEXT = x1, DS5EXTAV = x2, DS5FMTID = x3, DS5MAVET = x4,
           DS5PTRDS = x5\<rparr>, bs))"

definition wf_format5_label :: "format5_label \<Rightarrow> bool" where
  "wf_format5_label v \<longleftrightarrow>
     length (DS5KEYID v) = 4 \<and> length (DS5EXTAV v) = 7 \<and> length (DS5MAVET v) = 18"

definition enc_format7_label :: "format7_label \<Rightarrow> u8 list" where
  "enc_format7_label v =
     DS7KEYID v @
     concat (map enc_ds7ext (DS7EXTNT v)) @
     enc_u8 (DS7FMTID v) @
     concat (map enc_ds7ext (DS7ADEXT v)) @
     DS7res1 v @
     enc_cchhb (DS7PTRDS v)"

definition dec_format7_label :: "format7_label dec" where
  "dec_format7_label bs =
     (let (x0, bs) = dec_bytes 4 bs;
          (x1, bs) = dec_array dec_ds7ext 5 bs;
          (x2, bs) = dec_u8 bs;
          (x3, bs) = dec_array dec_ds7ext 11 bs;
          (x4, bs) = dec_bytes 2 bs;
          (x5, bs) = dec_cchhb bs
      in (\<lparr>DS7KEYID = x0, DS7EXTNT = x1, DS7FMTID = x2, DS7ADEXT = x3, DS7res1 = x4,
           DS7PTRDS = x5\<rparr>, bs))"

definition wf_format7_label :: "format7_label \<Rightarrow> bool" where
  "wf_format7_label v \<longleftrightarrow>
     length (DS7KEYID v) = 4 \<and> length (DS7EXTNT v) = 5 \<and> length (DS7ADEXT v) = 11 \<and>
     length (DS7res1 v) = 2"

definition enc_u64 :: "u64 \<Rightarrow> u8 list" where
  "enc_u64 w = enc_u32 (ucast (drop_bit 32 w)) @ enc_u32 (ucast w)"

definition dec_u64 :: "u64 dec" where
  "dec_u64 bs =
     (let (hi, bs) = dec_u32 bs; (lo, bs) = dec_u32 bs
      in (push_bit 32 (ucast hi) OR ucast lo, bs))"

definition enc_volume_label :: "volume_label \<Rightarrow> u8 list" where
  "enc_volume_label v =
     volkey v @ vollbl v @ volid v @ enc_u8 (security v) @ enc_cchhb (vtoc v) @ vl_res1 v @
     cisize v @ blkperci v @ labperci v @ vl_res2 v @ lvtoc v @ vl_res3 v @
     enc_u8 (ldl_version v) @ enc_u64 (formatted_blocks v)"

definition dec_volume_label :: "volume_label dec" where
  "dec_volume_label bs =
     (let (x0, bs) = dec_bytes 4 bs;
          (x1, bs) = dec_bytes 4 bs;
          (x2, bs) = dec_bytes 6 bs;
          (x3, bs) = dec_u8 bs;
          (x4, bs) = dec_cchhb bs;
          (x5, bs) = dec_bytes 5 bs;
          (x6, bs) = dec_bytes 4 bs;
          (x7, bs) = dec_bytes 4 bs;
          (x8, bs) = dec_bytes 4 bs;
          (x9, bs) = dec_bytes 4 bs;
          (x10, bs) = dec_bytes 14 bs;
          (x11, bs) = dec_bytes 28 bs;
          (x12, bs) = dec_u8 bs;
          (x13, bs) = dec_u64 bs
      in (\<lparr>volkey = x0, vollbl = x1, volid = x2, security = x3, vtoc = x4, vl_res1 = x5,
           cisize = x6, blkperci = x7, labperci = x8, vl_res2 = x9, lvtoc = x10,
           vl_res3 = x11, ldl_version = x12, formatted_blocks = x13\<rparr>, bs))"

definition wf_volume_label :: "volume_label \<Rightarrow> bool" where
  "wf_volume_label v \<longleftrightarrow>
     length (volkey v) = 4 \<and> length (vollbl v) = 4 \<and> length (volid v) = 6 \<and>
     length (vl_res1 v) = 5 \<and> length (cisize v) = 4 \<and> length (blkperci v) = 4 \<and>
     length (labperci v) = 4 \<and> length (vl_res2 v) = 4 \<and> length (lvtoc v) = 14 \<and>
     length (vl_res3 v) = 28"

section \<open>Reading and writing labels\<close>

text \<open>
  A device of fixed size.  \<^verbatim>\<open>lseek\<close> refuses an offset that is negative as an
  \<^verbatim>\<open>off_t\<close>; a transfer stops at the end of the device.  \<^verbatim>\<open>vtoc_error\<close> prints a
  message and exits, so a failure is the result of the whole operation; a
  failed write leaves what was written before it on the device.
\<close>

datatype failure = unable_to_open | unable_to_seek | unable_to_write | unable_to_read

record device =
  can_read :: bool
  can_write :: bool
  dev_data :: "u8 list"

definition seek_ok :: "u64 \<Rightarrow> bool" where
  "seek_ok position \<longleftrightarrow> unat position < 2 ^ 63"

definition dev_read :: "device \<Rightarrow> nat \<Rightarrow> nat \<Rightarrow> u8 list" where
  "dev_read dev off n = take n (drop off (dev_data dev))"

definition dev_write :: "device \<Rightarrow> nat \<Rightarrow> u8 list \<Rightarrow> nat \<times> device" where
  "dev_write dev off bs =
     (let n = min (length bs) (length (dev_data dev) - off)
      in (n, dev\<lparr>dev_data := take off (dev_data dev) @ take n bs @ drop (off + n) (dev_data dev)\<rparr>))"

definition read_struct :: "'a dec \<Rightarrow> nat \<Rightarrow> bool \<Rightarrow> device \<Rightarrow> nat \<Rightarrow> failure + 'a option \<times> nat" where
  "read_struct dec t wanted dev off =
     (if \<not> wanted then Inr (None, off)
      else let bs = dev_read dev off t
           in if length bs \<noteq> t then Inl unable_to_read else Inr (Some (fst (dec bs)), off + t))"

definition write_struct ::
    "('a \<Rightarrow> u8 list) \<Rightarrow> nat \<Rightarrow> 'a option \<Rightarrow> device \<Rightarrow> nat \<Rightarrow> device \<times> (failure + nat)" where
  "write_struct enc t v dev off =
     (case v of
        None \<Rightarrow> (dev, Inr off)
      | Some x \<Rightarrow> (let (n, dev) = dev_write dev off (enc x)
                  in (dev, if n \<noteq> t then Inl unable_to_write else Inr (off + t))))"

definition vtoc_read_volume_label :: "device \<Rightarrow> u64 \<Rightarrow> failure + volume_label" where
  "vtoc_read_volume_label dev vlabel_start =
     (if \<not> can_read dev then Inl unable_to_open
      else if \<not> seek_ok vlabel_start then Inl unable_to_seek
      else case read_struct dec_volume_label 92 True dev (unat vlabel_start) of
             Inl e \<Rightarrow> Inl e
           | Inr (None, _) \<Rightarrow> Inl unable_to_read
           | Inr (Some v, _) \<Rightarrow> Inr v)"

definition vtoc_write_volume_label ::
    "device \<Rightarrow> u64 \<Rightarrow> volume_label \<Rightarrow> device \<times> failure option" where
  "vtoc_write_volume_label dev vlabel_start vlabel =
     (if \<not> can_write dev then (dev, Some unable_to_open)
      else if \<not> seek_ok vlabel_start then (dev, Some unable_to_seek)
      else case write_struct enc_volume_label 92 (Some vlabel) dev (unat vlabel_start) of
             (dev, Inl e) \<Rightarrow> (dev, Some e)
           | (dev, Inr _) \<Rightarrow> (dev, None))"

text \<open>
  The pointer arguments may be \<^verbatim>\<open>NULL\<close>: a label is read only where the caller
  passes a buffer (the flags \<open>w1\<close>, \<open>w4\<close>, \<open>w5\<close>, \<open>w7\<close>), and written only where
  it passes a label.  Each transfer continues where the one before ended.
\<close>

definition vtoc_read_label ::
    "device \<Rightarrow> u64 \<Rightarrow> bool \<Rightarrow> bool \<Rightarrow> bool \<Rightarrow> bool \<Rightarrow>
     failure + format1_label option \<times> format4_label option \<times> format5_label option \<times> format7_label option" where
  "vtoc_read_label dev position w1 w4 w5 w7 =
     (if \<not> can_read dev then Inl unable_to_open
      else if \<not> seek_ok position then Inl unable_to_seek
      else case read_struct dec_format1_label 140 w1 dev (unat position) of Inl e \<Rightarrow> Inl e
        | Inr (f1, off) \<Rightarrow> (case read_struct dec_format4_label 140 w4 dev off of Inl e \<Rightarrow> Inl e
        | Inr (f4, off) \<Rightarrow> (case read_struct dec_format5_label 140 w5 dev off of Inl e \<Rightarrow> Inl e
        | Inr (f5, off) \<Rightarrow> (case read_struct dec_format7_label 140 w7 dev off of Inl e \<Rightarrow> Inl e
        | Inr (f7, off) \<Rightarrow> Inr (f1, f4, f5, f7)))))"

definition vtoc_write_label ::
    "device \<Rightarrow> u64 \<Rightarrow> format1_label option \<Rightarrow> format4_label option \<Rightarrow> format5_label option \<Rightarrow>
     format7_label option \<Rightarrow> format9_label option \<Rightarrow> device \<times> failure option" where
  "vtoc_write_label dev position f1 f4 f5 f7 f9 =
     (if \<not> can_write dev then (dev, Some unable_to_open)
      else if \<not> seek_ok position then (dev, Some unable_to_seek)
      else case write_struct enc_format1_label 140 f1 dev (unat position) of
          (dev, Inl e) \<Rightarrow> (dev, Some e)
        | (dev, Inr off) \<Rightarrow> (case write_struct enc_format4_label 140 f4 dev off of
          (dev, Inl e) \<Rightarrow> (dev, Some e)
        | (dev, Inr off) \<Rightarrow> (case write_struct enc_format5_label 140 f5 dev off of
          (dev, Inl e) \<Rightarrow> (dev, Some e)
        | (dev, Inr off) \<Rightarrow> (case write_struct enc_format7_label 140 f7 dev off of
          (dev, Inl e) \<Rightarrow> (dev, Some e)
        | (dev, Inr off) \<Rightarrow> (case write_struct enc_format9_label 140 f9 dev off of
          (dev, Inl e) \<Rightarrow> (dev, Some e)
        | (dev, Inr off) \<Rightarrow> (dev, None))))))"

text \<open>
  How far a transfer advances, that a device holds a structure at an offset,
  and that one device results from another by changes in one range only.
\<close>

definition span :: "nat \<Rightarrow> 'a option \<Rightarrow> nat" where
  "span n v = (if v = None then 0 else n)"

definition holds :: "('a \<Rightarrow> u8 list) \<Rightarrow> nat \<Rightarrow> 'a option \<Rightarrow> device \<Rightarrow> nat \<Rightarrow> bool" where
  "holds enc n v dev off = (case v of None \<Rightarrow> True | Some x \<Rightarrow> dev_read dev off n = enc x)"

definition changed_in :: "nat \<Rightarrow> nat \<Rightarrow> device \<Rightarrow> device \<Rightarrow> bool" where
  "changed_in lo hi dev dev' \<longleftrightarrow>
     can_read dev' = can_read dev \<and> can_write dev' = can_write dev \<and>
     length (dev_data dev') = length (dev_data dev) \<and>
     take lo (dev_data dev') = take lo (dev_data dev) \<and>
     drop hi (dev_data dev') = drop hi (dev_data dev)"

section \<open>Decoding encoded values\<close>

lemma dec_u8_enc [enc_dec]: "dec_u8 (enc_u8 w @ r) = (w, r)"
  by (simp add: dec_u8_def enc_u8_def)

lemma dec_u16_enc [enc_dec]: "dec_u16 (enc_u16 w @ r) = (w, r)"
proof -
  have "push_bit 8 (ucast (ucast (drop_bit 8 w) :: u8)) OR ucast (ucast w :: u8) = w"
    by (rule bit_word_eqI) (auto simp: bit_simps)
  then show ?thesis by (simp add: dec_u16_def enc_u16_def)
qed

lemma dec_u32_enc [enc_dec]: "dec_u32 (enc_u32 w @ r) = (w, r)"
proof -
  have "push_bit 24 (ucast (ucast (drop_bit 24 w) :: u8)) OR push_bit 16 (ucast (ucast (drop_bit 16 w) :: u8)) OR
      push_bit 8 (ucast (ucast (drop_bit 8 w) :: u8)) OR ucast (ucast w :: u8) = w" (is "?v = w")
  proof (rule bit_word_eqI)
    fix n assume "n < LENGTH(32)"
    then show "bit ?v n = bit w n"
      by (cases "n < 8"; cases "n < 16"; cases "n < 24") (auto simp: bit_simps)
  qed
  then show ?thesis by (simp add: dec_u32_def enc_u32_def numeral_3_eq_3)
qed

lemma dec_u64_enc [enc_dec]: "dec_u64 (enc_u64 w @ r) = (w, r)"
proof -
  have "push_bit 32 (ucast (ucast (drop_bit 32 w) :: u32)) OR ucast (ucast w :: u32) = w"
    by (rule bit_word_eqI) (auto simp: bit_simps)
  then show ?thesis by (simp add: dec_u64_def enc_u64_def dec_u32_enc)
qed

lemma dec_bytes_append [enc_dec]: "length xs = n \<Longrightarrow> dec_bytes n (xs @ r) = (xs, r)"
  by (simp add: dec_bytes_def)

lemma length_enc_words [simp]:
  "length (enc_u8 a) = 1" "length (enc_u16 b) = 2" "length (enc_u32 c) = 4" "length (enc_u64 d) = 8"
  by (simp_all add: enc_u8_def enc_u16_def enc_u32_def enc_u64_def)

lemma dec_small_enc [enc_dec]:
  "dec_ttr (enc_ttr v1 @ r) = (v1, r)" "dec_cchh (enc_cchh v2 @ r) = (v2, r)"
  "dec_cchhb (enc_cchhb v3 @ r) = (v3, r)" "dec_labeldate (enc_labeldate v4 @ r) = (v4, r)"
  "dec_ds5ext (enc_ds5ext v5 @ r) = (v5, r)" "dec_ds7ext (enc_ds7ext v6 @ r) = (v6, r)"
  by (simp_all add: dec_ttr_def enc_ttr_def dec_cchh_def enc_cchh_def dec_cchhb_def enc_cchhb_def
      dec_labeldate_def enc_labeldate_def dec_ds5ext_def enc_ds5ext_def dec_ds7ext_def enc_ds7ext_def
      enc_dec)

lemma dec_extent_enc [enc_dec]: "dec_extent (enc_extent v @ r) = (v, r)"
  by (simp add: dec_extent_def enc_extent_def enc_dec)

lemma dec_dev_const_enc [enc_dec]: "dec_dev_const (enc_dev_const v @ r) = (v, r)"
  by (simp add: dec_dev_const_def enc_dev_const_def enc_dec)

lemma length_enc_small [simp]:
  "length (enc_ttr v1) = 3" "length (enc_cchh v2) = 4" "length (enc_cchhb v3) = 5"
  "length (enc_labeldate v4) = 3" "length (enc_ds5ext v5) = 5" "length (enc_ds7ext v6) = 8"
  "length (enc_extent v7) = 10" "length (enc_dev_const v8) = 14"
  by (simp_all add: enc_ttr_def enc_cchh_def enc_cchhb_def enc_labeldate_def enc_ds5ext_def
      enc_ds7ext_def enc_extent_def enc_dev_const_def)

section \<open>Changes of a range\<close>

lemma take_mono_eq: "take k xs = take k ys \<Longrightarrow> j \<le> k \<Longrightarrow> take j xs = take j ys"
  by (metis min.absorb1 take_take)

lemma drop_mono_eq: "drop j xs = drop j ys \<Longrightarrow> j \<le> k \<Longrightarrow> drop k xs = drop k ys"
  by (metis drop_drop le_add_diff_inverse2)

lemma changed_in_trans:
  assumes "changed_in lo mid d d'" and "changed_in mid hi d' d''" and "lo \<le> mid" and "mid \<le> hi"
  shows "changed_in lo hi d d''"
  using assms take_mono_eq [of mid "dev_data d''" "dev_data d'" lo]
    drop_mono_eq [of mid "dev_data d'" "dev_data d" hi]
  by (simp add: changed_in_def)

lemma holds_keep:
  assumes "holds enc n v d off" and "changed_in lo hi d d'" and "off + span n v \<le> lo"
  shows "holds enc n v d' off"
proof (cases v)
  case None
  then show ?thesis by (simp add: holds_def)
next
  case (Some x)
  then have le: "off + n \<le> lo" using assms(3) by (simp add: span_def)
  have "take (off + n) (dev_data d') = take (off + n) (dev_data d)"
    using assms(2) take_mono_eq [of lo "dev_data d'" "dev_data d", OF _ le] by (simp add: changed_in_def)
  then have "dev_read d' off n = dev_read d off n"
    by (simp add: dev_read_def take_drop add.commute)
  then show ?thesis
    using assms(1) Some by (simp add: holds_def)
qed

section \<open>Structures that can be written and read back\<close>

locale packed_struct =
  fixes enc :: "'a \<Rightarrow> u8 list" and dec :: "'a dec" and wf :: "'a \<Rightarrow> bool" and size_of :: nat
  assumes length_enc: "wf v \<Longrightarrow> length (enc v) = size_of"
    and dec_enc: "wf v \<Longrightarrow> dec (enc v @ r) = (v, r)"
begin

lemma dec_array_enc:
  "list_all wf vs \<Longrightarrow> length vs = n \<Longrightarrow> dec_array dec n (concat (map enc vs) @ r) = (vs, r)"
  by (induction vs arbitrary: n) (auto simp: dec_enc)

lemma length_array: "list_all wf vs \<Longrightarrow> length (concat (map enc vs)) = size_of * length vs"
  by (induction vs) (simp_all add: length_enc)

lemma write_ok:
  assumes "pred_option wf v" and "off + span size_of v \<le> length (dev_data dev)"
  obtains dev' where "write_struct enc size_of v dev off = (dev', Inr (off + span size_of v))"
    and "changed_in off (off + span size_of v) dev dev'" and "holds enc size_of v dev' off"
proof (cases v)
  case None
  then show ?thesis
    by (intro that [of dev]) (simp_all add: write_struct_def span_def changed_in_def holds_def)
next
  case (Some x)
  then show ?thesis
    using assms by (intro that [of "snd (dev_write dev off (enc x))"])
      (auto simp: write_struct_def dev_write_def dev_read_def span_def changed_in_def holds_def
        length_enc min_def)
qed

lemma read_ok:
  assumes "pred_option wf v" and "holds enc size_of v dev off"
  shows "read_struct dec size_of (v \<noteq> None) dev off = Inr (v, off + span size_of v)"
  using assms dec_enc [where r = "[]"]
  by (cases v) (auto simp: read_struct_def span_def holds_def length_enc)

end

interpretation ds5: packed_struct enc_ds5ext dec_ds5ext "\<lambda>_. True" 5
  by unfold_locales (simp_all add: enc_dec)

interpretation ds7: packed_struct enc_ds7ext dec_ds7ext "\<lambda>_. True" 8
  by unfold_locales (simp_all add: enc_dec)

lemmas enc_arrays = ds5.dec_array_enc ds5.length_array ds7.dec_array_enc ds7.length_array

interpretation vl: packed_struct enc_volume_label dec_volume_label wf_volume_label 92
  by unfold_locales
     (simp_all add: enc_volume_label_def dec_volume_label_def wf_volume_label_def enc_dec)

interpretation f1: packed_struct enc_format1_label dec_format1_label wf_format1_label 140
  by unfold_locales
     (simp_all add: enc_format1_label_def dec_format1_label_def wf_format1_label_def enc_dec)

interpretation f4: packed_struct enc_format4_label dec_format4_label wf_format4_label 140
  by unfold_locales
     (simp_all add: enc_format4_label_def dec_format4_label_def wf_format4_label_def enc_dec)

interpretation f5: packed_struct enc_format5_label dec_format5_label wf_format5_label 140
  by unfold_locales
     (simp_all add: enc_format5_label_def dec_format5_label_def wf_format5_label_def enc_dec
       enc_arrays list_all_iff del: length_concat)

interpretation f7: packed_struct enc_format7_label dec_format7_label wf_format7_label 140
  by unfold_locales
     (simp_all add: enc_format7_label_def dec_format7_label_def wf_format7_label_def enc_dec
       enc_arrays list_all_iff)

interpretation f9: packed_struct enc_format9_label dec_format9_label wf_format9_label 140
  by unfold_locales
     (simp_all add: enc_format9_label_def dec_format9_label_def wf_format9_label_def enc_dec)

section \<open>Properties\<close>

text \<open>
  C24.  Labels are stored faithfully: writing any selection of format 1, 4, 5
  and 7 labels to a position of the device that has room for them succeeds,
  and reading the same selection at that position returns exactly the labels
  written; no byte of the device outside their 140 bytes each is changed.
\<close>

theorem vtoc_label_write_read:
  assumes "can_read dev" and "can_write dev" and "seek_ok position"
    and "unat position + span 140 f1 + span 140 f4 + span 140 f5 + span 140 f7 \<le> length (dev_data dev)"
    and "pred_option wf_format1_label f1" and "pred_option wf_format4_label f4"
    and "pred_option wf_format5_label f5" and "pred_option wf_format7_label f7"
  shows "\<exists>dev'. vtoc_write_label dev position f1 f4 f5 f7 None = (dev', None) \<and>
           vtoc_read_label dev' position (f1 \<noteq> None) (f4 \<noteq> None) (f5 \<noteq> None) (f7 \<noteq> None) =
             Inr (f1, f4, f5, f7) \<and>
           changed_in (unat position)
             (unat position + span 140 f1 + span 140 f4 + span 140 f5 + span 140 f7) dev dev'"
proof -
  let ?p1 = "unat position"
  let ?p4 = "?p1 + span 140 f1" let ?p5 = "?p4 + span 140 f4"
  let ?p7 = "?p5 + span 140 f5" let ?pe = "?p7 + span 140 f7"
  obtain d1 where d1: "write_struct enc_format1_label 140 f1 dev ?p1 = (d1, Inr ?p4)"
    "changed_in ?p1 ?p4 dev d1" "holds enc_format1_label 140 f1 d1 ?p1"
    using f1.write_ok [OF assms(5), of ?p1 dev] assms(4) by auto
  obtain d4 where d4: "write_struct enc_format4_label 140 f4 d1 ?p4 = (d4, Inr ?p5)"
    "changed_in ?p4 ?p5 d1 d4" "holds enc_format4_label 140 f4 d4 ?p4"
    using f4.write_ok [OF assms(6), of ?p4 d1] assms(4) d1(2) by (auto simp: changed_in_def)
  obtain d5 where d5: "write_struct enc_format5_label 140 f5 d4 ?p5 = (d5, Inr ?p7)"
    "changed_in ?p5 ?p7 d4 d5" "holds enc_format5_label 140 f5 d5 ?p5"
    using f5.write_ok [OF assms(7), of ?p5 d4] assms(4) d1(2) d4(2) by (auto simp: changed_in_def)
  obtain d7 where d7: "write_struct enc_format7_label 140 f7 d5 ?p7 = (d7, Inr ?pe)"
    "changed_in ?p7 ?pe d5 d7" "holds enc_format7_label 140 f7 d7 ?p7"
    using f7.write_ok [OF assms(8), of ?p7 d5] assms(4) d1(2) d4(2) d5(2)
    by (auto simp: changed_in_def)
  have c57: "changed_in ?p5 ?pe d4 d7" using changed_in_trans [OF d5(2) d7(2)] by simp
  have c47: "changed_in ?p4 ?pe d1 d7" using changed_in_trans [OF d4(2) c57] by simp
  have c17: "changed_in ?p1 ?pe dev d7" using changed_in_trans [OF d1(2) c47] by simp
  have "vtoc_write_label dev position f1 f4 f5 f7 None = (d7, None)"
    using assms(2,3) d1(1) d4(1) d5(1) d7(1) by (simp add: vtoc_write_label_def write_struct_def)
  moreover have "vtoc_read_label d7 position (f1 \<noteq> None) (f4 \<noteq> None) (f5 \<noteq> None) (f7 \<noteq> None) =
      Inr (f1, f4, f5, f7)"
    using assms(1,3) c17 f1.read_ok [OF assms(5) holds_keep [OF d1(3) c47]]
      f4.read_ok [OF assms(6) holds_keep [OF d4(3) c57]]
      f5.read_ok [OF assms(7) holds_keep [OF d5(3) d7(2)]] f7.read_ok [OF assms(8) d7(3)]
    by (simp add: vtoc_read_label_def changed_in_def)
  ultimately show ?thesis using c17 by blast
qed

lemma wf_init_labels:
  "wf_format4_label (vtoc_init_format4_label cc rc tracks blocks blksize dev_type)"
  "wf_format5_label vtoc_init_format5_label" "wf_format7_label vtoc_init_format7_label"
  by (simp_all add: vtoc_init_format4_label_def vtoc_init_format5_label_def
      vtoc_init_format7_label_def wf_format4_label_def wf_format5_label_def wf_format7_label_def Let_def)

theorem vtoc_label_write_read_witness:
  "\<exists>dev'. vtoc_write_label \<lparr>can_read = True, can_write = True, dev_data = replicate 1000 0xE5\<rparr> 100
        None (Some (vtoc_init_format4_label 1000 1000 15 12 4096 13200)) (Some vtoc_init_format5_label)
        None None = (dev', None) \<and>
     vtoc_read_label dev' 100 False True True False =
        Inr (None, Some (vtoc_init_format4_label 1000 1000 15 12 4096 13200),
             Some vtoc_init_format5_label, None)"
  using vtoc_label_write_read [of "\<lparr>can_read = True, can_write = True, dev_data = replicate 1000 0xE5\<rparr>"
      100 None "Some (vtoc_init_format4_label 1000 1000 15 12 4096 13200)"
      "Some vtoc_init_format5_label" None]
  by (auto simp: seek_ok_def span_def wf_init_labels)

text \<open>
  The volume label is stored faithfully: after a successful write it is
  read back unchanged, and only its 92 bytes of the device change.
\<close>

theorem vtoc_volume_label_write_read:
  assumes "can_read dev" and "can_write dev" and "seek_ok pos"
    and "unat pos + 92 \<le> length (dev_data dev)" and "wf_volume_label v"
  shows "\<exists>dev'. vtoc_write_volume_label dev pos v = (dev', None) \<and>
           vtoc_read_volume_label dev' pos = Inr v \<and> changed_in (unat pos) (unat pos + 92) dev dev'"
proof -
  have v: "pred_option wf_volume_label (Some v)" using assms(5) by simp
  obtain d where d: "write_struct enc_volume_label 92 (Some v) dev (unat pos) = (d, Inr (unat pos + 92))"
    "changed_in (unat pos) (unat pos + 92) dev d" "holds enc_volume_label 92 (Some v) d (unat pos)"
    using vl.write_ok [OF v, of "unat pos" dev] assms(4) by (auto simp: span_def)
  have "vtoc_read_volume_label d pos = Inr v"
    using assms(1,3) d(2) vl.read_ok [OF v d(3)]
    by (simp add: vtoc_read_volume_label_def changed_in_def)
  then show ?thesis
    using assms(2,3) d by (auto simp: vtoc_write_volume_label_def)
qed

lemma blank_label_wf: "wf_volume_label blank_label"
  by (simp add: blank_label_def vtoc_volume_label_init_def vtoc_ebcdic_enc_inplace_def
      xlate_inplace_map wf_volume_label_def)

theorem vtoc_volume_label_write_read_witness:
  "\<exists>dev'. vtoc_write_volume_label \<lparr>can_read = True, can_write = True, dev_data = replicate 200 1\<rparr> 16
        blank_label = (dev', None) \<and> vtoc_read_volume_label dev' 16 = Inr blank_label"
  using vtoc_volume_label_write_read [of "\<lparr>can_read = True, can_write = True, dev_data = replicate 200 1\<rparr>"
      16 blank_label]
  by (auto simp: seek_ok_def blank_label_wf)

end
