(* ===== verification/Vtoc_Extents.thy ===== *)
theory Vtoc_Extents
  imports S390_Prelude
begin

text \<open>
  Free-space extents, as the FMT5 and the FMT7 labels of libvtoc (\<^verbatim>\<open>libvtoc/vtoc.c\<close>) keep
  them: a fixed number of slots, each unused or holding one run of free tracks. This theory holds
  what the two labels share.

  \<^item> The bugs on which the code prints a message and exits (\<open>vtoc_bug\<close>).
  \<^item> The exchange sort of \<^verbatim>\<open>vtoc_reorganize_FMT5_extents\<close> and
    \<^verbatim>\<open>vtoc_reorganize_FMT7_extents\<close>, which differ only in the test that triggers an exchange.
  \<^item> The abstract labels: a list of slots \<open>(first track, first track behind)\<close> with \<open>(0, 0)\<close> for an
    unused one; the set of free tracks; adding an extent with the merging loop, and cutting one out.
    The label theories prove that their routines implement these.
  \<^item> The contract \<open>freespace\<close> of a free-space manager, and what a sequence of allocations
    does to the free tracks.
\<close>

section \<open>Definitions\<close>

datatype vtoc_bug = Overlapping | NoFreeExtent | DelMismatch | DelNotFound

text \<open>The two nested loops of the reorganize functions over \<open>n\<close> slots.\<close>

definition reorg_step :: "('e \<Rightarrow> 'e \<Rightarrow> bool) \<Rightarrow> nat \<Rightarrow> nat \<Rightarrow> 'e list \<Rightarrow> 'e list" where
  "reorg_step before i j es =
     (if before (es ! j) (es ! i) then es[i := es ! j, j := es ! i] else es)"

definition reorg_inner :: "('e \<Rightarrow> 'e \<Rightarrow> bool) \<Rightarrow> nat \<Rightarrow> nat \<Rightarrow> 'e list \<Rightarrow> 'e list" where
  "reorg_inner before n i es = fold (reorg_step before i) [i..<n] es"

definition reorganize :: "('e \<Rightarrow> 'e \<Rightarrow> bool) \<Rightarrow> nat \<Rightarrow> 'e list \<Rightarrow> 'e list" where
  "reorganize before n es = fold (reorg_inner before n) [0..<n] es"

subsection \<open>Abstract slots\<close>

type_synonym slot = "nat \<times> nat"

abbreviation unused :: slot where
  "unused \<equiv> (0, 0)"

definition tracks :: "slot list \<Rightarrow> nat set" where
  "tracks ss = (\<Union>s\<in>set ss. {fst s..<snd s})"

definition slot_ok :: "nat \<Rightarrow> slot \<Rightarrow> bool" where
  "slot_ok limit s \<longleftrightarrow> s = unused \<or> 0 < fst s \<and> fst s < snd s \<and> snd s \<le> limit"

text \<open>Two extents with at least one used track between them; two that do not overlap.\<close>

definition apart :: "slot \<Rightarrow> slot \<Rightarrow> bool" where
  "apart s t \<longleftrightarrow> s = unused \<or> t = unused \<or> snd s < fst t \<or> snd t < fst s"

definition no_overlap :: "slot \<Rightarrow> slot \<Rightarrow> bool" where
  "no_overlap s t \<longleftrightarrow> s = unused \<or> t = unused \<or> snd s \<le> fst t \<or> snd t \<le> fst s"

definition wf_slots :: "nat \<Rightarrow> slot list \<Rightarrow> bool" where
  "wf_slots limit ss \<longleftrightarrow>
     (\<forall>i < length ss. slot_ok limit (ss ! i) \<and> (\<forall>j < length ss. i \<noteq> j \<longrightarrow> apart (ss ! i) (ss ! j)))"

text \<open>The slots while the merging loop runs: slot \<open>k\<close> may touch its neighbours.\<close>

definition merging :: "nat \<Rightarrow> slot list \<Rightarrow> nat \<Rightarrow> bool" where
  "merging limit ss k \<longleftrightarrow> k < length ss \<and> ss ! k \<noteq> unused \<and>
     (\<forall>i < length ss. slot_ok limit (ss ! i) \<and> (i \<noteq> k \<longrightarrow> no_overlap (ss ! i) (ss ! k) \<and>
        (\<forall>j < length ss. i \<noteq> j \<longrightarrow> j \<noteq> k \<longrightarrow> apart (ss ! i) (ss ! j))))"

definition first_unused :: "slot list \<Rightarrow> nat \<Rightarrow> bool" where
  "first_unused ss k \<longleftrightarrow> k < length ss \<and> ss ! k = unused \<and> (\<forall>j < k. ss ! j \<noteq> unused)"

text \<open>How many elements of a list are not empty: the merging loops lower it.\<close>

definition used :: "('e \<Rightarrow> bool) \<Rightarrow> 'e list \<Rightarrow> nat" where
  "used vacant es = length (filter (\<lambda>e. \<not> vacant e) es)"

lemma used_update:
  assumes "i < length es"
  shows "used vacant (es[i := e]) + (if vacant (es ! i) then 0 else 1) =
    used vacant es + (if vacant e then 0 else 1)"
proof -
  have "used vacant es = used vacant (take i es @ es ! i # drop (Suc i) es)"
    by (rule arg_cong [OF id_take_nth_drop [OF assms]])
  then show ?thesis
    using assms by (simp add: used_def upd_conv_take_nth_drop)
qed

text \<open>A merge either lowers the number of used slots or turns an empty slot \<open>k\<close> into a used one.\<close>

lemma merge_lowers:
  assumes "i < length es" and "k < length es" and "\<not> vacant (es ! i)" and "vacant z"
  shows "used vacant (es[i := e, k := z]) < used vacant es \<or>
    used vacant (es[i := e, k := z]) = used vacant es \<and> vacant (es ! k) \<and> \<not> vacant (es[i := e, k := z] ! i)"
  using used_update [OF assms(1), of vacant e] used_update [of k "es[i := e]" vacant z] assms
  by (cases "i = k"; cases "vacant (es ! k)"; cases "vacant e") auto

definition merge_measure :: "('e \<Rightarrow> bool) \<Rightarrow> (('e list \<times> nat \<times> nat) \<times> ('e list \<times> nat \<times> nat)) set" where
  "merge_measure vacant = measures [\<lambda>(es, k, i). used vacant es,
     \<lambda>(es, k, i). if vacant (es ! k) then 1 else 0, \<lambda>(es, k, i). length es - i]"

lemma merge_measure_wf: "wf (merge_measure vacant)"
  by (simp add: merge_measure_def)

lemma merge_measure_next: "i < length es \<Longrightarrow> ((es, k, Suc i), (es, k, i)) \<in> merge_measure vacant"
  by (auto simp: merge_measure_def)

lemma merge_measure_merge:
  assumes "i < length es" and "k < length es" and "\<not> vacant (es ! i)" and "vacant z"
  shows "((es[i := e, k := z], i, 0), (es, k, i)) \<in> merge_measure vacant"
  using merge_lowers [OF assms, of e] by (auto simp: merge_measure_def)

text \<open>The loop that merges slot \<open>k\<close> with the extents it touches, restarting after each merge.\<close>

function merge_slots :: "slot list \<Rightarrow> nat \<Rightarrow> nat \<Rightarrow> slot list" where
  "merge_slots ss k i =
     (if i \<ge> length ss \<or> k \<ge> length ss then ss
      else if ss ! i = unused then merge_slots ss k (Suc i)
      else if snd (ss ! i) = fst (ss ! k)
      then merge_slots (ss[i := (fst (ss ! i), snd (ss ! k)), k := unused]) i 0
      else if fst (ss ! i) = snd (ss ! k)
      then merge_slots (ss[i := (fst (ss ! k), snd (ss ! i)), k := unused]) i 0
      else merge_slots ss k (Suc i))"
  by pat_completeness auto
termination
  by (relation "merge_measure (\<lambda>s. s = unused)")
    (simp_all add: merge_measure_wf merge_measure_next merge_measure_merge)

text \<open>Cutting the tracks \<open>a..<b\<close> out of slot \<open>i\<close>, which contains them.\<close>

definition cut :: "slot list \<Rightarrow> nat \<Rightarrow> nat \<Rightarrow> nat \<Rightarrow> slot list \<Rightarrow> bool" where
  "cut ss i a b ss' \<longleftrightarrow>
     (let (lo, hi) = ss ! i in
      if a = lo \<and> b = hi then ss' = ss[i := unused]
      else if a = lo then ss' = ss[i := (b, hi)]
      else if b = hi then ss' = ss[i := (lo, a)]
      else \<exists>k. first_unused ss k \<and> ss' = ss[i := (lo, a), k := (b, hi)])"

section \<open>The exchange sort\<close>

locale reorg_key =
  fixes before :: "'e \<Rightarrow> 'e \<Rightarrow> bool" and key :: "'e \<Rightarrow> nat"
  assumes before_iff: "before x y \<longleftrightarrow> key x < key y"
begin

lemma step_props:
  assumes "i \<le> j" and "j < length es"
  shows "mset (reorg_step before i j es) = mset es" (is ?A)
    and "length (reorg_step before i j es) = length es" (is ?B)
    and "take i (reorg_step before i j es) = take i es" (is ?C)
    and "key (reorg_step before i j es ! i) = min (key (es ! i)) (key (es ! j))" (is ?D)
    and "\<forall>k. i < k \<and> k \<noteq> j \<longrightarrow> reorg_step before i j es ! k = es ! k" (is ?E)
    and "i < j \<longrightarrow> key (reorg_step before i j es ! j) = max (key (es ! i)) (key (es ! j))" (is ?F)
  using assms by (auto simp: reorg_step_def mset_swap before_iff min_def max_def nth_list_update)

text \<open>After the inner loop slot \<open>i\<close> holds a least element of the slots from \<open>i\<close> on.\<close>

lemma inner_upto:
  assumes "i \<le> m" and "m \<le> length es"
  defines "es' \<equiv> fold (reorg_step before i) [i..<m] es"
  shows "mset es' = mset es \<and> length es' = length es \<and> take i es' = take i es \<and>
    (\<forall>k. m \<le> k \<longrightarrow> i < k \<longrightarrow> es' ! k = es ! k) \<and> (\<forall>k. i \<le> k \<and> k < m \<longrightarrow> key (es' ! i) \<le> key (es' ! k))"
  unfolding es'_def using assms(1,2)
proof (induction m rule: dec_induct)
  case base
  then show ?case by simp
next
  case (step m)
  let ?x = "fold (reorg_step before i) [i..<m] es"
  have IH: "mset ?x = mset es" "length ?x = length es" "take i ?x = take i es"
      "\<forall>k. m \<le> k \<longrightarrow> i < k \<longrightarrow> ?x ! k = es ! k"
      "\<forall>k. i \<le> k \<and> k < m \<longrightarrow> key (?x ! i) \<le> key (?x ! k)"
    using step by auto
  have eq: "fold (reorg_step before i) [i..<Suc m] es = reorg_step before i m ?x"
    using step by simp
  note P = step_props [of i m ?x]
  have m: "i \<le> m" "m < length ?x" using step IH(2) by auto
  have "key (reorg_step before i m ?x ! i) \<le> key (reorg_step before i m ?x ! k)"
    if "i \<le> k" "k < Suc m" for k
    using P(4-6) [OF m] IH(5) that by (cases "k = i"; cases "k = m") (auto simp: min_le_iff_disj)
  then show ?case
    using P(1-3,5) [OF m] IH unfolding eq by auto
qed

lemma inner_props:
  assumes "i < length es"
  shows "mset (reorg_inner before (length es) i es) = mset es"
    and "length (reorg_inner before (length es) i es) = length es"
    and "take i (reorg_inner before (length es) i es) = take i es"
    and "\<forall>k. i \<le> k \<and> k < length es \<longrightarrow>
      key (reorg_inner before (length es) i es ! i) \<le> key (reorg_inner before (length es) i es ! k)"
  using inner_upto [of i "length es" es] assms by (auto simp: reorg_inner_def)

text \<open>The slots before \<open>m\<close> are in order and hold the least elements.\<close>

definition settled :: "nat \<Rightarrow> 'e list \<Rightarrow> bool" where
  "settled m es \<longleftrightarrow> (\<forall>i < m. \<forall>k. i \<le> k \<and> k < length es \<longrightarrow> key (es ! i) \<le> key (es ! k))"

lemma inner_settled:
  assumes "settled m es" and "m < length es"
  shows "settled (Suc m) (reorg_inner before (length es) m es)"
proof -
  let ?r = "reorg_inner before (length es) m es"
  note P = inner_props [OF assms(2)]
  have "mset (drop m ?r) = mset (drop m es)"
    using P(1,3) by (metis append_take_drop_id mset_append union_code add_left_cancel)
  then have set_eq: "set (drop m ?r) = set (drop m es)"
    by (rule mset_eq_setD)
  have "key (?r ! i) \<le> key (?r ! k)" if i: "i < m" and k: "i \<le> k" "k < length es" for i k
  proof (cases "k < m")
    case True
    then have "?r ! k = es ! k" "?r ! i = es ! i"
      using P(3) i by (metis nth_take)+
    then show ?thesis using assms(1) i k by (simp add: settled_def)
  next
    case False
    then have "?r ! k \<in> set (drop m ?r)"
      using k P(2) by (auto simp: in_set_conv_nth intro!: exI [of _ "k - m"])
    then obtain n where n: "n < length es - m" "?r ! k = es ! (m + n)"
      unfolding set_eq by (auto simp: in_set_conv_nth)
    moreover have "?r ! i = es ! i"
      using P(3) i by (metis nth_take)
    ultimately show ?thesis
      using assms(1) i by (auto simp: settled_def)
  qed
  then show ?thesis
    using P(2,4) by (auto simp: settled_def less_Suc_eq)
qed

lemma outer_upto:
  "m \<le> length es \<Longrightarrow> mset (fold (reorg_inner before (length es)) [0..<m] es) = mset es \<and>
    length (fold (reorg_inner before (length es)) [0..<m] es) = length es \<and>
    settled m (fold (reorg_inner before (length es)) [0..<m] es)"
proof (induction m)
  case 0
  then show ?case by (simp add: settled_def)
next
  case (Suc m)
  then show ?case
    using inner_settled [of m "fold (reorg_inner before (length es)) [0..<m] es"]
      inner_props(1,2) [of m "fold (reorg_inner before (length es)) [0..<m] es"] by auto
qed

lemma reorganize_sorts:
  "mset (reorganize before (length es) es) = mset es"
  "length (reorganize before (length es) es) = length es"
  "sorted (map key (reorganize before (length es) es))"
  using outer_upto [of "length es" es]
  by (auto simp: reorganize_def settled_def sorted_iff_nth_mono)

end

text \<open>The sort only exchanges elements, so it keeps what every exchange keeps.\<close>

lemma reorg_step_invariant:
  assumes swap: "\<And>es i j. i < length es \<Longrightarrow> j < length es \<Longrightarrow> P es \<Longrightarrow> P (es[i := es ! j, j := es ! i])"
    and "P es" and "i < length es" and "j < length es"
  shows "P (reorg_step before i j es) \<and> length (reorg_step before i j es) = length es"
  using assms by (simp add: reorg_step_def)

lemma reorganize_invariant:
  assumes swap: "\<And>es i j. i < length es \<Longrightarrow> j < length es \<Longrightarrow> P es \<Longrightarrow> P (es[i := es ! j, j := es ! i])"
    and "P es"
  shows "P (reorganize before (length es) es)"
proof -
  let ?Q = "\<lambda>x. P x \<and> length x = length es"
  have inner: "?Q (reorg_inner before (length es) i x)" if "i < length es" "?Q x" for i x
    unfolding reorg_inner_def
  proof (rule fold_invariant [where Q = "\<lambda>j. i \<le> j \<and> j < length es"])
    fix j y assume "i \<le> j \<and> j < length es" "?Q y"
    then show "?Q (reorg_step before i j y)"
      using reorg_step_invariant [of P y i j before, OF swap] by simp
  qed (use that in auto)
  have "?Q (reorganize before (length es) es)"
    unfolding reorganize_def
    by (rule fold_invariant [where Q = "\<lambda>i. i < length es"]) (use inner assms(2) in auto)
  then show ?thesis by blast
qed

section \<open>Slots\<close>

declare merge_slots.simps [simp del]

lemma unused_simps [simp]:
  "slot_ok limit unused" "apart unused s" "apart s unused" "no_overlap unused s" "no_overlap s unused"
  by (simp_all add: slot_ok_def apart_def no_overlap_def)

lemma tracks_nth: "tracks ss = (\<Union>i<length ss. {fst (ss ! i)..<snd (ss ! i)})"
  by (auto simp: tracks_def set_conv_nth)

lemma tracks_slot: "i < length ss \<Longrightarrow> {fst (ss ! i)..<snd (ss ! i)} \<subseteq> tracks ss"
  by (auto simp: tracks_nth)

lemma tracks_mset: "mset ss = mset ss' \<Longrightarrow> tracks ss = tracks ss'"
  by (auto simp: tracks_def dest!: mset_eq_setD)

lemma wf_slots_single: "slot_ok limit s \<Longrightarrow> wf_slots limit (s # replicate n unused)"
  by (auto simp: wf_slots_def nth_Cons')

lemma tracks_single: "tracks (s # replicate n unused) = {fst s..<snd s}"
  by (auto simp: tracks_def)

lemma tracks_update:
  assumes "i < length ss"
  shows "tracks (ss[i := s]) = (\<Union>j\<in>{..<length ss} - {i}. {fst (ss ! j)..<snd (ss ! j)}) \<union> {fst s..<snd s}"
  using assms by (auto simp: tracks_nth nth_list_update split: if_splits)

lemma tracks_update2:
  assumes "i < length ss" and "k < length ss" and "i \<noteq> k"
  shows "tracks (ss[i := s, k := t]) =
    (\<Union>j\<in>{..<length ss} - {i, k}. {fst (ss ! j)..<snd (ss ! j)}) \<union> {fst s..<snd s} \<union> {fst t..<snd t}"
  using assms by (auto simp: tracks_nth nth_list_update split: if_splits)

lemma merging_neq:
  assumes "merging limit ss k" and "i < length ss" and "ss ! i \<noteq> unused"
    and "snd (ss ! i) = fst (ss ! k) \<or> fst (ss ! i) = snd (ss ! k)"
  shows "i \<noteq> k"
  using assms by (auto simp: merging_def slot_ok_def)

lemma merging_join:
  assumes m: "merging limit ss k" and i: "i < length ss" "ss ! i \<noteq> unused" "i \<noteq> k"
    and s: "snd (ss ! i) = fst (ss ! k) \<and> s = (fst (ss ! i), snd (ss ! k)) \<or>
      fst (ss ! i) = snd (ss ! k) \<and> s = (fst (ss ! k), snd (ss ! i))"
  shows "merging limit (ss[i := s, k := unused]) i" and "tracks (ss[i := s, k := unused]) = tracks ss"
proof -
  have ik: "slot_ok limit (ss ! i)" "slot_ok limit (ss ! k)" "k < length ss" "ss ! k \<noteq> unused"
    using m i by (auto simp: merging_def)
  have s_ok: "slot_ok limit s" "s \<noteq> unused"
    using ik i s by (auto simp: slot_ok_def)
  have "no_overlap (ss ! j) s" if j: "j < length ss" "j \<noteq> i" "j \<noteq> k" for j
  proof -
    have "slot_ok limit (ss ! j)" "no_overlap (ss ! j) (ss ! k)" "apart (ss ! j) (ss ! i)"
      using m i j by (auto simp: merging_def)
    then show ?thesis
      using ik i s by (auto simp: slot_ok_def apart_def no_overlap_def)
  qed
  then show "merging limit (ss[i := s, k := unused]) i"
    using m i ik s_ok by (auto simp: merging_def nth_list_update slot_ok_def [of _ unused] no_overlap_def [of unused])
  let ?U = "\<Union>j\<in>{..<length ss} - {i, k}. {fst (ss ! j)..<snd (ss ! j)}"
  have "tracks (ss[i := s, k := unused]) = ?U \<union> {fst s..<snd s}"
    using tracks_update2 [of i ss k s unused] i ik by simp
  also have "{fst s..<snd s} = {fst (ss ! i)..<snd (ss ! i)} \<union> {fst (ss ! k)..<snd (ss ! k)}"
    using ik i s by (auto simp: slot_ok_def)
  also have "?U \<union> \<dots> = tracks ss"
    using tracks_update2 [OF i(1) ik(3) i(3), of "ss ! i" "ss ! k"]
    unfolding list_update_id by (simp only: Un_assoc)
  finally show "tracks (ss[i := s, k := unused]) = tracks ss" .
qed

lemma merging_done:
  assumes "merging limit ss k"
    and "\<forall>j < length ss. j \<noteq> k \<longrightarrow> ss ! j \<noteq> unused \<longrightarrow>
      snd (ss ! j) \<noteq> fst (ss ! k) \<and> fst (ss ! j) \<noteq> snd (ss ! k)"
  shows "wf_slots limit ss"
proof -
  have "apart (ss ! i) (ss ! k) \<and> apart (ss ! k) (ss ! i)" if "i < length ss" "i \<noteq> k" for i
  proof -
    have "no_overlap (ss ! i) (ss ! k)" using assms(1) that by (auto simp: merging_def)
    with assms(2) that show ?thesis by (auto simp: no_overlap_def apart_def)
  qed
  with assms(1) show ?thesis
    unfolding wf_slots_def merging_def by metis
qed

text \<open>The merging loop ends with separated extents that cover the same tracks.\<close>

lemma merge_slots_correct:
  assumes "merging limit ss k"
    and "\<forall>j < i. j < length ss \<longrightarrow> j \<noteq> k \<longrightarrow> ss ! j \<noteq> unused \<longrightarrow>
      snd (ss ! j) \<noteq> fst (ss ! k) \<and> fst (ss ! j) \<noteq> snd (ss ! k)"
  shows "wf_slots limit (merge_slots ss k i) \<and> tracks (merge_slots ss k i) = tracks ss \<and>
    length (merge_slots ss k i) = length ss"
  using assms
proof (induction ss k i rule: merge_slots.induct)
  case (1 ss k i)
  have k: "k < length ss" using 1(5) by (simp add: merging_def)
  consider "i \<ge> length ss"
    | "i < length ss" "ss ! i \<noteq> unused" "snd (ss ! i) = fst (ss ! k)"
    | "i < length ss" "ss ! i \<noteq> unused" "snd (ss ! i) \<noteq> fst (ss ! k)" "fst (ss ! i) = snd (ss ! k)"
    | "i < length ss" "ss ! i = unused \<or> snd (ss ! i) \<noteq> fst (ss ! k) \<and> fst (ss ! i) \<noteq> snd (ss ! k)"
    by linarith
  then show ?case
  proof cases
    case 1
    then show ?thesis
      using merging_done [OF \<open>merging limit ss k\<close>] \<open>\<forall>j<i. _\<close> by (simp add: merge_slots.simps)
  next
    case 2
    note J = merging_join [OF \<open>merging limit ss k\<close> 2(1,2) merging_neq [OF \<open>merging limit ss k\<close> 2(1,2)]]
    show ?thesis
      using "1.IH"(2) J 2 k by (subst (1 2 3) merge_slots.simps) simp
  next
    case 3
    note J = merging_join [OF \<open>merging limit ss k\<close> 3(1,2) merging_neq [OF \<open>merging limit ss k\<close> 3(1,2)]]
    show ?thesis
      using "1.IH"(3) J 3 k by (subst (1 2 3) merge_slots.simps) simp
  next
    case 4
    then have "merge_slots ss k i = merge_slots ss k (Suc i)"
      using k by (subst merge_slots.simps) auto
    moreover have "\<forall>j<Suc i. j < length ss \<longrightarrow> j \<noteq> k \<longrightarrow> ss ! j \<noteq> unused \<longrightarrow>
        snd (ss ! j) \<noteq> fst (ss ! k) \<and> fst (ss ! j) \<noteq> snd (ss ! k)"
      using 4 \<open>\<forall>j<i. _\<close> by (auto simp: less_Suc_eq)
    ultimately show ?thesis
      using "1.IH"(1,4) 4 k \<open>merging limit ss k\<close> by (cases "ss ! i = unused") simp_all
  qed
qed

lemma wf_slots_swap:
  assumes "i < length ss" and "j < length ss" and "wf_slots limit ss"
  shows "wf_slots limit (ss[i := ss ! j, j := ss ! i])"
  using assms by (auto simp: wf_slots_def nth_list_update)

text \<open>Storing a new extent in an unused slot.\<close>

lemma no_overlap_iff:
  assumes "slot_ok limit s" and "s \<noteq> unused" and "a < b"
  shows "no_overlap s (a, b) \<longleftrightarrow> {fst s..<snd s} \<inter> {a..<b} = {}"
proof -
  have "fst s < snd s" using assms by (auto simp: slot_ok_def)
  with assms(2,3) show ?thesis
    by (auto simp: no_overlap_def)
qed

lemma put_merging:
  assumes "wf_slots limit ss" and "k < length ss" and "ss ! k = unused"
    and "0 < a" "a < b" "b \<le> limit" and "{a..<b} \<inter> tracks ss = {}"
  shows "merging limit (ss[k := (a, b)]) k" and "tracks (ss[k := (a, b)]) = tracks ss \<union> {a..<b}"
proof -
  have "no_overlap (ss ! i) (a, b)" if i: "i < length ss" "i \<noteq> k" for i
  proof (cases "ss ! i = unused")
    case False
    moreover have "{fst (ss ! i)..<snd (ss ! i)} \<inter> {a..<b} = {}"
      using assms(7) i unfolding tracks_nth by blast
    moreover have "slot_ok limit (ss ! i)" using assms(1) i by (simp add: wf_slots_def)
    ultimately show ?thesis using assms(5) no_overlap_iff by blast
  qed simp
  then show "merging limit (ss[k := (a, b)]) k"
    using assms(1-6) by (auto simp: merging_def wf_slots_def nth_list_update slot_ok_def [of _ "(a, b)"])
  show "tracks (ss[k := (a, b)]) = tracks ss \<union> {a..<b}"
    using tracks_update [OF assms(2), of "(a, b)"] tracks_update [OF assms(2), of "ss ! k"]
    unfolding list_update_id by (simp add: assms(3))
qed

lemma add_slots_correct:
  assumes "wf_slots limit ss" and "k < length ss" and "ss ! k = unused"
    and "0 < a" "a < b" "b \<le> limit" and "{a..<b} \<inter> tracks ss = {}"
  shows "wf_slots limit (merge_slots (ss[k := (a, b)]) k 0)"
    and "tracks (merge_slots (ss[k := (a, b)]) k 0) = tracks ss \<union> {a..<b}"
    and "length (merge_slots (ss[k := (a, b)]) k 0) = length ss"
  using merge_slots_correct [OF put_merging(1) [OF assms], of 0] put_merging(2) [OF assms] by auto

lemma merge_slots_same:
  assumes "\<forall>j < length ss. ss ! j \<noteq> unused \<longrightarrow> snd (ss ! j) \<noteq> fst (ss ! k) \<and> fst (ss ! j) \<noteq> snd (ss ! k)"
  shows "merge_slots ss k i = ss"
  using assms
proof (induction ss k i rule: merge_slots.induct)
  case (1 ss k i)
  then show ?case by (subst merge_slots.simps) auto
qed

lemma merge_slots_wf:
  assumes "wf_slots limit ss" and "k < length ss"
  shows "merge_slots ss k i = ss"
proof (rule merge_slots_same, intro allI impI)
  fix j assume j: "j < length ss" "ss ! j \<noteq> unused"
  then have "slot_ok limit (ss ! j)" "slot_ok limit (ss ! k)" "j \<noteq> k \<Longrightarrow> apart (ss ! j) (ss ! k)"
    using assms by (auto simp: wf_slots_def)
  with j show "snd (ss ! j) \<noteq> fst (ss ! k) \<and> fst (ss ! j) \<noteq> snd (ss ! k)"
    by (cases "j = k") (auto simp: slot_ok_def apart_def)
qed

text \<open>A run of free tracks lies in one slot.\<close>

lemma run_in_slot:
  assumes "wf_slots limit ss" and "{a..<b} \<subseteq> tracks ss" and "a < b"
  obtains i where "i < length ss" and "ss ! i \<noteq> unused" and "fst (ss ! i) \<le> a" and "b \<le> snd (ss ! i)"
proof -
  have "a \<in> tracks ss" using assms(2,3) by auto
  then obtain i where i: "i < length ss" "fst (ss ! i) \<le> a" "a < snd (ss ! i)"
    by (auto simp: tracks_nth)
  have "b \<le> snd (ss ! i)"
  proof (rule ccontr)
    assume "\<not> b \<le> snd (ss ! i)"
    then have "snd (ss ! i) \<in> tracks ss" using i assms(2) by auto
    then obtain j where j: "j < length ss" "fst (ss ! j) \<le> snd (ss ! i)" "snd (ss ! i) < snd (ss ! j)"
      by (auto simp: tracks_nth)
    then have "i \<noteq> j" by auto
    then have "apart (ss ! i) (ss ! j)" "slot_ok limit (ss ! i)"
      using assms(1) i j by (auto simp: wf_slots_def)
    with i j show False by (auto simp: apart_def slot_ok_def)
  qed
  with i that show thesis by fastforce
qed

text \<open>Cutting leaves separated extents and takes exactly the given tracks away.\<close>

lemma slots_update_wf:
  assumes "wf_slots limit ss" and "i < length ss" and "slot_ok limit s"
    and "s \<noteq> unused \<longrightarrow> fst (ss ! i) \<le> fst s \<and> snd s \<le> snd (ss ! i)" and "ss ! i \<noteq> unused"
  shows "wf_slots limit (ss[i := s])"
proof -
  have "apart (ss ! j) s \<and> apart s (ss ! j)" if "j < length ss" "j \<noteq> i" for j
  proof -
    have "apart (ss ! j) (ss ! i)" using assms(1,2) that by (auto simp: wf_slots_def)
    then show ?thesis using assms(4,5) by (auto simp: apart_def)
  qed
  then show ?thesis
    using assms(1-3) by (auto simp: wf_slots_def nth_list_update)
qed

lemma slots_split_wf:
  assumes "wf_slots limit ss" and "i < length ss" and "ss ! i = (lo, hi)" and "(lo, hi) \<noteq> unused"
    and "k < length ss" and "ss ! k = unused" and "k \<noteq> i" and "lo < a" "a < b" "b < hi"
  shows "wf_slots limit (ss[i := (lo, a), k := (b, hi)])"
proof -
  have "0 < lo" "hi \<le> limit" using assms(1-4) by (auto simp: wf_slots_def slot_ok_def)
  then have ok: "slot_ok limit (lo, a)" "slot_ok limit (b, hi)"
    using assms(8-10) by (auto simp: slot_ok_def)
  have j: "apart (ss ! j) (lo, a) \<and> apart (lo, a) (ss ! j) \<and> apart (ss ! j) (b, hi) \<and> apart (b, hi) (ss ! j)"
    if "j < length ss" "j \<noteq> i" for j
  proof -
    have "apart (ss ! j) (lo, hi)" using assms(1-3) that by (metis wf_slots_def)
    then show ?thesis using assms(4,8-10) by (auto simp: apart_def)
  qed
  have "apart (lo, a) (b, hi) \<and> apart (b, hi) (lo, a)" using assms(9) by (simp add: apart_def)
  with j ok show ?thesis
    using assms(1,2,5,7) by (auto simp: wf_slots_def nth_list_update)
qed

lemma first_unused_neq: "first_unused ss k \<Longrightarrow> ss ! i \<noteq> unused \<Longrightarrow> k \<noteq> i"
  by (auto simp: first_unused_def)

lemma tracks_remove:
  assumes "wf_slots limit ss" and "i < length ss" and "ss ! i = (lo, hi)" and "lo \<le> a" "a < b" "b \<le> hi"
  shows "tracks ss - {a..<b} =
    (\<Union>j\<in>{..<length ss} - {i}. {fst (ss ! j)..<snd (ss ! j)}) \<union> {lo..<a} \<union> {b..<hi}"
proof -
  have "{fst (ss ! j)..<snd (ss ! j)} \<inter> {a..<b} = {}" if "j < length ss" "j \<noteq> i" for j
  proof -
    have "apart (ss ! j) (lo, hi)" using assms(1-3) that by (metis wf_slots_def)
    then show ?thesis using assms(4-6) by (auto simp: apart_def)
  qed
  moreover have "tracks ss = (\<Union>j\<in>{..<length ss} - {i}. {fst (ss ! j)..<snd (ss ! j)}) \<union> {lo..<hi}"
    using tracks_update [OF assms(2), of "(lo, hi)"] assms(3) by (metis fst_conv list_update_id snd_conv)
  moreover have "{lo..<hi} - {a..<b} = {lo..<a} \<union> {b..<hi}"
    using assms(4-6) by auto
  ultimately show ?thesis by blast
qed

lemma cut_correct:
  assumes wf: "wf_slots limit ss" and i: "i < length ss" "ss ! i = (lo, hi)" "(lo, hi) \<noteq> unused"
    and ab: "lo \<le> a" "a < b" "b \<le> hi" and "cut ss i a b ss'"
  shows "wf_slots limit ss' \<and> tracks ss' = tracks ss - {a..<b} \<and> length ss' = length ss"
proof -
  have ok: "0 < lo" "hi \<le> limit" using wf i by (auto simp: wf_slots_def slot_ok_def)
  note T = tracks_remove [OF wf i(1,2) ab] and W = slots_update_wf [OF wf i(1), unfolded i(2)]
  consider (whole) "a = lo" "b = hi" "ss' = ss[i := unused]"
    | (left) "a = lo" "b < hi" "ss' = ss[i := (b, hi)]"
    | (right) "lo < a" "b = hi" "ss' = ss[i := (lo, a)]"
    | (split) k where "lo < a" "b < hi" "first_unused ss k" "ss' = ss[i := (lo, a), k := (b, hi)]"
    using assms(8) i(2) ab by (auto simp: cut_def Let_def split: if_splits)
  then show ?thesis
  proof cases
    case whole
    then show ?thesis using T W [of unused] i ab by (simp add: tracks_update)
  next
    case left
    then show ?thesis using T W [of "(b, hi)"] i ab ok by (simp add: tracks_update slot_ok_def)
  next
    case right
    then show ?thesis using T W [of "(lo, a)"] i ab ok by (simp add: tracks_update slot_ok_def)
  next
    case split
    then have k: "k < length ss" "ss ! k = unused" "k \<noteq> i"
      using first_unused_neq [of ss k i] i by (auto simp: first_unused_def)
    have "tracks ss' = (\<Union>j\<in>{..<length ss} - {i, k}. {fst (ss ! j)..<snd (ss ! j)}) \<union> {lo..<a} \<union> {b..<hi}"
      using split k i tracks_update2 [of i ss k "(lo, a)" "(b, hi)"] by simp
    also have "(\<Union>j\<in>{..<length ss} - {i, k}. {fst (ss ! j)..<snd (ss ! j)}) =
        (\<Union>j\<in>{..<length ss} - {i}. {fst (ss ! j)..<snd (ss ! j)})"
      using k by auto
    finally have "tracks ss' = tracks ss - {a..<b}" using T by simp
    moreover have "wf_slots limit ss'"
      using slots_split_wf [OF wf i k] split ab by simp
    ultimately show ?thesis using split by simp
  qed
qed

section \<open>The contract of a free-space manager\<close>

text \<open>
  \<open>free\<close> is the set of free tracks of a state; \<open>add\<close> gives the tracks \<open>a..<b\<close> back and \<open>del\<close>
  takes them; \<open>range\<close> says which runs of tracks the manager can describe. Both operations may stop
  with a bug message: the laws say what a call that returns has done.
\<close>

locale freespace =
  fixes wf :: "'s \<Rightarrow> bool" and free :: "'s \<Rightarrow> nat set" and range :: "'s \<Rightarrow> nat \<Rightarrow> nat \<Rightarrow> bool"
    and add del :: "'s \<Rightarrow> nat \<Rightarrow> nat \<Rightarrow> vtoc_bug + 's"
  assumes add_law: "wf s \<Longrightarrow> range s a b \<Longrightarrow> {a..<b} \<inter> free s = {} \<Longrightarrow> add s a b = Inr s' \<Longrightarrow>
      wf s' \<and> free s' = free s \<union> {a..<b} \<and> range s' = range s"
    and del_law: "wf s \<Longrightarrow> range s a b \<Longrightarrow> {a..<b} \<subseteq> free s \<Longrightarrow> del s a b = Inr s' \<Longrightarrow>
      wf s' \<and> free s' = free s - {a..<b} \<and> range s' = range s"
begin

text \<open>Taking tracks and giving them back restores the free space.\<close>

lemma del_add_restores:
  assumes "wf s" and "range s a b" and "{a..<b} \<subseteq> free s" and "del s a b = Inr s1" and "add s1 a b = Inr s2"
  shows "wf s2" and "free s2 = free s"
proof -
  have s1: "wf s1" "free s1 = free s - {a..<b}" "range s1 a b"
    using del_law [OF assms(1-4)] assms(2) by auto
  then have "{a..<b} \<inter> free s1 = {}" by auto
  from add_law [OF s1(1,3) this assms(5)] show "wf s2" "free s2 = free s"
    using s1(2) assms(3) by auto
qed

text \<open>Allocating a list of partitions, as the partitioning tools do, one after the other.\<close>

fun alloc :: "'s \<Rightarrow> (nat \<times> nat) list \<Rightarrow> vtoc_bug + 's" where
  "alloc s [] = Inr s"
| "alloc s ((a, b) # ps) = (case del s a b of Inl e \<Rightarrow> Inl e | Inr s' \<Rightarrow> alloc s' ps)"

lemma alloc_free:
  assumes "wf s" and "\<forall>(a, b) \<in> set ps. range s a b" and "\<forall>(a, b) \<in> set ps. {a..<b} \<subseteq> free s"
    and "pairwise (\<lambda>p q. {fst p..<snd p} \<inter> {fst q..<snd q} = {}) (set ps)" and "distinct ps"
    and "alloc s ps = Inr s'"
  shows "wf s' \<and> free s' = free s - (\<Union>(a, b) \<in> set ps. {a..<b})"
  using assms
proof (induction s ps rule: alloc.induct)
  case (2 s a b ps)
  then obtain s1 where s1: "del s a b = Inr s1" "alloc s1 ps = Inr s'"
    by (auto split: sum.splits)
  have L: "wf s1" "free s1 = free s - {a..<b}" "range s1 = range s"
    using del_law [OF 2(2) _ _ s1(1)] 2(3,4) by auto
  have "\<forall>(c, d) \<in> set ps. {c..<d} \<subseteq> free s1"
  proof clarify
    fix c d x assume "(c, d) \<in> set ps" "x \<in> {c..<d}"
    moreover from this have "{a..<b} \<inter> {c..<d} = {}"
      using 2(5,6) by (auto simp: pairwise_def)
    moreover from calculation have "x \<in> free s"
      using 2(4) by (force simp del: atLeastLessThan_iff)
    ultimately show "x \<in> free s1" using L(2) by auto
  qed
  then have "wf s' \<and> free s' = free s1 - (\<Union>(a, b) \<in> set ps. {a..<b})"
    using "2.IH" [OF s1(1) L(1)] L(3) 2(3,5,6) s1(2) by (auto simp: pairwise_insert)
  then show ?case using L(2) by auto
qed simp

end

end
