(* ===== verification/Vtoc_Free5.thy ===== *)
theory Vtoc_Free5
  imports Vtoc_Labels Vtoc_Extents
begin

text \<open>
  The free-space extents of the FMT5 label, which libvtoc uses for volumes of up to 65536 tracks
  (\<^verbatim>\<open>libvtoc/vtoc.c\<close>: \<^verbatim>\<open>vtoc_reorganize_FMT5_extents\<close>,
  \<^verbatim>\<open>vtoc_update_format5_label_add\<close>, \<^verbatim>\<open>vtoc_update_format5_label_del\<close>).

  The label has 26 extents: \<open>DS5AVEXT\<close>, 7 in \<open>DS5EXTAV\<close> and 18 in \<open>DS5MAVET\<close>; index \<open>i\<close> of
  the code is index \<open>i\<close> of their concatenation \<open>flat5\<close>. An extent is a first track \<open>ds5_t\<close> and a
  length of \<open>ds5_fc\<close> full cylinders and \<open>ds5_ft\<close> tracks, with \<open>trk\<close> tracks per cylinder. The code
  computes in \<^verbatim>\<open>int\<close>; \<open>trk\<close> is the positive number of heads of the disk, and all
  the sums are below \<open>2^31\<close>, so natural numbers are exact. Storing a result into a field of the
  label truncates it to 16 or 8 bits.

  The lemmas show that on well-formed labels the routines implement the abstract slots of
  \<^verbatim>\<open>Vtoc_Extents\<close>, including the cylinder/track carry and borrow.
\<close>

section \<open>Definitions\<close>

definition flat5 :: "format5_label \<Rightarrow> ds5ext list" where
  "flat5 f5 = DS5AVEXT f5 # DS5EXTAV f5 @ DS5MAVET f5"

definition unflat5 :: "format5_label \<Rightarrow> ds5ext list \<Rightarrow> format5_label" where
  "unflat5 f5 es = f5\<lparr>DS5AVEXT := es ! 0, DS5EXTAV := take 7 (drop 1 es), DS5MAVET := drop 8 es\<rparr>"

definition before5 :: "ds5ext \<Rightarrow> ds5ext \<Rightarrow> bool" where
  "before5 ext lst \<longleftrightarrow>
     (ds5_t ext > 0 \<and> ds5_t lst = 0) \<or> (ds5_t ext > 0 \<and> ds5_t ext < ds5_t lst)"

definition vtoc_reorganize_FMT5_extents :: "format5_label \<Rightarrow> format5_label" where
  "vtoc_reorganize_FMT5_extents f5 = unflat5 f5 (reorganize before5 26 (flat5 f5))"

text \<open>\<^verbatim>\<open>t + fc*trk + ft\<close>: the first track behind an extent.\<close>

definition end5 :: "nat \<Rightarrow> u16 \<Rightarrow> u16 \<Rightarrow> u8 \<Rightarrow> nat" where
  "end5 trk t fc ft = unat t + unat fc * trk + unat ft"

abbreviation ext_end5 :: "nat \<Rightarrow> ds5ext \<Rightarrow> nat" where
  "ext_end5 trk e \<equiv> end5 trk (ds5_t e) (ds5_fc e) (ds5_ft e)"

definition empty5 :: "ds5ext \<Rightarrow> bool" where
  "empty5 e \<longleftrightarrow> unat (ds5_t e) + unat (ds5_fc e) + unat (ds5_ft e) = 0"

text \<open>The first loop of the add routine: the overlap test, and the index of the slot for the new extent.\<close>

definition overlaps5 :: "nat \<Rightarrow> u16 \<Rightarrow> u16 \<Rightarrow> u8 \<Rightarrow> ds5ext \<Rightarrow> bool" where
  "overlaps5 trk a b c ext \<longleftrightarrow>
     (a < ds5_t ext \<and> end5 trk a b c > unat (ds5_t ext)) \<or>
     (a > ds5_t ext \<and> ext_end5 trk ext > unat a)"

function add5_scan :: "nat \<Rightarrow> ds5ext list \<Rightarrow> u16 \<Rightarrow> u16 \<Rightarrow> u8 \<Rightarrow> nat \<Rightarrow> vtoc_bug + nat" where
  "add5_scan trk es a b c i =
     (if i \<ge> length es then Inl NoFreeExtent
      else if overlaps5 trk a b c (es ! i) then Inl Overlapping
      else if empty5 (es ! i) then Inr i
      else add5_scan trk es a b c (Suc i))"
  by pat_completeness auto
termination by (relation "measure (\<lambda>(trk, es, a, b, c, i). length es - i)") auto

text \<open>The length of \<^verbatim>\<open>ext\<close> plus the length of \<^verbatim>\<open>tmp\<close>, with the carry of whole cylinders.\<close>

definition join5 :: "nat \<Rightarrow> ds5ext \<Rightarrow> ds5ext \<Rightarrow> ds5ext" where
  "join5 trk ext tmp =
     ext\<lparr>ds5_fc := ds5_fc ext + of_nat (unat (ds5_fc tmp) + (unat (ds5_ft tmp) + unat (ds5_ft ext)) div trk),
         ds5_ft := of_nat ((unat (ds5_ft tmp) + unat (ds5_ft ext)) mod trk)\<rparr>"

text \<open>The second loop: \<open>k\<close> is the index of \<^verbatim>\<open>tmp\<close>; a merge restarts at index 0.\<close>

function merge5 :: "nat \<Rightarrow> ds5ext list \<Rightarrow> nat \<Rightarrow> nat \<Rightarrow> ds5ext list" where
  "merge5 trk es k i =
     (if i \<ge> length es \<or> k \<ge> length es then es
      else if empty5 (es ! i) then merge5 trk es k (Suc i)
      else if ext_end5 trk (es ! i) = unat (ds5_t (es ! k))
      then merge5 trk (es[i := join5 trk (es ! i) (es ! k), k := zero_ds5ext]) i 0
      else if ext_end5 trk (es ! k) = unat (ds5_t (es ! i))
      then merge5 trk (es[i := join5 trk ((es ! i)\<lparr>ds5_t := ds5_t (es ! k)\<rparr>) (es ! k), k := zero_ds5ext]) i 0
      else merge5 trk es k (Suc i))"
  by pat_completeness auto
termination
  by (relation "inv_image (merge_measure empty5) snd")
    (simp_all add: merge_measure_wf merge_measure_next merge_measure_merge zero_ds5ext_def empty5_def)

definition add5 :: "nat \<Rightarrow> ds5ext list \<Rightarrow> u16 \<Rightarrow> u16 \<Rightarrow> u8 \<Rightarrow> vtoc_bug + ds5ext list" where
  "add5 trk es a b c = (case add5_scan trk es a b c 0 of Inl e \<Rightarrow> Inl e
     | Inr k \<Rightarrow> Inr (merge5 trk (es[k := \<lparr>ds5_t = a, ds5_fc = b, ds5_ft = c\<rparr>]) k 0))"

definition vtoc_update_format5_label_add ::
    "format5_label \<Rightarrow> nat \<Rightarrow> u16 \<Rightarrow> u16 \<Rightarrow> u8 \<Rightarrow> vtoc_bug + format5_label" where
  "vtoc_update_format5_label_add f5 trk a b c =
     (case add5 trk (flat5 f5) a b c of Inl e \<Rightarrow> Inl e | Inr es \<Rightarrow> Inr (unflat5 f5 es))"

text \<open>Shortening an extent by \<open>b\<close> cylinders and \<open>c\<close> tracks, with the borrow of a cylinder.\<close>

definition shorten5 :: "nat \<Rightarrow> ds5ext \<Rightarrow> u16 \<Rightarrow> u8 \<Rightarrow> ds5ext" where
  "shorten5 trk ext b c =
     (if c > ds5_ft ext
      then ext\<lparr>ds5_fc := ds5_fc ext - (b + 1), ds5_ft := ds5_ft ext - (c - of_nat trk)\<rparr>
      else ext\<lparr>ds5_fc := ds5_fc ext - b, ds5_ft := ds5_ft ext - c\<rparr>)"

function del5 :: "nat \<Rightarrow> ds5ext list \<Rightarrow> u16 \<Rightarrow> u16 \<Rightarrow> u8 \<Rightarrow> nat \<Rightarrow> vtoc_bug + ds5ext list" where
  "del5 trk es a b c i =
     (if i \<ge> length es then Inl DelNotFound
      else let ext = es ! i; stop = end5 trk a b c in
        if a = ds5_t ext \<and> b = ds5_fc ext \<and> c = ds5_ft ext then Inr (es[i := zero_ds5ext])
        else if a = ds5_t ext \<and> (b < ds5_fc ext \<or> c < ds5_ft ext) then
          Inr (es[i := shorten5 trk (ext\<lparr>ds5_t := of_nat (end5 trk (ds5_t ext) b c)\<rparr>) b c])
        else if ds5_t ext < a \<and> ext_end5 trk ext = stop then
          Inr (es[i := shorten5 trk ext b c])
        else if a > ds5_t ext \<and> ext_end5 trk ext > stop then
          let x = of_nat stop;
              w = (of_nat (ext_end5 trk ext - stop) :: u16);
              y = of_nat (unat w div trk);
              z = of_nat (unat w mod trk);
              es = es[i := ext\<lparr>ds5_fc := of_nat ((unat a - unat (ds5_t ext)) div trk),
                               ds5_ft := of_nat ((unat a - unat (ds5_t ext)) mod trk)\<rparr>]
          in add5 trk es x y z
        else if a < ds5_t ext \<and> stop > unat (ds5_t ext) \<and> stop < ext_end5 trk ext
        then Inl DelMismatch
        else if a > ds5_t ext \<and> unat a < ext_end5 trk ext \<and> stop > ext_end5 trk ext
        then Inl DelMismatch
        else del5 trk es a b c (Suc i))"
  by pat_completeness auto
termination by (relation "measure (\<lambda>(trk, es, a, b, c, i). length es - i)") auto

definition vtoc_update_format5_label_del ::
    "format5_label \<Rightarrow> nat \<Rightarrow> u16 \<Rightarrow> u16 \<Rightarrow> u8 \<Rightarrow> vtoc_bug + format5_label" where
  "vtoc_update_format5_label_del f5 trk a b c =
     (case del5 trk (flat5 f5) a b c 0 of Inl e \<Rightarrow> Inl e | Inr es \<Rightarrow> Inr (unflat5 f5 es))"

text \<open>Well-formed labels and their free tracks.\<close>

definition iv5 :: "nat \<Rightarrow> ds5ext \<Rightarrow> slot" where
  "iv5 trk e = (unat (ds5_t e), ext_end5 trk e)"

abbreviation limit5 :: nat where
  "limit5 \<equiv> 65536"

definition wf_exts5 :: "nat \<Rightarrow> ds5ext list \<Rightarrow> bool" where
  "wf_exts5 trk es \<longleftrightarrow> 0 < trk \<and> trk \<le> 256 \<and> (\<forall>e \<in> set es. unat (ds5_ft e) < trk)"

definition wf5 :: "nat \<Rightarrow> format5_label \<Rightarrow> bool" where
  "wf5 trk f5 \<longleftrightarrow> length (DS5EXTAV f5) = 7 \<and> length (DS5MAVET f5) = 18 \<and>
     wf_exts5 trk (flat5 f5) \<and> wf_slots limit5 (map (iv5 trk) (flat5 f5))"

definition free5 :: "nat \<Rightarrow> format5_label \<Rightarrow> nat set" where
  "free5 trk f5 = tracks (map (iv5 trk) (flat5 f5))"

text \<open>The order the reorganize function sorts by: unused extents last.\<close>

definition key5 :: "ds5ext \<Rightarrow> nat" where
  "key5 e = (if ds5_t e = 0 then 2 ^ 16 else unat (ds5_t e))"

text \<open>A label with one free extent, on a disk with 15 tracks per cylinder.\<close>

definition sample5 :: format5_label where
  "sample5 = vtoc_init_format5_label\<lparr>DS5AVEXT := \<lparr>ds5_t = 2, ds5_fc = 100, ds5_ft = 13\<rparr>\<rparr>"

section \<open>Refinement of the abstract slots\<close>

declare add5_scan.simps [simp del] merge5.simps [simp del] del5.simps [simp del]

lemma iv5_simps [simp]:
  "iv5 trk zero_ds5ext = unused" "fst (iv5 trk e) = unat (ds5_t e)" "snd (iv5 trk e) = ext_end5 trk e"
  "iv5 trk \<lparr>ds5_t = t, ds5_fc = fc, ds5_ft = ft\<rparr> = (unat t, end5 trk t fc ft)"
  by (simp_all add: iv5_def zero_ds5ext_def end5_def)

lemma empty5_iff: "0 < trk \<Longrightarrow> empty5 e \<longleftrightarrow> iv5 trk e = unused"
  by (auto simp: empty5_def iv5_def end5_def)

lemma unat_small:
  "n < 65536 \<Longrightarrow> unat (of_nat n :: u16) = n" "n < 256 \<Longrightarrow> unat (of_nat n :: u8) = n"
  by (simp_all add: unat_of_nat)

text \<open>Adding two lengths with the carry, and subtracting with the borrow.\<close>

lemma join5_length:
  assumes "0 < trk" "trk \<le> 256"
    and n: "unat (ds5_fc e) * trk + unat (ds5_ft e) + unat (ds5_fc t) * trk + unat (ds5_ft t) = n" "n < 65536"
  shows "unat (ds5_fc (join5 trk e t)) * trk + unat (ds5_ft (join5 trk e t)) = n"
    and "unat (ds5_ft (join5 trk e t)) < trk" and "ds5_t (join5 trk e t) = ds5_t e"
proof -
  define s where "s = unat (ds5_ft t) + unat (ds5_ft e)"
  define q where "q = unat (ds5_fc e) + unat (ds5_fc t) + s div trk"
  have sum: "q * trk + s mod trk = n"
    using n(1) div_mult_mod_eq [of s trk] by (simp add: q_def s_def add_mult_distrib)
  have "q \<le> q * trk" using assms(1) by simp
  then have "q < 65536" using sum n(2) by linarith
  then have q: "unat (ds5_fc e + of_nat (unat (ds5_fc t) + s div trk)) = q"
    by (simp add: unat_word_ariths unat_of_nat q_def add.assoc mod_add_right_eq)
  have "s mod trk < trk" using assms(1) by simp
  then have r: "unat (of_nat (s mod trk) :: u8) = s mod trk" "s mod trk < trk"
    using assms(2) by (simp_all add: unat_small)
  show "unat (ds5_fc (join5 trk e t)) * trk + unat (ds5_ft (join5 trk e t)) = n"
    "unat (ds5_ft (join5 trk e t)) < trk" "ds5_t (join5 trk e t) = ds5_t e"
    using q r sum by (simp_all add: join5_def flip: s_def)
qed

lemma shorten5_length:
  assumes "trk \<le> 256" and "unat (ds5_ft e) < trk" and "unat c < trk"
    and "unat b * trk + unat c \<le> unat (ds5_fc e) * trk + unat (ds5_ft e)"
  shows "unat (ds5_fc (shorten5 trk e b c)) * trk + unat (ds5_ft (shorten5 trk e b c)) =
      unat (ds5_fc e) * trk + unat (ds5_ft e) - (unat b * trk + unat c)"
    and "unat (ds5_ft (shorten5 trk e b c)) < trk" and "ds5_t (shorten5 trk e b c) = ds5_t e"
proof -
  show "ds5_t (shorten5 trk e b c) = ds5_t e" by (simp add: shorten5_def)
  have "unat (ds5_fc (shorten5 trk e b c)) * trk + unat (ds5_ft (shorten5 trk e b c)) =
      unat (ds5_fc e) * trk + unat (ds5_ft e) - (unat b * trk + unat c) \<and>
      unat (ds5_ft (shorten5 trk e b c)) < trk"
  proof (cases "c > ds5_ft e")
    case True
    then have c: "unat (ds5_ft e) < unat c" by (simp add: word_less_nat_alt)
    with assms(4) have "unat b * trk < unat (ds5_fc e) * trk" by linarith
    then have "unat b < unat (ds5_fc e)" by simp
    then have 1: "unat (b + 1) = unat b + 1" "b + 1 \<le> ds5_fc e"
      using unsigned_less [of "ds5_fc e", where 'a = nat] by (simp_all add: unat_word_ariths word_le_nat_alt)
    have ft: "unat (ds5_ft e - (c - of_nat trk)) = unat (ds5_ft e) + trk - unat c"
    proof -
      have "(of_nat (unat (ds5_ft e) + trk - unat c) :: u8) = ds5_ft e - (c - of_nat trk)"
        using assms(3) by (simp add: of_nat_diff)
      moreover have "unat (ds5_ft e) + trk - unat c < 256" using c assms(1) by linarith
      ultimately show ?thesis by (metis unat_small(2))
    qed
    have "(unat (ds5_fc e) - (unat b + 1)) * trk = unat (ds5_fc e) * trk - (unat b * trk + trk)"
      by (simp add: diff_mult_distrib)
    moreover have "unat b * trk + trk \<le> unat (ds5_fc e) * trk"
      using mult_le_mono1 [of "unat b + 1" "unat (ds5_fc e)" trk] \<open>unat b < _\<close> by simp
    ultimately show ?thesis
      using True 1 ft c assms(2,3) by (simp add: shorten5_def unat_sub)
  next
    case False
    then have c: "unat c \<le> unat (ds5_ft e)" "c \<le> ds5_ft e" by (simp_all add: word_less_nat_alt word_le_nat_alt)
    have "unat b * trk < (unat (ds5_fc e) + 1) * trk"
      using assms(2,4) by simp
    then have "unat b < unat (ds5_fc e) + 1" by (simp only: mult_less_cancel2)
    then have b: "unat b \<le> unat (ds5_fc e)" "b \<le> ds5_fc e" by (simp_all add: word_le_nat_alt)
    then have "unat b * trk \<le> unat (ds5_fc e) * trk" by simp
    then show ?thesis
      using False b c assms(2) by (simp add: shorten5_def unat_sub diff_mult_distrib)
  qed
  then show "unat (ds5_fc (shorten5 trk e b c)) * trk + unat (ds5_ft (shorten5 trk e b c)) =
      unat (ds5_fc e) * trk + unat (ds5_ft e) - (unat b * trk + unat c)"
    "unat (ds5_ft (shorten5 trk e b c)) < trk" by auto
qed

text \<open>Joining two extents that touch.\<close>

lemma join5_iv:
  assumes "wf_exts5 trk es" and "slot_ok limit5 (iv5 trk e)" "slot_ok limit5 (iv5 trk t)"
    and "iv5 trk e \<noteq> unused" "iv5 trk t \<noteq> unused"
  shows "ext_end5 trk e = unat (ds5_t t) \<Longrightarrow>
      iv5 trk (join5 trk e t) = (unat (ds5_t e), ext_end5 trk t) \<and> unat (ds5_ft (join5 trk e t)) < trk"
    and "ext_end5 trk t = unat (ds5_t e) \<Longrightarrow>
      iv5 trk (join5 trk (e\<lparr>ds5_t := ds5_t t\<rparr>) t) = (unat (ds5_t t), ext_end5 trk e) \<and>
      unat (ds5_ft (join5 trk (e\<lparr>ds5_t := ds5_t t\<rparr>) t)) < trk"
proof -
  have trk: "0 < trk" "trk \<le> 256" using assms(1) by (auto simp: wf_exts5_def)
  define n where "n = unat (ds5_fc e) * trk + unat (ds5_ft e) + unat (ds5_fc t) * trk + unat (ds5_ft t)"
  have b: "0 < unat (ds5_t e)" "ext_end5 trk e \<le> limit5" "0 < unat (ds5_t t)" "ext_end5 trk t \<le> limit5"
    using assms(2-5) by (auto simp: slot_ok_def)
  show "iv5 trk (join5 trk e t) = (unat (ds5_t e), ext_end5 trk t) \<and> unat (ds5_ft (join5 trk e t)) < trk"
    if "ext_end5 trk e = unat (ds5_t t)"
  proof -
    have n: "unat (ds5_t e) + n = ext_end5 trk t" "n < 65536"
      using that b unfolding end5_def n_def by linarith+
    then show ?thesis
      using join5_length [OF trk n_def [symmetric] n(2)] by (simp add: iv5_def end5_def [of _ "ds5_t e"])
  qed
  show "iv5 trk (join5 trk (e\<lparr>ds5_t := ds5_t t\<rparr>) t) = (unat (ds5_t t), ext_end5 trk e) \<and>
      unat (ds5_ft (join5 trk (e\<lparr>ds5_t := ds5_t t\<rparr>) t)) < trk"
    if "ext_end5 trk t = unat (ds5_t e)"
  proof -
    have n: "unat (ds5_t t) + n = ext_end5 trk e" "n < 65536"
      using that b unfolding end5_def n_def by linarith+
    then show ?thesis
      using join5_length [OF trk, of "e\<lparr>ds5_t := ds5_t t\<rparr>" t n] n_def
      by (simp add: iv5_def end5_def [of _ "ds5_t t"])
  qed
qed

lemma wf_exts5_update:
  "wf_exts5 trk es \<Longrightarrow> unat (ds5_ft e) < trk \<Longrightarrow> wf_exts5 trk (es[i := e])"
  using set_update_subset_insert [of es i e] by (auto simp: wf_exts5_def)

lemma wf_exts5_zero: "wf_exts5 trk es \<Longrightarrow> wf_exts5 trk (es[i := zero_ds5ext])"
  by (rule wf_exts5_update) (simp_all add: wf_exts5_def zero_ds5ext_def)

lemma merge5_refines:
  "wf_exts5 trk es \<Longrightarrow> merging limit5 (map (iv5 trk) es) k \<Longrightarrow>
   map (iv5 trk) (merge5 trk es k i) = merge_slots (map (iv5 trk) es) k i \<and> wf_exts5 trk (merge5 trk es k i)"
proof (induction trk es k i rule: merge5.induct)
  case (1 trk es k i)
  let ?ss = "map (iv5 trk) es"
  have k: "k < length es" using "1.prems" by (simp add: merging_def)
  have trk: "0 < trk" using "1.prems" by (simp add: wf_exts5_def)
  show ?case
  proof (cases "i < length es")
    case i: True
    have u: "empty5 (es ! i) \<longleftrightarrow> ?ss ! i = unused"
      using empty5_iff [OF trk, of "es ! i"] i by simp
    have ok: "slot_ok limit5 (iv5 trk (es ! i))" "slot_ok limit5 (iv5 trk (es ! k))" "iv5 trk (es ! k) \<noteq> unused"
      using "1.prems" i k by (auto simp: merging_def)
    note J = join5_iv [OF "1.prems"(1) ok(1,2) _ ok(3)]
    have j: "merging limit5 (?ss[i := s, k := unused]) i"
      if "?ss ! i \<noteq> unused" "snd (?ss ! i) = fst (?ss ! k) \<and> s = (fst (?ss ! i), snd (?ss ! k)) \<or>
        fst (?ss ! i) = snd (?ss ! k) \<and> s = (fst (?ss ! k), snd (?ss ! i))" for s
      using merging_join(1) [OF "1.prems"(2)] merging_neq [OF "1.prems"(2)] that i by auto
    note S = merge5.simps [of trk es k i] merge_slots.simps [of ?ss k i]
    consider "?ss ! i = unused" | "?ss ! i \<noteq> unused" "snd (?ss ! i) = fst (?ss ! k)"
      | "?ss ! i \<noteq> unused" "snd (?ss ! i) \<noteq> fst (?ss ! k)" "fst (?ss ! i) = snd (?ss ! k)"
      | "?ss ! i \<noteq> unused" "snd (?ss ! i) \<noteq> fst (?ss ! k)" "fst (?ss ! i) \<noteq> snd (?ss ! k)"
      by blast
    then show ?thesis
    proof cases
      case 2
      then show ?thesis
        using "1.IH"(2) j [of "(fst (?ss ! i), snd (?ss ! k))"] i k u J(1) "1.prems"(1)
        by (simp add: S map_update wf_exts5_update wf_exts5_zero)
    next
      case 3
      then show ?thesis
        using "1.IH"(3) j [of "(fst (?ss ! k), snd (?ss ! i))"] i k u J(2) "1.prems"(1)
        by (simp add: S map_update wf_exts5_update wf_exts5_zero)
    qed (use "1.IH"(1,4) "1.prems" i k u in \<open>simp_all add: S\<close>)
  next
    case False
    then show ?thesis using "1.prems" by (simp add: merge5.simps merge_slots.simps)
  qed
qed

text \<open>Without overlap the first loop finds the first unused slot.\<close>

lemma add5_scan_free:
  assumes "0 < trk" and "\<forall>e \<in> set es. \<not> overlaps5 trk a b c e"
    and "\<forall>j < i. j < length es \<longrightarrow> iv5 trk (es ! j) \<noteq> unused"
  shows "add5_scan trk es a b c i = Inl NoFreeExtent \<and> (\<forall>e \<in> set es. iv5 trk e \<noteq> unused) \<or>
    (\<exists>k. add5_scan trk es a b c i = Inr k \<and> first_unused (map (iv5 trk) es) k)"
  using assms
proof (induction trk es a b c i rule: add5_scan.induct)
  case (1 trk es a b c i)
  note e = empty5_iff [OF 1(2), of "es ! i"]
  consider (out) "i \<ge> length es" | (free) "i < length es" "iv5 trk (es ! i) = unused"
    | (step) "i < length es" "iv5 trk (es ! i) \<noteq> unused" by linarith
  then show ?case
  proof cases
    case out
    then show ?thesis using 1(4) by (auto simp: add5_scan.simps in_set_conv_nth)
  next
    case free
    then have "add5_scan trk es a b c i = Inr i"
      using e 1(3) by (simp add: add5_scan.simps [of trk es a b c i])
    with free 1(4) show ?thesis by (auto simp: first_unused_def)
  next
    case step
    then have "add5_scan trk es a b c i = add5_scan trk es a b c (Suc i)"
      using e 1(3) by (simp add: add5_scan.simps [of trk es a b c i])
    moreover have "\<forall>j < Suc i. j < length es \<longrightarrow> iv5 trk (es ! j) \<noteq> unused"
      using step 1(4) by (auto simp: less_Suc_eq)
    ultimately show ?thesis
      using 1(1) [OF _ _ _ 1(2,3)] step e 1(3) by simp
  qed
qed

lemma disjoint_no_overlaps5:
  assumes "{unat a..<end5 trk a b c} \<inter> tracks (map (iv5 trk) es) = {}"
    and "\<forall>e \<in> set es. slot_ok limit5 (iv5 trk e)" and "unat a < end5 trk a b c"
  shows "\<forall>e \<in> set es. \<not> overlaps5 trk a b c e"
proof
  fix e assume e: "e \<in> set es"
  then have "{unat (ds5_t e)..<ext_end5 trk e} \<subseteq> tracks (map (iv5 trk) es)"
    by (auto simp: tracks_def)
  with assms(1) have "{unat (ds5_t e)..<ext_end5 trk e} \<inter> {unat a..<end5 trk a b c} = {}" by blast
  moreover have "slot_ok limit5 (iv5 trk e)" using assms(2) e by blast
  ultimately show "\<not> overlaps5 trk a b c e"
    using assms(3) by (auto simp: overlaps5_def word_less_nat_alt slot_ok_def iv5_def)
qed

lemma add5_refines:
  assumes "wf_exts5 trk es" and "wf_slots limit5 (map (iv5 trk) es)"
    and "{unat a..<end5 trk a b c} \<inter> tracks (map (iv5 trk) es) = {}"
    and "0 < a" "unat a < end5 trk a b c" "end5 trk a b c \<le> limit5" "unat c < trk"
  shows "add5 trk es a b c = Inl NoFreeExtent \<and> (\<forall>e \<in> set es. iv5 trk e \<noteq> unused) \<or>
    (\<exists>k es'. add5 trk es a b c = Inr es' \<and> first_unused (map (iv5 trk) es) k \<and> wf_exts5 trk es' \<and>
      map (iv5 trk) es' = merge_slots ((map (iv5 trk) es)[k := (unat a, end5 trk a b c)]) k 0)"
proof -
  have trk: "0 < trk" using assms(1) by (simp add: wf_exts5_def)
  have "\<forall>e \<in> set es. slot_ok limit5 (iv5 trk e)"
    using assms(2) by (auto simp: wf_slots_def in_set_conv_nth)
  from add5_scan_free [OF trk disjoint_no_overlaps5 [OF assms(3) this assms(5)], of 0, simplified]
  show ?thesis
  proof (elim disjE conjE exE, goal_cases)
    case (2 k)
    let ?es = "es[k := \<lparr>ds5_t = a, ds5_fc = b, ds5_ft = c\<rparr>]"
    have k: "k < length (map (iv5 trk) es)" "map (iv5 trk) es ! k = unused"
      using 2 by (auto simp: first_unused_def)
    have "0 < unat a" using assms(4) by (simp add: word_less_nat_alt)
    note P = put_merging(1) [OF assms(2) k this assms(5,6,3)]
    have "wf_exts5 trk ?es" using assms(1,7) by (simp add: wf_exts5_update)
    then show ?case
      using 2 merge5_refines [of trk ?es k 0] P by (auto simp: add5_def map_update)
  qed (auto simp: add5_def)
qed

text \<open>
  Deleting: the loop skips the extents that do not hold the tracks, and cuts them out of the one
  that does.
\<close>

lemma del5_skip:
  assumes "wf_slots limit5 (map (iv5 trk) es)" and "m < length es" and "iv5 trk (es ! m) \<noteq> unused"
    and "ds5_t (es ! m) \<le> a" "unat a < end5 trk a b c" "end5 trk a b c \<le> ext_end5 trk (es ! m)"
    and "i < length es" "i \<noteq> m"
  shows "del5 trk es a b c i = del5 trk es a b c (Suc i)"
proof -
  have "apart (iv5 trk (es ! i)) (iv5 trk (es ! m))" "slot_ok limit5 (iv5 trk (es ! i))" "slot_ok limit5 (iv5 trk (es ! m))"
    using assms(1,2,7,8) by (auto simp: wf_slots_def)
  with assms(3-6) have "ext_end5 trk (es ! i) < unat a \<and> ds5_t (es ! i) < a \<or>
      end5 trk a b c < unat (ds5_t (es ! i)) \<and> a < ds5_t (es ! i)"
    by (auto simp: apart_def slot_ok_def iv5_def word_less_nat_alt word_le_nat_alt)
  with assms(5,7) show ?thesis
    by (subst del5.simps) (auto simp: Let_def)
qed

lemma del5_reaches:
  assumes "wf_slots limit5 (map (iv5 trk) es)" and "m < length es" and "iv5 trk (es ! m) \<noteq> unused"
    and "ds5_t (es ! m) \<le> a" "unat a < end5 trk a b c" "end5 trk a b c \<le> ext_end5 trk (es ! m)"
    and "i \<le> m"
  shows "del5 trk es a b c i = del5 trk es a b c m"
  using assms(7)
proof (induction i rule: inc_induct)
  case (step i)
  then show ?case using del5_skip [OF assms(1-6), of i] assms(2) by simp
qed simp

text \<open>A length below \<open>2^16\<close> as cylinders and tracks.\<close>

lemma end5_of_length:
  assumes "n < 65536" "0 < trk" "trk \<le> 256"
  shows "end5 trk t (of_nat (n div trk)) (of_nat (n mod trk)) = unat t + n"
    and "unat (of_nat (n mod trk) :: u8) < trk"
proof -
  have "n mod trk < trk" using assms(2) by simp
  then have m: "unat (of_nat (n mod trk) :: u8) = n mod trk" "n mod trk < trk"
    using assms(3) by (simp_all add: unat_small)
  have "n div trk \<le> n" by (rule div_le_dividend)
  then have d: "unat (of_nat (n div trk) :: u16) = n div trk"
    using assms(1) by (intro unat_small) linarith
  show "end5 trk t (of_nat (n div trk)) (of_nat (n mod trk)) = unat t + n"
    unfolding end5_def m d using div_mult_mod_eq [of n trk] by linarith
  show "unat (of_nat (n mod trk) :: u8) < trk" using m by simp
qed

lemma shorten5_iv:
  assumes "wf_exts5 trk es" and "e \<in> set es" and "unat c < trk"
    and "unat b * trk + unat c \<le> unat (ds5_fc e) * trk + unat (ds5_ft e)"
  shows "iv5 trk (shorten5 trk (e\<lparr>ds5_t := t\<rparr>) b c) =
      (unat t, unat t + (unat (ds5_fc e) * trk + unat (ds5_ft e)) - (unat b * trk + unat c))"
    and "unat (ds5_ft (shorten5 trk (e\<lparr>ds5_t := t\<rparr>) b c)) < trk"
  using shorten5_length [of trk "e\<lparr>ds5_t := t\<rparr>" c b] assms
  by (auto simp: wf_exts5_def iv5_def end5_def)

lemma cyl_trk_unique:
  assumes "unat b * trk + unat c = unat fc * trk + unat ft" and "unat c < trk" "unat ft < trk"
  shows "b = fc \<and> c = ft"
proof -
  have "(unat c + unat b * trk) mod trk = (unat ft + unat fc * trk) mod trk"
    using assms(1) by (simp add: add.commute)
  then have "unat c = unat ft" using assms(2,3) by simp
  with assms show ?thesis by (auto simp: word_unat_eq_iff)
qed

lemma del5_bounded:
  assumes wf: "wf_exts5 trk es" "wf_slots limit5 (map (iv5 trk) es)" and m: "m < length es"
    and e: "es ! m = e" "iv5 trk e \<noteq> unused" and c: "unat c < trk" "unat a < end5 trk a b c"
    and ab: "ds5_t e = a \<and> end5 trk a b c \<le> ext_end5 trk e \<or>
      ds5_t e < a \<and> end5 trk a b c = ext_end5 trk e"
  shows "\<exists>es'. del5 trk es a b c m = Inr es' \<and> wf_exts5 trk es' \<and>
    cut (map (iv5 trk) es) m (unat a) (end5 trk a b c) (map (iv5 trk) es')"
proof -
  define n where "n = unat b * trk + unat c"
  define l where "l = unat (ds5_fc e) * trk + unat (ds5_ft e)"
  have stop: "end5 trk a b c = unat a + n" and hi: "ext_end5 trk e = unat (ds5_t e) + l"
    by (simp_all add: end5_def n_def l_def)
  have in_es: "e \<in> set es" using m e by auto
  have ft: "unat (ds5_ft e) < trk" using wf(1) in_es by (auto simp: wf_exts5_def)
  have lim: "ext_end5 trk e \<le> limit5" using wf(2) m e by (auto simp: wf_slots_def slot_ok_def)
  have nl: "n \<le> l" using ab stop hi by (auto simp: word_less_nat_alt)
  note S = shorten5_iv [OF wf(1) in_es c(1) nl [unfolded n_def l_def], folded n_def l_def]
  consider (whole) "ds5_t e = a" "b = ds5_fc e" "c = ds5_ft e"
    | (left) "ds5_t e = a" "n < l" | (right) "ds5_t e < a" "unat a + n = unat (ds5_t e) + l"
    using ab stop hi cyl_trk_unique [of b trk c "ds5_fc e" "ds5_ft e"] c(1) ft
    by (fastforce simp: n_def l_def)
  then show ?thesis
  proof cases
    case whole
    then have "del5 trk es a b c m = Inr (es[m := zero_ds5ext])"
      using m e by (subst del5.simps) (simp add: Let_def)
    then show ?thesis
      using whole m e wf(1) by (auto simp: cut_def iv5_def [of trk e] map_update wf_exts5_zero)
  next
    case left
    let ?t = "of_nat (end5 trk (ds5_t e) b c) :: u16"
    have t: "unat ?t = unat a + n"
      using left lim hi stop by (subst unat_small) simp_all
    have "b < ds5_fc e \<or> c < ds5_ft e"
    proof (rule ccontr)
      assume "\<not> (b < ds5_fc e \<or> c < ds5_ft e)"
      then have "unat (ds5_fc e) * trk \<le> unat b * trk" "unat (ds5_ft e) \<le> unat c"
        by (simp_all add: word_less_nat_alt not_less)
      with left(2) show False by (simp add: n_def l_def)
    qed
    then have "del5 trk es a b c m = Inr (es[m := shorten5 trk (e\<lparr>ds5_t := ?t\<rparr>) b c])"
      using m e left by (subst del5.simps) (auto simp: Let_def n_def l_def)
    moreover have "iv5 trk (shorten5 trk (e\<lparr>ds5_t := ?t\<rparr>) b c) = (unat a + n, ext_end5 trk e)"
      using S(1) [of ?t] left hi unfolding t by simp
    ultimately show ?thesis
      using m e left wf(1) S(2) hi stop
      by (auto simp: cut_def iv5_def [of trk e] map_update wf_exts5_update)
  next
    case right
    have "del5 trk es a b c m = Inr (es[m := shorten5 trk e b c])"
      using m e right hi stop by (subst del5.simps) (auto simp: Let_def)
    moreover have "iv5 trk (shorten5 trk e b c) = (unat (ds5_t e), unat a)"
      using S(1) [of "ds5_t e"] right by simp
    ultimately show ?thesis
      using m e right wf(1) S(2) [of "ds5_t e"] hi stop
      by (auto simp: cut_def iv5_def [of trk e] map_update wf_exts5_update word_less_nat_alt)
  qed
qed

lemma del5_middle:
  assumes wf: "wf_exts5 trk es" "wf_slots limit5 (map (iv5 trk) es)" and m: "m < length es"
    and e: "es ! m = e" "iv5 trk e \<noteq> unused" and c: "unat a < end5 trk a b c"
    and ab: "ds5_t e < a" "end5 trk a b c < ext_end5 trk e"
  shows "(\<exists>es'. del5 trk es a b c m = Inr es' \<and> wf_exts5 trk es' \<and>
      cut (map (iv5 trk) es) m (unat a) (end5 trk a b c) (map (iv5 trk) es')) \<or>
    del5 trk es a b c m = Inl NoFreeExtent \<and> (\<forall>x \<in> set es. iv5 trk x \<noteq> unused)"
proof -
  let ?ss = "map (iv5 trk) es" and ?lo = "unat (ds5_t e)" and ?hi = "ext_end5 trk e" and ?stop = "end5 trk a b c"
  define e1 where "e1 = e\<lparr>ds5_fc := of_nat ((unat a - ?lo) div trk), ds5_ft := of_nat ((unat a - ?lo) mod trk)\<rparr>"
  define x where "x = (of_nat ?stop :: u16)"
  define y where "y = (of_nat ((?hi - ?stop) div trk) :: u16)"
  define z where "z = (of_nat ((?hi - ?stop) mod trk) :: u8)"
  have trk: "0 < trk" "trk \<le> 256" using wf(1) by (auto simp: wf_exts5_def)
  have lo: "0 < ?lo" "?hi \<le> limit5" using wf(2) m e by (auto simp: wf_slots_def slot_ok_def)
  have lt: "?lo < unat a" using ab(1) by (simp add: word_less_nat_alt)
  have x: "unat x = ?stop" using ab(2) lo by (simp add: x_def unat_small)
  have w: "?hi - ?stop < 65536" "unat (of_nat (?hi - ?stop) :: u16) = ?hi - ?stop"
    using c lo by (simp_all add: unat_small)
  have z: "end5 trk x y z = ?hi" "unat z < trk"
    using end5_of_length(1) [OF w(1) trk, of x] end5_of_length(2) [OF w(1) trk] x ab(2) by (simp_all add: y_def z_def)
  have e1: "iv5 trk e1 = (?lo, unat a)" "unat (ds5_ft e1) < trk"
    using end5_of_length(1) [of "unat a - ?lo" trk "ds5_t e"] end5_of_length(2) [of "unat a - ?lo" trk] lt trk unsigned_less [of a, where 'a = nat]
    by (simp_all add: e1_def iv5_def)
  have ss1: "map (iv5 trk) (es[m := e1]) = ?ss[m := (?lo, unat a)]" by (simp add: map_update e1)
  have cut1: "cut ?ss m (unat a) ?hi (?ss[m := (?lo, unat a)])"
    using lt m e by (auto simp: cut_def iv5_def [of trk e])
  have C1: "wf_slots limit5 (?ss[m := (?lo, unat a)]) \<and> tracks (?ss[m := (?lo, unat a)]) = tracks ?ss - {unat a..<?hi}"
    using cut_correct [OF wf(2) _ _ _ _ _ _ cut1, of ?lo ?hi] m e lt c ab(2) lo by (simp add: iv5_def)
  have dis: "{unat x..<end5 trk x y z} \<inter> tracks (map (iv5 trk) (es[m := e1])) = {}"
    unfolding ss1 x z using C1 c by auto
  have del: "del5 trk es a b c m = add5 trk (es[m := e1]) x y z"
    using m e ab c w(2) by (subst del5.simps) (auto simp: Let_def x_def y_def z_def e1_def)
  have xpos: "0 < x" "unat x < end5 trk x y z" "end5 trk x y z \<le> limit5"
    using x z ab(2) lo c by (auto simp: word_less_nat_alt)
  have wf1: "wf_exts5 trk (es[m := e1])" using wf(1) e1(2) by (rule wf_exts5_update)
  have wf2: "wf_slots limit5 (map (iv5 trk) (es[m := e1]))" using C1 ss1 by simp
  from add5_refines [OF wf1 wf2 dis xpos z(2)] show ?thesis
  proof (elim disjE conjE exE, goal_cases)
    case 1
    then have "\<forall>x \<in> set es. iv5 trk x \<noteq> unused"
      using m e by (metis in_set_conv_nth length_list_update nth_list_update_neq)
    with 1 show ?case by (simp add: del)
  next
    case (2 k es')
    then have k: "k < length ?ss" "?ss ! k = unused" "k \<noteq> m" "first_unused ?ss k"
      using m e lo lt by (auto simp: ss1 first_unused_def nth_list_update split: if_splits)
    have m': "m < length ?ss" "?ss ! m = (?lo, ?hi)" "(?lo, ?hi) \<noteq> unused"
      using m e by (auto simp: iv5_def)
    have "wf_slots limit5 (?ss[m := (?lo, unat a), k := (?stop, ?hi)])"
      using slots_split_wf [OF wf(2) m' k(1-3) lt c ab(2)] .
    then have "map (iv5 trk) es' = ?ss[m := (?lo, unat a), k := (?stop, ?hi)]"
      using 2 k(1) merge_slots_wf [of limit5 "?ss[m := (?lo, unat a), k := (?stop, ?hi)]" k 0]
      unfolding ss1 x z(1) by simp
    moreover have "cut ?ss m (unat a) ?stop (?ss[m := (?lo, unat a), k := (?stop, ?hi)])"
      using m' k(4) lt ab(2) by (auto simp: cut_def)
    ultimately show ?case using 2 by (auto simp: del)
  qed
qed

section \<open>The label routines\<close>

lemma flat5_unflat5: "length es = 26 \<Longrightarrow> flat5 (unflat5 f5 es) = es"
  by (cases es) (simp_all add: flat5_def unflat5_def flip: append_take_drop_id [of 7 "tl es"])

lemma length_flat5: "wf5 trk f5 \<Longrightarrow> length (flat5 f5) = 26"
  by (simp add: wf5_def flat5_def)

lemma wf5_unflat5:
  "wf5 trk f5 \<Longrightarrow> wf_exts5 trk es \<Longrightarrow> wf_slots limit5 (map (iv5 trk) es) \<Longrightarrow> length es = 26 \<Longrightarrow>
   wf5 trk (unflat5 f5 es)"
  by (simp add: wf5_def flat5_unflat5) (simp add: unflat5_def)

lemma add5_label:
  assumes "wf5 trk f5" and "0 < a" "unat a < end5 trk a b c" "end5 trk a b c \<le> limit5" "unat c < trk"
    and "{unat a..<end5 trk a b c} \<inter> free5 trk f5 = {}"
  shows "case vtoc_update_format5_label_add f5 trk a b c of
      Inl e \<Rightarrow> e = NoFreeExtent \<and> (\<forall>x \<in> set (flat5 f5). iv5 trk x \<noteq> unused)
    | Inr f5' \<Rightarrow> wf5 trk f5' \<and> free5 trk f5' = free5 trk f5 \<union> {unat a..<end5 trk a b c}"
proof -
  have wf: "wf_exts5 trk (flat5 f5)" "wf_slots limit5 (map (iv5 trk) (flat5 f5))"
    using assms(1) by (auto simp: wf5_def)
  have a: "0 < unat a" using assms(2) by (simp add: word_less_nat_alt)
  from add5_refines [OF wf assms(6)[unfolded free5_def] assms(2-5)] show ?thesis
  proof (elim disjE conjE exE, goal_cases)
    case (2 k es')
    have k: "k < length (map (iv5 trk) (flat5 f5))" "map (iv5 trk) (flat5 f5) ! k = unused"
      using 2(2) by (auto simp: first_unused_def)
    note C = add_slots_correct [OF wf(2) k a assms(3,4) assms(6)[unfolded free5_def], folded 2(4)]
    have "length es' = 26" using C(3) length_flat5 [OF assms(1)] by simp
    then show ?case
      using C(1,2) 2(1,3) wf5_unflat5 [OF assms(1), of es']
      by (simp add: vtoc_update_format5_label_add_def free5_def flat5_unflat5)
  qed (simp add: vtoc_update_format5_label_add_def)
qed

lemma del5_label:
  assumes "wf5 trk f5" and "unat a < end5 trk a b c" "unat c < trk"
    and "{unat a..<end5 trk a b c} \<subseteq> free5 trk f5"
  shows "case vtoc_update_format5_label_del f5 trk a b c of
      Inl e \<Rightarrow> e = NoFreeExtent \<and> (\<forall>x \<in> set (flat5 f5). iv5 trk x \<noteq> unused)
    | Inr f5' \<Rightarrow> wf5 trk f5' \<and> free5 trk f5' = free5 trk f5 - {unat a..<end5 trk a b c}"
proof -
  let ?es = "flat5 f5" and ?stop = "end5 trk a b c"
  have wf: "wf_exts5 trk ?es" "wf_slots limit5 (map (iv5 trk) ?es)"
    using assms(1) by (auto simp: wf5_def)
  obtain m where m: "m < length ?es" "iv5 trk (?es ! m) \<noteq> unused"
      and c: "ds5_t (?es ! m) \<le> a" "?stop \<le> ext_end5 trk (?es ! m)"
    using run_in_slot [OF wf(2) assms(4)[unfolded free5_def] assms(2)] by (auto simp: word_le_nat_alt)
  have "(\<exists>es'. del5 trk ?es a b c m = Inr es' \<and> wf_exts5 trk es' \<and>
      cut (map (iv5 trk) ?es) m (unat a) ?stop (map (iv5 trk) es')) \<or>
    del5 trk ?es a b c m = Inl NoFreeExtent \<and> (\<forall>x \<in> set ?es. iv5 trk x \<noteq> unused)"
  proof (cases "ds5_t (?es ! m) < a \<and> ?stop < ext_end5 trk (?es ! m)")
    case True
    then show ?thesis using del5_middle [OF wf m(1) refl m(2) assms(2)] by blast
  next
    case False
    then show ?thesis
      using del5_bounded [OF wf m(1) refl m(2) assms(3,2)] c by (auto simp: order_le_less)
  qed
  moreover note R = del5_reaches [OF wf(2) m c(1) assms(2) c(2), of 0]
  ultimately show ?thesis
  proof (elim disjE conjE exE, goal_cases)
    case (1 es')
    have "wf_slots limit5 (map (iv5 trk) es') \<and> tracks (map (iv5 trk) es') = free5 trk f5 - {unat a..<?stop} \<and>
        length (map (iv5 trk) es') = length (map (iv5 trk) ?es)"
      using cut_correct [OF wf(2) _ _ _ _ assms(2) _ 1(4), of "unat (ds5_t (?es ! m))" "ext_end5 trk (?es ! m)"] m c
      by (simp add: free5_def word_le_nat_alt iv5_def [of trk "?es ! m"])
    then show ?case
      using 1 R length_flat5 [OF assms(1)] wf5_unflat5 [OF assms(1), of es']
      by (simp add: vtoc_update_format5_label_del_def free5_def flat5_unflat5)
  next
    case 2
    then show ?case using R by (simp add: vtoc_update_format5_label_del_def)
  qed
qed

interpretation r5: reorg_key before5 key5
proof unfold_locales
  fix x y
  show "before5 x y \<longleftrightarrow> key5 x < key5 y"
    using unsigned_less [of "ds5_t x", where 'a = nat] unsigned_less [of "ds5_t y", where 'a = nat]
    by (auto simp: before5_def key5_def word_less_nat_alt unat_gt_0)
qed

lemma reorg5_label:
  assumes "wf5 trk f5"
  defines "f5' \<equiv> vtoc_reorganize_FMT5_extents f5"
  shows "wf5 trk f5' \<and> free5 trk f5' = free5 trk f5 \<and> mset (flat5 f5') = mset (flat5 f5) \<and>
    sorted (map key5 (flat5 f5'))"
proof -
  let ?es = "flat5 f5" and ?r = "reorganize before5 26 (flat5 f5)"
  have len: "length ?es = 26" by (rule length_flat5 [OF assms(1)])
  have "wf_slots limit5 (map (iv5 trk) ?r)"
  proof -
    have "wf_slots limit5 (map (iv5 trk) (es[i := es ! j, j := es ! i]))"
      if "i < length es" "j < length es" "wf_slots limit5 (map (iv5 trk) es)" for es i j
      using wf_slots_swap [of i "map (iv5 trk) es" j limit5] that by (simp add: map_update)
    then show ?thesis
      using reorganize_invariant [of "\<lambda>es. wf_slots limit5 (map (iv5 trk) es)" ?es before5] assms(1)
      unfolding len wf5_def by blast
  qed
  moreover have r: "mset ?r = mset ?es" "length ?r = 26" "sorted (map key5 ?r)"
    using r5.reorganize_sorts [of ?es] len by simp_all
  moreover from r(1) have "tracks (map (iv5 trk) ?r) = tracks (map (iv5 trk) ?es)"
    by (intro tracks_mset) simp
  moreover have "wf_exts5 trk ?r"
    using assms(1) mset_eq_setD [OF r(1)] by (simp add: wf5_def wf_exts5_def)
  ultimately show ?thesis
    using wf5_unflat5 [OF assms(1), of ?r]
    by (simp add: f5'_def vtoc_reorganize_FMT5_extents_def free5_def flat5_unflat5)
qed

lemma sample5_flat:
  "flat5 sample5 = \<lparr>ds5_t = 2, ds5_fc = 100, ds5_ft = 13\<rparr> # replicate 25 zero_ds5ext"
  by (simp add: flat5_def sample5_def vtoc_init_format5_label_def flip: replicate_add)

lemma sample5_wf: "wf5 15 sample5" "free5 15 sample5 = {2..<1515}"
proof -
  have iv: "map (iv5 15) (flat5 sample5) = (2, 1515) # replicate 25 unused"
    by (simp add: sample5_flat end5_def)
  have "wf_slots limit5 (map (iv5 15) (flat5 sample5))"
    unfolding iv by (rule wf_slots_single) (simp add: slot_ok_def)
  moreover have "wf_exts5 15 (flat5 sample5)"
    by (simp add: wf_exts5_def sample5_flat zero_ds5ext_def)
  ultimately show "wf5 15 sample5"
    by (simp add: wf5_def) (simp add: sample5_def vtoc_init_format5_label_def)
  show "free5 15 sample5 = {2..<1515}"
    using tracks_single [of "(2, 1515)" 25] by (simp add: free5_def iv)
qed

text \<open>
  The test for a request at the start of an extent, \<^verbatim>\<open>(b < fc) || (c < ft)\<close>, also accepts
  requests that are longer than the extent: deleting 200 cylinders from an extent of 100 cylinders and
  13 tracks returns, with a cylinder count that has wrapped around.
\<close>

lemma format5_del_oversized:
  "vtoc_update_format5_label_del sample5 15 2 200 0 =
     Inr (sample5\<lparr>DS5AVEXT := \<lparr>ds5_t = 3002, ds5_fc = 65436, ds5_ft = 13\<rparr>\<rparr>)"
proof -
  have "del5 15 (flat5 sample5) 2 200 0 0 =
      Inr (\<lparr>ds5_t = 3002, ds5_fc = 65436, ds5_ft = 13\<rparr> # replicate 25 zero_ds5ext)"
    by (simp add: sample5_flat del5.simps [of 15 _ 2 200 0 0] end5_def shorten5_def)
  moreover have "take 7 (replicate 25 zero_ds5ext) = replicate 7 zero_ds5ext"
      "drop 7 (replicate 25 zero_ds5ext) = replicate 18 zero_ds5ext"
    by (simp_all add: take_replicate drop_replicate)
  ultimately show ?thesis
    by (simp add: vtoc_update_format5_label_del_def unflat5_def sample5_def vtoc_init_format5_label_def)
qed

section \<open>Properties\<close>

text \<open>
  C21. Adding an extent of \<open>b\<close> cylinders and \<open>c\<close> tracks that are not free yet to a well-formed FMT5
  label gives a well-formed label whose free tracks are the old ones and the new ones: the merging
  of neighbours carries tracks into cylinders correctly. The routine stops only when all 26 slots
  are taken.
\<close>

theorem vtoc_format5_add_union:
  assumes "wf5 trk f5" and "0 < a" "unat a < end5 trk a b c" "end5 trk a b c \<le> limit5" "unat c < trk"
    and "{unat a..<end5 trk a b c} \<inter> free5 trk f5 = {}"
  shows "case vtoc_update_format5_label_add f5 trk a b c of
      Inl e \<Rightarrow> e = NoFreeExtent \<and> (\<forall>x \<in> set (flat5 f5). iv5 trk x \<noteq> unused)
    | Inr f5' \<Rightarrow> wf5 trk f5' \<and> free5 trk f5' = free5 trk f5 \<union> {unat a..<end5 trk a b c}"
  using add5_label [OF assms] .

theorem vtoc_format5_add_union_witness:
  "case vtoc_update_format5_label_add sample5 15 1515 10 2 of
      Inl e \<Rightarrow> False | Inr f5' \<Rightarrow> wf5 15 f5' \<and> free5 15 f5' = {2..<1667}"
proof -
  have "{1515..<1667} \<inter> {2..<1515} = ({} :: nat set)" by (simp add: ivl_disj_int_two)
  moreover have "{2..<1515} \<union> {1515..<1667} = {2..<1667 :: nat}"
    by (rule ivl_disj_un_two(3)) simp_all
  ultimately show ?thesis
    using vtoc_format5_add_union [of 15 sample5 1515 10 2]
    by (simp add: sample5_wf sample5_flat end5_def split: sum.splits)
qed

text \<open>
  C11. Deleting \<open>b\<close> cylinders and \<open>c\<close> tracks of free space from a well-formed FMT5 label, whether
  they are a whole extent, one of its ends (with the borrow of a cylinder) or its middle, leaves a
  well-formed label whose free tracks are exactly the others; the routine fails only if it needs a
  slot and all 26 are taken.
\<close>

theorem vtoc_format5_del_difference:
  assumes "wf5 trk f5" and "unat a < end5 trk a b c" "unat c < trk"
    and "{unat a..<end5 trk a b c} \<subseteq> free5 trk f5"
  shows "case vtoc_update_format5_label_del f5 trk a b c of
      Inl e \<Rightarrow> e = NoFreeExtent \<and> (\<forall>x \<in> set (flat5 f5). iv5 trk x \<noteq> unused)
    | Inr f5' \<Rightarrow> wf5 trk f5' \<and> free5 trk f5' = free5 trk f5 - {unat a..<end5 trk a b c}"
  using del5_label [OF assms] .

theorem vtoc_format5_del_difference_witness:
  "case vtoc_update_format5_label_del sample5 15 100 3 14 of
      Inl e \<Rightarrow> False | Inr f5' \<Rightarrow> wf5 15 f5' \<and> free5 15 f5' = {2..<100} \<union> {159..<1515}"
proof -
  have "{2..<1515} - {100..<159} = {2..<100} \<union> {159..<1515 :: nat}"
    by (rule set_eqI) (simp, arith)
  moreover have "{100..<159} \<subseteq> {2..<1515 :: nat}" by simp
  ultimately show ?thesis
    using vtoc_format5_del_difference [of 15 sample5 100 3 14]
    by (simp add: sample5_wf sample5_flat end5_def split: sum.splits)
qed

text \<open>
  Reorganizing an FMT5 label permutes its 26 extents into ascending order of their first track
  with the unused ones last, and keeps the free tracks and well-formedness.
\<close>

theorem vtoc_reorganize_FMT5_sorts:
  assumes "wf5 trk f5"
  shows "wf5 trk (vtoc_reorganize_FMT5_extents f5) \<and>
    free5 trk (vtoc_reorganize_FMT5_extents f5) = free5 trk f5 \<and>
    mset (flat5 (vtoc_reorganize_FMT5_extents f5)) = mset (flat5 f5) \<and>
    sorted (map key5 (flat5 (vtoc_reorganize_FMT5_extents f5)))"
  using reorg5_label [OF assms] .

theorem vtoc_reorganize_FMT5_sorts_witness:
  "wf5 15 (vtoc_reorganize_FMT5_extents sample5) \<and> free5 15 (vtoc_reorganize_FMT5_extents sample5) = {2..<1515}"
  using vtoc_reorganize_FMT5_sorts [OF sample5_wf(1)] by (simp add: sample5_wf)

end
