(* ===== verification/Vtoc_Free7.thy ===== *)
theory Vtoc_Free7
  imports Vtoc_Labels Vtoc_Extents
begin

text \<open>
  The free-space extents of the FMT7 label, which libvtoc uses for volumes of more than 65536
  tracks (\<^verbatim>\<open>libvtoc/vtoc.c\<close>: \<^verbatim>\<open>vtoc_reorganize_FMT7_extents\<close>,
  \<^verbatim>\<open>vtoc_update_format7_label_add\<close>, \<^verbatim>\<open>vtoc_update_format7_label_del\<close>).

  The label has 5 extents in \<open>DS7EXTNT\<close> and 11 in \<open>DS7ADEXT\<close>; the code selects
  extent \<open>i\<close> of 16 from the two arrays, which is index \<open>i\<close> of their concatenation \<open>flat7\<close>. An extent
  is the tracks \<open>ds7_a..<ds7_b\<close>. The flag \<open>verbose\<close> only controls messages and is left out; a
  message followed by \<^verbatim>\<open>exit(1)\<close> is an \<open>Inl\<close> result.

  The lemmas show that on well-formed labels the routines implement the abstract slots of
  \<^verbatim>\<open>Vtoc_Extents\<close>: adding gives the union, deleting the difference of the free tracks, the
  extents stay separated, and reorganizing sorts them.
\<close>

section \<open>Definitions\<close>

definition flat7 :: "format7_label \<Rightarrow> ds7ext list" where
  "flat7 f7 = DS7EXTNT f7 @ DS7ADEXT f7"

definition unflat7 :: "format7_label \<Rightarrow> ds7ext list \<Rightarrow> format7_label" where
  "unflat7 f7 es = f7\<lparr>DS7EXTNT := take 5 es, DS7ADEXT := drop 5 es\<rparr>"

definition before7 :: "ds7ext \<Rightarrow> ds7ext \<Rightarrow> bool" where
  "before7 ext lst \<longleftrightarrow>
     (ds7_a ext > 0 \<and> ds7_a lst = 0) \<or> (ds7_a ext > 0 \<and> ds7_a ext < ds7_a lst)"

definition vtoc_reorganize_FMT7_extents :: "format7_label \<Rightarrow> format7_label" where
  "vtoc_reorganize_FMT7_extents f7 = unflat7 f7 (reorganize before7 16 (flat7 f7))"

text \<open>The first loop of the add routine: the overlap test, and the index of the slot for the new extent.\<close>

definition overlaps7 :: "u32 \<Rightarrow> u32 \<Rightarrow> ds7ext \<Rightarrow> bool" where
  "overlaps7 a b ext \<longleftrightarrow> (a < ds7_a ext \<and> b > ds7_a ext \<and> b < ds7_b ext) \<or>
     (a > ds7_a ext \<and> a < ds7_b ext \<and> b > ds7_b ext)"

function add7_scan :: "ds7ext list \<Rightarrow> u32 \<Rightarrow> u32 \<Rightarrow> nat \<Rightarrow> vtoc_bug + nat" where
  "add7_scan es a b i =
     (if i \<ge> length es then Inl NoFreeExtent
      else let ext = es ! i in
        if overlaps7 a b ext then Inl Overlapping
        else if ds7_a ext + ds7_b ext = 0 then Inr i
        else add7_scan es a b (Suc i))"
  by pat_completeness auto
termination by (relation "measure (\<lambda>(es, a, b, i). length es - i)") auto

text \<open>The second loop: \<open>k\<close> is the index of \<^verbatim>\<open>tmp\<close>; a merge restarts at index 0.\<close>

function merge7 :: "ds7ext list \<Rightarrow> nat \<Rightarrow> nat \<Rightarrow> ds7ext list" where
  "merge7 es k i =
     (if i \<ge> length es \<or> k \<ge> length es then es
      else if ds7_a (es ! i) + ds7_b (es ! i) = 0 then merge7 es k (Suc i)
      else if ds7_b (es ! i) = ds7_a (es ! k)
      then merge7 (es[i := (es ! i)\<lparr>ds7_b := ds7_b (es ! k)\<rparr>, k := zero_ds7ext]) i 0
      else if ds7_a (es ! i) = ds7_b (es ! k)
      then merge7 (es[i := (es ! i)\<lparr>ds7_a := ds7_a (es ! k)\<rparr>, k := zero_ds7ext]) i 0
      else merge7 es k (Suc i))"
  by pat_completeness auto
termination
  by (relation "merge_measure (\<lambda>e. ds7_a e + ds7_b e = 0)")
    (simp_all add: merge_measure_wf merge_measure_next merge_measure_merge zero_ds7ext_def)

definition add7 :: "ds7ext list \<Rightarrow> u32 \<Rightarrow> u32 \<Rightarrow> vtoc_bug + ds7ext list" where
  "add7 es a b = (case add7_scan es a b 0 of Inl e \<Rightarrow> Inl e
     | Inr k \<Rightarrow> Inr (merge7 (es[k := \<lparr>ds7_a = a, ds7_b = b\<rparr>]) k 0))"

definition vtoc_update_format7_label_add :: "format7_label \<Rightarrow> u32 \<Rightarrow> u32 \<Rightarrow> vtoc_bug + format7_label" where
  "vtoc_update_format7_label_add f7 a b =
     (case add7 (flat7 f7) a b of Inl e \<Rightarrow> Inl e | Inr es \<Rightarrow> Inr (unflat7 f7 es))"

function del7 :: "ds7ext list \<Rightarrow> u32 \<Rightarrow> u32 \<Rightarrow> nat \<Rightarrow> vtoc_bug + ds7ext list" where
  "del7 es a b i =
     (if i \<ge> length es then Inl DelNotFound
      else let ext = es ! i in
        if a = ds7_a ext \<and> b = ds7_b ext then Inr (es[i := zero_ds7ext])
        else if a = ds7_a ext \<and> b < ds7_b ext then Inr (es[i := ext\<lparr>ds7_a := b\<rparr>])
        else if a > ds7_a ext \<and> b = ds7_b ext then Inr (es[i := ext\<lparr>ds7_b := a\<rparr>])
        else if a > ds7_a ext \<and> b < ds7_b ext then
          (case add7 es b (ds7_b ext) of Inl e \<Rightarrow> Inl e
           | Inr es' \<Rightarrow> Inr (es'[i := (es' ! i)\<lparr>ds7_b := a\<rparr>]))
        else if (a < ds7_a ext \<and> b > ds7_a ext) \<or> (a < ds7_b ext \<and> b > ds7_b ext)
        then Inl DelMismatch
        else del7 es a b (Suc i))"
  by pat_completeness auto
termination by (relation "measure (\<lambda>(es, a, b, i). length es - i)") auto

definition vtoc_update_format7_label_del :: "format7_label \<Rightarrow> u32 \<Rightarrow> u32 \<Rightarrow> vtoc_bug + format7_label" where
  "vtoc_update_format7_label_del f7 a b =
     (case del7 (flat7 f7) a b 0 of Inl e \<Rightarrow> Inl e | Inr es \<Rightarrow> Inr (unflat7 f7 es))"

text \<open>Well-formed labels and their free tracks.\<close>

definition iv7 :: "ds7ext \<Rightarrow> slot" where
  "iv7 e = (unat (ds7_a e), unat (ds7_b e))"

abbreviation limit7 :: nat where
  "limit7 \<equiv> 2 ^ 31 - 1"

definition wf7 :: "format7_label \<Rightarrow> bool" where
  "wf7 f7 \<longleftrightarrow> length (DS7EXTNT f7) = 5 \<and> length (DS7ADEXT f7) = 11 \<and> wf_slots limit7 (map iv7 (flat7 f7))"

definition free7 :: "format7_label \<Rightarrow> nat set" where
  "free7 f7 = tracks (map iv7 (flat7 f7))"

text \<open>The order the reorganize function sorts by: unused extents last.\<close>

definition key7 :: "ds7ext \<Rightarrow> nat" where
  "key7 e = (if ds7_a e = 0 then 2 ^ 32 else unat (ds7_a e))"

definition range7 :: "format7_label \<Rightarrow> nat \<Rightarrow> nat \<Rightarrow> bool" where
  "range7 f7 a b \<longleftrightarrow> 0 < a \<and> a < b \<and> b \<le> limit7"

text \<open>A label with one free extent.\<close>

definition sample7 :: format7_label where
  "sample7 = vtoc_init_format7_label\<lparr>DS7EXTNT := \<lparr>ds7_a = 2, ds7_b = 80000\<rparr> # replicate 4 zero_ds7ext\<rparr>"

section \<open>Refinement of the abstract slots\<close>

declare add7_scan.simps [simp del] merge7.simps [simp del] del7.simps [simp del]

lemma iv7_simps [simp]:
  "iv7 zero_ds7ext = unused" "fst (iv7 e) = unat (ds7_a e)" "snd (iv7 e) = unat (ds7_b e)"
  "iv7 (e\<lparr>ds7_a := a\<rparr>) = (unat a, unat (ds7_b e))" "iv7 (e\<lparr>ds7_b := b\<rparr>) = (unat (ds7_a e), unat b)"
  "iv7 \<lparr>ds7_a = a, ds7_b = b\<rparr> = (unat a, unat b)"
  by (simp_all add: iv7_def zero_ds7ext_def)

lemma empty7_iff: "slot_ok limit7 (iv7 e) \<Longrightarrow> ds7_a e + ds7_b e = 0 \<longleftrightarrow> iv7 e = unused"
  by (auto simp: slot_ok_def iv7_def word_unat_eq_iff unat_add_exact)

lemma merge7_refines:
  "merging limit7 (map iv7 es) k \<Longrightarrow> map iv7 (merge7 es k i) = merge_slots (map iv7 es) k i"
proof (induction es k i rule: merge7.induct)
  case (1 es k i)
  let ?ss = "map iv7 es"
  have k: "k < length es" using "1.prems" by (simp add: merging_def)
  show ?case
  proof (cases "i < length es")
    case i: True
    have u: "ds7_a (es ! i) + ds7_b (es ! i) = 0 \<longleftrightarrow> ?ss ! i = unused"
      using empty7_iff [of "es ! i"] i "1.prems" by (simp add: merging_def)
    have j: "merging limit7 (?ss[i := s, k := unused]) i"
      if "?ss ! i \<noteq> unused" "snd (?ss ! i) = fst (?ss ! k) \<and> s = (fst (?ss ! i), snd (?ss ! k)) \<or>
        fst (?ss ! i) = snd (?ss ! k) \<and> s = (fst (?ss ! k), snd (?ss ! i))" for s
      using merging_join(1) [OF "1.prems"] merging_neq [OF "1.prems"] that i by auto
    have e: "ds7_b (es ! i) = ds7_a (es ! k) \<longleftrightarrow> snd (?ss ! i) = fst (?ss ! k)"
        "ds7_a (es ! i) = ds7_b (es ! k) \<longleftrightarrow> fst (?ss ! i) = snd (?ss ! k)"
      using i k by (auto simp: word_unat_eq_iff)
    consider "?ss ! i = unused" | "?ss ! i \<noteq> unused" "snd (?ss ! i) = fst (?ss ! k)"
      | "?ss ! i \<noteq> unused" "snd (?ss ! i) \<noteq> fst (?ss ! k)" "fst (?ss ! i) = snd (?ss ! k)"
      | "?ss ! i \<noteq> unused" "snd (?ss ! i) \<noteq> fst (?ss ! k)" "fst (?ss ! i) \<noteq> snd (?ss ! k)"
      by blast
    then show ?thesis
    proof cases
      case 2
      then show ?thesis
        using "1.IH"(2) j [of "(fst (?ss ! i), snd (?ss ! k))"] i k u e
        by (simp add: merge7.simps [of es k i] merge_slots.simps [of ?ss k i] map_update)
    next
      case 3
      then show ?thesis
        using "1.IH"(3) j [of "(fst (?ss ! k), snd (?ss ! i))"] i k u e
        by (simp add: merge7.simps [of es k i] merge_slots.simps [of ?ss k i] map_update)
    qed (use "1.IH"(1,4) "1.prems" i k u e in
        \<open>simp_all add: merge7.simps [of es k i] merge_slots.simps [of ?ss k i]\<close>)
  next
    case False
    then show ?thesis by (simp add: merge7.simps merge_slots.simps)
  qed
qed

lemma merge7_same:
  assumes "\<forall>j < length es. ds7_a (es ! j) + ds7_b (es ! j) \<noteq> 0 \<longrightarrow>
    ds7_b (es ! j) \<noteq> ds7_a (es ! k) \<and> ds7_a (es ! j) \<noteq> ds7_b (es ! k)"
  shows "merge7 es k i = es"
  using assms
proof (induction es k i rule: merge7.induct)
  case (1 es k i)
  then show ?case by (subst merge7.simps) auto
qed

text \<open>Without overlap the first loop finds the first unused slot.\<close>

lemma add7_scan_free:
  assumes "wf_slots limit7 (map iv7 es)" and "\<forall>e \<in> set es. \<not> overlaps7 a b e"
    and "\<forall>j < i. j < length es \<longrightarrow> iv7 (es ! j) \<noteq> unused"
  shows "add7_scan es a b i = Inl NoFreeExtent \<and> (\<forall>e \<in> set es. iv7 e \<noteq> unused) \<or>
    (\<exists>k. add7_scan es a b i = Inr k \<and> first_unused (map iv7 es) k)"
  using assms
proof (induction es a b i rule: add7_scan.induct)
  case (1 es a b i)
  show ?case
  proof (cases "i < length es")
    case i: True
    have e: "ds7_a (es ! i) + ds7_b (es ! i) = 0 \<longleftrightarrow> iv7 (es ! i) = unused"
      using 1(2) i by (intro empty7_iff) (simp add: wf_slots_def)
    have no: "\<not> overlaps7 a b (es ! i)" using 1(3) i by simp
    show ?thesis
    proof (cases "iv7 (es ! i) = unused")
      case True
      then have "add7_scan es a b i = Inr i"
        using no i e by (simp add: add7_scan.simps [of es a b i] Let_def)
      with True i 1(4) show ?thesis by (auto simp: first_unused_def)
    next
      case False
      then have "add7_scan es a b i = add7_scan es a b (Suc i)"
        using no i e by (simp add: add7_scan.simps [of es a b i] Let_def)
      moreover have "\<forall>j < Suc i. j < length es \<longrightarrow> iv7 (es ! j) \<noteq> unused"
        using False 1(4) by (auto simp: less_Suc_eq)
      ultimately show ?thesis
        using 1(1) [OF _ refl _ _ 1(2,3)] i no False e by simp
    qed
  next
    case False
    then show ?thesis using 1(4) by (auto simp: add7_scan.simps in_set_conv_nth)
  qed
qed

lemma disjoint_no_overlaps7:
  assumes "{unat a..<unat b} \<inter> tracks (map iv7 es) = {}"
  shows "\<forall>e \<in> set es. \<not> overlaps7 a b e"
proof
  fix e assume "e \<in> set es"
  then have "{unat (ds7_a e)..<unat (ds7_b e)} \<subseteq> tracks (map iv7 es)"
    by (auto simp: tracks_def)
  with assms have "{unat (ds7_a e)..<unat (ds7_b e)} \<inter> {unat a..<unat b} = {}" by blast
  then show "\<not> overlaps7 a b e"
    by (auto simp: overlaps7_def word_less_nat_alt)
qed

lemma add7_refines:
  assumes "wf_slots limit7 (map iv7 es)" and "{unat a..<unat b} \<inter> tracks (map iv7 es) = {}"
    and "0 < a" "a < b" "unat b \<le> limit7"
  shows "add7 es a b = Inl NoFreeExtent \<and> (\<forall>e \<in> set es. iv7 e \<noteq> unused) \<or>
    (\<exists>k es'. add7 es a b = Inr es' \<and> first_unused (map iv7 es) k \<and>
      map iv7 es' = merge_slots ((map iv7 es)[k := (unat a, unat b)]) k 0)"
  using add7_scan_free [OF assms(1) disjoint_no_overlaps7 [OF assms(2)], of 0, simplified]
proof (elim disjE conjE exE, goal_cases)
  case (2 k)
  then have k: "k < length (map iv7 es)" "map iv7 es ! k = unused"
    by (auto simp: first_unused_def)
  have "merging limit7 ((map iv7 es)[k := (unat a, unat b)]) k"
    using put_merging(1) [OF assms(1) k _ _ assms(5,2)] assms(3,4) by (simp add: word_less_nat_alt)
  then show ?case
    using 2 merge7_refines [of "es[k := \<lparr>ds7_a = a, ds7_b = b\<rparr>]" k 0] by (auto simp: add7_def map_update)
qed (auto simp: add7_def)

text \<open>
  Deleting: the loop skips the extents that do not hold the tracks, and cuts them out of the one
  that does.
\<close>

lemma del7_skip:
  assumes "wf_slots limit7 (map iv7 es)" and "m < length es" and "iv7 (es ! m) \<noteq> unused"
    and "ds7_a (es ! m) \<le> a" "a < b" "b \<le> ds7_b (es ! m)" and "i < length es" "i \<noteq> m"
  shows "del7 es a b i = del7 es a b (Suc i)"
proof -
  have "apart (iv7 (es ! i)) (iv7 (es ! m))" "slot_ok limit7 (iv7 (es ! i))" "slot_ok limit7 (iv7 (es ! m))"
    using assms(1,2,7,8) by (auto simp: wf_slots_def)
  with assms(3-6) have "ds7_b (es ! i) < a \<and> ds7_a (es ! i) \<le> ds7_b (es ! i) \<or>
      b < ds7_a (es ! i) \<and> b < ds7_b (es ! i)"
    by (auto simp: apart_def slot_ok_def iv7_def word_less_nat_alt word_le_nat_alt)
  with assms(5,7) show ?thesis
    by (subst del7.simps) (auto simp: Let_def)
qed

lemma del7_reaches:
  assumes "wf_slots limit7 (map iv7 es)" and "m < length es" and "iv7 (es ! m) \<noteq> unused"
    and "ds7_a (es ! m) \<le> a" "a < b" "b \<le> ds7_b (es ! m)" and "i \<le> m"
  shows "del7 es a b i = del7 es a b m"
  using assms(7)
proof (induction i rule: inc_induct)
  case (step i)
  then show ?case using del7_skip [OF assms(1-6), of i] assms(2) by simp
qed simp

lemma split_no_overlaps7:
  assumes "wf_slots limit7 (map iv7 es)" and "m < length es" and "iv7 (es ! m) \<noteq> unused"
    and "ds7_a (es ! m) < b" "b < ds7_b (es ! m)"
  shows "\<forall>e \<in> set es. \<not> overlaps7 b (ds7_b (es ! m)) e"
    and "\<forall>j < length es. iv7 (es ! j) \<noteq> unused \<longrightarrow>
      ds7_b (es ! j) \<noteq> b \<and> ds7_a (es ! j) \<noteq> ds7_b (es ! m)"
proof -
  have *: "\<not> overlaps7 b (ds7_b (es ! m)) (es ! j) \<and> (iv7 (es ! j) \<noteq> unused \<longrightarrow>
      ds7_b (es ! j) \<noteq> b \<and> ds7_a (es ! j) \<noteq> ds7_b (es ! m))" if "j < length es" for j
  proof (cases "j = m")
    case True
    then show ?thesis using assms(4,5) by (auto simp: overlaps7_def word_less_nat_alt)
  next
    case False
    then have "apart (iv7 (es ! j)) (iv7 (es ! m))" "slot_ok limit7 (iv7 (es ! j))"
      using assms(1,2) that by (auto simp: wf_slots_def)
    then show ?thesis
      using assms(3-5) by (auto simp: overlaps7_def apart_def slot_ok_def iv7_def word_less_nat_alt word_unat_eq_iff)
  qed
  from * show "\<forall>e \<in> set es. \<not> overlaps7 b (ds7_b (es ! m)) e" by (metis in_set_conv_nth)
  from * show "\<forall>j < length es. iv7 (es ! j) \<noteq> unused \<longrightarrow>
      ds7_b (es ! j) \<noteq> b \<and> ds7_a (es ! j) \<noteq> ds7_b (es ! m)" by blast
qed

lemma add7_split:
  assumes "wf_slots limit7 (map iv7 es)" and "m < length es" and "iv7 (es ! m) \<noteq> unused"
    and "ds7_a (es ! m) < b" "b < ds7_b (es ! m)"
  shows "add7 es b (ds7_b (es ! m)) = Inl NoFreeExtent \<and> (\<forall>e \<in> set es. iv7 e \<noteq> unused) \<or>
    (\<exists>k. first_unused (map iv7 es) k \<and>
      add7 es b (ds7_b (es ! m)) = Inr (es[k := \<lparr>ds7_a = b, ds7_b = ds7_b (es ! m)\<rparr>]))"
  using add7_scan_free [OF assms(1) split_no_overlaps7(1) [OF assms], of 0, simplified]
proof (elim disjE conjE exE, goal_cases)
  case (2 k)
  let ?es = "es[k := \<lparr>ds7_a = b, ds7_b = ds7_b (es ! m)\<rparr>]"
  have k: "k < length es" using 2 by (simp add: first_unused_def)
  have "ds7_b (?es ! j) \<noteq> ds7_a (?es ! k) \<and> ds7_a (?es ! j) \<noteq> ds7_b (?es ! k)"
    if "j < length ?es" "ds7_a (?es ! j) + ds7_b (?es ! j) \<noteq> 0" for j
  proof (cases "j = k")
    case False
    then have "iv7 (es ! j) \<noteq> unused"
      using that by (auto simp: iv7_def word_unat_eq_iff unat_word_ariths)
    then show ?thesis using split_no_overlaps7(2) [OF assms] that False k by simp
  qed (use k assms(5) in auto)
  then have "merge7 ?es k 0 = ?es" by (intro merge7_same) blast
  with 2 show ?case by (auto simp: add7_def)
qed (auto simp: add7_def)

lemma del7_cut:
  assumes "wf_slots limit7 (map iv7 es)" and "m < length es" and "iv7 (es ! m) \<noteq> unused"
    and "ds7_a (es ! m) \<le> a" "a < b" "b \<le> ds7_b (es ! m)"
  shows "(\<exists>es'. del7 es a b m = Inr es' \<and> cut (map iv7 es) m (unat a) (unat b) (map iv7 es')) \<or>
    del7 es a b m = Inl NoFreeExtent \<and> (\<forall>e \<in> set es. iv7 e \<noteq> unused)"
proof (cases "a = ds7_a (es ! m) \<or> b = ds7_b (es ! m)")
  case True
  have "\<exists>es'. del7 es a b m = Inr es' \<and> cut (map iv7 es) m (unat a) (unat b) (map iv7 es')"
    using assms(2,4,6) True
    by (subst del7.simps) (auto simp: Let_def cut_def iv7_def [of "es ! m"] map_update word_unat_eq_iff word_le_nat_alt word_less_nat_alt)
  then show ?thesis ..
next
  case False
  then have lt: "ds7_a (es ! m) < a" "b < ds7_b (es ! m)" using assms(4,6) by auto
  have del: "del7 es a b m = (case add7 es b (ds7_b (es ! m)) of Inl e \<Rightarrow> Inl e
      | Inr es' \<Rightarrow> Inr (es'[m := (es' ! m)\<lparr>ds7_b := a\<rparr>]))"
    using False lt assms(2) by (subst del7.simps) (auto simp: Let_def)
  have "ds7_a (es ! m) < b" using lt(1) assms(5) by simp
  from add7_split [OF assms(1-3) this lt(2)] show ?thesis
  proof (elim disjE conjE exE, goal_cases)
    case (2 k)
    then have "k \<noteq> m" using assms(2,3) by (auto simp: first_unused_def)
    with 2 have "cut (map iv7 es) m (unat a) (unat b)
        (map iv7 (es[k := \<lparr>ds7_a = b, ds7_b = ds7_b (es ! m)\<rparr>, m := (es ! m)\<lparr>ds7_b := a\<rparr>]))"
      using False assms(2) by (auto simp: cut_def iv7_def [of "es ! m"] map_update list_update_swap word_unat_eq_iff)
    with 2 \<open>k \<noteq> m\<close> show ?case by (auto simp: del)
  qed (simp add: del)
qed

text \<open>A deletion that returns was of free tracks.\<close>

lemma del7_only_free:
  assumes "del7 es a b i = Inr es'" and "a < b"
  shows "\<exists>m < length es. ds7_a (es ! m) \<le> a \<and> b \<le> ds7_b (es ! m)"
  using assms
proof (induction es a b i rule: del7.induct)
  case (1 es a b i)
  show ?case
  proof (cases "i < length es \<and> ds7_a (es ! i) \<le> a \<and> b \<le> ds7_b (es ! i)")
    case False
    have i: "i < length es" using 1(2) by (subst (asm) del7.simps) (simp split: if_splits)
    with False 1(3) have "del7 es a b (Suc i) = Inr es'"
      using 1(2) by (subst (asm) del7.simps) (auto simp: Let_def split: if_splits)
    then show ?thesis
      using "1.IH" i False 1(2,3) by (subst (asm) (3) del7.simps) (auto simp: Let_def split: if_splits)
  qed auto
qed

section \<open>The label routines\<close>

lemma flat7_unflat7: "flat7 (unflat7 f7 es) = es"
  by (simp add: flat7_def unflat7_def)

lemma wf7_unflat7: "wf7 f7 \<Longrightarrow> wf_slots limit7 (map iv7 es) \<Longrightarrow> length es = 16 \<Longrightarrow> wf7 (unflat7 f7 es)"
  by (simp add: wf7_def flat7_def unflat7_def)

lemma length_flat7: "wf7 f7 \<Longrightarrow> length (flat7 f7) = 16"
  by (simp add: wf7_def flat7_def)

lemma add7_label:
  assumes "wf7 f7" and "0 < a" "a < b" "unat b \<le> limit7" and "{unat a..<unat b} \<inter> free7 f7 = {}"
  shows "case vtoc_update_format7_label_add f7 a b of
      Inl e \<Rightarrow> e = NoFreeExtent \<and> (\<forall>x \<in> set (flat7 f7). iv7 x \<noteq> unused)
    | Inr f7' \<Rightarrow> wf7 f7' \<and> free7 f7' = free7 f7 \<union> {unat a..<unat b}"
proof -
  have wf: "wf_slots limit7 (map iv7 (flat7 f7))" using assms(1) by (simp add: wf7_def)
  from add7_refines [OF wf assms(5)[unfolded free7_def] assms(2-4)] show ?thesis
  proof (elim disjE conjE exE, goal_cases)
    case (2 k es')
    have k: "k < length (map iv7 (flat7 f7))" "map iv7 (flat7 f7) ! k = unused"
      using 2(2) by (auto simp: first_unused_def)
    note C = add_slots_correct [OF wf k _ _ assms(4) assms(5)[unfolded free7_def], folded 2(3)]
    have "length es' = 16"
      using C(3) assms(2,3) length_flat7 [OF assms(1)] by (simp add: word_less_nat_alt)
    then show ?case
      using C(1,2) assms(2,3) 2(1) wf7_unflat7 [OF assms(1), of es']
      by (simp add: vtoc_update_format7_label_add_def word_less_nat_alt free7_def flat7_unflat7)
  qed (simp add: vtoc_update_format7_label_add_def)
qed

lemma del7_label:
  assumes "wf7 f7" and "a < b" and "{unat a..<unat b} \<subseteq> free7 f7"
  shows "case vtoc_update_format7_label_del f7 a b of
      Inl e \<Rightarrow> e = NoFreeExtent \<and> (\<forall>x \<in> set (flat7 f7). iv7 x \<noteq> unused)
    | Inr f7' \<Rightarrow> wf7 f7' \<and> free7 f7' = free7 f7 - {unat a..<unat b}"
proof -
  let ?es = "flat7 f7"
  have wf: "wf_slots limit7 (map iv7 ?es)" using assms(1) by (simp add: wf7_def)
  have ab: "unat a < unat b" using assms(2) by (simp add: word_less_nat_alt)
  obtain m where m: "m < length ?es" "iv7 (?es ! m) \<noteq> unused"
      and c: "ds7_a (?es ! m) \<le> a" "b \<le> ds7_b (?es ! m)"
    using run_in_slot [OF wf assms(3)[unfolded free7_def] ab] by (auto simp: word_le_nat_alt)
  from del7_cut [OF wf m c(1) assms(2) c(2)] show ?thesis
  proof (elim disjE conjE exE, goal_cases)
    case (1 es')
    have "wf_slots limit7 (map iv7 es') \<and> tracks (map iv7 es') = free7 f7 - {unat a..<unat b} \<and>
        length (map iv7 es') = length (map iv7 ?es)"
      using cut_correct [OF wf _ _ _ _ ab _ 1(2), of "unat (ds7_a (?es ! m))" "unat (ds7_b (?es ! m))"] m c
      by (simp add: free7_def word_le_nat_alt iv7_def [of "?es ! m"])
    then show ?case
      using 1(1) del7_reaches [OF wf m c(1) assms(2) c(2), of 0] length_flat7 [OF assms(1)]
        wf7_unflat7 [OF assms(1), of es']
      by (simp add: vtoc_update_format7_label_del_def free7_def flat7_unflat7)
  next
    case 2
    then show ?case
      using del7_reaches [OF wf m c(1) assms(2) c(2), of 0]
      by (simp add: vtoc_update_format7_label_del_def)
  qed
qed

lemma del7_label_only_free:
  assumes "vtoc_update_format7_label_del f7 a b = Inr f7'" and "a < b"
  shows "{unat a..<unat b} \<subseteq> free7 f7"
proof -
  obtain es' where "del7 (flat7 f7) a b 0 = Inr es'"
    using assms(1) by (auto simp: vtoc_update_format7_label_del_def split: sum.splits)
  then obtain m where "m < length (flat7 f7)" "ds7_a (flat7 f7 ! m) \<le> a" "b \<le> ds7_b (flat7 f7 ! m)"
    using del7_only_free [OF _ assms(2)] by blast
  then show ?thesis
    using tracks_slot [of m "map iv7 (flat7 f7)"] by (auto simp: free7_def word_le_nat_alt)
qed

interpretation fs7: freespace wf7 free7 range7
  "\<lambda>f7 a b. vtoc_update_format7_label_add f7 (of_nat a) (of_nat b)"
  "\<lambda>f7 a b. vtoc_update_format7_label_del f7 (of_nat a) (of_nat b)"
proof unfold_locales
  fix s s' a b
  assume A: "wf7 s" "range7 s a b"
  then have u: "unat (of_nat a :: u32) = a" "unat (of_nat b :: u32) = b" and
      lt: "(0 :: u32) < of_nat a" "(of_nat a :: u32) < of_nat b" "unat (of_nat b :: u32) \<le> limit7"
    by (auto simp: range7_def unat_of_nat word_less_nat_alt)
  show "wf7 s' \<and> free7 s' = free7 s \<union> {a..<b} \<and> range7 s' = range7 s"
    if "{a..<b} \<inter> free7 s = {}" "vtoc_update_format7_label_add s (of_nat a) (of_nat b) = Inr s'"
    using add7_label [OF A(1) lt] that u by (auto simp: range7_def fun_eq_iff)
  show "wf7 s' \<and> free7 s' = free7 s - {a..<b} \<and> range7 s' = range7 s"
    if "{a..<b} \<subseteq> free7 s" "vtoc_update_format7_label_del s (of_nat a) (of_nat b) = Inr s'"
    using del7_label [OF A(1) lt(2)] that u by (auto simp: range7_def fun_eq_iff)
qed

interpretation r7: reorg_key before7 key7
proof unfold_locales
  fix x y
  show "before7 x y \<longleftrightarrow> key7 x < key7 y"
    using unsigned_less [of "ds7_a x", where 'a = nat] unsigned_less [of "ds7_a y", where 'a = nat]
    by (auto simp: before7_def key7_def word_less_nat_alt unat_gt_0)
qed

lemma reorg7_label:
  assumes "wf7 f7"
  defines "f7' \<equiv> vtoc_reorganize_FMT7_extents f7"
  shows "wf7 f7' \<and> free7 f7' = free7 f7 \<and> mset (flat7 f7') = mset (flat7 f7) \<and> sorted (map key7 (flat7 f7'))"
proof -
  let ?es = "flat7 f7" and ?r = "reorganize before7 16 (flat7 f7)"
  have len: "length ?es = 16" by (rule length_flat7 [OF assms(1)])
  have "wf_slots limit7 (map iv7 ?r)"
  proof -
    have "wf_slots limit7 (map iv7 (es[i := es ! j, j := es ! i]))"
      if "i < length es" "j < length es" "wf_slots limit7 (map iv7 es)" for es i j
      using wf_slots_swap [of i "map iv7 es" j limit7] that by (simp add: map_update)
    then show ?thesis
      using reorganize_invariant [of "\<lambda>es. wf_slots limit7 (map iv7 es)" ?es before7] assms(1)
      unfolding len wf7_def by blast
  qed
  moreover have "mset ?r = mset ?es" "length ?r = 16" "sorted (map key7 ?r)"
    using r7.reorganize_sorts [of ?es] len by simp_all
  moreover from this(1) have "tracks (map iv7 ?r) = tracks (map iv7 ?es)"
    by (intro tracks_mset) simp
  ultimately show ?thesis
    using wf7_unflat7 [OF assms(1), of ?r]
    by (simp add: f7'_def vtoc_reorganize_FMT7_extents_def free7_def flat7_unflat7)
qed

lemma sample7_flat: "flat7 sample7 = \<lparr>ds7_a = 2, ds7_b = 80000\<rparr> # replicate 15 zero_ds7ext"
  by (simp add: flat7_def sample7_def vtoc_init_format7_label_def flip: replicate_add)

lemma sample7_wf: "wf7 sample7" "free7 sample7 = {2..<80000}"
proof -
  show "wf7 sample7"
    using wf_slots_single [of limit7 "(2, 80000)" 15]
    by (simp add: wf7_def sample7_flat slot_ok_def) (simp add: sample7_def vtoc_init_format7_label_def)
  show "free7 sample7 = {2..<80000}"
    using tracks_single [of "(2, 80000)" 15] by (simp add: free7_def sample7_flat)
qed

section \<open>Properties\<close>

text \<open>
  C22. Adding an extent of tracks that are not free yet to a well-formed FMT7 label gives a
  well-formed label whose free tracks are the old ones and the new ones, with neighbouring extents
  merged; the routine stops only when all 16 slots are taken.
\<close>

theorem vtoc_format7_add_union:
  assumes "wf7 f7" and "0 < a" "a < b" "unat b \<le> limit7" and "{unat a..<unat b} \<inter> free7 f7 = {}"
  shows "case vtoc_update_format7_label_add f7 a b of
      Inl e \<Rightarrow> e = NoFreeExtent \<and> (\<forall>x \<in> set (flat7 f7). iv7 x \<noteq> unused)
    | Inr f7' \<Rightarrow> wf7 f7' \<and> free7 f7' = free7 f7 \<union> {unat a..<unat b}"
  using add7_label [OF assms] .

theorem vtoc_format7_add_union_witness:
  "case vtoc_update_format7_label_add sample7 80000 90000 of
      Inl e \<Rightarrow> False | Inr f7' \<Rightarrow> wf7 f7' \<and> free7 f7' = {2..<90000}"
proof -
  have "{80000..<90000} \<inter> {2..<80000} = ({} :: nat set)" by (simp add: ivl_disj_int_two)
  moreover have "{2..<80000} \<union> {80000..<90000} = {2..<90000 :: nat}"
    by (rule ivl_disj_un_two(3)) simp_all
  ultimately show ?thesis
    using vtoc_format7_add_union [of sample7 80000 90000]
    by (simp add: sample7_wf sample7_flat split: sum.splits)
qed

text \<open>
  C23. Deleting the tracks \<open>a..<b\<close> from a well-formed FMT7 label returns only when all of them were
  free; then exactly they are no longer free and the label is well-formed. When they are free the
  routine fails only if it needs a slot and all 16 are taken.
\<close>

theorem vtoc_format7_del_difference:
  assumes "wf7 f7" and "a < b"
  shows "case vtoc_update_format7_label_del f7 a b of
      Inl e \<Rightarrow> \<not> {unat a..<unat b} \<subseteq> free7 f7 \<or> e = NoFreeExtent \<and> (\<forall>x \<in> set (flat7 f7). iv7 x \<noteq> unused)
    | Inr f7' \<Rightarrow> {unat a..<unat b} \<subseteq> free7 f7 \<and> wf7 f7' \<and> free7 f7' = free7 f7 - {unat a..<unat b}"
proof (cases "{unat a..<unat b} \<subseteq> free7 f7")
  case True
  then show ?thesis using del7_label [OF assms True] by (simp split: sum.splits)
next
  case False
  then show ?thesis using del7_label_only_free [OF _ assms(2)] by (auto split: sum.splits)
qed

theorem vtoc_format7_del_difference_witness:
  "case vtoc_update_format7_label_del sample7 100 200 of
      Inl e \<Rightarrow> False | Inr f7' \<Rightarrow> wf7 f7' \<and> free7 f7' = {2..<100} \<union> {200..<80000}"
proof -
  have "{2..<80000} - {100..<200} = {2..<100} \<union> {200..<80000 :: nat}"
    by (rule set_eqI) (simp, arith)
  then show ?thesis
    using vtoc_format7_del_difference [of sample7 100 200]
    by (simp add: sample7_wf sample7_flat split: sum.splits)
qed

text \<open>
  Reorganizing an FMT7 label permutes its 16 extents into ascending order of their first track
  with the unused ones last, and keeps the free tracks and well-formedness.
\<close>

theorem vtoc_reorganize_FMT7_sorts:
  assumes "wf7 f7"
  shows "wf7 (vtoc_reorganize_FMT7_extents f7) \<and>
    free7 (vtoc_reorganize_FMT7_extents f7) = free7 f7 \<and>
    mset (flat7 (vtoc_reorganize_FMT7_extents f7)) = mset (flat7 f7) \<and>
    sorted (map key7 (flat7 (vtoc_reorganize_FMT7_extents f7)))"
  using reorg7_label [OF assms] .

theorem vtoc_reorganize_FMT7_sorts_witness:
  "wf7 (vtoc_reorganize_FMT7_extents sample7) \<and> free7 (vtoc_reorganize_FMT7_extents sample7) = {2..<80000}"
  using vtoc_reorganize_FMT7_sorts [OF sample7_wf(1)] by (simp add: sample7_wf)

end
