(* ===== verification/Vtoc_Freespace.thy ===== *)
theory Vtoc_Freespace
  imports Vtoc_Free5 Vtoc_Free7
begin

text \<open>
  \<^verbatim>\<open>vtoc_set_freespace\<close> of \<^verbatim>\<open>libvtoc/vtoc.c\<close>, the routine with which fdasd and dasdfmt
  give tracks back to the free space of a volume (\<open>+\<close>) or take them (\<open>-\<close>). Volumes of more than
  65536 tracks keep their free space in the FMT7 label, the others in the FMT5 label.

  The routine is shown to meet the contract \<open>freespace\<close> on the labels it is responsible for, so
  what is proved of the contract (taking and giving back, allocating a list of partitions) holds of
  it.
\<close>

section \<open>Definitions\<close>

definition BIG_DISK_SIZE :: u32 where
  "BIG_DISK_SIZE = 0x10000"

definition vtoc_set_freespace ::
    "format4_label \<Rightarrow> format5_label \<Rightarrow> format7_label \<Rightarrow> char \<Rightarrow> u32 \<Rightarrow> u32 \<Rightarrow> u32 \<Rightarrow> u32 \<Rightarrow>
     vtoc_bug + format4_label \<times> format5_label \<times> format7_label" where
  "vtoc_set_freespace f4 f5 f7 ch start stop cyl trk =
     (if cyl * trk > BIG_DISK_SIZE then
        (case (if ch = CHR ''+'' then vtoc_update_format7_label_add f7 start (stop + 1)
               else if ch = CHR ''-'' then vtoc_update_format7_label_del f7 start (stop + 1)
               else Inr f7) of
           Inl e \<Rightarrow> Inl e
         | Inr f7 \<Rightarrow>
             Inr (f4\<lparr>DS4VTOCI := 0xA0, DS4EFLVL := 0x07, DS4EFPTR := vtoc_set_cchhb 0 1 3\<rparr>,
                  f5, vtoc_reorganize_FMT7_extents f7))
      else
        (let x = ucast start :: u16;
             y = ucast ((stop - start + 1) div trk) :: u16;
             z = ucast ((stop - start + 1) mod trk) :: u8 in
         case (if ch = CHR ''+'' then vtoc_update_format5_label_add f5 (unat trk) x y z
               else if ch = CHR ''-'' then vtoc_update_format5_label_del f5 (unat trk) x y z
               else Inr f5) of
           Inl e \<Rightarrow> Inl e
         | Inr f5 \<Rightarrow> Inr (f4, vtoc_reorganize_FMT5_extents f5, f7)))"

text \<open>The labels of a volume with its size, and the free tracks they describe.\<close>

record volume =
  v_cyl :: u32
  v_trk :: u32
  v_f4 :: format4_label
  v_f5 :: format5_label
  v_f7 :: format7_label

definition big :: "volume \<Rightarrow> bool" where
  "big v \<longleftrightarrow> v_cyl v * v_trk v > BIG_DISK_SIZE"

definition wf_volume :: "volume \<Rightarrow> bool" where
  "wf_volume v \<longleftrightarrow> (if big v then wf7 (v_f7 v) else wf5 (unat (v_trk v)) (v_f5 v))"

definition free_tracks :: "volume \<Rightarrow> nat set" where
  "free_tracks v = (if big v then free7 (v_f7 v) else free5 (unat (v_trk v)) (v_f5 v))"

definition track_range :: "volume \<Rightarrow> nat \<Rightarrow> nat \<Rightarrow> bool" where
  "track_range v a b \<longleftrightarrow> 0 < a \<and> a < b \<and> b \<le> (if big v then limit7 else limit5)"

text \<open>One call for the tracks \<open>a..<b\<close>: the arguments are the first and the last track.\<close>

definition set_freespace :: "char \<Rightarrow> volume \<Rightarrow> nat \<Rightarrow> nat \<Rightarrow> vtoc_bug + volume" where
  "set_freespace ch v a b =
     (case vtoc_set_freespace (v_f4 v) (v_f5 v) (v_f7 v) ch (of_nat a) (of_nat b - 1) (v_cyl v) (v_trk v) of
        Inl e \<Rightarrow> Inl e
      | Inr (f4, f5, f7) \<Rightarrow> Inr (v\<lparr>v_f4 := f4, v_f5 := f5, v_f7 := f7\<rparr>))"

definition slots_full :: "volume \<Rightarrow> bool" where
  "slots_full v \<longleftrightarrow>
     (if big v then \<forall>e \<in> set (flat7 (v_f7 v)). iv7 e \<noteq> unused
      else \<forall>e \<in> set (flat5 (v_f5 v)). iv5 (unat (v_trk v)) e \<noteq> unused)"

text \<open>A volume of 101 cylinders with 15 tracks each, free from track 2 on.\<close>

definition sample_volume :: volume where
  "sample_volume = \<lparr>v_cyl = 101, v_trk = 15, v_f4 = vtoc_init_format4_label 101 101 15 12 4096 0x3390,
     v_f5 = sample5, v_f7 = vtoc_init_format7_label\<rparr>"

section \<open>The contract\<close>

lemma xyz_range:
  assumes "0 < a" "a < b" "b \<le> limit5" and "0 < unat trk" "unat trk \<le> 256"
  defines "n \<equiv> (of_nat b :: u32) - 1 - of_nat a + 1"
  defines "x \<equiv> ucast (of_nat a :: u32) :: u16" and "y \<equiv> ucast (n div trk) :: u16" and "z \<equiv> ucast (n mod trk) :: u8"
  shows "unat x = a" "end5 (unat trk) x y z = b" "unat z < unat trk" "0 < x"
proof -
  show x: "unat x = a" using assms(2,3) by (simp add: x_def unat_ucast unat_of_nat)
  then show "0 < x" using assms(1) by (simp add: word_less_nat_alt)
  have eq: "n = of_nat (b - a)" using assms(2) by (simp add: n_def of_nat_diff)
  have n: "unat n = b - a" unfolding eq unat_of_nat using assms(3) by simp
  have y: "y = of_nat ((b - a) div unat trk)"
    by (simp add: y_def word_unat_eq_iff unat_ucast unat_of_nat unat_div_distrib n)
  have z: "z = of_nat ((b - a) mod unat trk)"
    by (simp add: z_def word_unat_eq_iff unat_ucast unat_of_nat unat_mod_distrib n)
  have "b - a < 65536" using assms(1-3) by linarith
  note E = end5_of_length [OF this assms(4,5)]
  show "end5 (unat trk) x y z = b" using E(1) [of x] x assms(2) by (simp add: y z)
  show "unat z < unat trk" using E(2) by (simp add: z)
qed

lemma range_words:
  assumes "0 < a" "a < b" "b \<le> limit7"
  shows "unat (of_nat a :: u32) = a" "unat (of_nat b :: u32) = b"
    and "(0 :: u32) < of_nat a" "(of_nat a :: u32) < of_nat b" "unat (of_nat b :: u32) \<le> limit7"
  using assms by (auto simp: unat_of_nat word_less_nat_alt)

text \<open>What a successful call does, for the two kinds of volumes.\<close>

lemma set_freespace_big:
  assumes "big v" and "wf_volume v" and "track_range v a b" and "set_freespace ch v a b = Inr v'"
  shows "ch = CHR ''+'' \<Longrightarrow> {a..<b} \<inter> free_tracks v = {} \<Longrightarrow>
      wf_volume v' \<and> free_tracks v' = free_tracks v \<union> {a..<b} \<and> track_range v' = track_range v"
    and "ch = CHR ''-'' \<Longrightarrow> {a..<b} \<subseteq> free_tracks v \<Longrightarrow>
      wf_volume v' \<and> free_tracks v' = free_tracks v - {a..<b} \<and> track_range v' = track_range v"
proof -
  have r: "0 < a" "a < b" "b \<le> limit7" using assms(1,3) by (auto simp: track_range_def)
  note W = range_words [OF r]
  have wf: "wf7 (v_f7 v)" using assms(1,2) by (simp add: wf_volume_def)
  have bigger: "v_cyl v * v_trk v > BIG_DISK_SIZE" using assms(1) by (simp add: big_def)
  show "wf_volume v' \<and> free_tracks v' = free_tracks v \<union> {a..<b} \<and> track_range v' = track_range v"
    if ch: "ch = CHR ''+''" and d: "{a..<b} \<inter> free_tracks v = {}"
  proof -
    obtain f7 where "vtoc_update_format7_label_add (v_f7 v) (of_nat a) (of_nat b) = Inr f7"
        and v': "v_cyl v' = v_cyl v" "v_trk v' = v_trk v" "v_f7 v' = vtoc_reorganize_FMT7_extents f7"
      using assms(4) ch bigger
      by (auto simp: set_freespace_def vtoc_set_freespace_def split: sum.splits if_splits)
    then have "wf7 f7 \<and> free7 f7 = free7 (v_f7 v) \<union> {a..<b}"
      using add7_label [OF wf W(3-5)] d assms(1) by (simp add: W free_tracks_def)
    then show ?thesis
      using reorg7_label [of f7] assms(1) v'
      by (auto simp: wf_volume_def free_tracks_def big_def track_range_def fun_eq_iff)
  qed
  show "wf_volume v' \<and> free_tracks v' = free_tracks v - {a..<b} \<and> track_range v' = track_range v"
    if ch: "ch = CHR ''-''" and d: "{a..<b} \<subseteq> free_tracks v"
  proof -
    obtain f7 where "vtoc_update_format7_label_del (v_f7 v) (of_nat a) (of_nat b) = Inr f7"
        and v': "v_cyl v' = v_cyl v" "v_trk v' = v_trk v" "v_f7 v' = vtoc_reorganize_FMT7_extents f7"
      using assms(4) ch bigger
      by (auto simp: set_freespace_def vtoc_set_freespace_def split: sum.splits if_splits)
    then have "wf7 f7 \<and> free7 f7 = free7 (v_f7 v) - {a..<b}"
      using del7_label [OF wf W(4)] d assms(1) by (simp add: W free_tracks_def)
    then show ?thesis
      using reorg7_label [of f7] assms(1) v'
      by (auto simp: wf_volume_def free_tracks_def big_def track_range_def fun_eq_iff)
  qed
qed

lemma set_freespace_small:
  assumes "\<not> big v" and "wf_volume v" and "track_range v a b" and "set_freespace ch v a b = Inr v'"
  shows "ch = CHR ''+'' \<Longrightarrow> {a..<b} \<inter> free_tracks v = {} \<Longrightarrow>
      wf_volume v' \<and> free_tracks v' = free_tracks v \<union> {a..<b} \<and> track_range v' = track_range v"
    and "ch = CHR ''-'' \<Longrightarrow> {a..<b} \<subseteq> free_tracks v \<Longrightarrow>
      wf_volume v' \<and> free_tracks v' = free_tracks v - {a..<b} \<and> track_range v' = track_range v"
proof -
  let ?trk = "unat (v_trk v)" and ?n = "(of_nat b :: u32) - 1 - of_nat a + 1"
  let ?x = "ucast (of_nat a :: u32) :: u16" and ?y = "ucast (?n div v_trk v) :: u16" and ?z = "ucast (?n mod v_trk v) :: u8"
  have r: "0 < a" "a < b" "b \<le> limit5" using assms(1,3) by (auto simp: track_range_def)
  have wf: "wf5 ?trk (v_f5 v)" using assms(1,2) by (simp add: wf_volume_def)
  then have trk: "0 < ?trk" "?trk \<le> 256" by (auto simp: wf5_def wf_exts5_def)
  note X = xyz_range [OF r trk]
  have smaller: "\<not> v_cyl v * v_trk v > BIG_DISK_SIZE" using assms(1) by (simp add: big_def)
  show "wf_volume v' \<and> free_tracks v' = free_tracks v \<union> {a..<b} \<and> track_range v' = track_range v"
    if ch: "ch = CHR ''+''" and d: "{a..<b} \<inter> free_tracks v = {}"
  proof -
    obtain f5 where f5: "vtoc_update_format5_label_add (v_f5 v) ?trk ?x ?y ?z = Inr f5"
        and v': "v_cyl v' = v_cyl v" "v_trk v' = v_trk v" "v_f5 v' = vtoc_reorganize_FMT5_extents f5"
      using assms(4) ch smaller unfolding set_freespace_def vtoc_set_freespace_def Let_def
      by (auto split: sum.splits if_splits)
    have "{a..<b} \<inter> free5 ?trk (v_f5 v) = {}" using d assms(1) by (simp add: free_tracks_def)
    then have "wf5 ?trk f5 \<and> free5 ?trk f5 = free5 ?trk (v_f5 v) \<union> {a..<b}"
      using add5_label [OF wf X(4) _ _ X(3), where b = ?y, unfolded X(1,2)] r f5 by simp
    then show ?thesis
      using reorg5_label [of ?trk f5] assms(1) v'
      by (auto simp: wf_volume_def free_tracks_def big_def track_range_def fun_eq_iff)
  qed
  show "wf_volume v' \<and> free_tracks v' = free_tracks v - {a..<b} \<and> track_range v' = track_range v"
    if ch: "ch = CHR ''-''" and d: "{a..<b} \<subseteq> free_tracks v"
  proof -
    obtain f5 where f5: "vtoc_update_format5_label_del (v_f5 v) ?trk ?x ?y ?z = Inr f5"
        and v': "v_cyl v' = v_cyl v" "v_trk v' = v_trk v" "v_f5 v' = vtoc_reorganize_FMT5_extents f5"
      using assms(4) ch smaller unfolding set_freespace_def vtoc_set_freespace_def Let_def
      by (auto split: sum.splits if_splits)
    have "{a..<b} \<subseteq> free5 ?trk (v_f5 v)" using d assms(1) by (simp add: free_tracks_def)
    then have "wf5 ?trk f5 \<and> free5 ?trk f5 = free5 ?trk (v_f5 v) - {a..<b}"
      using del5_label [OF wf _ X(3), where a = ?x and b = ?y, unfolded X(1,2)] r f5 by simp
    then show ?thesis
      using reorg5_label [of ?trk f5] assms(1) v'
      by (auto simp: wf_volume_def free_tracks_def big_def track_range_def fun_eq_iff)
  qed
qed

interpretation vol: freespace wf_volume free_tracks track_range "set_freespace CHR ''+''" "set_freespace CHR ''-''"
proof unfold_locales
  fix s s' a b
  assume A: "wf_volume s" "track_range s a b"
  show "wf_volume s' \<and> free_tracks s' = free_tracks s \<union> {a..<b} \<and> track_range s' = track_range s"
    if "{a..<b} \<inter> free_tracks s = {}" "set_freespace CHR ''+'' s a b = Inr s'"
    using set_freespace_big(1) [OF _ A that(2)] set_freespace_small(1) [OF _ A that(2)] that(1) by blast
  show "wf_volume s' \<and> free_tracks s' = free_tracks s - {a..<b} \<and> track_range s' = track_range s"
    if "{a..<b} \<subseteq> free_tracks s" "set_freespace CHR ''-'' s a b = Inr s'"
    using set_freespace_big(2) [OF _ A that(2)] set_freespace_small(2) [OF _ A that(2)] that(1) by blast
qed

text \<open>A call with sensible arguments stops only when it needs a slot and none is left.\<close>

lemma set_freespace_fails:
  assumes "wf_volume v" and "track_range v a b" and "set_freespace ch v a b = Inl e"
    and "ch = CHR ''+'' \<and> {a..<b} \<inter> free_tracks v = {} \<or> ch = CHR ''-'' \<and> {a..<b} \<subseteq> free_tracks v"
  shows "e = NoFreeExtent \<and> slots_full v"
proof (cases "big v")
  case True
  have r: "0 < a" "a < b" "b \<le> limit7" using True assms(2) by (auto simp: track_range_def)
  note W = range_words [OF r]
  have wf: "wf7 (v_f7 v)" using True assms(1) by (simp add: wf_volume_def)
  have "ch = CHR ''+'' \<and> vtoc_update_format7_label_add (v_f7 v) (of_nat a) (of_nat b) = Inl e \<or>
      ch = CHR ''-'' \<and> vtoc_update_format7_label_del (v_f7 v) (of_nat a) (of_nat b) = Inl e"
    using assms(3,4) True by (auto simp: set_freespace_def vtoc_set_freespace_def big_def split: sum.splits if_splits)
  then show ?thesis
    using add7_label [OF wf W(3-5)] del7_label [OF wf W(4)] assms(4) True
    by (auto simp: W free_tracks_def slots_full_def)
next
  case False
  let ?trk = "unat (v_trk v)" and ?n = "(of_nat b :: u32) - 1 - of_nat a + 1"
  let ?x = "ucast (of_nat a :: u32) :: u16" and ?y = "ucast (?n div v_trk v) :: u16" and ?z = "ucast (?n mod v_trk v) :: u8"
  have r: "0 < a" "a < b" "b \<le> limit5" using False assms(2) by (auto simp: track_range_def)
  have wf: "wf5 ?trk (v_f5 v)" using False assms(1) by (simp add: wf_volume_def)
  then have trk: "0 < ?trk" "?trk \<le> 256" by (auto simp: wf5_def wf_exts5_def)
  note X = xyz_range [OF r trk]
  note A = add5_label [OF wf X(4) _ _ X(3), where b = ?y, unfolded X(1,2)]
    and D = del5_label [OF wf _ X(3), where a = ?x and b = ?y, unfolded X(1,2)]
  have "ch = CHR ''+'' \<and> vtoc_update_format5_label_add (v_f5 v) ?trk ?x ?y ?z = Inl e \<or>
      ch = CHR ''-'' \<and> vtoc_update_format5_label_del (v_f5 v) ?trk ?x ?y ?z = Inl e"
    using assms(3,4) False unfolding set_freespace_def vtoc_set_freespace_def Let_def
    by (auto simp: big_def split: sum.splits if_splits)
  then show ?thesis
    using A D r assms(4) False by (auto simp: free_tracks_def slots_full_def)
qed

lemma sample_volume_wf:
  "\<not> big sample_volume" "wf_volume sample_volume" "free_tracks sample_volume = {2..<1515}"
proof -
  show "\<not> big sample_volume" by (simp add: big_def sample_volume_def BIG_DISK_SIZE_def)
  then show "wf_volume sample_volume" "free_tracks sample_volume = {2..<1515}"
    using sample5_wf by (simp_all add: wf_volume_def free_tracks_def sample_volume_def)
qed

section \<open>Properties\<close>

text \<open>
  C6. Adding tracks that are not free, or removing tracks that are, \<^verbatim>\<open>vtoc_set_freespace\<close> does
  exactly that to the free tracks of the volume, whichever label the volume uses, and leaves a
  well-formed label; it stops only when it needs a slot for an extent and none is left.
\<close>

theorem vtoc_set_freespace_tracks:
  assumes "wf_volume v" and "track_range v a b"
    and "ch = CHR ''+'' \<and> {a..<b} \<inter> free_tracks v = {} \<or> ch = CHR ''-'' \<and> {a..<b} \<subseteq> free_tracks v"
  shows "case set_freespace ch v a b of
      Inl e \<Rightarrow> e = NoFreeExtent \<and> slots_full v
    | Inr v' \<Rightarrow> wf_volume v' \<and>
        free_tracks v' = (if ch = CHR ''+'' then free_tracks v \<union> {a..<b} else free_tracks v - {a..<b})"
proof (cases "set_freespace ch v a b")
  case (Inl e)
  then show ?thesis using set_freespace_fails [OF assms(1,2) Inl assms(3)] by simp
next
  case (Inr v')
  from assms(3) show ?thesis
  proof (elim disjE conjE)
    assume "ch = CHR ''+''" "{a..<b} \<inter> free_tracks v = {}"
    then show ?thesis using vol.add_law [OF assms(1,2), of v'] Inr by simp
  next
    assume "ch = CHR ''-''" "{a..<b} \<subseteq> free_tracks v"
    then show ?thesis using vol.del_law [OF assms(1,2), of v'] Inr by simp
  qed
qed

theorem vtoc_set_freespace_tracks_witness:
  "case set_freespace CHR ''-'' sample_volume 100 200 of
     Inl e \<Rightarrow> False | Inr v' \<Rightarrow> wf_volume v' \<and> free_tracks v' = {2..<1515} - {100..<200}"
proof -
  have "isl (set_freespace CHR ''-'' sample_volume 100 200) = False" by code_simp
  then show ?thesis
    using vtoc_set_freespace_tracks [of sample_volume 100 200 "CHR ''-''"]
    by (cases "set_freespace CHR ''-'' sample_volume 100 200")
      (simp_all add: sample_volume_wf track_range_def)
qed

text \<open>
  C20. Taking the tracks of a list of disjoint partitions from the free space, one call after the
  other, leaves as free tracks exactly those that no partition holds.
\<close>

theorem vtoc_alloc_partitions:
  assumes "wf_volume v" and "\<forall>(a, b) \<in> set ps. track_range v a b"
    and "\<forall>(a, b) \<in> set ps. {a..<b} \<subseteq> free_tracks v"
    and "pairwise (\<lambda>p q. {fst p..<snd p} \<inter> {fst q..<snd q} = {}) (set ps)" and "distinct ps"
    and "vol.alloc v ps = Inr v'"
  shows "wf_volume v' \<and> free_tracks v' = free_tracks v - (\<Union>(a, b) \<in> set ps. {a..<b})"
  using vol.alloc_free [OF assms] .

theorem vtoc_alloc_partitions_witness:
  "\<exists>v'. vol.alloc sample_volume [(100, 200), (300, 400)] = Inr v' \<and> wf_volume v' \<and>
     free_tracks v' = {2..<1515} - ({100..<200} \<union> {300..<400})"
proof -
  have "case set_freespace CHR ''-'' sample_volume 100 200 of Inl e \<Rightarrow> False
      | Inr v \<Rightarrow> \<not> isl (set_freespace CHR ''-'' v 300 400)" by code_simp
  then obtain v' where "vol.alloc sample_volume [(100, 200), (300, 400)] = Inr v'"
    by (auto simp: not_isl_iff split: sum.splits)
  then show ?thesis
    using vtoc_alloc_partitions [of sample_volume "[(100, 200), (300, 400)]" v']
    by (simp add: sample_volume_wf track_range_def pairwise_insert)
qed

text \<open>
  Removing a partition's tracks from the free space and adding them again restores the free
  tracks of the volume.
\<close>

theorem vtoc_freespace_restored:
  assumes "wf_volume v" and "track_range v a b" and "{a..<b} \<subseteq> free_tracks v"
    and "set_freespace CHR ''-'' v a b = Inr v1" and "set_freespace CHR ''+'' v1 a b = Inr v2"
  shows "wf_volume v2 \<and> free_tracks v2 = free_tracks v"
  using vol.del_add_restores [OF assms] by blast

theorem vtoc_freespace_restored_witness:
  "\<exists>v1 v2. set_freespace CHR ''-'' sample_volume 100 200 = Inr v1 \<and>
     set_freespace CHR ''+'' v1 100 200 = Inr v2 \<and> free_tracks v2 = {2..<1515}"
proof -
  have "case set_freespace CHR ''-'' sample_volume 100 200 of Inl e \<Rightarrow> False
      | Inr v \<Rightarrow> \<not> isl (set_freespace CHR ''+'' v 100 200)" by code_simp
  then obtain v1 v2 where "set_freespace CHR ''-'' sample_volume 100 200 = Inr v1"
      "set_freespace CHR ''+'' v1 100 200 = Inr v2"
    by (auto simp: not_isl_iff split: sum.splits)
  then show ?thesis
    using vtoc_freespace_restored [of sample_volume 100 200 v1 v2]
    by (simp add: sample_volume_wf track_range_def)
qed

end
