(* ===== verification/Mem_Chunk.thy ===== *)
theory Mem_Chunk
  imports Util_List
begin

text \<open>
  The memory map of an input dump of zgetdump (\<^verbatim>\<open>zdump/dfi_mem_chunk.c\<close>): a physical and a
  virtual memory, each a list of chunks of addresses with a callback that reads a chunk, a cache of
  the chunk that was found last, and the operations that add, find, read, map and unmap chunks.

  \<^item> A chunk is a record; its address in the heap is the field \<open>c_addr\<close>. The list of chunks is the
    sequence of entries that \<^verbatim>\<open>Util_List\<close> proves the intrusive list to represent, and the sort is
    the \<open>bubble_sort\<close> it proves \<^verbatim>\<open>util_list_sort\<close> to perform. The cache holds the address of a
    chunk; following it when the chunk has been freed is the fault \<open>UseAfterFree\<close>.
  \<^item> The read callbacks are \<open>ReadZero\<close> (\<^verbatim>\<open>dfi_mem_chunk_read_zero\<close>), \<open>ReadMap p\<close>
    (\<^verbatim>\<open>mem_chunk_map_read_fn\<close> with \<^verbatim>\<open>*data == p\<close>) and \<open>ReadDump n\<close>, a callback of one of
    the dump formats; what the latter finds at an offset is the parameter \<open>dump n\<close>.
  \<^item> The two loops of \<^verbatim>\<open>mem_range_valid\<close> and \<^verbatim>\<open>mem_read\<close> are partial functions; they are
    proved to return on well-formed memories.

  The lemmas show that the lookup does not depend on the cache, that a range is valid exactly when
  every address of it is in a chunk, and that reads return
  the bytes of the chunks. \<^verbatim>\<open>Mem_Map\<close> has the lemmas on the operations that change the memory map.
\<close>

section \<open>Definitions\<close>

datatype chunk_read = ReadZero | ReadMap u64 | ReadDump nat

record dfi_mem_chunk =
  c_addr :: nat
  c_start :: u64
  c_end :: u64
  c_size :: u64
  c_read :: chunk_read
  c_volnr :: "u32 option"

record mem =
  chunk_cache :: "nat option"
  start_addr :: u64
  end_addr :: u64
  chunk_cnt :: u32
  chunk_list :: "dfi_mem_chunk list"

text \<open>The static data of the file, with the next address the allocator hands out.\<close>

record dfi =
  mem_phys :: mem
  mem_virt :: mem
  next_addr :: nat

datatype mem_fault = UseAfterFree | NullDeref | NestedMap | MapAbort

abbreviation U64_MAX :: u64 where
  "U64_MAX \<equiv> 0xFFFFFFFFFFFFFFFF"

definition mem_init :: "mem \<Rightarrow> mem" where
  "mem_init mem = mem\<lparr>start_addr := U64_MAX, end_addr := 0, chunk_list := []\<rparr>"

definition mem_chunk_cmp_fn :: "dfi_mem_chunk \<Rightarrow> dfi_mem_chunk \<Rightarrow> int" where
  "mem_chunk_cmp_fn a b = (if c_start a < c_start b then - 1 else 1)"

definition sort_chunks :: "dfi_mem_chunk list \<Rightarrow> dfi_mem_chunk list" where
  "sort_chunks cs = bubble_sort (\<lambda>a b. mem_chunk_cmp_fn a b > 0) cs"

definition mem_update :: "mem \<Rightarrow> mem" where
  "mem_update mem =
     (let cs = sort_chunks (chunk_list mem);
          (lo, hi) = foldl (\<lambda>(lo, hi) c. (min lo (c_start c), max hi (c_end c))) (U64_MAX, 0) cs
      in mem\<lparr>chunk_list := cs, start_addr := lo, end_addr := hi\<rparr>)"

definition mem_chunk_has_addr :: "dfi_mem_chunk \<Rightarrow> u64 \<Rightarrow> bool" where
  "mem_chunk_has_addr c addr \<longleftrightarrow> addr \<ge> c_start c \<and> addr \<le> c_end c"

definition deref_chunk :: "mem \<Rightarrow> nat \<Rightarrow> dfi_mem_chunk option" where
  "deref_chunk mem p = find (\<lambda>c. c_addr c = p) (chunk_list mem)"

definition mem_chunk_search :: "mem \<Rightarrow> u64 \<Rightarrow> mem_fault + dfi_mem_chunk option \<times> mem" where
  "mem_chunk_search mem addr =
     (case find (\<lambda>c. mem_chunk_has_addr c addr) (chunk_list mem) of
        None \<Rightarrow> Inr (None, mem)
      | Some c \<Rightarrow> Inr (Some c, mem\<lparr>chunk_cache := Some (c_addr c)\<rparr>))"

definition mem_chunk_find :: "mem \<Rightarrow> u64 \<Rightarrow> mem_fault + dfi_mem_chunk option \<times> mem" where
  "mem_chunk_find mem addr =
     (case chunk_cache mem of
        None \<Rightarrow> mem_chunk_search mem addr
      | Some p \<Rightarrow>
          (case deref_chunk mem p of
             None \<Rightarrow> Inl UseAfterFree
           | Some c \<Rightarrow> if mem_chunk_has_addr c addr then Inr (Some c, mem) else mem_chunk_search mem addr))"

text \<open>The do-while loop of \<^verbatim>\<open>mem_range_valid\<close>.\<close>

partial_function (option) range_valid_loop ::
    "mem \<Rightarrow> u64 \<Rightarrow> u64 \<Rightarrow> u64 \<Rightarrow> (mem_fault + bool \<times> mem) option" where
  "range_valid_loop mem addr len addr_end =
     (case mem_chunk_find mem addr of
        Inl e \<Rightarrow> Some (Inl e)
      | Inr (None, mem) \<Rightarrow> Some (Inr (False, mem))
      | Inr (Some c, mem) \<Rightarrow>
          (let addr = addr + min len (c_end c - addr + 1)
           in if addr < addr_end then range_valid_loop mem addr len addr_end
              else Some (Inr (True, mem))))"

definition mem_range_valid :: "mem \<Rightarrow> u64 \<Rightarrow> u64 \<Rightarrow> (mem_fault + bool \<times> mem) option" where
  "mem_range_valid mem addr len =
     (let addr_end = addr + len
      in if addr_end < addr then Some (Inr (False, mem))
         else range_valid_loop mem addr len addr_end)"

text \<open>The iteration over the virtual memory chunks of \<^verbatim>\<open>mem_range_mapped\<close>.\<close>

definition mem_range_mapped :: "dfi \<Rightarrow> u64 \<Rightarrow> u64 \<Rightarrow> bool" where
  "mem_range_mapped d start sz =
     (let stop = start + sz - 1
      in list_ex (\<lambda>c. \<not> c_start c > stop \<and> \<not> c_end c < start) (chunk_list (mem_virt d)))"

definition mem_chunk_create :: "mem \<Rightarrow> nat \<Rightarrow> u64 \<Rightarrow> u64 \<Rightarrow> chunk_read \<Rightarrow> mem" where
  "mem_chunk_create mem p start sz rd =
     (let c = \<lparr>c_addr = p, c_start = start, c_end = start + sz - 1, c_size = sz, c_read = rd, c_volnr = None\<rparr>
      in mem\<lparr>chunk_list := chunk_list mem @ [c], start_addr := min (start_addr mem) (c_start c),
             end_addr := max (end_addr mem) (c_end c), chunk_cache := Some p, chunk_cnt := chunk_cnt mem + 1\<rparr>)"

text \<open>Storing \<open>bytes\<close> at position \<open>pos\<close> of a buffer.\<close>

definition write_buf :: "u8 list \<Rightarrow> nat \<Rightarrow> u8 list \<Rightarrow> u8 list" where
  "write_buf buf pos bytes = take pos buf @ bytes @ drop (pos + length bytes) buf"

text \<open>
  \<^verbatim>\<open>mem_read\<close>: the state \<open>'s\<close> holds the memory; \<open>lookup\<close> is \<^verbatim>\<open>mem_chunk_find\<close> in it and \<open>rd\<close>
  calls the read callback of a chunk with an offset, the buffer, a position and a length.
\<close>

partial_function (option) mem_read ::
    "('s \<Rightarrow> u64 \<Rightarrow> mem_fault + dfi_mem_chunk option \<times> 's) \<Rightarrow>
     (dfi_mem_chunk \<Rightarrow> u64 \<Rightarrow> u8 list \<Rightarrow> nat \<Rightarrow> u64 \<Rightarrow> 's \<Rightarrow> (mem_fault + u8 list \<times> 's) option) \<Rightarrow>
     's \<Rightarrow> u64 \<Rightarrow> u8 list \<Rightarrow> nat \<Rightarrow> u64 \<Rightarrow> u64 \<Rightarrow> (mem_fault + u8 list \<times> 's) option" where
  "mem_read lookup rd s addr buf pos cnt copied =
     (if copied = cnt then Some (Inr (buf, s))
      else case lookup s addr of
        Inl e \<Rightarrow> Some (Inl e)
      | Inr (None, s) \<Rightarrow> Some (Inl NullDeref)
      | Inr (Some c, s) \<Rightarrow>
          (let sz = min (cnt - copied) (c_end c - addr + 1);
               off = addr - c_start c
           in Option.bind (rd c off buf (pos + unat copied) sz s)
                (\<lambda>r. case r of Inl e \<Rightarrow> Some (Inl e)
                  | Inr (buf, s) \<Rightarrow> mem_read lookup rd s (addr + sz) buf pos cnt (copied + sz))))"

definition find_phys :: "dfi \<Rightarrow> u64 \<Rightarrow> mem_fault + dfi_mem_chunk option \<times> dfi" where
  "find_phys d addr = (case mem_chunk_find (mem_phys d) addr of
     Inl e \<Rightarrow> Inl e | Inr (c, mem) \<Rightarrow> Inr (c, d\<lparr>mem_phys := mem\<rparr>))"

definition find_virt :: "dfi \<Rightarrow> u64 \<Rightarrow> mem_fault + dfi_mem_chunk option \<times> dfi" where
  "find_virt d addr = (case mem_chunk_find (mem_virt d) addr of
     Inl e \<Rightarrow> Inl e | Inr (c, mem) \<Rightarrow> Inr (c, d\<lparr>mem_virt := mem\<rparr>))"

text \<open>Reading a chunk of the physical memory, which holds no virtual mapping.\<close>

definition read_phys_chunk ::
    "(nat \<Rightarrow> u64 \<Rightarrow> u8) \<Rightarrow> dfi_mem_chunk \<Rightarrow> u64 \<Rightarrow> u8 list \<Rightarrow> nat \<Rightarrow> u64 \<Rightarrow> dfi \<Rightarrow>
     (mem_fault + u8 list \<times> dfi) option" where
  "read_phys_chunk dump c off buf pos cnt d =
     (case c_read c of
        ReadZero \<Rightarrow> Some (Inr (write_buf buf pos (replicate (unat cnt) 0), d))
      | ReadDump n \<Rightarrow> Some (Inr (write_buf buf pos (map (\<lambda>i. dump n (off + of_nat i)) [0..<unat cnt]), d))
      | ReadMap p \<Rightarrow> Some (Inl NestedMap))"

text \<open>The result \<open>-22\<close> is \<^verbatim>\<open>-EINVAL\<close>; the buffer is then left as it was.\<close>

definition dfi_mem_phys_read ::
    "(nat \<Rightarrow> u64 \<Rightarrow> u8) \<Rightarrow> dfi \<Rightarrow> u64 \<Rightarrow> u8 list \<Rightarrow> nat \<Rightarrow> u64 \<Rightarrow> (mem_fault + int \<times> u8 list \<times> dfi) option" where
  "dfi_mem_phys_read dump d addr buf pos cnt =
     Option.bind (mem_range_valid (mem_phys d) addr cnt)
       (\<lambda>r. case r of Inl e \<Rightarrow> Some (Inl e)
         | Inr (valid, mem) \<Rightarrow>
             (let d = d\<lparr>mem_phys := mem\<rparr>
              in if \<not> valid then Some (Inr (- 22, buf, d))
                 else Option.bind (mem_read find_phys (read_phys_chunk dump) d addr buf pos cnt 0)
                   (\<lambda>r. case r of Inl e \<Rightarrow> Some (Inl e) | Inr (buf, d) \<Rightarrow> Some (Inr (0, buf, d)))))"

text \<open>
  Reading a chunk of the virtual memory: \<^verbatim>\<open>mem_chunk_map_read_fn\<close> ignores the result of the
  physical read.
\<close>

definition read_virt_chunk ::
    "(nat \<Rightarrow> u64 \<Rightarrow> u8) \<Rightarrow> dfi_mem_chunk \<Rightarrow> u64 \<Rightarrow> u8 list \<Rightarrow> nat \<Rightarrow> u64 \<Rightarrow> dfi \<Rightarrow>
     (mem_fault + u8 list \<times> dfi) option" where
  "read_virt_chunk dump c off buf pos cnt d =
     (case c_read c of
        ReadMap p \<Rightarrow>
          Option.bind (dfi_mem_phys_read dump d (p + off) buf pos cnt)
            (\<lambda>r. case r of Inl e \<Rightarrow> Some (Inl e) | Inr (rc, buf, d) \<Rightarrow> Some (Inr (buf, d)))
      | _ \<Rightarrow> read_phys_chunk dump c off buf pos cnt d)"

definition dfi_mem_virt_read ::
    "(nat \<Rightarrow> u64 \<Rightarrow> u8) \<Rightarrow> dfi \<Rightarrow> u64 \<Rightarrow> u8 list \<Rightarrow> nat \<Rightarrow> u64 \<Rightarrow> (mem_fault + int \<times> u8 list \<times> dfi) option" where
  "dfi_mem_virt_read dump d addr buf pos cnt =
     Option.bind (mem_range_valid (mem_virt d) addr cnt)
       (\<lambda>r. case r of Inl e \<Rightarrow> Some (Inl e)
         | Inr (valid, mem) \<Rightarrow>
             (let d = d\<lparr>mem_virt := mem\<rparr>
              in if \<not> valid then Some (Inr (- 22, buf, d))
                 else Option.bind (mem_read find_virt (read_virt_chunk dump) d addr buf pos cnt 0)
                   (\<lambda>r. case r of Inl e \<Rightarrow> Some (Inl e) | Inr (buf, d) \<Rightarrow> Some (Inr (0, buf, d)))))"

definition mem_chunk_is_map :: "dfi_mem_chunk \<Rightarrow> bool" where
  "mem_chunk_is_map c = (case c_read c of ReadMap p \<Rightarrow> True | _ \<Rightarrow> False)"

definition mem_chunk_start_phys :: "dfi_mem_chunk \<Rightarrow> u64" where
  "mem_chunk_start_phys c = (case c_read c of ReadMap p \<Rightarrow> p | _ \<Rightarrow> c_start c)"

definition mem_chunk_virt_add :: "dfi \<Rightarrow> u64 \<Rightarrow> u64 \<Rightarrow> chunk_read \<Rightarrow> dfi" where
  "mem_chunk_virt_add d start sz rd =
     (if sz = 0 then d
      else d\<lparr>mem_virt := mem_chunk_create (mem_virt d) (next_addr d) start sz rd, next_addr := next_addr d + 1\<rparr>)"

definition mem_chunk_map_add :: "dfi \<Rightarrow> u64 \<Rightarrow> u64 \<Rightarrow> u64 \<Rightarrow> dfi" where
  "mem_chunk_map_add d start sz start_p = mem_chunk_virt_add d start sz (ReadMap start_p)"

text \<open>
  The chunk is created in both memories; the cache of the virtual memory is then the new chunk,
  whose volume number is set through it.
\<close>

definition set_volnr :: "mem \<Rightarrow> nat \<Rightarrow> u32 \<Rightarrow> mem" where
  "set_volnr mem p volnr =
     mem\<lparr>chunk_list := map (\<lambda>c. if c_addr c = p then c\<lparr>c_volnr := Some volnr\<rparr> else c) (chunk_list mem)\<rparr>"

definition dfi_mem_chunk_add_vol :: "dfi \<Rightarrow> u64 \<Rightarrow> u64 \<Rightarrow> chunk_read \<Rightarrow> u32 \<Rightarrow> dfi" where
  "dfi_mem_chunk_add_vol d start sz rd volnr =
     (if sz = 0 then d
      else let phys = mem_chunk_create (mem_phys d) (next_addr d) start sz rd;
               virt = mem_chunk_create (mem_virt d) (next_addr d + 1) start sz rd;
               virt = (case chunk_cache virt of None \<Rightarrow> virt | Some p \<Rightarrow> set_volnr virt p volnr)
           in d\<lparr>mem_phys := phys, mem_virt := virt, next_addr := next_addr d + 2\<rparr>)"

definition dfi_mem_chunk_add :: "dfi \<Rightarrow> u64 \<Rightarrow> u64 \<Rightarrow> chunk_read \<Rightarrow> dfi" where
  "dfi_mem_chunk_add d start sz rd = dfi_mem_chunk_add_vol d start sz rd 0"

definition dfi_mem_chunk_sort :: "dfi \<Rightarrow> dfi" where
  "dfi_mem_chunk_sort d = d\<lparr>mem_virt := (mem_virt d)\<lparr>chunk_list := sort_chunks (chunk_list (mem_virt d))\<rparr>\<rparr>"

definition dfi_mem_chunk_cnt :: "dfi \<Rightarrow> u32" where
  "dfi_mem_chunk_cnt d = chunk_cnt (mem_virt d)"

definition dfi_mem_range :: "dfi \<Rightarrow> u64" where
  "dfi_mem_range d =
     (if start_addr (mem_virt d) = U64_MAX then 0 else end_addr (mem_virt d) - start_addr (mem_virt d) + 1)"

definition dfi_mem_end :: "dfi \<Rightarrow> u64" where
  "dfi_mem_end d = end_addr (mem_virt d)"

definition dfi_mem_range_valid :: "dfi \<Rightarrow> u64 \<Rightarrow> u64 \<Rightarrow> (mem_fault + bool \<times> dfi) option" where
  "dfi_mem_range_valid d addr len =
     Option.bind (mem_range_valid (mem_virt d) addr len)
       (\<lambda>r. case r of Inl e \<Rightarrow> Some (Inl e) | Inr (v, mem) \<Rightarrow> Some (Inr (v, d\<lparr>mem_virt := mem\<rparr>)))"

definition dfi_mem_chunk_first :: "dfi \<Rightarrow> dfi_mem_chunk option" where
  "dfi_mem_chunk_first d = (case chunk_list (mem_virt d) of [] \<Rightarrow> None | c # cs \<Rightarrow> Some c)"

definition dfi_mem_chunk_last :: "dfi \<Rightarrow> dfi_mem_chunk option" where
  "dfi_mem_chunk_last d = (case chunk_list (mem_virt d) of [] \<Rightarrow> None | cs \<Rightarrow> Some (last cs))"

text \<open>
  One chunk in the loop of \<^verbatim>\<open>dfi_mem_unmap\<close>: \<open>hit_by\<close> is the test that does not skip it,
  \<open>unmap_chunk\<close> adds the pieces of it that stay mapped, and \<open>drop_chunk\<close> is the code at the label
  \<^verbatim>\<open>free\<close>.
\<close>

definition hit_by :: "u64 \<Rightarrow> u64 \<Rightarrow> dfi_mem_chunk \<Rightarrow> bool" where
  "hit_by start sz c \<longleftrightarrow> \<not> c_start c \<ge> start + sz \<and> \<not> c_end c < start"

definition unmap_chunk :: "dfi \<Rightarrow> u64 \<Rightarrow> u64 \<Rightarrow> dfi_mem_chunk \<Rightarrow> dfi" where
  "unmap_chunk d start sz c =
     (let stop = start + sz - 1
      in if c_start c \<ge> start \<and> c_end c \<le> stop then d
         else
           let start_phys = mem_chunk_start_phys c;
               end_phys = start_phys + c_size c - 1;
               d = (if c_end c > stop
                    then let size_virt = c_end c - stop
                         in mem_chunk_map_add d (stop + 1) size_virt (end_phys - size_virt + 1)
                    else d)
           in if c_start c < start
              then mem_chunk_map_add d (c_start c) (start - c_start c) start_phys
              else d)"

definition drop_chunk :: "dfi \<Rightarrow> dfi_mem_chunk \<Rightarrow> dfi" where
  "drop_chunk d c =
     d\<lparr>mem_virt := (mem_virt d)\<lparr>chunk_list := remove1 c (chunk_list (mem_virt d)),
                                  chunk_cnt := chunk_cnt (mem_virt d) - 1\<rparr>\<rparr>"

text \<open>
  The chunks appended while one chunk is processed lie outside the unmapped range. The iteration
  comes to them as well, unless its chunk was the last one of the list.
\<close>

definition appended :: "dfi \<Rightarrow> dfi \<Rightarrow> dfi_mem_chunk list" where
  "appended d d' = drop (length (chunk_list (mem_virt d))) (chunk_list (mem_virt d'))"

lemma map_add_list:
  "sz \<noteq> 0 \<Longrightarrow> chunk_list (mem_virt (mem_chunk_map_add d start sz p)) =
     chunk_list (mem_virt d) @ [\<lparr>c_addr = next_addr d, c_start = start, c_end = start + sz - 1,
       c_size = sz, c_read = ReadMap p, c_volnr = None\<rparr>]"
  by (simp add: mem_chunk_map_add_def mem_chunk_virt_add_def mem_chunk_create_def Let_def)

lemma appended_not_hit:
  assumes "p \<in> set (appended d (unmap_chunk d start sz c))"
  shows "\<not> hit_by start sz p"
proof -
  have tail: "\<not> hit_by start sz \<lparr>c_addr = a, c_start = start + sz - 1 + 1, c_end = e, c_size = n, c_read = r, c_volnr = v\<rparr>"
    for a e n r v by (simp add: hit_by_def)
  have front: "\<not> hit_by start sz \<lparr>c_addr = a, c_start = s, c_end = s + (start - s) - 1, c_size = n, c_read = r, c_volnr = v\<rparr>"
    if "s < start" for a s n r v
    using that by (auto simp: hit_by_def word_less_nat_alt unat_sub_if')
  show ?thesis
    using assms tail front
    by (auto simp: appended_def unmap_chunk_def Let_def map_add_list split: if_splits)
qed

function unmap_loop :: "dfi \<Rightarrow> u64 \<Rightarrow> u64 \<Rightarrow> dfi_mem_chunk list \<Rightarrow> dfi" where
  "unmap_loop d start sz [] = d"
| "unmap_loop d start sz (c # rest) =
     (if \<not> hit_by start sz c then unmap_loop d start sz rest
      else let d1 = unmap_chunk d start sz c;
               d2 = drop_chunk d1 c
           in if rest = [] then d2 else unmap_loop d2 start sz (rest @ appended d d1))"
  by pat_completeness auto
termination
proof (relation "measures [\<lambda>(d, start, sz, cs). length (filter (hit_by start sz) cs), \<lambda>(d, start, sz, cs). length cs]",
    goal_cases)
  case (3 d start sz c rest d1 d2)
  have "filter (hit_by start sz) (appended d d1) = []"
    using appended_not_hit 3(2) by (simp add: filter_empty_conv)
  with 3 show ?case by simp
qed auto

definition dfi_mem_unmap :: "dfi \<Rightarrow> u64 \<Rightarrow> u64 \<Rightarrow> dfi" where
  "dfi_mem_unmap d start sz =
     (let d = unmap_loop d start sz (chunk_list (mem_virt d))
      in d\<lparr>mem_virt := mem_update (mem_virt d)\<rparr>)"

definition dfi_mem_map :: "dfi \<Rightarrow> u64 \<Rightarrow> u64 \<Rightarrow> u64 \<Rightarrow> mem_fault + dfi" where
  "dfi_mem_map d start sz start_phys =
     (if mem_range_mapped d start sz then Inl MapAbort
      else let d = mem_chunk_map_add d start sz start_phys
           in Inr (d\<lparr>mem_virt := mem_update (mem_virt d)\<rparr>))"

text \<open>The static data before and after \<^verbatim>\<open>dfi_mem_chunk_init\<close> and \<^verbatim>\<open>dfi_mem_chunk_deinit\<close>.\<close>

definition zero_mem :: mem where
  "zero_mem = \<lparr>chunk_cache = None, start_addr = 0, end_addr = 0, chunk_cnt = 0, chunk_list = []\<rparr>"

definition dfi_mem_chunk_init :: "dfi \<Rightarrow> dfi" where
  "dfi_mem_chunk_init d = d\<lparr>mem_virt := mem_init (mem_virt d), mem_phys := mem_init (mem_phys d)\<rparr>"

definition dfi_mem_chunk_deinit :: "dfi \<Rightarrow> dfi" where
  "dfi_mem_chunk_deinit d = d\<lparr>mem_phys := zero_mem, mem_virt := zero_mem\<rparr>"

text \<open>The memory map that \<^verbatim>\<open>dfi_mem_map_print\<close> shows: adjacent chunks of a volume merged.\<close>

definition map_print_verbose :: "dfi \<Rightarrow> (u64 \<times> u64 \<times> bool) list" where
  "map_print_verbose d =
     map (\<lambda>c. (c_start c, c_end c, c_read c = ReadZero)) (chunk_list (mem_virt d))"

fun map_print_loop :: "dfi_mem_chunk list \<Rightarrow> u64 \<Rightarrow> u64 \<Rightarrow> u32 option \<Rightarrow> (u64 \<times> u64) list" where
  "map_print_loop [] print_start print_end volnr = [(print_start, print_end)]"
| "map_print_loop (c # cs) print_start print_end volnr =
     (if print_end = 0 then map_print_loop cs (c_start c) (c_end c) (c_volnr c)
      else if c_start c \<noteq> print_end + 1 \<or> c_volnr c \<noteq> volnr
      then (print_start, print_end) # map_print_loop cs (c_start c) (c_end c) (c_volnr c)
      else map_print_loop cs print_start (c_end c) volnr)"

definition dfi_mem_map_print :: "dfi \<Rightarrow> (u64 \<times> u64) list" where
  "dfi_mem_map_print d = map_print_loop (chunk_list (mem_virt d)) 0 0 (Some 0)"

section \<open>Well-formed memories\<close>

definition chunk_ok :: "dfi_mem_chunk \<Rightarrow> bool" where
  "chunk_ok c \<longleftrightarrow> c_start c \<le> c_end c \<and> c_end c < U64_MAX \<and> c_size c = c_end c - c_start c + 1"

definition chunk_disj :: "dfi_mem_chunk \<Rightarrow> dfi_mem_chunk \<Rightarrow> bool" where
  "chunk_disj a b \<longleftrightarrow> c_end a < c_start b \<or> c_end b < c_start a"

definition wf_chunks :: "nat \<Rightarrow> dfi_mem_chunk list \<Rightarrow> bool" where
  "wf_chunks n cs \<longleftrightarrow> distinct (map c_addr cs) \<and> (\<forall>c \<in> set cs. chunk_ok c \<and> c_addr c < n) \<and>
     (\<forall>a \<in> set cs. \<forall>b \<in> set cs. a \<noteq> b \<longrightarrow> chunk_disj a b)"

definition cache_ok :: "mem \<Rightarrow> bool" where
  "cache_ok mem \<longleftrightarrow> (case chunk_cache mem of None \<Rightarrow> True | Some p \<Rightarrow> p \<in> c_addr ` set (chunk_list mem))"

definition chunk_at :: "dfi_mem_chunk list \<Rightarrow> u64 \<Rightarrow> dfi_mem_chunk option" where
  "chunk_at cs a = find (\<lambda>c. mem_chunk_has_addr c a) cs"

definition covered :: "dfi_mem_chunk list \<Rightarrow> u64 \<Rightarrow> bool" where
  "covered cs a \<longleftrightarrow> (\<exists>c \<in> set cs. mem_chunk_has_addr c a)"

definition valid_range :: "dfi_mem_chunk list \<Rightarrow> u64 \<Rightarrow> u64 \<Rightarrow> bool" where
  "valid_range cs addr len \<longleftrightarrow> unat addr + unat len < 2 ^ 64 \<and> covered cs addr \<and>
     (\<forall>x. addr \<le> x \<and> unat x < unat addr + unat len \<longrightarrow> covered cs x)"

text \<open>The bytes of the two memories.\<close>

definition phys_byte :: "(nat \<Rightarrow> u64 \<Rightarrow> u8) \<Rightarrow> dfi \<Rightarrow> u64 \<Rightarrow> u8" where
  "phys_byte dump d a = (case chunk_at (chunk_list (mem_phys d)) a of None \<Rightarrow> 0
     | Some c \<Rightarrow> (case c_read c of ReadDump n \<Rightarrow> dump n (a - c_start c) | _ \<Rightarrow> 0))"

definition virt_byte :: "(nat \<Rightarrow> u64 \<Rightarrow> u8) \<Rightarrow> dfi \<Rightarrow> u64 \<Rightarrow> u8" where
  "virt_byte dump d a = (case chunk_at (chunk_list (mem_virt d)) a of None \<Rightarrow> 0
     | Some c \<Rightarrow> (case c_read c of ReadZero \<Rightarrow> 0 | ReadDump n \<Rightarrow> dump n (a - c_start c)
         | ReadMap p \<Rightarrow> phys_byte dump d (p + (a - c_start c))))"

definition phys_inv :: "dfi \<Rightarrow> bool" where
  "phys_inv d \<longleftrightarrow> wf_chunks (next_addr d) (chunk_list (mem_phys d)) \<and> cache_ok (mem_phys d) \<and>
     (\<forall>c \<in> set (chunk_list (mem_phys d)). \<not> mem_chunk_is_map c)"

definition map_ok :: "dfi_mem_chunk list \<Rightarrow> dfi_mem_chunk \<Rightarrow> bool" where
  "map_ok ps c \<longleftrightarrow> (case c_read c of ReadMap p \<Rightarrow> unat p + unat (c_size c) < 2 ^ 64 \<and>
       (\<forall>x. p \<le> x \<and> unat x < unat p + unat (c_size c) \<longrightarrow> covered ps x)
     | _ \<Rightarrow> True)"

definition virt_inv :: "dfi \<Rightarrow> bool" where
  "virt_inv d \<longleftrightarrow> phys_inv d \<and> wf_chunks (next_addr d) (chunk_list (mem_virt d)) \<and> cache_ok (mem_virt d) \<and>
     (\<forall>c \<in> set (chunk_list (mem_virt d)). map_ok (chunk_list (mem_phys d)) c)"

definition same_phys :: "dfi \<Rightarrow> dfi \<Rightarrow> bool" where
  "same_phys d d' \<longleftrightarrow> (\<exists>p. d' = d\<lparr>mem_phys := (mem_phys d)\<lparr>chunk_cache := p\<rparr>\<rparr>) \<and> cache_ok (mem_phys d')"

definition same_virt :: "dfi \<Rightarrow> dfi \<Rightarrow> bool" where
  "same_virt d d' \<longleftrightarrow> (\<exists>p q. d' = d\<lparr>mem_phys := (mem_phys d)\<lparr>chunk_cache := p\<rparr>,
       mem_virt := (mem_virt d)\<lparr>chunk_cache := q\<rparr>\<rparr>) \<and> cache_ok (mem_phys d') \<and> cache_ok (mem_virt d')"

text \<open>The physical address a virtual address stands for.\<close>

definition phys_addr :: "dfi_mem_chunk list \<Rightarrow> u64 \<Rightarrow> u64 option" where
  "phys_addr cs a = map_option (\<lambda>c. mem_chunk_start_phys c + (a - c_start c)) (chunk_at cs a)"

section \<open>Finding chunks\<close>

lemma has_addr_unique:
  assumes "wf_chunks n cs" and "a \<in> set cs" "b \<in> set cs" and "mem_chunk_has_addr a x" "mem_chunk_has_addr b x"
  shows "a = b"
proof (rule ccontr)
  assume "a \<noteq> b"
  then have "chunk_disj a b" using assms(1-3) by (auto simp: wf_chunks_def)
  with assms(4,5) show False by (auto simp: chunk_disj_def mem_chunk_has_addr_def)
qed

lemma chunk_at_Some:
  assumes "wf_chunks n cs"
  shows "chunk_at cs a = Some c \<longleftrightarrow> c \<in> set cs \<and> mem_chunk_has_addr c a"
proof
  assume "chunk_at cs a = Some c"
  then show "c \<in> set cs \<and> mem_chunk_has_addr c a"
    by (auto simp: chunk_at_def find_Some_iff)
next
  assume c: "c \<in> set cs \<and> mem_chunk_has_addr c a"
  then obtain c' where c': "chunk_at cs a = Some c'"
    by (cases "chunk_at cs a") (auto simp: chunk_at_def find_None_iff)
  then have "c' \<in> set cs" "mem_chunk_has_addr c' a"
    by (auto simp: chunk_at_def find_Some_iff)
  with c c' has_addr_unique [OF assms] show "chunk_at cs a = Some c" by auto
qed

lemma chunk_at_None: "chunk_at cs a = None \<longleftrightarrow> \<not> covered cs a"
  by (auto simp: chunk_at_def covered_def find_None_iff)

lemma deref_chunk_in:
  assumes "distinct (map c_addr (chunk_list mem))" and "c \<in> set (chunk_list mem)"
  shows "deref_chunk mem (c_addr c) = Some c"
proof -
  obtain c' where c': "deref_chunk mem (c_addr c) = Some c'"
    using assms(2) by (cases "deref_chunk mem (c_addr c)") (auto simp: deref_chunk_def find_None_iff)
  then have "c' \<in> set (chunk_list mem)" "c_addr c' = c_addr c"
    by (auto simp: deref_chunk_def find_Some_iff)
  with assms have "c' = c" by (auto simp: distinct_map inj_on_def)
  with c' show ?thesis by simp
qed

text \<open>The cache only saves the search: with it or without it the same chunk is found.\<close>

lemma mem_chunk_find_correct:
  assumes "wf_chunks n (chunk_list mem)" and "cache_ok mem"
  shows "\<exists>p. mem_chunk_find mem a = Inr (chunk_at (chunk_list mem) a, mem\<lparr>chunk_cache := p\<rparr>) \<and>
    cache_ok (mem\<lparr>chunk_cache := p\<rparr>)"
proof -
  have search: "\<exists>p. mem_chunk_search mem a = Inr (chunk_at (chunk_list mem) a, mem\<lparr>chunk_cache := p\<rparr>) \<and>
      cache_ok (mem\<lparr>chunk_cache := p\<rparr>)"
  proof (cases "chunk_at (chunk_list mem) a")
    case None
    then show ?thesis
      using assms(2) by (intro exI [of _ "chunk_cache mem"]) (simp add: mem_chunk_search_def chunk_at_def cache_ok_def)
  next
    case (Some c)
    then have "c \<in> set (chunk_list mem)" using chunk_at_Some [OF assms(1)] by blast
    with Some show ?thesis
      by (intro exI [of _ "Some (c_addr c)"]) (simp add: mem_chunk_search_def chunk_at_def cache_ok_def)
  qed
  show ?thesis
  proof (cases "chunk_cache mem")
    case None
    then show ?thesis using search by (simp add: mem_chunk_find_def)
  next
    case (Some p)
    then obtain c where c: "c \<in> set (chunk_list mem)" "p = c_addr c"
      using assms(2) by (auto simp: cache_ok_def)
    have d: "deref_chunk mem p = Some c"
      using deref_chunk_in [of mem c] assms(1) c by (simp add: wf_chunks_def)
    show ?thesis
    proof (cases "mem_chunk_has_addr c a")
      case True
      then have "chunk_at (chunk_list mem) a = Some c" using chunk_at_Some [OF assms(1)] c by blast
      then show ?thesis
        using Some d True assms(2) by (intro exI [of _ "Some p"]) (simp add: mem_chunk_find_def cache_ok_def)
    next
      case False
      then show ?thesis using Some d search by (simp add: mem_chunk_find_def)
    qed
  qed
qed

section \<open>Valid ranges\<close>

lemma chunk_step:
  assumes "chunk_ok c" and "mem_chunk_has_addr c a" and "len \<noteq> 0"
  defines "n \<equiv> min len (c_end c - a + 1)"
  shows "0 < unat n" "unat n \<le> unat len" "unat n \<le> unat (c_end c) - unat a + 1" "unat (a + n) = unat a + unat n"
    and "unat a + unat n \<le> unat (c_end c) + 1"
proof -
  have c: "unat a \<le> unat (c_end c)" "unat (c_end c) < 2 ^ 64 - 1"
    using assms(1,2) by (auto simp: chunk_ok_def mem_chunk_has_addr_def word_le_nat_alt word_less_nat_alt)
  have e: "unat (c_end c - a + 1) = unat (c_end c) - unat a + 1"
    using c assms(2) by (simp add: unat_add_exact unat_sub mem_chunk_has_addr_def)
  have len: "0 < unat len" using assms(3) by (simp add: unat_gt_0)
  have n: "unat n = min (unat len) (unat (c_end c) - unat a + 1)"
    by (simp add: n_def min_def word_le_nat_alt e)
  show "0 < unat n" "unat n \<le> unat len" "unat n \<le> unat (c_end c) - unat a + 1" using n len by auto
  show "unat a + unat n \<le> unat (c_end c) + 1" using n c by auto
  then show "unat (a + n) = unat a + unat n" using c by (intro unat_add_exact) simp
qed

lemma range_valid_loop_correct:
  assumes "wf_chunks n (chunk_list mem)" and "cache_ok mem" and "len \<noteq> 0" and "addr < addr_end"
  shows "\<exists>p. range_valid_loop mem addr len addr_end =
      Some (Inr (\<forall>x. addr \<le> x \<and> x < addr_end \<longrightarrow> covered (chunk_list mem) x, mem\<lparr>chunk_cache := p\<rparr>)) \<and>
    cache_ok (mem\<lparr>chunk_cache := p\<rparr>)"
  using assms
proof (induction "unat addr_end - unat addr" arbitrary: mem addr rule: less_induct)
  case less
  let ?cs = "chunk_list mem"
  obtain p where p: "mem_chunk_find mem addr = Inr (chunk_at ?cs addr, mem\<lparr>chunk_cache := p\<rparr>)"
      "cache_ok (mem\<lparr>chunk_cache := p\<rparr>)"
    using mem_chunk_find_correct [OF less.prems(1,2)] by blast
  note S = range_valid_loop.simps [of mem addr len addr_end]
  show ?case
  proof (cases "chunk_at ?cs addr")
    case None
    then have "\<not> covered ?cs addr" by (simp add: chunk_at_None)
    then show ?thesis
      using None p less.prems(4) by (auto simp: S)
  next
    case (Some c)
    then have c: "c \<in> set ?cs" "mem_chunk_has_addr c addr" "chunk_ok c"
      using chunk_at_Some [OF less.prems(1)] less.prems(1) by (auto simp: wf_chunks_def)
    define k where "k = min len (c_end c - addr + 1)"
    note K = chunk_step [OF c(3,2) less.prems(3), folded k_def]
    have cov: "covered ?cs x" if "addr \<le> x" "x < addr + k" for x
    proof -
      have "unat x < unat addr + unat k" using that(2) K(4) by (simp add: word_less_nat_alt)
      then have "mem_chunk_has_addr c x"
        using K(5) that(1) c(2) by (simp add: mem_chunk_has_addr_def word_le_nat_alt)
      with c(1) show ?thesis by (auto simp: covered_def)
    qed
    show ?thesis
    proof (cases "addr + k < addr_end")
      case True
      have lt: "unat addr_end - unat (addr + k) < unat addr_end - unat addr"
        using K(1,4) True less.prems(4) by (simp add: word_less_nat_alt)
      obtain q where q: "range_valid_loop (mem\<lparr>chunk_cache := p\<rparr>) (addr + k) len addr_end =
          Some (Inr (\<forall>x. addr + k \<le> x \<and> x < addr_end \<longrightarrow> covered ?cs x, mem\<lparr>chunk_cache := q\<rparr>))"
          "cache_ok (mem\<lparr>chunk_cache := q\<rparr>)"
        using less.hyps [of "addr + k" "mem\<lparr>chunk_cache := p\<rparr>"] lt less.prems p(2) True by auto
      have "(\<forall>x. addr + k \<le> x \<and> x < addr_end \<longrightarrow> covered ?cs x) \<longleftrightarrow>
          (\<forall>x. addr \<le> x \<and> x < addr_end \<longrightarrow> covered ?cs x)"
      proof -
        have "addr \<le> addr + k" using K(4) by (simp add: word_le_nat_alt)
        then show ?thesis using cov by (meson order_trans not_le)
      qed
      then show ?thesis using Some p q True by (auto simp: S k_def [symmetric] Let_def)
    next
      case False
      then have "\<forall>x. addr \<le> x \<and> x < addr_end \<longrightarrow> covered ?cs x" using cov by force
      then show ?thesis using Some p False by (auto simp: S k_def [symmetric] Let_def)
    qed
  qed
qed

lemma mem_range_valid_correct:
  assumes "wf_chunks n (chunk_list mem)" and "cache_ok mem"
  shows "\<exists>p. mem_range_valid mem addr len =
      Some (Inr (valid_range (chunk_list mem) addr len, mem\<lparr>chunk_cache := p\<rparr>)) \<and>
    cache_ok (mem\<lparr>chunk_cache := p\<rparr>)"
proof (cases "unat addr + unat len < 2 ^ 64")
  case False
  then have "addr + len < addr"
    using unsigned_less [of addr, where 'a = nat] unsigned_less [of len, where 'a = nat]
    by (auto simp: word_less_nat_alt unat_word_ariths mod_if)
  with False assms(2) show ?thesis
    by (intro exI [of _ "chunk_cache mem"]) (auto simp: mem_range_valid_def valid_range_def cache_ok_def)
next
  case True
  then have u: "unat (addr + len) = unat addr + unat len" by (intro unat_add_exact) simp
  then have nw: "\<not> addr + len < addr" by (simp add: word_less_nat_alt)
  show ?thesis
  proof (cases "len = 0")
    case True
    obtain p where "mem_chunk_find mem addr = Inr (chunk_at (chunk_list mem) addr, mem\<lparr>chunk_cache := p\<rparr>)"
        "cache_ok (mem\<lparr>chunk_cache := p\<rparr>)"
      using mem_chunk_find_correct [OF assms] by blast
    moreover have "chunk_at (chunk_list mem) addr = None \<longleftrightarrow> \<not> covered (chunk_list mem) addr"
      by (rule chunk_at_None)
    ultimately show ?thesis
      using True \<open>unat addr + unat len < _\<close> by (cases "chunk_at (chunk_list mem) addr")
        (auto simp: mem_range_valid_def valid_range_def range_valid_loop.simps [of mem addr] word_le_nat_alt Let_def)
  next
    case False
    then have "addr < addr + len" using u by (simp add: word_less_nat_alt unat_gt_0)
    note L = range_valid_loop_correct [OF assms False this]
    have "(\<forall>x. addr \<le> x \<and> x < addr + len \<longrightarrow> covered (chunk_list mem) x) \<longleftrightarrow>
        covered (chunk_list mem) addr \<and> (\<forall>x. addr \<le> x \<and> unat x < unat addr + unat len \<longrightarrow> covered (chunk_list mem) x)"
      using \<open>addr < addr + len\<close> by (auto simp: word_less_nat_alt u)
    then show ?thesis
      using L nw True by (simp add: mem_range_valid_def valid_range_def)
  qed
qed

section \<open>Reading\<close>

lemma write_buf_append:
  assumes "pos + length xs \<le> length buf"
  shows "write_buf (write_buf buf pos xs) (pos + length xs) ys = write_buf buf pos (xs @ ys)"
  using assms by (simp add: write_buf_def ac_simps)

lemma length_write_buf: "pos + length xs \<le> length buf \<Longrightarrow> length (write_buf buf pos xs) = length buf"
  by (simp add: write_buf_def)

lemma map_upt_split:
  assumes "k \<le> n"
  shows "map f [0..<k] @ map (\<lambda>i. f (k + i)) [0..<n - k] = map f [0..<n]"
proof -
  have "map (\<lambda>i. f (k + i)) [0..<n - k] = map f [k..<n]"
    using assms by (intro nth_equalityI) auto
  then show ?thesis using upt_add_eq_append [of 0 k "n - k"] assms by simp
qed

text \<open>
  What \<^verbatim>\<open>mem_read\<close> needs of the memory it reads from: a lookup that finds the chunk of an
  address, and callbacks that deliver the bytes of a part of a chunk. Both may change the state
  within \<open>same\<close>, that is, move caches.
\<close>

locale chunk_reader =
  fixes lookup :: "'s \<Rightarrow> u64 \<Rightarrow> mem_fault + dfi_mem_chunk option \<times> 's"
    and rd :: "dfi_mem_chunk \<Rightarrow> u64 \<Rightarrow> u8 list \<Rightarrow> nat \<Rightarrow> u64 \<Rightarrow> 's \<Rightarrow> (mem_fault + u8 list \<times> 's) option"
    and chunks :: "'s \<Rightarrow> dfi_mem_chunk list" and content :: "'s \<Rightarrow> u64 \<Rightarrow> u8"
    and inv :: "'s \<Rightarrow> bool" and same :: "'s \<Rightarrow> 's \<Rightarrow> bool"
  assumes same_refl: "inv s \<Longrightarrow> same s s"
    and same_trans: "same s s' \<Longrightarrow> same s' s'' \<Longrightarrow> same s s''"
    and same_inv: "same s s' \<Longrightarrow> inv s \<Longrightarrow> inv s' \<and> chunks s' = chunks s \<and> content s' = content s"
    and chunks_ok: "inv s \<Longrightarrow> c \<in> set (chunks s) \<Longrightarrow> chunk_ok c"
    and lookup_law: "inv s \<Longrightarrow> covered (chunks s) a \<Longrightarrow>
      \<exists>c s'. lookup s a = Inr (Some c, s') \<and> same s s' \<and> c \<in> set (chunks s) \<and> mem_chunk_has_addr c a"
    and rd_law: "inv s \<Longrightarrow> c \<in> set (chunks s) \<Longrightarrow> mem_chunk_has_addr c a \<Longrightarrow> k \<noteq> 0 \<Longrightarrow>
      unat k \<le> unat (c_end c) - unat a + 1 \<Longrightarrow> pos + unat k \<le> length buf \<Longrightarrow>
      \<exists>s'. rd c (a - c_start c) buf pos k s =
          Some (Inr (write_buf buf pos (map (\<lambda>i. content s (a + of_nat i)) [0..<unat k]), s')) \<and> same s s'"
begin

lemma read_all:
  assumes "inv s" and "copied \<le> cnt" and "unat addr + unat (cnt - copied) < 2 ^ 64"
    and "\<forall>x. addr \<le> x \<and> unat x < unat addr + unat (cnt - copied) \<longrightarrow> covered (chunks s) x"
    and "pos + unat cnt \<le> length buf"
  shows "\<exists>s'. mem_read lookup rd s addr buf pos cnt copied =
      Some (Inr (write_buf buf (pos + unat copied) (map (\<lambda>i. content s (addr + of_nat i)) [0..<unat (cnt - copied)]), s')) \<and>
    same s s'"
  using assms
proof (induction "unat (cnt - copied)" arbitrary: s addr buf copied rule: less_induct)
  case less
  define m where "m = cnt - copied"
  have um: "unat m = unat cnt - unat copied" "unat copied \<le> unat cnt"
    using less.prems(2) by (simp_all add: m_def unat_sub word_le_nat_alt)
  show ?case
  proof (cases "copied = cnt")
    case True
    then show ?thesis
      using same_refl [OF less.prems(1)] by (auto simp: mem_read.simps [of lookup rd s] write_buf_def)
  next
    case False
    then have m: "m \<noteq> 0" "0 < unat m" by (auto simp: m_def unat_gt_0)
    then have "covered (chunks s) addr" using less.prems(4) by (simp flip: m_def)
    then obtain c s1 where c: "lookup s addr = Inr (Some c, s1)" "same s s1"
        "c \<in> set (chunks s)" "mem_chunk_has_addr c addr"
      using lookup_law [OF less.prems(1)] by blast
    define k where "k = min m (c_end c - addr + 1)"
    note K = chunk_step [OF chunks_ok [OF less.prems(1) c(3)] c(4) m(1), folded k_def]
    have s1: "inv s1" "chunks s1 = chunks s" "content s1 = content s"
      using same_inv [OF c(2) less.prems(1)] by auto
    let ?b = "map (\<lambda>i. content s (addr + of_nat i)) [0..<unat k]"
    have "pos + unat copied + unat k \<le> length buf" using K(2) um less.prems(5) by linarith
    then obtain s2 where s2: "rd c (addr - c_start c) buf (pos + unat copied) k s1 =
        Some (Inr (write_buf buf (pos + unat copied) ?b, s2))" "same s1 s2"
      using rd_law [OF s1(1), of c addr k "pos + unat copied" buf] c(3,4) K(1,3) s1 by (auto simp: unat_gt_0)
    have s2': "inv s2" "chunks s2 = chunks s" "content s2 = content s" "same s s2"
      using same_inv [OF s2(2) s1(1)] s1 same_trans [OF c(2) s2(2)] by auto
    have ck: "unat (copied + k) = unat copied + unat k"
      using K(2) um unsigned_less [of cnt, where 'a = nat] by (intro unat_add_exact) simp
    have left: "cnt - (copied + k) = m - k" "unat (m - k) = unat m - unat k" "copied + k \<le> cnt"
      using K(2) um ck by (simp_all add: m_def unat_sub word_le_nat_alt)
    let ?buf = "write_buf buf (pos + unat copied) ?b"
    let ?rest = "map (\<lambda>i. content s (addr + k + of_nat i)) [0..<unat (m - k)]"
    have "unat (addr + k) + unat (m - k) = unat addr + unat m" using K(2,4) left(2) by simp
    moreover from this have "\<forall>x. addr + k \<le> x \<and> unat x < unat (addr + k) + unat (m - k) \<longrightarrow> covered (chunks s) x"
      using less.prems(4) K(4) by (simp add: word_le_nat_alt flip: m_def)
    ultimately have "\<exists>s'. mem_read lookup rd s2 (addr + k) ?buf pos cnt (copied + k) =
        Some (Inr (write_buf ?buf (pos + unat (copied + k)) ?rest, s')) \<and> same s2 s'"
      using less.hyps [of "copied + k" s2 "addr + k" ?buf] less.prems(3,5) K(1,2) left s2' um m
      by (simp add: length_write_buf flip: m_def)
    then obtain s3 where s3: "mem_read lookup rd s2 (addr + k) ?buf pos cnt (copied + k) =
        Some (Inr (write_buf ?buf (pos + unat (copied + k)) ?rest, s3))" "same s2 s3" by blast
    have "?b @ ?rest = map (\<lambda>i. content s (addr + of_nat i)) [0..<unat m]"
      using map_upt_split [of "unat k" "unat m" "\<lambda>i. content s (addr + of_nat i)"] K(2) left(2)
      by (simp add: add.assoc)
    then have "write_buf ?buf (pos + unat (copied + k)) ?rest =
        write_buf buf (pos + unat copied) (map (\<lambda>i. content s (addr + of_nat i)) [0..<unat m])"
      using write_buf_append [of "pos + unat copied" ?b buf ?rest] ck K(2) um less.prems(5) by (simp add: add.assoc)
    with s3 c s2 False same_trans [OF s2'(4) s3(2)] show ?thesis
      by (simp add: mem_read.simps [of lookup rd s] Let_def flip: m_def k_def)
  qed
qed

end

lemma addr_in_chunk:
  assumes "chunk_ok c" and "mem_chunk_has_addr c a" and "i \<le> unat (c_end c) - unat a"
  shows "mem_chunk_has_addr c (a + of_nat i)" "unat (a + of_nat i) = unat a + i"
proof -
  have c: "unat (c_start c) \<le> unat a" "unat a \<le> unat (c_end c)" "unat (c_end c) < 2 ^ 64 - 1"
    using assms(1,2) by (auto simp: chunk_ok_def mem_chunk_has_addr_def word_le_nat_alt word_less_nat_alt)
  then have i: "unat (of_nat i :: u64) = i" using assms(3) by (simp add: unat_of_nat)
  then show u: "unat (a + of_nat i) = unat a + i"
    using c assms(3) by (simp add: unat_add_exact)
  show "mem_chunk_has_addr c (a + of_nat i)"
    using c assms(3) by (simp add: mem_chunk_has_addr_def word_le_nat_alt u)
qed

interpretation phys: chunk_reader find_phys "read_phys_chunk dump" "\<lambda>d. chunk_list (mem_phys d)"
    "phys_byte dump" phys_inv same_phys
  for dump
proof unfold_locales
  show "same_phys s s" if "phys_inv s" for s
    using that by (auto simp: same_phys_def phys_inv_def intro: exI [of _ "chunk_cache (mem_phys s)"])
  show "same_phys s s''" if "same_phys s s'" "same_phys s' s''" for s s' s''
    using that by (auto simp: same_phys_def)
  show "phys_inv s' \<and> chunk_list (mem_phys s') = chunk_list (mem_phys s) \<and> phys_byte dump s' = phys_byte dump s"
    if "same_phys s s'" "phys_inv s" for s s'
    using that by (auto simp: same_phys_def phys_inv_def phys_byte_def fun_eq_iff)
  show "chunk_ok c" if "phys_inv s" "c \<in> set (chunk_list (mem_phys s))" for s c
    using that by (auto simp: phys_inv_def wf_chunks_def)
  show "\<exists>c s'. find_phys s a = Inr (Some c, s') \<and> same_phys s s' \<and> c \<in> set (chunk_list (mem_phys s)) \<and> mem_chunk_has_addr c a"
    if s: "phys_inv s" and c: "covered (chunk_list (mem_phys s)) a" for s a
  proof -
    have wf: "wf_chunks (next_addr s) (chunk_list (mem_phys s))" "cache_ok (mem_phys s)"
      using s by (auto simp: phys_inv_def)
    obtain c where c: "chunk_at (chunk_list (mem_phys s)) a = Some c" using c chunk_at_None by blast
    moreover obtain p where "mem_chunk_find (mem_phys s) a = Inr (Some c, (mem_phys s)\<lparr>chunk_cache := p\<rparr>)"
        "cache_ok ((mem_phys s)\<lparr>chunk_cache := p\<rparr>)"
      using mem_chunk_find_correct [OF wf, of a] c by auto
    ultimately show ?thesis
      using chunk_at_Some [OF wf(1)] by (auto simp: find_phys_def same_phys_def)
  qed
  show "\<exists>s'. read_phys_chunk dump c (a - c_start c) buf pos k s =
        Some (Inr (write_buf buf pos (map (\<lambda>i. phys_byte dump s (a + of_nat i)) [0..<unat k]), s')) \<and> same_phys s s'"
    if s: "phys_inv s" and c: "c \<in> set (chunk_list (mem_phys s))" "mem_chunk_has_addr c a"
      and k: "unat k \<le> unat (c_end c) - unat a + 1" for s c a k pos buf
  proof -
    have wf: "wf_chunks (next_addr s) (chunk_list (mem_phys s))" "chunk_ok c" "\<not> mem_chunk_is_map c"
      using s c by (auto simp: phys_inv_def wf_chunks_def)
    have at: "chunk_at (chunk_list (mem_phys s)) (a + of_nat i) = Some c" if "i < unat k" for i
      using that k c chunk_at_Some [OF wf(1)] addr_in_chunk(1) [OF wf(2) c(2), of i] by simp
    have same: "same_phys s s"
      using s by (auto simp: same_phys_def phys_inv_def intro: exI [of _ "chunk_cache (mem_phys s)"])
    have M: "map (\<lambda>i. phys_byte dump s (a + of_nat i)) [0..<unat k] =
        map (\<lambda>i. case c_read c of ReadDump n \<Rightarrow> dump n (a - c_start c + of_nat i) | _ \<Rightarrow> 0) [0..<unat k]"
      using at by (intro map_cong) (auto simp: phys_byte_def algebra_simps split: chunk_read.split)
    show ?thesis
      unfolding M using same wf(3) by (cases "c_read c") (simp_all add: read_phys_chunk_def mem_chunk_is_map_def map_replicate_const)
  qed
qed

lemma phys_range_valid:
  assumes "phys_inv d"
  shows "\<exists>d'. same_phys d d' \<and> d' = d\<lparr>mem_phys := mem_phys d'\<rparr> \<and>
    mem_range_valid (mem_phys d) addr len = Some (Inr (valid_range (chunk_list (mem_phys d)) addr len, mem_phys d'))"
proof -
  have wf: "wf_chunks (next_addr d) (chunk_list (mem_phys d))" "cache_ok (mem_phys d)"
    using assms by (auto simp: phys_inv_def)
  obtain p where p: "mem_range_valid (mem_phys d) addr len =
      Some (Inr (valid_range (chunk_list (mem_phys d)) addr len, (mem_phys d)\<lparr>chunk_cache := p\<rparr>))"
      "cache_ok ((mem_phys d)\<lparr>chunk_cache := p\<rparr>)"
    using mem_range_valid_correct [OF wf] by blast
  show ?thesis
    by (rule exI [of _ "d\<lparr>mem_phys := (mem_phys d)\<lparr>chunk_cache := p\<rparr>\<rparr>"]) (use p in \<open>auto simp: same_phys_def\<close>)
qed

text \<open>A physical read delivers the bytes of the range, or is refused when an address is not covered.\<close>

lemma phys_read_correct:
  assumes "phys_inv d" and "pos + unat cnt \<le> length buf"
  shows "\<exists>d'. same_phys d d' \<and> dfi_mem_phys_read dump d addr buf pos cnt = Some (Inr (
    if valid_range (chunk_list (mem_phys d)) addr cnt
    then (0, write_buf buf pos (map (\<lambda>i. phys_byte dump d (addr + of_nat i)) [0..<unat cnt]), d')
    else (- 22, buf, d')))"
proof -
  obtain d1 where d1: "same_phys d d1" "d1 = d\<lparr>mem_phys := mem_phys d1\<rparr>"
    "mem_range_valid (mem_phys d) addr cnt =
      Some (Inr (valid_range (chunk_list (mem_phys d)) addr cnt, mem_phys d1))"
    using phys_range_valid [OF assms(1)] by blast
  show ?thesis
  proof (cases "valid_range (chunk_list (mem_phys d)) addr cnt")
    case True
    have inv: "phys_inv d1" "chunk_list (mem_phys d1) = chunk_list (mem_phys d)" "phys_byte dump d1 = phys_byte dump d"
      using phys.same_inv [OF d1(1) assms(1)] by auto
    have "\<exists>d2. mem_read find_phys (read_phys_chunk dump) d1 addr buf pos cnt 0 =
        Some (Inr (write_buf buf pos (map (\<lambda>i. phys_byte dump d (addr + of_nat i)) [0..<unat cnt]), d2)) \<and> same_phys d1 d2"
      using phys.read_all [OF inv(1), of 0 cnt addr pos buf dump] True inv(2,3) assms(2)
      by (simp add: valid_range_def)
    then obtain d2 where d2: "mem_read find_phys (read_phys_chunk dump) d1 addr buf pos cnt 0 =
        Some (Inr (write_buf buf pos (map (\<lambda>i. phys_byte dump d (addr + of_nat i)) [0..<unat cnt]), d2))" "same_phys d1 d2"
      by blast
    show ?thesis
      using True phys.same_trans [OF d1(1) d2(2)] d2(1)
      by (simp add: dfi_mem_phys_read_def d1(3) Let_def d1(2) [symmetric])
  next
    case False
    then show ?thesis using d1(1) by (simp add: dfi_mem_phys_read_def d1(3) Let_def d1(2) [symmetric])
  qed
qed

lemma phys_byte_cache [simp]:
  "phys_byte dump (s\<lparr>mem_phys := (mem_phys s)\<lparr>chunk_cache := p\<rparr>, mem_virt := m\<rparr>) = phys_byte dump s"
  by (simp add: phys_byte_def fun_eq_iff)

lemma same_phys_virt:
  assumes "same_phys d d'" and "virt_inv d"
  shows "same_virt d d'"
proof -
  obtain p where "d' = d\<lparr>mem_phys := (mem_phys d)\<lparr>chunk_cache := p\<rparr>\<rparr>" "cache_ok (mem_phys d')"
    using assms(1) by (auto simp: same_phys_def)
  then show ?thesis
    using assms(2) unfolding same_virt_def virt_inv_def
    by (intro conjI exI [of _ p] exI [of _ "chunk_cache (mem_virt d)"]) auto
qed

lemma same_virt_cache:
  assumes "virt_inv d" and "cache_ok ((mem_virt d)\<lparr>chunk_cache := q\<rparr>)"
  shows "same_virt d (d\<lparr>mem_virt := (mem_virt d)\<lparr>chunk_cache := q\<rparr>\<rparr>)"
  unfolding same_virt_def using assms
  by (intro conjI exI [of _ "chunk_cache (mem_phys d)"] exI [of _ q]) (auto simp: virt_inv_def phys_inv_def)

lemma map_ok_range:
  assumes "map_ok ps c" and "c_read c = ReadMap p" and "chunk_ok c" "mem_chunk_has_addr c a"
    and "unat k \<le> unat (c_end c) - unat a + 1" "k \<noteq> 0"
  shows "valid_range ps (p + (a - c_start c)) k"
proof -
  have u: "unat (c_start c) \<le> unat a" "unat a \<le> unat (c_end c)" "unat (c_end c) < 2 ^ 64 - 1"
      "unat (a - c_start c) = unat a - unat (c_start c)"
    using assms(3,4) by (auto simp: chunk_ok_def mem_chunk_has_addr_def word_le_nat_alt word_less_nat_alt unat_sub)
  have sz: "unat (c_size c) = unat (c_end c) - unat (c_start c) + 1"
    using assms(3) u by (simp add: chunk_ok_def unat_add_exact unat_sub word_le_nat_alt)
  have m: "unat p + unat (c_size c) < 2 ^ 64" "\<forall>x. p \<le> x \<and> unat x < unat p + unat (c_size c) \<longrightarrow> covered ps x"
    using assms(1,2) by (auto simp: map_ok_def)
  have off: "unat (p + (a - c_start c)) = unat p + (unat a - unat (c_start c))"
    using m(1) sz u by (subst unat_add_exact) simp_all
  have "0 < unat k" using assms(6) by (simp add: unat_gt_0)
  moreover have "unat (p + (a - c_start c)) + unat k \<le> unat p + unat (c_size c)"
    using off sz u assms(5) by linarith
  ultimately show ?thesis
    using m off by (auto simp: valid_range_def word_le_nat_alt)
qed

interpretation virt: chunk_reader find_virt "read_virt_chunk dump" "\<lambda>d. chunk_list (mem_virt d)"
    "virt_byte dump" virt_inv same_virt
  for dump
proof unfold_locales
  show refl: "same_virt s s" if "virt_inv s" for s
    using same_phys_virt [OF phys.same_refl that] that by (simp add: virt_inv_def)
  show "same_virt s s''" if "same_virt s s'" "same_virt s' s''" for s s' s''
    using that by (auto simp: same_virt_def) blast
  show "virt_inv s' \<and> chunk_list (mem_virt s') = chunk_list (mem_virt s) \<and> virt_byte dump s' = virt_byte dump s"
    if "same_virt s s'" "virt_inv s" for s s'
    using that by (auto simp: same_virt_def virt_inv_def phys_inv_def virt_byte_def fun_eq_iff split: option.split chunk_read.split)
  show "chunk_ok c" if "virt_inv s" "c \<in> set (chunk_list (mem_virt s))" for s c
    using that by (auto simp: virt_inv_def wf_chunks_def)
  show "\<exists>c s'. find_virt s a = Inr (Some c, s') \<and> same_virt s s' \<and> c \<in> set (chunk_list (mem_virt s)) \<and> mem_chunk_has_addr c a"
    if s: "virt_inv s" and c: "covered (chunk_list (mem_virt s)) a" for s a
  proof -
    have wf: "wf_chunks (next_addr s) (chunk_list (mem_virt s))" "cache_ok (mem_virt s)"
      using s by (auto simp: virt_inv_def)
    obtain c where c: "chunk_at (chunk_list (mem_virt s)) a = Some c" using c chunk_at_None by blast
    moreover obtain p where "mem_chunk_find (mem_virt s) a = Inr (Some c, (mem_virt s)\<lparr>chunk_cache := p\<rparr>)"
        "cache_ok ((mem_virt s)\<lparr>chunk_cache := p\<rparr>)"
      using mem_chunk_find_correct [OF wf(1,2), of a] c by auto
    ultimately show ?thesis
      using chunk_at_Some [OF wf(1)] same_virt_cache [OF s] by (auto simp: find_virt_def)
  qed
  show "\<exists>s'. read_virt_chunk dump c (a - c_start c) buf pos k s =
        Some (Inr (write_buf buf pos (map (\<lambda>i. virt_byte dump s (a + of_nat i)) [0..<unat k]), s')) \<and> same_virt s s'"
    if s: "virt_inv s" and c: "c \<in> set (chunk_list (mem_virt s))" "mem_chunk_has_addr c a" and k0: "k \<noteq> 0"
      and k: "unat k \<le> unat (c_end c) - unat a + 1" and b: "pos + unat k \<le> length buf" for s c a k pos buf
  proof -
    have wf: "wf_chunks (next_addr s) (chunk_list (mem_virt s))" "chunk_ok c" "map_ok (chunk_list (mem_phys s)) c" "phys_inv s"
      using s c by (auto simp: virt_inv_def wf_chunks_def)
    have at: "chunk_at (chunk_list (mem_virt s)) (a + of_nat i) = Some c" if "i < unat k" for i
      using that k c chunk_at_Some [OF wf(1)] addr_in_chunk(1) [OF wf(2) c(2), of i] by simp
    have M: "map (\<lambda>i. virt_byte dump s (a + of_nat i)) [0..<unat k] =
        map (\<lambda>i. case c_read c of ReadZero \<Rightarrow> 0 | ReadDump n \<Rightarrow> dump n (a - c_start c + of_nat i)
          | ReadMap p \<Rightarrow> phys_byte dump s (p + (a - c_start c) + of_nat i)) [0..<unat k]"
      using at by (intro map_cong) (auto simp: virt_byte_def algebra_simps split: chunk_read.split)
    show ?thesis
    proof (cases "c_read c")
      case (ReadMap p)
      note V = map_ok_range [OF wf(3) ReadMap wf(2) c(2) k k0]
      obtain s' where "same_phys s s'" "dfi_mem_phys_read dump s (p + (a - c_start c)) buf pos k =
          Some (Inr (0, write_buf buf pos (map (\<lambda>i. phys_byte dump s (p + (a - c_start c) + of_nat i)) [0..<unat k]), s'))"
        using phys_read_correct [OF wf(4) b, of dump "p + (a - c_start c)"] V by auto
      then show ?thesis
        unfolding M using ReadMap same_phys_virt [OF _ s] by (auto simp: read_virt_chunk_def)
    qed (use refl [OF s] in \<open>simp_all add: M read_virt_chunk_def read_phys_chunk_def map_replicate_const\<close>)
  qed
qed

text \<open>A virtual read delivers the bytes of the range, or is refused when an address is not covered.\<close>

lemma virt_read_correct:
  assumes "virt_inv d" and "pos + unat cnt \<le> length buf"
  shows "\<exists>d'. same_virt d d' \<and> dfi_mem_virt_read dump d addr buf pos cnt = Some (Inr (
    if valid_range (chunk_list (mem_virt d)) addr cnt
    then (0, write_buf buf pos (map (\<lambda>i. virt_byte dump d (addr + of_nat i)) [0..<unat cnt]), d')
    else (- 22, buf, d')))"
proof -
  have wf: "wf_chunks (next_addr d) (chunk_list (mem_virt d))" "cache_ok (mem_virt d)"
    using assms(1) by (auto simp: virt_inv_def)
  obtain q where q: "mem_range_valid (mem_virt d) addr cnt =
      Some (Inr (valid_range (chunk_list (mem_virt d)) addr cnt, (mem_virt d)\<lparr>chunk_cache := q\<rparr>))"
      "cache_ok ((mem_virt d)\<lparr>chunk_cache := q\<rparr>)"
    using mem_range_valid_correct [OF wf] by blast
  define d1 where "d1 = d\<lparr>mem_virt := (mem_virt d)\<lparr>chunk_cache := q\<rparr>\<rparr>"
  have d1: "same_virt d d1"
    unfolding d1_def using assms(1) q(2) by (rule same_virt_cache)
  have inv: "virt_inv d1" "chunk_list (mem_virt d1) = chunk_list (mem_virt d)" "virt_byte dump d1 = virt_byte dump d"
    using virt.same_inv [OF d1 assms(1)] by auto
  show ?thesis
  proof (cases "valid_range (chunk_list (mem_virt d)) addr cnt")
    case True
    have "\<exists>d2. mem_read find_virt (read_virt_chunk dump) d1 addr buf pos cnt 0 =
        Some (Inr (write_buf buf pos (map (\<lambda>i. virt_byte dump d (addr + of_nat i)) [0..<unat cnt]), d2)) \<and> same_virt d1 d2"
      using virt.read_all [OF inv(1), of 0 cnt addr pos buf dump] True inv(2,3) assms(2)
      by (simp add: valid_range_def)
    then show ?thesis
      using True virt.same_trans [OF d1]
      by (auto simp: dfi_mem_virt_read_def q(1) Let_def d1_def [symmetric])
  next
    case False
    then show ?thesis using d1 by (auto simp: dfi_mem_virt_read_def q(1) Let_def d1_def [symmetric])
  qed
qed

end
