(* ===== verification/Mem_Map.thy ===== *)
theory Mem_Map
  imports Mem_Chunk
begin

text \<open>
  The operations that change the memory map of an input dump: adding a chunk, unmapping a range of
  virtual addresses and mapping a range to other physical addresses. They are proved to keep the
  memory well formed and to change the translation of exactly the addresses they are given.
\<close>

section \<open>Definitions\<close>

text \<open>
  \<^verbatim>\<open>kdump_init\<close> of \<^verbatim>\<open>zdump/dfi.c\<close>: the base and the size of the crashkernel memory of a dumped kdump
  are read from two fixed physical addresses (\<^verbatim>\<open>unsigned long\<close>, most significant byte first), and the
  memory that was selected (\<^verbatim>\<open>--select\<close>, \<open>None\<close> when it is not specified) is mapped.
\<close>

datatype opts_select = SelectKdump | SelectProd | SelectAll

record kdump =
  kd_mem :: dfi
  kdump_base :: u64
  kdump_size :: u64

definition load_u64 :: "u8 list \<Rightarrow> u64" where
  "load_u64 bs = foldl (\<lambda>w b. w * 256 + ucast b) 0 bs"

definition phys_read_u64 :: "(nat \<Rightarrow> u64 \<Rightarrow> u8) \<Rightarrow> dfi \<Rightarrow> u64 \<Rightarrow> (mem_fault + u64 option \<times> dfi) option" where
  "phys_read_u64 dump d addr =
     map_option (map_sum id (\<lambda>(rc, buf, d). (if rc \<noteq> 0 then None else Some (load_u64 buf), d)))
       (dfi_mem_phys_read dump d addr (replicate 8 0) 0 8)"

definition kdump_select :: "opts_select option \<Rightarrow> u64 \<Rightarrow> u64 \<Rightarrow> dfi \<Rightarrow> mem_fault + dfi" where
  "kdump_select sel base sz d =
     (case sel of
        None \<Rightarrow> Inr d
      | Some SelectProd \<Rightarrow>
          (let d = dfi_mem_unmap d 0 sz;
               d = dfi_mem_unmap d base sz
           in dfi_mem_map d 0 sz base)
      | Some SelectKdump \<Rightarrow> Inr (dfi_mem_unmap d sz (U64_MAX - sz))
      | Some SelectAll \<Rightarrow> Inr d)"

definition kdump_init :: "(nat \<Rightarrow> u64 \<Rightarrow> u8) \<Rightarrow> opts_select option \<Rightarrow> kdump \<Rightarrow> (mem_fault + kdump) option" where
  "kdump_init dump sel k =
     Option.bind (phys_read_u64 dump (kd_mem k) 0x10418) (\<lambda>r. case r of
        Inl e \<Rightarrow> Some (Inl e)
      | Inr (None, d) \<Rightarrow> Some (Inr (k\<lparr>kd_mem := d\<rparr>))
      | Inr (Some base, d) \<Rightarrow> Option.bind (phys_read_u64 dump d 0x10420) (\<lambda>r. case r of
          Inl e \<Rightarrow> Some (Inl e)
        | Inr (None, d) \<Rightarrow> Some (Inr (k\<lparr>kd_mem := d\<rparr>))
        | Inr (Some sz, d) \<Rightarrow>
            (if base = 0 \<or> sz = 0 then Some (Inr (k\<lparr>kd_mem := d\<rparr>))
             else if base mod 0x100000 \<noteq> 0 \<or> sz mod 0x100000 \<noteq> 0 then Some (Inr (k\<lparr>kd_mem := d\<rparr>))
             else Option.bind (dfi_mem_range_valid d base sz) (\<lambda>r. case r of
                Inl e \<Rightarrow> Some (Inl e)
              | Inr (valid, d) \<Rightarrow>
                  (if \<not> valid then Some (Inr (k\<lparr>kd_mem := d\<rparr>))
                   else Some (map_sum id (\<lambda>d. \<lparr>kd_mem = d, kdump_base = base, kdump_size = sz\<rparr>)
                     (kdump_select sel base sz d)))))))"

text \<open>A dump of four MiB that was taken by a kdump whose crashkernel memory is the third MiB.\<close>

definition sample_dump :: "nat \<Rightarrow> u64 \<Rightarrow> u8" where
  "sample_dump n off = (if off = 0x1041D then 0x20 else if off = 0x10425 then 0x10 else 0)"

definition sample_dfi :: dfi where
  "sample_dfi = dfi_mem_chunk_add (dfi_mem_chunk_init \<lparr>mem_phys = zero_mem, mem_virt = zero_mem, next_addr = 1\<rparr>)
     0 0x400000 (ReadDump 0)"

section \<open>Mapping and unmapping\<close>

text \<open>The pieces of a chunk that stay mapped.\<close>

definition pieces :: "nat \<Rightarrow> u64 \<Rightarrow> u64 \<Rightarrow> dfi_mem_chunk \<Rightarrow> dfi_mem_chunk list" where
  "pieces n start stop c =
     (let sp = mem_chunk_start_phys c;
          hi = (if c_end c > stop
                then [\<lparr>c_addr = n, c_start = stop + 1, c_end = c_end c, c_size = c_end c - stop,
                       c_read = ReadMap (sp + (stop + 1 - c_start c)), c_volnr = None\<rparr>] else []);
          lo = (if c_start c < start
                then [\<lparr>c_addr = n + length hi, c_start = c_start c, c_end = start - 1, c_size = start - c_start c,
                       c_read = ReadMap sp, c_volnr = None\<rparr>] else [])
      in hi @ lo)"

text \<open>
  A virtual memory is consistent with the physical one: every chunk translates to physical addresses
  that are covered, and a chunk that is not a mapping has the bytes the physical memory has there.
\<close>

definition phys_ok :: "dfi_mem_chunk list \<Rightarrow> dfi_mem_chunk \<Rightarrow> bool" where
  "phys_ok ps c \<longleftrightarrow> unat (mem_chunk_start_phys c) + unat (c_size c) < 2 ^ 64 \<and>
     (\<forall>a. mem_chunk_has_addr c a \<longrightarrow> covered ps (mem_chunk_start_phys c + (a - c_start c)))"

definition read_byte :: "(nat \<Rightarrow> u64 \<Rightarrow> u8) \<Rightarrow> chunk_read \<Rightarrow> u64 \<Rightarrow> u8" where
  "read_byte dump rd off = (case rd of ReadDump n \<Rightarrow> dump n off | _ \<Rightarrow> 0)"

definition chunk_byte :: "(nat \<Rightarrow> u64 \<Rightarrow> u8) \<Rightarrow> dfi_mem_chunk \<Rightarrow> u64 \<Rightarrow> u8" where
  "chunk_byte dump c a = read_byte dump (c_read c) (a - c_start c)"

definition ident_ok :: "(nat \<Rightarrow> u64 \<Rightarrow> u8) \<Rightarrow> dfi \<Rightarrow> dfi_mem_chunk \<Rightarrow> bool" where
  "ident_ok dump d c \<longleftrightarrow> mem_chunk_is_map c \<or> (\<forall>a. mem_chunk_has_addr c a \<longrightarrow> phys_byte dump d a = chunk_byte dump c a)"

definition virt_wf :: "(nat \<Rightarrow> u64 \<Rightarrow> u8) \<Rightarrow> dfi \<Rightarrow> bool" where
  "virt_wf dump d \<longleftrightarrow> phys_inv d \<and> wf_chunks (next_addr d) (chunk_list (mem_virt d)) \<and>
     (\<forall>c \<in> set (chunk_list (mem_virt d)). phys_ok (chunk_list (mem_phys d)) c \<and> ident_ok dump d c)"

lemma phys_addr_Some:
  assumes "wf_chunks n cs"
  shows "phys_addr cs a = Some t \<longleftrightarrow>
    (\<exists>c \<in> set cs. mem_chunk_has_addr c a \<and> t = mem_chunk_start_phys c + (a - c_start c))"
  using chunk_at_Some [OF assms] by (auto simp: phys_addr_def)

lemma unmap_chunk_list:
  assumes "chunk_ok c" and "hit_by start sz c"
  defines "stop \<equiv> start + sz - 1"
  shows "chunk_list (mem_virt (unmap_chunk d start sz c)) = chunk_list (mem_virt d) @ pieces (next_addr d) start stop c"
    and "next_addr (unmap_chunk d start sz c) = next_addr d + length (pieces (next_addr d) start stop c)"
    and "mem_phys (unmap_chunk d start sz c) = mem_phys d"
proof -
  let ?sp = "mem_chunk_start_phys c"
  have eqs: "?sp + c_size c - 1 - (c_end c - stop) + 1 = ?sp + (stop + 1 - c_start c)"
      "stop + 1 + (c_end c - stop) - 1 = c_end c" "c_start c + (start - c_start c) - 1 = start - 1"
    using assms(1) by (simp_all add: chunk_ok_def algebra_simps)
  have nz: "stop < c_end c \<Longrightarrow> c_end c - stop \<noteq> 0" "c_start c < start \<Longrightarrow> start - c_start c \<noteq> 0"
    by auto
  note D = mem_chunk_map_add_def mem_chunk_virt_add_def mem_chunk_create_def Let_def
  have "chunk_list (mem_virt (unmap_chunk d start sz c)) = chunk_list (mem_virt d) @ pieces (next_addr d) start stop c \<and>
      next_addr (unmap_chunk d start sz c) = next_addr d + length (pieces (next_addr d) start stop c) \<and>
      mem_phys (unmap_chunk d start sz c) = mem_phys d"
    unfolding unmap_chunk_def pieces_def Let_def stop_def [symmetric] eqs
    using nz by (auto simp: D eqs not_less)
  then show "chunk_list (mem_virt (unmap_chunk d start sz c)) = chunk_list (mem_virt d) @ pieces (next_addr d) start stop c"
    "next_addr (unmap_chunk d start sz c) = next_addr d + length (pieces (next_addr d) start stop c)"
    "mem_phys (unmap_chunk d start sz c) = mem_phys d" by auto
qed

lemma range_stop:
  fixes start sz :: u64
  assumes "sz \<noteq> 0" and "unat start + unat sz < 2 ^ 64"
  shows "unat (start + sz - 1) = unat start + unat sz - 1" "unat (start + sz) = unat start + unat sz"
    "start \<le> start + sz - 1"
proof -
  have "0 < unat sz" using assms(1) by (simp add: unat_gt_0)
  moreover show u: "unat (start + sz) = unat start + unat sz" using assms(2) by (intro unat_add_exact) simp
  ultimately show "unat (start + sz - 1) = unat start + unat sz - 1"
    by (subst unat_sub) (simp_all add: word_le_nat_alt)
  then show "start \<le> start + sz - 1" using \<open>0 < unat sz\<close> by (simp add: word_le_nat_alt)
qed

lemma pieces_ok:
  assumes "chunk_ok c" and "start \<le> stop" "c_start c \<le> stop" "start \<le> c_end c" and "p \<in> set (pieces n start stop c)"
  shows "chunk_ok p" "c_start c \<le> c_start p" "c_end p \<le> c_end c" "n \<le> c_addr p"
    "c_addr p < n + length (pieces n start stop c)" "\<not> (c_start p \<le> stop \<and> start \<le> c_end p)"
proof -
  have c: "unat (c_start c) \<le> unat (c_end c)" "unat (c_end c) < 2 ^ 64 - 1"
      "unat start \<le> unat stop" "unat (c_start c) \<le> unat stop" "unat start \<le> unat (c_end c)"
    using assms(1-4) by (auto simp: chunk_ok_def word_le_nat_alt word_less_nat_alt)
  have hi: "unat (stop + 1) = unat stop + 1" if "stop < c_end c"
    using that c by (intro trans [OF unat_add_exact]) (auto simp: word_less_nat_alt)
  have lo: "unat (start - 1) = unat start - 1" "0 < unat start" if "c_start c < start"
    using that by (auto simp: word_less_nat_alt unat_sub word_le_nat_alt)
  have "chunk_ok p \<and> c_start c \<le> c_start p \<and> c_end p \<le> c_end c \<and> n \<le> c_addr p \<and>
      c_addr p < n + length (pieces n start stop c) \<and> \<not> (c_start p \<le> stop \<and> start \<le> c_end p)"
    using assms(5) c hi lo
    by (auto simp: pieces_def Let_def chunk_ok_def word_le_nat_alt word_less_nat_alt split: if_splits)
  then show "chunk_ok p" "c_start c \<le> c_start p" "c_end p \<le> c_end c" "n \<le> c_addr p"
    "c_addr p < n + length (pieces n start stop c)" "\<not> (c_start p \<le> stop \<and> start \<le> c_end p)" by auto
qed

lemma pieces_distinct:
  assumes "chunk_ok c" and "start \<le> stop" "c_start c \<le> stop"
  shows "distinct (map c_addr (pieces n start stop c))"
    and "\<forall>p \<in> set (pieces n start stop c). \<forall>q \<in> set (pieces n start stop c). p \<noteq> q \<longrightarrow> chunk_disj p q"
proof -
  have "start - 1 < stop + 1" if "stop < c_end c" "c_start c < start"
  proof -
    have "unat stop < 2 ^ 64 - 1" using that assms(1) by (auto simp: chunk_ok_def word_less_nat_alt)
    then have "unat (stop + 1) = unat stop + 1" by (simp add: unat_add_exact)
    moreover have "unat (start - 1) = unat start - 1" using that by (auto simp: word_less_nat_alt unat_sub word_le_nat_alt)
    ultimately show ?thesis using assms(2) by (simp add: word_less_nat_alt word_le_nat_alt)
  qed
  then show "distinct (map c_addr (pieces n start stop c))"
    "\<forall>p \<in> set (pieces n start stop c). \<forall>q \<in> set (pieces n start stop c). p \<noteq> q \<longrightarrow> chunk_disj p q"
    by (auto simp: pieces_def Let_def chunk_disj_def)
qed

lemma pieces_addr:
  assumes "chunk_ok c" and "start \<le> stop" "c_start c \<le> stop" "start \<le> c_end c"
  shows "(\<exists>p \<in> set (pieces n start stop c). mem_chunk_has_addr p a \<and> t = mem_chunk_start_phys p + (a - c_start p)) \<longleftrightarrow>
    mem_chunk_has_addr c a \<and> \<not> (start \<le> a \<and> a \<le> stop) \<and> t = mem_chunk_start_phys c + (a - c_start c)"
proof -
  have c: "unat (c_start c) \<le> unat (c_end c)" "unat (c_end c) < 2 ^ 64 - 1"
      "unat start \<le> unat stop" "unat (c_start c) \<le> unat stop" "unat start \<le> unat (c_end c)"
    using assms(1-4) by (auto simp: chunk_ok_def word_le_nat_alt word_less_nat_alt)
  have hi: "stop + 1 \<le> a \<longleftrightarrow> stop < a" if "stop < c_end c"
  proof -
    have "unat (stop + 1) = unat stop + 1"
      using that c by (intro trans [OF unat_add_exact]) (auto simp: word_less_nat_alt)
    then show ?thesis by (simp add: word_le_nat_alt word_less_nat_alt Suc_le_eq)
  qed
  have lo: "a \<le> start - 1 \<longleftrightarrow> a < start" if "c_start c < start"
  proof -
    have "unat (start - 1) = unat start - 1" "0 < unat start"
      using that by (auto simp: word_less_nat_alt unat_sub word_le_nat_alt)
    then show ?thesis by (auto simp: word_le_nat_alt word_less_nat_alt)
  qed
  show ?thesis
    using assms(2-4) hi lo
    by (cases "stop < c_end c"; cases "c_start c < start")
      (auto simp: pieces_def Let_def mem_chunk_has_addr_def mem_chunk_start_phys_def not_le not_less)
qed

lemma hit_by_iff:
  assumes "sz \<noteq> 0" and "unat start + unat sz < 2 ^ 64"
  shows "hit_by start sz c \<longleftrightarrow> c_start c \<le> start + sz - 1 \<and> start \<le> c_end c"
proof -
  have "0 < unat sz" using assms(1) by (simp add: unat_gt_0)
  then show ?thesis
    using range_stop(1,2) [OF assms] by (auto simp: hit_by_def word_le_nat_alt word_less_nat_alt)
qed

lemma wf_chunks_replace:
  assumes wf: "wf_chunks n cs" and c: "c \<in> set cs" and "n \<le> n'"
    and ps: "distinct (map c_addr ps)" "\<forall>p \<in> set ps. chunk_ok p \<and> n \<le> c_addr p \<and> c_addr p < n' \<and>
      c_start c \<le> c_start p \<and> c_end p \<le> c_end c" "\<forall>p \<in> set ps. \<forall>q \<in> set ps. p \<noteq> q \<longrightarrow> chunk_disj p q"
  shows "wf_chunks n' (remove1 c cs @ ps)" and "set (remove1 c cs @ ps) = set cs - {c} \<union> set ps"
proof -
  have dist: "distinct cs" "distinct (map c_addr cs)" using wf by (auto simp: wf_chunks_def distinct_map)
  show set_eq: "set (remove1 c cs @ ps) = set cs - {c} \<union> set ps" using dist by simp
  have "distinct (map c_addr (remove1 c cs))"
    using dist by (auto simp: distinct_map inj_on_def)
  moreover have "c_addr ` set (remove1 c cs) \<inter> c_addr ` set ps = {}"
    using wf ps(2) dist by (fastforce simp: wf_chunks_def)
  moreover have "chunk_disj a p \<and> chunk_disj p a" if "a \<in> set cs" "a \<noteq> c" "p \<in> set ps" for a p
  proof -
    have "chunk_disj a c" using wf c that by (auto simp: wf_chunks_def)
    then show ?thesis using ps(2) that(3) by (force simp: chunk_disj_def)
  qed
  ultimately show "wf_chunks n' (remove1 c cs @ ps)"
    unfolding wf_chunks_def set_eq using wf ps \<open>n \<le> n'\<close> by (auto simp: wf_chunks_def)
qed

lemma unmap_step:
  assumes wf: "wf_chunks (next_addr d) (chunk_list (mem_virt d))" and c: "c \<in> set (chunk_list (mem_virt d))"
    and hit: "hit_by start sz c" and r: "sz \<noteq> 0" "unat start + unat sz < 2 ^ 64"
  defines "stop \<equiv> start + sz - 1"
  defines "ps \<equiv> pieces (next_addr d) start stop c" and "d2 \<equiv> drop_chunk (unmap_chunk d start sz c) c"
  shows "chunk_list (mem_virt d2) = remove1 c (chunk_list (mem_virt d)) @ ps" and "mem_phys d2 = mem_phys d"
    and "appended d (unmap_chunk d start sz c) = ps"
    and "wf_chunks (next_addr d2) (chunk_list (mem_virt d2))"
    and "set (chunk_list (mem_virt d2)) = set (chunk_list (mem_virt d)) - {c} \<union> set ps"
    and "\<not> (start \<le> a \<and> a \<le> stop) \<Longrightarrow> phys_addr (chunk_list (mem_virt d2)) a = phys_addr (chunk_list (mem_virt d)) a"
proof -
  let ?L = "chunk_list (mem_virt d)"
  have ok: "chunk_ok c" using wf c by (auto simp: wf_chunks_def)
  have h: "start \<le> stop" "c_start c \<le> stop" "start \<le> c_end c"
    using hit hit_by_iff [OF r] range_stop(3) [OF r] by (auto simp: stop_def)
  note U = unmap_chunk_list [OF ok hit, of d, folded stop_def, folded ps_def]
  show list: "chunk_list (mem_virt d2) = remove1 c ?L @ ps"
    using c by (simp add: d2_def drop_chunk_def U remove1_append)
  show "mem_phys d2 = mem_phys d" by (simp add: d2_def drop_chunk_def U)
  show "appended d (unmap_chunk d start sz c) = ps" by (simp add: appended_def U)
  have n: "next_addr d2 = next_addr d + length ps" by (simp add: d2_def drop_chunk_def U)
  note P = pieces_ok [OF ok h, of _ "next_addr d", folded ps_def] pieces_distinct [OF ok h(1,2), of "next_addr d", folded ps_def]
  have W: "wf_chunks (next_addr d2) (remove1 c ?L @ ps)" "set (remove1 c ?L @ ps) = set ?L - {c} \<union> set ps"
    using wf_chunks_replace [OF wf c _ P(7) _ P(8), of "next_addr d2"] P(1-5) n by auto
  then show wf2: "wf_chunks (next_addr d2) (chunk_list (mem_virt d2))"
    and set2: "set (chunk_list (mem_virt d2)) = set ?L - {c} \<union> set ps" using list by auto
  show "phys_addr (chunk_list (mem_virt d2)) a = phys_addr ?L a" if a: "\<not> (start \<le> a \<and> a \<le> stop)"
  proof -
    have "phys_addr (chunk_list (mem_virt d2)) a = Some t \<longleftrightarrow> phys_addr ?L a = Some t" for t
      unfolding phys_addr_Some [OF wf2] phys_addr_Some [OF wf] set2
      using pieces_addr [OF ok h, of "next_addr d" a t, folded ps_def] a c by blast
    then show ?thesis by (metis not_None_eq)
  qed
qed

lemma unmap_loop_correct:
  assumes "wf_chunks (next_addr d) (chunk_list (mem_virt d))"
    and "set todo \<subseteq> set (chunk_list (mem_virt d))" and "distinct todo"
    and "\<forall>c \<in> set (chunk_list (mem_virt d)) - set todo. \<not> hit_by start sz c"
    and "sz \<noteq> 0" "unat start + unat sz < 2 ^ 64"
  shows "wf_chunks (next_addr (unmap_loop d start sz todo)) (chunk_list (mem_virt (unmap_loop d start sz todo)))
    \<and> mem_phys (unmap_loop d start sz todo) = mem_phys d
    \<and> (\<forall>c \<in> set (chunk_list (mem_virt (unmap_loop d start sz todo))). \<not> hit_by start sz c)
    \<and> (\<forall>a. \<not> (start \<le> a \<and> a \<le> start + sz - 1) \<longrightarrow>
         phys_addr (chunk_list (mem_virt (unmap_loop d start sz todo))) a = phys_addr (chunk_list (mem_virt d)) a)"
  using assms
proof (induction d start sz todo rule: unmap_loop.induct)
  case (2 d start sz c rest)
  show ?case
  proof (cases "hit_by start sz c")
    case False
    have "set rest \<subseteq> set (chunk_list (mem_virt d))" "distinct rest"
        "\<forall>x \<in> set (chunk_list (mem_virt d)) - set rest. \<not> hit_by start sz x"
      using "2.prems"(2-4) False by auto
    from "2.IH"(1) [OF False "2.prems"(1) this "2.prems"(5,6)] show ?thesis
      using False by simp
  next
    case True
    let ?d1 = "unmap_chunk d start sz c" and ?L = "chunk_list (mem_virt d)"
    let ?d2 = "drop_chunk ?d1 c" and ?ps = "pieces (next_addr d) start (start + sz - 1) c"
    have c: "c \<in> set ?L" using "2.prems"(2) by simp
    note S = unmap_step [OF "2.prems"(1) c True "2.prems"(5,6)]
    have ps: "\<forall>p \<in> set ?ps. \<not> hit_by start sz p \<and> p \<notin> set ?L"
    proof
      fix p assume p: "p \<in> set ?ps"
      have ok: "chunk_ok c" using "2.prems"(1) c by (auto simp: wf_chunks_def)
      have h: "start \<le> start + sz - 1" "c_start c \<le> start + sz - 1" "start \<le> c_end c"
        using True hit_by_iff [OF "2.prems"(5,6)] range_stop(3) [OF "2.prems"(5,6)] by auto
      show "\<not> hit_by start sz p \<and> p \<notin> set ?L"
        using pieces_ok(4,6) [OF ok h p] hit_by_iff [OF "2.prems"(5,6)] "2.prems"(1)
        by (auto simp: wf_chunks_def)
    qed
    have nh: "\<forall>x \<in> set (chunk_list (mem_virt ?d2)) - set rest. \<not> hit_by start sz x"
      using S(5) "2.prems"(4) ps by auto
    show ?thesis
    proof (cases "rest = []")
      case r: True
      then have "unmap_loop d start sz (c # rest) = ?d2" using True by (simp add: Let_def)
      then show ?thesis using S(2,4,6) nh r by simp
    next
      case False
      then have eq: "unmap_loop d start sz (c # rest) = unmap_loop ?d2 start sz (rest @ ?ps)"
        using True S(3) by (simp add: Let_def)
      have sub: "set (rest @ ?ps) \<subseteq> set (chunk_list (mem_virt ?d2))" "distinct (rest @ ?ps)"
      proof -
        show "set (rest @ ?ps) \<subseteq> set (chunk_list (mem_virt ?d2))"
          using S(5) "2.prems"(2,3) by auto
        have "distinct (chunk_list (mem_virt ?d2))" using S(4) by (auto simp: wf_chunks_def distinct_map)
        then have "distinct ?ps" unfolding S(1) by simp
        then show "distinct (rest @ ?ps)" using ps "2.prems"(2,3) by auto
      qed
      have "\<forall>x \<in> set (chunk_list (mem_virt ?d2)) - set (rest @ ?ps). \<not> hit_by start sz x"
        using nh by auto
      note IH = "2.IH"(2) [OF _ refl refl False, unfolded S(3), OF _ S(4) sub this "2.prems"(5,6)]
      show ?thesis unfolding eq using IH True S(2,6) by simp
    qed
  qed
qed simp

text \<open>Sorting the list of chunks.\<close>

interpretation chunk_order: cmp_key "\<lambda>a b. mem_chunk_cmp_fn a b > 0" c_start
  by unfold_locales (auto simp: mem_chunk_cmp_fn_def split: if_splits)

lemma sort_chunks_props:
  "mset (sort_chunks cs) = mset cs" "sorted (map c_start (sort_chunks cs))" "set (sort_chunks cs) = set cs"
proof -
  show "mset (sort_chunks cs) = mset cs" by (simp add: sort_chunks_def)
  then show "set (sort_chunks cs) = set cs" by (rule mset_eq_setD)
  show "sorted (map c_start (sort_chunks cs))"
    unfolding sort_chunks_def by (rule chunk_order.bubble_sort_sorted)
qed

lemma wf_sort_chunks: "wf_chunks n (sort_chunks cs) \<longleftrightarrow> wf_chunks n cs"
proof -
  have "mset (map c_addr (sort_chunks cs)) = mset (map c_addr cs)"
    by (simp add: sort_chunks_props)
  from mset_eq_imp_distinct_iff [OF this] show ?thesis
    by (simp add: wf_chunks_def sort_chunks_props)
qed

lemma phys_addr_sort:
  assumes "wf_chunks n cs"
  shows "phys_addr (sort_chunks cs) = phys_addr cs"
proof
  fix a
  have "phys_addr (sort_chunks cs) a = Some t \<longleftrightarrow> phys_addr cs a = Some t" for t
    using phys_addr_Some [OF assms] phys_addr_Some [of n "sort_chunks cs"] assms
    by (simp add: wf_sort_chunks sort_chunks_props)
  then show "phys_addr (sort_chunks cs) a = phys_addr cs a" by (metis not_None_eq)
qed

lemma mem_update_list [simp]:
  "chunk_list (mem_update m) = sort_chunks (chunk_list m)" "chunk_cache (mem_update m) = chunk_cache m"
  by (simp_all add: mem_update_def Let_def split: prod.split)

lemma phys_addr_None: "phys_addr cs a = None \<longleftrightarrow> \<not> covered cs a"
  by (simp add: phys_addr_def chunk_at_None)

lemma hit_by_addr:
  assumes "start \<le> a" "a \<le> start + sz - 1" and "mem_chunk_has_addr c a" and "sz \<noteq> 0" "unat start + unat sz < 2 ^ 64"
  shows "hit_by start sz c"
proof -
  have "c_start c \<le> start + sz - 1" "start \<le> c_end c"
    using assms(1-3) by (auto simp: mem_chunk_has_addr_def intro: order_trans)
  then show ?thesis using hit_by_iff [OF assms(4,5)] by simp
qed

lemma dfi_mem_unmap_eqs:
  assumes "wf_chunks (next_addr (unmap_loop d start sz (chunk_list (mem_virt d))))
      (chunk_list (mem_virt (unmap_loop d start sz (chunk_list (mem_virt d)))))"
  shows "wf_chunks (next_addr (dfi_mem_unmap d start sz)) (chunk_list (mem_virt (dfi_mem_unmap d start sz)))"
    "mem_phys (dfi_mem_unmap d start sz) = mem_phys (unmap_loop d start sz (chunk_list (mem_virt d)))"
    "phys_addr (chunk_list (mem_virt (dfi_mem_unmap d start sz))) =
       phys_addr (chunk_list (mem_virt (unmap_loop d start sz (chunk_list (mem_virt d)))))"
    "set (chunk_list (mem_virt (dfi_mem_unmap d start sz))) =
       set (chunk_list (mem_virt (unmap_loop d start sz (chunk_list (mem_virt d)))))"
  using assms phys_addr_sort [OF assms]
  by (simp_all add: dfi_mem_unmap_def Let_def wf_sort_chunks sort_chunks_props)

lemma unmap_addr:
  assumes "wf_chunks (next_addr d) (chunk_list (mem_virt d))" and "sz \<noteq> 0" "unat start + unat sz < 2 ^ 64"
  shows "wf_chunks (next_addr (dfi_mem_unmap d start sz)) (chunk_list (mem_virt (dfi_mem_unmap d start sz)))"
    and "mem_phys (dfi_mem_unmap d start sz) = mem_phys d"
    and "phys_addr (chunk_list (mem_virt (dfi_mem_unmap d start sz))) a =
      (if start \<le> a \<and> a \<le> start + sz - 1 then None else phys_addr (chunk_list (mem_virt d)) a)"
proof -
  define L where "L = chunk_list (mem_virt d)"
  have L: "distinct L" "\<forall>c \<in> set L - set L. \<not> hit_by start sz c"
    using assms(1) by (auto simp: wf_chunks_def distinct_map L_def)
  note U = unmap_loop_correct [OF assms(1) subset_refl L [unfolded L_def] assms(2,3)]
  note U1 = conjunct1 [OF U] and U2 = conjunct1 [OF conjunct2 [OF U]]
    and U3 = conjunct1 [OF conjunct2 [OF conjunct2 [OF U]]] and U4 = conjunct2 [OF conjunct2 [OF conjunct2 [OF U]]]
  show "wf_chunks (next_addr (dfi_mem_unmap d start sz)) (chunk_list (mem_virt (dfi_mem_unmap d start sz)))"
    by (rule dfi_mem_unmap_eqs(1) [OF U1])
  show "mem_phys (dfi_mem_unmap d start sz) = mem_phys d"
    by (rule trans [OF dfi_mem_unmap_eqs(2) [OF U1] U2])
  show "phys_addr (chunk_list (mem_virt (dfi_mem_unmap d start sz))) a =
      (if start \<le> a \<and> a \<le> start + sz - 1 then None else phys_addr (chunk_list (mem_virt d)) a)"
  proof (cases "start \<le> a \<and> a \<le> start + sz - 1")
    case True
    then have "\<not> covered (chunk_list (mem_virt (dfi_mem_unmap d start sz))) a"
      using U3 hit_by_addr [OF _ _ _ assms(2,3)] unfolding covered_def dfi_mem_unmap_eqs(4) [OF U1] by blast
    then show ?thesis using True by (simp add: phys_addr_None)
  next
    case False
    then show ?thesis using U4 dfi_mem_unmap_eqs(3) [OF U1] by auto
  qed
qed

lemma mapped_iff:
  assumes "wf_chunks n (chunk_list (mem_virt d))" and "sz \<noteq> 0" "unat start + unat sz < 2 ^ 64"
  shows "mem_range_mapped d start sz \<longleftrightarrow> (\<exists>a. start \<le> a \<and> a \<le> start + sz - 1 \<and> covered (chunk_list (mem_virt d)) a)"
proof
  assume "mem_range_mapped d start sz"
  then obtain c where c: "c \<in> set (chunk_list (mem_virt d))" "c_start c \<le> start + sz - 1" "start \<le> c_end c"
    by (auto simp: mem_range_mapped_def list_ex_iff not_less)
  moreover have "c_start c \<le> c_end c" using assms(1) c by (auto simp: wf_chunks_def chunk_ok_def)
  ultimately show "\<exists>a. start \<le> a \<and> a \<le> start + sz - 1 \<and> covered (chunk_list (mem_virt d)) a"
    using range_stop(3) [OF assms(2,3)]
    by (intro exI [of _ "max start (c_start c)"])
      (auto simp: covered_def mem_chunk_has_addr_def intro!: bexI [of _ c])
next
  assume "\<exists>a. start \<le> a \<and> a \<le> start + sz - 1 \<and> covered (chunk_list (mem_virt d)) a"
  then obtain a c where "start \<le> a" "a \<le> start + sz - 1" "c \<in> set (chunk_list (mem_virt d))" "mem_chunk_has_addr c a"
    by (auto simp: covered_def)
  moreover from this have "c_start c \<le> start + sz - 1" "start \<le> c_end c"
    by (auto simp: mem_chunk_has_addr_def intro: order_trans)
  ultimately show "mem_range_mapped d start sz"
    by (auto simp: mem_range_mapped_def list_ex_iff not_less Let_def)
qed

section \<open>Consistency of the two memories\<close>

lemma chunk_ok_size:
  assumes "chunk_ok c"
  shows "unat (c_size c) = unat (c_end c) - unat (c_start c) + 1" "unat (c_start c) \<le> unat (c_end c)"
    "unat (c_end c) < 2 ^ 64 - 1"
proof -
  show le: "unat (c_start c) \<le> unat (c_end c)" "unat (c_end c) < 2 ^ 64 - 1"
    using assms by (auto simp: chunk_ok_def word_le_nat_alt word_less_nat_alt)
  have "unat (c_end c - c_start c) = unat (c_end c) - unat (c_start c)" using le by (simp add: unat_sub word_le_nat_alt)
  then show "unat (c_size c) = unat (c_end c) - unat (c_start c) + 1"
    using assms le by (auto simp: chunk_ok_def intro!: trans [OF unat_add_exact])
qed

lemma map_ok_phys_ok:
  assumes "chunk_ok c" and "phys_ok ps c"
  shows "map_ok ps c"
proof (cases "c_read c")
  case (ReadMap p)
  have "covered ps x" if x: "p \<le> x" "unat x < unat p + unat (c_size c)" for x
  proof -
    have u: "unat (x - p) = unat x - unat p" using x by (simp add: unat_sub)
    note sz = chunk_ok_size [OF assms(1)]
    have "unat (c_start c + (x - p)) = unat (c_start c) + (unat x - unat p)"
      using u sz x by (intro trans [OF unat_add_exact]) auto
    then have "mem_chunk_has_addr c (c_start c + (x - p))"
      using sz x by (auto simp: mem_chunk_has_addr_def word_le_nat_alt)
    with assms(2) have "covered ps (p + (c_start c + (x - p) - c_start c))"
      using ReadMap by (simp only: phys_ok_def mem_chunk_start_phys_def chunk_read.case)
    then show ?thesis by simp
  qed
  then show ?thesis using ReadMap assms(2) by (auto simp: map_ok_def phys_ok_def mem_chunk_start_phys_def)
qed (simp_all add: map_ok_def)

lemma virt_wf_inv: "virt_wf dump d \<Longrightarrow> cache_ok (mem_virt d) \<Longrightarrow> virt_inv d"
  using map_ok_phys_ok by (auto simp: virt_wf_def virt_inv_def wf_chunks_def)

text \<open>Every virtual address has the byte of the physical address it stands for.\<close>

lemma virt_byte_phys:
  assumes "virt_wf dump d" and "phys_addr (chunk_list (mem_virt d)) a = Some t"
  shows "virt_byte dump d a = phys_byte dump d t"
proof -
  have wf: "wf_chunks (next_addr d) (chunk_list (mem_virt d))" using assms(1) by (simp add: virt_wf_def)
  from assms(2) obtain c where c: "chunk_at (chunk_list (mem_virt d)) a = Some c" "t = mem_chunk_start_phys c + (a - c_start c)"
    by (auto simp: phys_addr_def)
  then have "c \<in> set (chunk_list (mem_virt d))" "mem_chunk_has_addr c a" using chunk_at_Some [OF wf] by auto
  then have "ident_ok dump d c" "mem_chunk_has_addr c a" using assms(1) by (auto simp: virt_wf_def)
  then show ?thesis using c
    by (cases "c_read c")
      (auto simp: virt_byte_def ident_ok_def chunk_byte_def read_byte_def mem_chunk_is_map_def mem_chunk_start_phys_def)
qed

lemma pieces_phys_ok:
  assumes "chunk_ok c" and "start \<le> stop" "c_start c \<le> stop" "start \<le> c_end c"
    and "p \<in> set (pieces n start stop c)" and "phys_ok ps c"
  shows "phys_ok ps p" "mem_chunk_is_map p"
proof -
  show "mem_chunk_is_map p"
    using assms(5) by (auto simp: pieces_def Let_def mem_chunk_is_map_def split: if_splits)
  have "covered ps (mem_chunk_start_phys p + (a - c_start p))" if "mem_chunk_has_addr p a" for a
  proof -
    have a: "mem_chunk_has_addr c a" and eq: "mem_chunk_start_phys p + (a - c_start p) = mem_chunk_start_phys c + (a - c_start c)"
      using pieces_addr [OF assms(1-4), of n a "mem_chunk_start_phys p + (a - c_start p)"] that assms(5) by auto
    show ?thesis using assms(6) a unfolding eq by (simp add: phys_ok_def)
  qed
  moreover have "unat (mem_chunk_start_phys p) + unat (c_size p) < 2 ^ 64"
  proof -
    have pz: "c_start c \<le> c_start p" "c_end p \<le> c_end c" "chunk_ok p" using pieces_ok [OF assms(1-5)] by auto
    have "mem_chunk_start_phys p = mem_chunk_start_phys c + (c_start p - c_start c)"
      using pieces_addr [OF assms(1-4), of n "c_start p" "mem_chunk_start_phys p"] assms(5) pz(3)
      by (auto simp: mem_chunk_has_addr_def chunk_ok_def)
    moreover have "unat (c_start p - c_start c) = unat (c_start p) - unat (c_start c)" using pz(1) by (simp add: unat_sub)
    ultimately have "unat (mem_chunk_start_phys p) \<le> unat (mem_chunk_start_phys c) + (unat (c_start p) - unat (c_start c))"
      by (simp add: unat_word_ariths)
    then show ?thesis
      using chunk_ok_size [OF assms(1)] chunk_ok_size [OF pz(3)] pz(1,2) assms(6) by (auto simp: phys_ok_def word_le_nat_alt)
  qed
  ultimately show "phys_ok ps p" by (simp add: phys_ok_def)
qed

lemma unmap_loop_all:
  assumes "\<forall>n c. chunk_ok c \<and> Q c \<and> hit_by start sz c \<longrightarrow> (\<forall>p \<in> set (pieces n start (start + sz - 1) c). chunk_ok p \<and> Q p)"
    and "\<forall>c \<in> set (chunk_list (mem_virt d)) \<union> set todo. chunk_ok c \<and> Q c"
  shows "(\<forall>c \<in> set (chunk_list (mem_virt (unmap_loop d start sz todo))). Q c) \<and>
    next_addr d \<le> next_addr (unmap_loop d start sz todo)"
  using assms
proof (induction d start sz todo rule: unmap_loop.induct)
  case (1 d start sz)
  show ?case using "1.prems"(2) by simp
next
  case (2 d start sz c rest)
  show ?case
  proof (cases "hit_by start sz c")
    case False
    have "\<forall>c \<in> set (chunk_list (mem_virt d)) \<union> set rest. chunk_ok c \<and> Q c" using "2.prems"(2) by simp
    note IH = "2.IH"(1) [OF False "2.prems"(1) this]
    have eq: "unmap_loop d start sz (c # rest) = unmap_loop d start sz rest" using False by simp
    show ?thesis unfolding eq by (rule IH)
  next
    case True
    let ?d1 = "unmap_chunk d start sz c" and ?ps = "pieces (next_addr d) start (start + sz - 1) c"
    let ?d2 = "drop_chunk ?d1 c"
    have ok: "chunk_ok c" "Q c" using "2.prems"(2) by auto
    note U = unmap_chunk_list [OF ok(1) True, of d]
    have n: "next_addr d \<le> next_addr ?d2" by (simp add: drop_chunk_def U)
    have ps: "\<forall>p \<in> set ?ps. chunk_ok p \<and> Q p"
      using mp [OF spec [OF spec [OF "2.prems"(1)]]] ok True by blast
    have "set (chunk_list (mem_virt ?d2)) \<subseteq> set (chunk_list (mem_virt d)) \<union> set ?ps"
      using set_remove1_subset [of c "chunk_list (mem_virt d) @ ?ps"] by (simp add: drop_chunk_def U)
    then have all: "\<forall>x \<in> set (chunk_list (mem_virt ?d2)) \<union> set (rest @ ?ps). chunk_ok x \<and> Q x"
      using "2.prems"(2) ps by auto
    have app: "appended d ?d1 = ?ps" by (simp add: appended_def U)
    show ?thesis
    proof (cases "rest = []")
      case r: True
      then have eq: "unmap_loop d start sz (c # rest) = ?d2" using True by (simp add: Let_def)
      show ?thesis unfolding eq using n all by blast
    next
      case False
      then have eq: "unmap_loop d start sz (c # rest) = unmap_loop ?d2 start sz (rest @ ?ps)"
        using True app by (simp add: Let_def)
      have hit: "\<not> \<not> hit_by start sz c" using True by simp
      note IH = "2.IH"(2) [OF hit refl refl False, unfolded app, OF "2.prems"(1) all]
      show ?thesis unfolding eq using IH n by (meson order_trans)
    qed
  qed
qed

lemma wf_chunks_mono: "wf_chunks n cs \<Longrightarrow> n \<le> m \<Longrightarrow> wf_chunks m cs"
  by (auto simp: wf_chunks_def)

lemma phys_byte_cong: "mem_phys d = mem_phys d' \<Longrightarrow> phys_byte dump d = phys_byte dump d'"
  by (rule ext) (simp add: phys_byte_def)

lemma virt_wfI:
  assumes "virt_wf dump d" and "mem_phys d' = mem_phys d" "next_addr d \<le> next_addr d'"
    and "wf_chunks (next_addr d') (chunk_list (mem_virt d'))"
    and "\<forall>c \<in> set (chunk_list (mem_virt d')). phys_ok (chunk_list (mem_phys d)) c \<and> ident_ok dump d c"
  shows "virt_wf dump d'"
proof -
  have "phys_inv d'" using assms(1-3) wf_chunks_mono by (auto simp: virt_wf_def phys_inv_def)
  moreover have "ident_ok dump d' = ident_ok dump d"
    using phys_byte_cong [OF assms(2)] by (simp add: ident_ok_def fun_eq_iff)
  ultimately show ?thesis using assms(2,4,5) by (simp add: virt_wf_def)
qed

lemma unmap_virt_wf:
  assumes "virt_wf dump d" and "sz \<noteq> 0" "unat start + unat sz < 2 ^ 64"
  shows "virt_wf dump (dfi_mem_unmap d start sz)"
proof -
  let ?L = "chunk_list (mem_virt d)" and ?Q = "\<lambda>c. phys_ok (chunk_list (mem_phys d)) c \<and> ident_ok dump d c"
  have wf: "wf_chunks (next_addr d) ?L" using assms(1) by (simp add: virt_wf_def)
  then have L: "distinct ?L" "\<forall>c \<in> set ?L - set ?L. \<not> hit_by start sz c"
    by (auto simp: wf_chunks_def distinct_map)
  note W = conjunct1 [OF unmap_loop_correct [OF wf subset_refl L assms(2,3)]]
  have cl: "\<forall>n c. chunk_ok c \<and> ?Q c \<and> hit_by start sz c \<longrightarrow> (\<forall>p \<in> set (pieces n start (start + sz - 1) c). chunk_ok p \<and> ?Q p)"
  proof (intro allI impI ballI)
    fix n c p assume c: "chunk_ok c \<and> ?Q c \<and> hit_by start sz c" and p: "p \<in> set (pieces n start (start + sz - 1) c)"
    have h: "start \<le> start + sz - 1" "c_start c \<le> start + sz - 1" "start \<le> c_end c"
      using c hit_by_iff [OF assms(2,3)] range_stop(3) [OF assms(2,3)] by auto
    from c have "chunk_ok c" "phys_ok (chunk_list (mem_phys d)) c" by simp_all
    then show "chunk_ok p \<and> ?Q p"
      using pieces_ok(1) [OF _ h p] pieces_phys_ok [OF _ h p] by (simp add: ident_ok_def)
  qed
  have "\<forall>c \<in> set ?L \<union> set ?L. chunk_ok c \<and> ?Q c" using assms(1) by (auto simp: virt_wf_def wf_chunks_def)
  note A = unmap_loop_all [OF cl this]
  have n: "next_addr d \<le> next_addr (dfi_mem_unmap d start sz)"
    using conjunct2 [OF A] by (simp add: dfi_mem_unmap_def Let_def)
  show ?thesis
    using virt_wfI [OF assms(1) unmap_addr(2) [OF wf assms(2,3)] n unmap_addr(1) [OF wf assms(2,3)]] conjunct1 [OF A]
    unfolding dfi_mem_unmap_eqs(4) [OF W] by blast
qed

lemma map_add_wf:
  fixes r v
  assumes wf: "wf_chunks (next_addr d) (chunk_list (mem_virt d))" and sz: "sz \<noteq> 0" "unat start + unat sz < 2 ^ 64"
    and free: "\<not> mem_range_mapped d start sz"
  defines "c \<equiv> \<lparr>c_addr = next_addr d, c_start = start, c_end = start + sz - 1, c_size = sz, c_read = r, c_volnr = v\<rparr>"
  shows "wf_chunks (next_addr d + 1) (chunk_list (mem_virt d) @ [c])"
    "phys_addr (chunk_list (mem_virt d) @ [c]) a =
      (if start \<le> a \<and> a \<le> start + sz - 1 then Some (mem_chunk_start_phys c + (a - start)) else phys_addr (chunk_list (mem_virt d)) a)"
proof -
  let ?L = "chunk_list (mem_virt d)"
  have ok: "chunk_ok c"
    using range_stop [OF sz] sz(2) by (auto simp: chunk_ok_def c_def word_less_nat_alt)
  have disj: "\<forall>x \<in> set ?L. c_end x < start \<or> start + sz - 1 < c_start x"
    using free by (auto simp: mem_range_mapped_def Let_def list_ex_iff)
  then show w: "wf_chunks (next_addr d + 1) (?L @ [c])"
    using wf ok by (auto simp: wf_chunks_def chunk_disj_def c_def)
  have has: "mem_chunk_has_addr c a \<longleftrightarrow> start \<le> a \<and> a \<le> start + sz - 1"
    by (auto simp: mem_chunk_has_addr_def c_def)
  show "phys_addr (?L @ [c]) a =
      (if start \<le> a \<and> a \<le> start + sz - 1 then Some (mem_chunk_start_phys c + (a - start)) else phys_addr ?L a)"
  proof (cases "mem_chunk_has_addr c a")
    case True
    then have "phys_addr (?L @ [c]) a = Some (mem_chunk_start_phys c + (a - c_start c))"
      unfolding phys_addr_Some [OF w] by auto
    then show ?thesis using True has by (simp add: c_def)
  next
    case False
    have "phys_addr (?L @ [c]) a = Some t \<longleftrightarrow> phys_addr ?L a = Some t" for t
      unfolding phys_addr_Some [OF w] phys_addr_Some [OF wf] using False by auto
    then have "phys_addr (?L @ [c]) a = phys_addr ?L a" by (metis not_None_eq)
    then show ?thesis using False has by auto
  qed
qed

lemma map_addr:
  assumes v: "virt_wf dump d" and sz: "sz \<noteq> 0" "unat start + unat sz < 2 ^ 64" "unat p + unat sz < 2 ^ 64"
    and ps: "\<forall>x. p \<le> x \<and> x \<le> p + sz - 1 \<longrightarrow> covered (chunk_list (mem_phys d)) x"
    and free: "\<not> mem_range_mapped d start sz"
  obtains d' where "dfi_mem_map d start sz p = Inr d'" "virt_wf dump d'" "mem_phys d' = mem_phys d" "cache_ok (mem_virt d')"
    "\<And>a. phys_addr (chunk_list (mem_virt d')) a =
      (if start \<le> a \<and> a \<le> start + sz - 1 then Some (p + (a - start)) else phys_addr (chunk_list (mem_virt d)) a)"
proof -
  let ?c = "\<lparr>c_addr = next_addr d, c_start = start, c_end = start + sz - 1, c_size = sz, c_read = ReadMap p, c_volnr = None\<rparr>"
  let ?L = "chunk_list (mem_virt d)"
  define d' where "d' = (let e = mem_chunk_map_add d start sz p in e\<lparr>mem_virt := mem_update (mem_virt e)\<rparr>)"
  have wf: "wf_chunks (next_addr d) ?L" using v by (simp add: virt_wf_def)
  note M = map_add_wf [OF wf sz(1,2) free, of "ReadMap p" None]
  have l: "chunk_list (mem_virt d') = sort_chunks (?L @ [?c])" "next_addr d' = next_addr d + 1" "mem_phys d' = mem_phys d"
      "chunk_cache (mem_virt d') = Some (next_addr d)"
    using sz(1) by (simp_all add: d'_def Let_def mem_chunk_map_add_def mem_chunk_virt_add_def mem_chunk_create_def)
  have "covered (chunk_list (mem_phys d)) (p + (a - start))" if "start \<le> a" "a \<le> start + sz - 1" for a
  proof -
    have "0 < unat sz" using sz(1) by (simp add: unat_gt_0)
    then have "unat (a - start) < unat sz"
      using that range_stop [OF sz(1,2)] by (auto simp: unat_sub word_le_nat_alt)
    moreover have "unat (p + (a - start)) = unat p + unat (a - start)"
      using calculation sz(3) by (intro unat_add_exact) simp
    ultimately show ?thesis using ps range_stop [OF sz(1,3)] by (auto simp: word_le_nat_alt)
  qed
  then have "phys_ok (chunk_list (mem_phys d)) ?c" "ident_ok dump d ?c"
    using sz(3) by (auto simp: phys_ok_def ident_ok_def mem_chunk_start_phys_def mem_chunk_is_map_def mem_chunk_has_addr_def)
  then have "virt_wf dump d'"
    using v M(1) by (intro virt_wfI [OF v]) (auto simp: l wf_sort_chunks sort_chunks_props virt_wf_def)
  moreover have "dfi_mem_map d start sz p = Inr d'" using free by (simp add: dfi_mem_map_def d'_def Let_def)
  moreover have "cache_ok (mem_virt d')" by (auto simp: cache_ok_def l sort_chunks_props)
  ultimately show thesis
    using that l(3) M(2) phys_addr_sort [OF M(1)] by (simp add: l(1) mem_chunk_start_phys_def)
qed

section \<open>Selecting the memory of a dumped kdump\<close>

lemma select_prod:
  assumes v: "virt_wf dump d" and sz: "sz \<noteq> 0" "unat base + unat sz < 2 ^ 64"
    and ps: "\<forall>x. base \<le> x \<and> x \<le> base + sz - 1 \<longrightarrow> covered (chunk_list (mem_phys d)) x"
  obtains d' where "kdump_select (Some SelectProd) base sz d = Inr d'" "virt_wf dump d'" "virt_inv d'" "mem_phys d' = mem_phys d"
    "\<And>a. phys_addr (chunk_list (mem_virt d')) a =
       (if a < sz then Some (base + a) else if base \<le> a \<and> a \<le> base + sz - 1 then None
        else phys_addr (chunk_list (mem_virt d)) a)"
proof -
  let ?d1 = "dfi_mem_unmap d 0 sz"
  let ?d2 = "dfi_mem_unmap ?d1 base sz"
  have z: "unat (0 :: u64) + unat sz < 2 ^ 64" using sz(2) by simp
  have nz: "0 < unat sz" using sz(1) by (simp add: unat_gt_0)
  then have lt: "a \<le> 0 + sz - 1 \<longleftrightarrow> a < sz" for a
    using range_stop [OF sz(1) z] by (auto simp: word_le_nat_alt word_less_nat_alt)
  note v1 = unmap_virt_wf [OF v sz(1) z]
  note v2 = unmap_virt_wf [OF v1 sz]
  have w: "wf_chunks (next_addr d) (chunk_list (mem_virt d))" "wf_chunks (next_addr ?d1) (chunk_list (mem_virt ?d1))"
      "wf_chunks (next_addr ?d2) (chunk_list (mem_virt ?d2))"
    using v v1 v2 by (auto simp: virt_wf_def)
  note U = unmap_addr [OF w(1) sz(1) z] unmap_addr [OF w(2) sz]
  have ph: "mem_phys ?d2 = mem_phys d" using U(2,5) by simp
  have "\<not> covered (chunk_list (mem_virt ?d2)) a" if "a < sz" for a
    using U(3) [of a] U(6) [of a] that lt by (simp add: phys_addr_None [symmetric])
  then have free: "\<not> mem_range_mapped ?d2 0 sz"
    using mapped_iff [OF w(3) sz(1) z] lt by auto
  obtain d' where d': "dfi_mem_map ?d2 0 sz base = Inr d'" "virt_wf dump d'" "mem_phys d' = mem_phys ?d2" "cache_ok (mem_virt d')"
      "\<And>a. phys_addr (chunk_list (mem_virt d')) a =
        (if 0 \<le> a \<and> a \<le> 0 + sz - 1 then Some (base + (a - 0)) else phys_addr (chunk_list (mem_virt ?d2)) a)"
    using map_addr [OF v2 sz(1) z sz(2) _ free] ps ph by auto
  show thesis
  proof (rule that [of d'])
    show "kdump_select (Some SelectProd) base sz d = Inr d'" using d'(1) by (simp add: kdump_select_def Let_def)
    show "virt_inv d'" using d'(2,4) by (rule virt_wf_inv)
    show "phys_addr (chunk_list (mem_virt d')) a =
       (if a < sz then Some (base + a) else if base \<le> a \<and> a \<le> base + sz - 1 then None
        else phys_addr (chunk_list (mem_virt d)) a)" for a
      using d'(5) [of a] U(3) [of a] U(6) [of a] lt [of a] by simp
  qed (use d'(2,3) ph in simp_all)
qed

lemma phys_read_u64_ok:
  assumes "phys_inv d" and "valid_range (chunk_list (mem_phys d)) addr 8"
  shows "\<exists>d'. same_phys d d' \<and>
    phys_read_u64 dump d addr = Some (Inr (Some (load_u64 (map (\<lambda>i. phys_byte dump d (addr + of_nat i)) [0..<8])), d'))"
proof -
  have "0 + unat (8 :: u64) \<le> length (replicate 8 (0 :: u8))" by simp
  from phys_read_correct [OF assms(1) this, of dump addr] assms(2)
  obtain d' where d': "same_phys d d'" "dfi_mem_phys_read dump d addr (replicate 8 0) 0 8 =
      Some (Inr (0, write_buf (replicate 8 0) 0 (map (\<lambda>i. phys_byte dump d (addr + of_nat i)) [0..<unat (8 :: u64)]), d'))"
    by auto
  have "write_buf (replicate 8 0) 0 xs = xs" if "length xs = 8" for xs
    using that by (simp add: write_buf_def)
  then show ?thesis using d' by (auto simp: phys_read_u64_def)
qed

lemma same_phys_wf:
  assumes "same_phys d d'" and "virt_wf dump d"
  shows "virt_wf dump d'" "phys_byte dump d' = phys_byte dump d" "chunk_list (mem_phys d') = chunk_list (mem_phys d)"
    "mem_virt d' = mem_virt d"
proof -
  from assms(1) obtain p where p: "d' = d\<lparr>mem_phys := (mem_phys d)\<lparr>chunk_cache := p\<rparr>\<rparr>" "cache_ok (mem_phys d')"
    by (auto simp: same_phys_def)
  show b: "phys_byte dump d' = phys_byte dump d" "chunk_list (mem_phys d') = chunk_list (mem_phys d)" "mem_virt d' = mem_virt d"
    using p(1) by (simp_all add: phys_byte_def fun_eq_iff)
  have "ident_ok dump d' = ident_ok dump d" using b(1) by (simp add: ident_ok_def fun_eq_iff)
  then show "virt_wf dump d'" using assms(2) p b by (simp add: virt_wf_def phys_inv_def)
qed

lemma virt_cache_wf:
  assumes "virt_wf dump d"
  shows "virt_wf dump (d\<lparr>mem_virt := (mem_virt d)\<lparr>chunk_cache := q\<rparr>\<rparr>)"
  using assms by (intro virt_wfI [OF assms]) (auto simp: virt_wf_def)

lemma range_covered:
  fixes base sz x :: u64
  assumes "sz \<noteq> 0" "unat base + unat sz < 2 ^ 64" and "base \<le> x" "x \<le> base + sz - 1"
  shows "unat x < unat base + unat sz"
  using range_stop [OF assms(1,2)] assms unat_gt_0 [of sz] by (simp add: word_le_nat_alt)

text \<open>
  Adding a chunk that meets no other one extends both memories by it, with the identity translation.
\<close>

lemma chunk_at_append:
  "chunk_at (cs @ [c]) a = (case chunk_at cs a of Some x \<Rightarrow> Some x | None \<Rightarrow> if mem_chunk_has_addr c a then Some c else None)"
  by (induction cs) (auto simp: chunk_at_def)

lemma phys_byte_append:
  assumes "chunk_list (mem_phys d') = chunk_list (mem_phys d) @ [c]"
  shows "covered (chunk_list (mem_phys d)) a \<Longrightarrow> phys_byte dump d' a = phys_byte dump d a"
    and "\<not> covered (chunk_list (mem_phys d)) a \<Longrightarrow> mem_chunk_has_addr c a \<Longrightarrow> phys_byte dump d' a = chunk_byte dump c a"
  using chunk_at_None [of "chunk_list (mem_phys d)" a]
  by (auto simp: phys_byte_def chunk_byte_def read_byte_def assms chunk_at_append split: option.split chunk_read.split)

lemma chunk_add_lists:
  fixes d start sz rd volnr
  defines "c \<equiv> \<lambda>n v. \<lparr>c_addr = n, c_start = start, c_end = start + sz - 1, c_size = sz, c_read = rd, c_volnr = v\<rparr>"
    and "d' \<equiv> dfi_mem_chunk_add_vol d start sz rd volnr"
  assumes "sz \<noteq> 0" and "wf_chunks (next_addr d) (chunk_list (mem_virt d))"
  shows "chunk_list (mem_phys d') = chunk_list (mem_phys d) @ [c (next_addr d) None]"
    "chunk_list (mem_virt d') = chunk_list (mem_virt d) @ [c (next_addr d + 1) (Some volnr)]"
    "next_addr d' = next_addr d + 2"
    "chunk_cache (mem_phys d') = Some (next_addr d)" "chunk_cache (mem_virt d') = Some (next_addr d + 1)"
proof -
  have "map (\<lambda>x. if c_addr x = next_addr d + 1 then x\<lparr>c_volnr := Some volnr\<rparr> else x) (chunk_list (mem_virt d)) = chunk_list (mem_virt d)"
    using assms(4) by (intro map_idI) (auto simp: wf_chunks_def)
  then show "chunk_list (mem_phys d') = chunk_list (mem_phys d) @ [c (next_addr d) None]"
    "chunk_list (mem_virt d') = chunk_list (mem_virt d) @ [c (next_addr d + 1) (Some volnr)]"
    "next_addr d' = next_addr d + 2"
    "chunk_cache (mem_phys d') = Some (next_addr d)" "chunk_cache (mem_virt d') = Some (next_addr d + 1)"
    using assms(3)
    by (simp_all add: d'_def c_def dfi_mem_chunk_add_vol_def Let_def mem_chunk_create_def set_volnr_def)
qed

lemma not_covered_outside:
  assumes "\<forall>c \<in> set cs. c_end c < start \<or> stop < c_start c" and "start \<le> x" "x \<le> stop"
  shows "\<not> covered cs x"
proof
  assume "covered cs x"
  then obtain c where "c \<in> set cs" "c_start c \<le> x" "x \<le> c_end c" by (auto simp: covered_def mem_chunk_has_addr_def)
  then show False using assms by (meson leD order_trans)
qed

lemma phys_addr_covered:
  assumes "virt_wf dump d" and "phys_addr (chunk_list (mem_virt d)) a = Some t"
  shows "covered (chunk_list (mem_phys d)) t"
proof -
  have "wf_chunks (next_addr d) (chunk_list (mem_virt d))" using assms(1) by (simp add: virt_wf_def)
  from assms(2) [unfolded phys_addr_Some [OF this]] show ?thesis using assms(1) by (auto simp: virt_wf_def phys_ok_def)
qed

lemma chunk_add_wf:
  fixes volnr
  assumes v: "virt_wf dump d" and sz: "sz \<noteq> 0" "unat start + unat sz < 2 ^ 64"
    and free: "\<forall>c \<in> set (chunk_list (mem_phys d)) \<union> set (chunk_list (mem_virt d)). c_end c < start \<or> start + sz - 1 < c_start c"
    and rd: "\<forall>p. rd \<noteq> ReadMap p"
  defines "d' \<equiv> dfi_mem_chunk_add_vol d start sz rd volnr"
  shows "virt_wf dump d'" "cache_ok (mem_virt d')"
    "phys_addr (chunk_list (mem_virt d')) a =
      (if start \<le> a \<and> a \<le> start + sz - 1 then Some a else phys_addr (chunk_list (mem_virt d)) a)"
proof -
  define p where "p = \<lparr>c_addr = next_addr d, c_start = start, c_end = start + sz - 1, c_size = sz, c_read = rd, c_volnr = None\<rparr>"
  define c where "c = \<lparr>c_addr = next_addr d + 1, c_start = start, c_end = start + sz - 1, c_size = sz, c_read = rd, c_volnr = Some volnr\<rparr>"
  let ?P = "chunk_list (mem_phys d)" and ?L = "chunk_list (mem_virt d)"
  have wf: "wf_chunks (next_addr d) ?L" "wf_chunks (next_addr d) ?P" using v by (auto simp: virt_wf_def phys_inv_def)
  note A = chunk_add_lists [OF sz(1) wf(1), of start rd volnr, folded d'_def, folded p_def c_def]
  have ok: "chunk_ok p" "chunk_ok c"
    using range_stop [OF sz] sz(2) by (auto simp: chunk_ok_def p_def c_def word_less_nat_alt)
  have has: "mem_chunk_has_addr p x \<longleftrightarrow> start \<le> x \<and> x \<le> start + sz - 1"
      "mem_chunk_has_addr c x \<longleftrightarrow> start \<le> x \<and> x \<le> start + sz - 1" for x
    by (auto simp: mem_chunk_has_addr_def p_def c_def)
  have new: "\<not> covered ?P x" "\<not> covered ?L x" if "start \<le> x" "x \<le> start + sz - 1" for x
    using that free not_covered_outside [of _ start "start + sz - 1"] by blast+
  have wf': "wf_chunks (next_addr d') (?L @ [c])" "wf_chunks (next_addr d') (?P @ [p])"
    using wf ok free by (auto simp: wf_chunks_def chunk_disj_def c_def p_def A(3))
  have ph: "phys_inv d'" using v wf'(2) rd
    by (auto simp: phys_inv_def virt_wf_def A cache_ok_def p_def mem_chunk_is_map_def split: chunk_read.splits)
  have old: "phys_ok (?P @ [p]) x \<and> ident_ok dump d' x" if x: "x \<in> set ?L" for x
  proof -
    have o: "phys_ok ?P x" "ident_ok dump d x" using v x by (auto simp: virt_wf_def)
    then have "covered ?P a" if "\<not> mem_chunk_is_map x" "mem_chunk_has_addr x a" for a
      using that by (cases "c_read x") (auto simp: phys_ok_def mem_chunk_start_phys_def mem_chunk_is_map_def)
    then show ?thesis
      using o phys_byte_append(1) [OF A(1)] by (auto simp: ident_ok_def phys_ok_def covered_def)
  qed
  have cp: "phys_ok (?P @ [p]) c" "ident_ok dump d' c"
  proof -
    have "mem_chunk_start_phys c = start" using rd by (auto simp: mem_chunk_start_phys_def c_def split: chunk_read.splits)
    then show "phys_ok (?P @ [p]) c" using sz(2) has by (auto simp: phys_ok_def covered_def c_def)
    show "ident_ok dump d' c"
      using phys_byte_append(2) [OF A(1)] has new(1) by (auto simp: ident_ok_def chunk_byte_def p_def c_def)
  qed
  then show wfd: "virt_wf dump d'" using ph wf'(1) old by (simp add: virt_wf_def A)
  show "cache_ok (mem_virt d')" by (simp add: cache_ok_def A c_def)
  show "phys_addr (chunk_list (mem_virt d')) a = (if start \<le> a \<and> a \<le> start + sz - 1 then Some a else phys_addr ?L a)"
    using new(2) [of a] chunk_at_None [of ?L a] has(2) [of a] rd
    by (auto simp: A(2) phys_addr_def chunk_at_append c_def mem_chunk_start_phys_def split: option.split chunk_read.split)
qed

lemma chunk_add_bytes:
  fixes volnr
  assumes v: "virt_wf dump d" and sz: "sz \<noteq> 0" "unat start + unat sz < 2 ^ 64"
    and free: "\<forall>c \<in> set (chunk_list (mem_phys d)) \<union> set (chunk_list (mem_virt d)). c_end c < start \<or> start + sz - 1 < c_start c"
    and rd: "\<forall>p. rd \<noteq> ReadMap p"
  defines "d' \<equiv> dfi_mem_chunk_add_vol d start sz rd volnr"
  shows "virt_byte dump d' a =
      (if start \<le> a \<and> a \<le> start + sz - 1 then read_byte dump rd (a - start) else virt_byte dump d a)"
proof -
  have wf: "wf_chunks (next_addr d) (chunk_list (mem_virt d))" using v by (simp add: virt_wf_def)
  note W = chunk_add_wf [OF v sz free rd, of volnr, folded d'_def]
  note A = chunk_add_lists(1) [OF sz(1) wf, of start rd volnr, folded d'_def]
  have none: "virt_byte dump e a = 0" if "phys_addr (chunk_list (mem_virt e)) a = None" for e
    using that by (simp add: phys_addr_def virt_byte_def)
  consider "start \<le> a \<and> a \<le> start + sz - 1" | t where "\<not> (start \<le> a \<and> a \<le> start + sz - 1)" "phys_addr (chunk_list (mem_virt d)) a = Some t"
    | "\<not> (start \<le> a \<and> a \<le> start + sz - 1)" "phys_addr (chunk_list (mem_virt d)) a = None" by blast
  then show ?thesis
  proof cases
    case 1
    have "\<not> covered (chunk_list (mem_phys d)) a" using not_covered_outside [of _ start "start + sz - 1"] free 1 by blast
    from phys_byte_append(2) [OF A this] 1 virt_byte_phys [OF W(1), of a a] W(3) [of a] show ?thesis
      by (simp add: chunk_byte_def mem_chunk_has_addr_def)
  next
    case 2
    have "phys_addr (chunk_list (mem_virt d')) a = Some t" using 2 W(3) [of a] by argo
    then have "virt_byte dump d' a = virt_byte dump d a"
      using virt_byte_phys [OF W(1)] virt_byte_phys [OF v 2(2)] phys_byte_append(1) [OF A phys_addr_covered [OF v 2(2)]] by simp
    then show ?thesis using 2(1) by argo
  next
    case 3
    then have "phys_addr (chunk_list (mem_virt d')) a = None" using W(3) [of a] by argo
    then show ?thesis using none [of d] none [of d'] 3 by argo
  qed
qed

lemma kdump_init_reads:
  assumes "virt_wf dump (kd_mem k)" and "cache_ok (mem_virt (kd_mem k))"
    and "valid_range (chunk_list (mem_phys (kd_mem k))) 0x10418 8" "valid_range (chunk_list (mem_phys (kd_mem k))) 0x10420 8"
    and "base = load_u64 (map (\<lambda>i. phys_byte dump (kd_mem k) (0x10418 + of_nat i)) [0..<8])"
    and "sz = load_u64 (map (\<lambda>i. phys_byte dump (kd_mem k) (0x10420 + of_nat i)) [0..<8])"
    and "base \<noteq> 0" "sz \<noteq> 0" "base mod 0x100000 = 0" "sz mod 0x100000 = 0"
    and "valid_range (chunk_list (mem_virt (kd_mem k))) base sz"
  obtains d where "virt_wf dump d" "chunk_list (mem_phys d) = chunk_list (mem_phys (kd_mem k))"
    "chunk_list (mem_virt d) = chunk_list (mem_virt (kd_mem k))" "phys_byte dump d = phys_byte dump (kd_mem k)"
    "kdump_init dump sel k =
       Some (map_sum id (\<lambda>d. \<lparr>kd_mem = d, kdump_base = base, kdump_size = sz\<rparr>) (kdump_select sel base sz d))"
proof -
  let ?d = "kd_mem k"
  have ph: "phys_inv ?d" using assms(1) by (simp add: virt_wf_def)
  obtain d1 where d1: "same_phys ?d d1" "phys_read_u64 dump ?d 0x10418 = Some (Inr (Some base, d1))"
    using phys_read_u64_ok [OF ph assms(3), of dump] unfolding assms(5) [symmetric] by blast
  note S1 = same_phys_wf [OF d1(1) assms(1)]
  have v2: "phys_inv d1" "valid_range (chunk_list (mem_phys d1)) 0x10420 8"
    using S1(1) assms(4) by (simp_all add: virt_wf_def S1(3))
  have sz: "sz = load_u64 (map (\<lambda>i. phys_byte dump d1 (0x10420 + of_nat i)) [0..<8])" unfolding S1(2) by (rule assms(6))
  obtain d2 where d2: "same_phys d1 d2" "phys_read_u64 dump d1 0x10420 = Some (Inr (Some sz, d2))"
    using phys_read_u64_ok [OF v2, of dump] unfolding sz [symmetric] by blast
  note S2 = same_phys_wf [OF d2(1) S1(1)]
  have wf: "wf_chunks (next_addr d2) (chunk_list (mem_virt d2))" "cache_ok (mem_virt d2)"
    using S2(1) assms(2) by (simp_all add: virt_wf_def S2(4) S1(4))
  have "valid_range (chunk_list (mem_virt d2)) base sz" using assms(11) by (simp add: S2(4) S1(4))
  then obtain q where q: "mem_range_valid (mem_virt d2) base sz = Some (Inr (True, (mem_virt d2)\<lparr>chunk_cache := q\<rparr>))"
    using mem_range_valid_correct [OF wf, of base sz] by auto
  define d3 where "d3 = d2\<lparr>mem_virt := (mem_virt d2)\<lparr>chunk_cache := q\<rparr>\<rparr>"
  have r: "dfi_mem_range_valid d2 base sz = Some (Inr (True, d3))" by (simp add: dfi_mem_range_valid_def q d3_def)
  show thesis
  proof (rule that [of d3])
    show "virt_wf dump d3" unfolding d3_def by (rule virt_cache_wf [OF S2(1)])
    have "mem_phys d3 = mem_phys d2" by (simp add: d3_def)
    from phys_byte_cong [OF this] show "phys_byte dump d3 = phys_byte dump ?d" by (simp add: S2(2) S1(2))
    show "kdump_init dump sel k =
       Some (map_sum id (\<lambda>d. \<lparr>kd_mem = d, kdump_base = base, kdump_size = sz\<rparr>) (kdump_select sel base sz d3))"
      unfolding kdump_init_def d1(2) using assms(7-10) by (simp add: d2(2) r)
  qed (simp_all add: d3_def S1(3,4) S2(3,4))
qed

section \<open>The sample memory\<close>

lemma sample_wf: "virt_wf sample_dump sample_dfi" "cache_ok (mem_virt sample_dfi)"
proof -
  let ?e = "dfi_mem_chunk_init \<lparr>mem_phys = zero_mem, mem_virt = zero_mem, next_addr = 1\<rparr>"
  have "virt_wf sample_dump ?e"
    by (simp add: virt_wf_def phys_inv_def wf_chunks_def cache_ok_def dfi_mem_chunk_init_def mem_init_def zero_mem_def)
  from chunk_add_wf(1,2) [OF this, of "0x400000" 0 "ReadDump 0" 0]
  show "virt_wf sample_dump sample_dfi" "cache_ok (mem_virt sample_dfi)"
    by (simp_all add: sample_dfi_def dfi_mem_chunk_add_def dfi_mem_chunk_init_def mem_init_def zero_mem_def)
qed

lemma sample_lists:
  "chunk_list (mem_phys sample_dfi) = [\<lparr>c_addr = 1, c_start = 0, c_end = 0x3FFFFF, c_size = 0x400000, c_read = ReadDump 0, c_volnr = None\<rparr>]"
  "chunk_list (mem_virt sample_dfi) = [\<lparr>c_addr = 2, c_start = 0, c_end = 0x3FFFFF, c_size = 0x400000, c_read = ReadDump 0, c_volnr = Some 0\<rparr>]"
  by (simp_all add: sample_dfi_def dfi_mem_chunk_add_def dfi_mem_chunk_add_vol_def mem_chunk_create_def set_volnr_def
      dfi_mem_chunk_init_def mem_init_def zero_mem_def Let_def)

lemma sample_covered:
  "covered (chunk_list (mem_phys sample_dfi)) a \<longleftrightarrow> a \<le> 0x3FFFFF" "covered (chunk_list (mem_virt sample_dfi)) a \<longleftrightarrow> a \<le> 0x3FFFFF"
  by (simp_all add: covered_def sample_lists mem_chunk_has_addr_def)

lemma sample_range:
  assumes "unat addr + unat len \<le> 0x400000" "addr \<le> 0x3FFFFF"
  shows "valid_range (chunk_list (mem_phys sample_dfi)) addr len" "valid_range (chunk_list (mem_virt sample_dfi)) addr len"
  using assms by (auto simp: valid_range_def sample_covered word_le_nat_alt)

lemma sample_addr: "a \<le> 0x3FFFFF \<Longrightarrow> phys_addr (chunk_list (mem_virt sample_dfi)) a = Some a"
  by (simp add: phys_addr_def chunk_at_def sample_lists mem_chunk_has_addr_def mem_chunk_start_phys_def)

lemma sample_byte: "a \<le> 0x3FFFFF \<Longrightarrow> phys_byte sample_dump sample_dfi a = sample_dump 0 a"
  by (simp add: phys_byte_def chunk_at_def sample_lists mem_chunk_has_addr_def)

section \<open>Correctness of the memory map\<close>



text \<open>C9. Unmapping a range of virtual addresses removes the translation of exactly these addresses and
  keeps the memory map consistent, whatever chunks are cut, split or dropped.\<close>

theorem dfi_mem_unmap_exact:
  assumes "virt_wf dump d" and "sz \<noteq> 0" and "unat start + unat sz < 2 ^ 64"
  shows "virt_wf dump (dfi_mem_unmap d start sz) \<and> mem_phys (dfi_mem_unmap d start sz) = mem_phys d \<and>
    sorted (map c_start (chunk_list (mem_virt (dfi_mem_unmap d start sz)))) \<and>
    (\<forall>a. phys_addr (chunk_list (mem_virt (dfi_mem_unmap d start sz))) a =
      (if start \<le> a \<and> a \<le> start + sz - 1 then None else phys_addr (chunk_list (mem_virt d)) a))"
proof -
  have "wf_chunks (next_addr d) (chunk_list (mem_virt d))" using assms(1) by (simp add: virt_wf_def)
  moreover have "sorted (map c_start (chunk_list (mem_virt (dfi_mem_unmap d start sz))))"
    by (simp add: dfi_mem_unmap_def Let_def sort_chunks_props)
  ultimately show ?thesis using unmap_virt_wf [OF assms] unmap_addr [OF _ assms(2,3)] by blast
qed

theorem dfi_mem_unmap_exact_witness:
  "phys_addr (chunk_list (mem_virt (dfi_mem_unmap sample_dfi 0x1000 0x2000))) 0x2FFF = None \<and>
   phys_addr (chunk_list (mem_virt (dfi_mem_unmap sample_dfi 0x1000 0x2000))) 0x3000 = Some 0x3000"
  using dfi_mem_unmap_exact [OF sample_wf(1), of "0x2000" "0x1000"] by (simp add: sample_addr)



text \<open>Adding a chunk of the dump that meets no chunk of the two memories keeps them consistent and the
  caches valid, and the memory then has the bytes of the chunk at its addresses and the old bytes
  everywhere else.\<close>

theorem dfi_mem_chunk_add_ok:
  assumes "virt_wf dump d" and "sz \<noteq> 0" and "unat start + unat sz < 2 ^ 64"
    and "\<forall>c \<in> set (chunk_list (mem_phys d)) \<union> set (chunk_list (mem_virt d)). c_end c < start \<or> start + sz - 1 < c_start c"
    and "\<forall>p. rd \<noteq> ReadMap p"
  shows "virt_wf dump (dfi_mem_chunk_add_vol d start sz rd volnr) \<and> virt_inv (dfi_mem_chunk_add_vol d start sz rd volnr) \<and>
    (\<forall>a. virt_byte dump (dfi_mem_chunk_add_vol d start sz rd volnr) a =
      (if start \<le> a \<and> a \<le> start + sz - 1 then read_byte dump rd (a - start) else virt_byte dump d a))"
  using chunk_add_wf(1,2) [OF assms] chunk_add_bytes [OF assms] virt_wf_inv by blast

theorem dfi_mem_chunk_add_ok_witness:
  "virt_byte sample_dump (dfi_mem_chunk_add_vol sample_dfi 0x400000 0x20000 (ReadDump 3) 1) 0x41041D = 0x20"
  using dfi_mem_chunk_add_ok [OF sample_wf(1), of "0x20000" "0x400000" "ReadDump 3" 1]
  by (simp add: sample_lists read_byte_def sample_dump_def)

text \<open>C13. Reading a range of the virtual memory always returns: with an error when an address of the range is
  in no chunk, and else with the bytes of the range, each taken from the physical address that the
  virtual address stands for. The memory map does not change.\<close>

theorem dfi_mem_virt_read_total:
  assumes "virt_wf dump d" and "cache_ok (mem_virt d)" and "length buf = unat cnt"
  shows "\<exists>rc out d'. dfi_mem_virt_read dump d addr buf 0 cnt = Some (Inr (rc, out, d')) \<and> same_virt d d' \<and>
    rc = (if valid_range (chunk_list (mem_virt d)) addr cnt then 0 else - 22) \<and>
    out = (if rc = 0 then map (\<lambda>i. phys_byte dump d (the (phys_addr (chunk_list (mem_virt d)) (addr + of_nat i)))) [0..<unat cnt]
      else buf)"
proof -
  from virt_read_correct [OF virt_wf_inv [OF assms(1,2)], of 0 cnt buf dump addr] assms(3)
  obtain d' where d': "same_virt d d'" "dfi_mem_virt_read dump d addr buf 0 cnt = Some (Inr (
      if valid_range (chunk_list (mem_virt d)) addr cnt
      then (0, write_buf buf 0 (map (\<lambda>i. virt_byte dump d (addr + of_nat i)) [0..<unat cnt]), d') else (- 22, buf, d')))"
    by auto
  have "virt_byte dump d (addr + of_nat i) = phys_byte dump d (the (phys_addr (chunk_list (mem_virt d)) (addr + of_nat i)))"
    if r: "valid_range (chunk_list (mem_virt d)) addr cnt" and i: "i < unat cnt" for i
  proof -
    have u: "unat (addr + of_nat i) = unat addr + i"
      using r i by (intro trans [OF unat_add_exact]) (auto simp: valid_range_def unat_of_nat)
    have "covered (chunk_list (mem_virt d)) (addr + of_nat i)"
      using r i u by (auto simp: valid_range_def word_le_nat_alt)
    then obtain t where "phys_addr (chunk_list (mem_virt d)) (addr + of_nat i) = Some t"
      using phys_addr_None by blast
    from virt_byte_phys [OF assms(1) this] this show ?thesis by simp
  qed
  then have "map (\<lambda>i. virt_byte dump d (addr + of_nat i)) [0..<unat cnt] =
      map (\<lambda>i. phys_byte dump d (the (phys_addr (chunk_list (mem_virt d)) (addr + of_nat i)))) [0..<unat cnt]"
    if "valid_range (chunk_list (mem_virt d)) addr cnt" using that by simp
  moreover have "write_buf buf 0 xs = xs" if "length xs = length buf" for xs
    using that by (simp add: write_buf_def)
  ultimately show ?thesis using d' assms(3) by (cases "valid_range (chunk_list (mem_virt d)) addr cnt") auto
qed

theorem dfi_mem_virt_read_total_witness:
  "\<exists>out d'. dfi_mem_virt_read sample_dump sample_dfi 0x1041C (replicate 2 7) 0 2 = Some (Inr (0, out, d')) \<and> out = [0, 0x20]"
  using dfi_mem_virt_read_total [OF sample_wf, of "replicate 2 7" 2 "0x1041C"]
  by (auto simp: sample_range sample_byte sample_addr sample_dump_def upt_rec [of _ 2])

text \<open>The cache of the chunk found last does not change what is found: the lookup gives the chunk of the
  address that a search without the cache gives, and leaves a valid cache.\<close>

theorem mem_chunk_find_cache:
  assumes "wf_chunks n (chunk_list mem)" and "cache_ok mem"
  shows "map_sum id fst (mem_chunk_find mem a) = map_sum id fst (mem_chunk_search mem a) \<and>
    map_sum id fst (mem_chunk_find mem a) = Inr (chunk_at (chunk_list mem) a) \<and>
    (\<forall>c mem'. mem_chunk_find mem a = Inr (c, mem') \<longrightarrow> chunk_list mem' = chunk_list mem \<and> cache_ok mem')"
  using mem_chunk_find_correct [OF assms, of a]
  by (auto simp: mem_chunk_search_def chunk_at_def split: option.split)

theorem mem_chunk_find_cache_witness:
  "map_sum id fst (mem_chunk_find (mem_virt sample_dfi) 0x1000) = Inr (chunk_at (chunk_list (mem_virt sample_dfi)) 0x1000)"
proof -
  have "wf_chunks (next_addr sample_dfi) (chunk_list (mem_virt sample_dfi))" using sample_wf(1) by (simp add: virt_wf_def)
  from mem_chunk_find_cache [OF this sample_wf(2)] show ?thesis by blast
qed


end
