(* ===== verification/C_Strings.thy ===== *)
theory C_Strings
  imports S390_Prelude
begin

text \<open>
  Buffers of characters and the functions of the C library that the text-processing components use.

  A buffer is a list of characters; a pointer into it is a position. An access outside of the buffer
  is the fault \<open>BufferOverrun\<close>, the use of a null pointer \<open>NullPointer\<close>. A C string is the part of
  a buffer up to the first NUL character. \<^verbatim>\<open>char\<close> is unsigned on s390, so the value of a character
  is \<open>of_char\<close>.
\<close>

section \<open>Definitions\<close>

datatype c_fault = BufferOverrun | NullPointer | Stopped

text \<open>Running a step after one that may fail.\<close>

definition rbind :: "'e + 'a \<Rightarrow> ('a \<Rightarrow> 'e + 'b) \<Rightarrow> 'e + 'b" where
  "rbind r f = (case r of Inl e \<Rightarrow> Inl e | Inr x \<Rightarrow> f x)"

abbreviation NUL :: char where
  "NUL \<equiv> CHR 0x00"

abbreviation NL :: char where
  "NL \<equiv> CHR 0x0A"

text \<open>Characters of a string, with the terminating NUL after its end.\<close>

definition char_at :: "string \<Rightarrow> nat \<Rightarrow> char" where
  "char_at s i = (if i < length s then s ! i else NUL)"

definition cstr :: "string \<Rightarrow> string" where
  "cstr s = takeWhile (\<lambda>c. c \<noteq> NUL) s"

definition c_strlen :: "string \<Rightarrow> nat" where
  "c_strlen s = length (cstr s)"

definition c_strchr :: "string \<Rightarrow> char \<Rightarrow> nat option" where
  "c_strchr s c =
     (let n = length (takeWhile (\<lambda>x. x \<noteq> c) (cstr s)) in if n < length (cstr s) then Some n else None)"

fun c_strncmp :: "string \<Rightarrow> string \<Rightarrow> nat \<Rightarrow> int" where
  "c_strncmp a b 0 = 0"
| "c_strncmp a b (Suc n) =
     (let x = char_at a 0; y = char_at b 0
      in if x \<noteq> y then of_char x - of_char y else if x = NUL then 0 else c_strncmp (tl a) (tl b) n)"

definition c_isspace :: "char \<Rightarrow> bool" where
  "c_isspace c \<longleftrightarrow> c \<in> {CHR '' '', CHR 0x09, CHR 0x0A, CHR 0x0B, CHR 0x0C, CHR 0x0D}"

definition c_isdigit :: "char \<Rightarrow> bool" where
  "c_isdigit c \<longleftrightarrow> 48 \<le> (of_char c :: nat) \<and> (of_char c :: nat) \<le> 57"

definition c_isalpha :: "char \<Rightarrow> bool" where
  "c_isalpha c \<longleftrightarrow> (65 \<le> (of_char c :: nat) \<and> (of_char c :: nat) \<le> 90) \<or> (97 \<le> (of_char c :: nat) \<and> (of_char c :: nat) \<le> 122)"

definition dec_value :: "string \<Rightarrow> int" where
  "dec_value ds = foldl (\<lambda>v c. 10 * v + (of_char c - 48)) 0 ds"

text \<open>
  \<^verbatim>\<open>strtol (s, &endptr, 10)\<close>: the value, limited to the range of \<^verbatim>\<open>long\<close>, and the number of characters
  up to \<^verbatim>\<open>endptr\<close>.
\<close>

definition c_strtol :: "string \<Rightarrow> int \<times> nat" where
  "c_strtol s =
     (let w = length (takeWhile c_isspace s);
          t = drop w s;
          neg = (char_at t 0 = CHR ''-'');
          k = (if neg \<or> char_at t 0 = CHR ''+'' then 1 else 0);
          ds = takeWhile c_isdigit (drop k t);
          v = (if neg then - dec_value ds else dec_value ds)
      in if ds = [] then (0, 0) else (max (- (2 ^ 63)) (min (2 ^ 63 - 1) v), w + k + length ds))"

text \<open>The conversion of a \<^verbatim>\<open>long\<close> to an \<^verbatim>\<open>int\<close>.\<close>

definition to_int32 :: "int \<Rightarrow> int" where
  "to_int32 v = (v + 2 ^ 31) mod 2 ^ 32 - 2 ^ 31"

text \<open>Accesses to a buffer.\<close>

definition buf_get :: "string \<Rightarrow> nat \<Rightarrow> c_fault + char" where
  "buf_get b i = (if i < length b then Inr (b ! i) else Inl BufferOverrun)"

definition buf_write :: "string \<Rightarrow> nat \<Rightarrow> string \<Rightarrow> c_fault + string" where
  "buf_write b i xs =
     (if i + length xs \<le> length b then Inr (take i b @ xs @ drop (i + length xs) b) else Inl BufferOverrun)"

text \<open>\<^verbatim>\<open>memset\<close> and \<^verbatim>\<open>memmove\<close>; the region of the latter is given by its end, \<^verbatim>\<open>memmove (d, s, stop - s)\<close>.\<close>

definition buf_memset :: "string \<Rightarrow> nat \<Rightarrow> char \<Rightarrow> nat \<Rightarrow> c_fault + string" where
  "buf_memset b i c n = buf_write b i (replicate n c)"

definition buf_memmove :: "string \<Rightarrow> nat \<Rightarrow> nat \<Rightarrow> nat \<Rightarrow> c_fault + string" where
  "buf_memmove b d s n =
     (if s + n \<le> length b then buf_write b d (take n (drop s b)) else Inl BufferOverrun)"

lemma rbind_cong [fundef_cong]:
  "r = r' \<Longrightarrow> (\<And>x. r' = Inr x \<Longrightarrow> f x = g x) \<Longrightarrow> rbind r f = rbind r' g"
  by (cases r') (simp_all add: rbind_def)

text \<open>The first position from \<open>s\<close> on that holds \<open>c\<close>, or \<open>e\<close>.\<close>

function skip_to :: "string \<Rightarrow> char \<Rightarrow> nat \<Rightarrow> nat \<Rightarrow> nat" where
  "skip_to b c s e = (if s < e \<and> b ! s \<noteq> c then skip_to b c (s + 1) e else s)"
  by pat_completeness auto
termination by (relation "measure (\<lambda>(b, c, s, e). e - s)") auto

declare skip_to.simps [simp del]

section \<open>Lemmas\<close>

lemma rbind_simps [simp]: "rbind (Inl e) f = Inl e" "rbind (Inr x) f = f x"
  by (simp_all add: rbind_def)

lemma rbind_Inr: "rbind r f = Inr y \<longleftrightarrow> (\<exists>x. r = Inr x \<and> f x = Inr y)"
  by (cases r) auto

lemma cstr_id [simp]: "NUL \<notin> set s \<Longrightarrow> cstr s = s"
  unfolding cstr_def by (rule takeWhile_eq_all_conv [THEN iffD2]) auto

lemma cstr_append_NUL [simp]: "NUL \<notin> set s \<Longrightarrow> cstr (s @ NUL # t) = s"
  by (simp add: cstr_def takeWhile_append)

lemma cstr_no_NUL [simp]: "NUL \<notin> set (cstr s)"
  unfolding cstr_def using set_takeWhileD by fastforce

lemma length_cstr_le: "length (cstr s) \<le> length s"
  by (simp add: cstr_def length_takeWhile_le)

lemma char_at_append [simp]: "i < length s \<Longrightarrow> char_at (s @ t) i = char_at s i"
  by (simp add: char_at_def nth_append)

lemma strncmp_refl: "c_strncmp a a n = 0"
  by (induction n arbitrary: a) (auto simp: Let_def)

lemma of_char_NUL [simp]: "(of_char c :: int) = 0 \<longleftrightarrow> c = NUL"
  using of_char_eq_iff [of c NUL, where 'a = int] by simp

text \<open>Comparing the first \<open>length b\<close> characters with \<open>b\<close> is a test for a prefix.\<close>

lemma strncmp_prefix:
  assumes "NUL \<notin> set b"
  shows "c_strncmp a b (length b) = 0 \<longleftrightarrow> take (length b) a = b"
  using assms
proof (induction b arbitrary: a)
  case (Cons y b)
  show ?case
    using Cons by (cases a) (auto simp: Let_def char_at_def of_char_eq_iff)
qed simp

lemma skip_to_append:
  assumes "s = length p" and "c \<notin> set q" and "e = length p + length q + n"
  shows "skip_to (p @ q @ r) c s e = (if n = 0 then e else skip_to (p @ q @ r) c (s + length q) e)"
  using assms
proof (induction q arbitrary: p s)
  case Nil
  then show ?case by (simp add: skip_to.simps)
next
  case (Cons x q)
  have "skip_to (p @ (x # q) @ r) c s e = skip_to (p @ (x # q) @ r) c (s + 1) e"
    using Cons.prems by (subst skip_to.simps) (auto simp: nth_append)
  also have "\<dots> = skip_to ((p @ [x]) @ q @ r) c (s + 1) e" by simp
  also have "\<dots> = (if n = 0 then e else skip_to ((p @ [x]) @ q @ r) c (s + 1 + length q) e)"
    using Cons.prems by (intro Cons.IH) auto
  finally show ?case by simp
qed

lemma skip_to_found:
  assumes "c \<notin> set q" and "length p + length q < e"
  shows "skip_to (p @ q @ c # r) c (length p) e = length p + length q"
proof -
  obtain n where n: "e = length p + length q + n" "0 < n" using assms(2) by (metis less_imp_add_positive)
  have "skip_to (p @ q @ c # r) c (length p + length q) e = length p + length q"
    by (subst skip_to.simps) (simp add: nth_append)
  then show ?thesis using skip_to_append [OF refl assms(1) n(1), of "c # r"] n(2) by simp
qed

lemma skip_to_end:
  assumes "c \<notin> set q" and "e = length p + length q"
  shows "skip_to (p @ q @ r) c (length p) e = e"
  using skip_to_append [OF refl assms(1), of e p 0 r] assms(2) by simp

lemma skip_to_ge: "s \<le> skip_to b c s e"
proof (induction b c s e rule: skip_to.induct)
  case (1 b c s e)
  show ?case using 1 by (subst skip_to.simps) auto
qed

lemma buf_write_append:
  assumes "i = length p" and "length q = length xs"
  shows "buf_write (p @ q @ r) i xs = Inr (p @ xs @ r)"
  using assms by (simp add: buf_write_def)

lemma buf_write_length: "buf_write b i xs = Inr b' \<Longrightarrow> length b' = length b"
  by (auto simp: buf_write_def split: if_splits)

lemma buf_memmove_length: "buf_memmove b d s n = Inr b' \<Longrightarrow> length b' = length b"
  by (auto simp: buf_memmove_def dest: buf_write_length split: if_splits)

end
