(* ===== verification/Envblk.thy ===== *)
theory Envblk
  imports C_Strings
begin

text \<open>
  The environment block of zipl (\<^verbatim>\<open>zipl/src/envblk.c\<close>): a block of text with a signature, lines
  \<open>NAME=VALUE\<close> and zero padding, the hash tables that sort lines by name, the import of an environment
  file, and the operations that list, set and remove variables.

  \<^item> The block is a buffer of characters. Every write outside of it is the fault \<open>BufferOverrun\<close>.
  \<^item> A hash table is a list of buckets, a bucket the list of its lines, newest first, as the chain of
    \<^verbatim>\<open>struct line_hash_entry\<close> has them. Memory allocation succeeds.
  \<^item> Functions that print return the list of the strings they print.

  \<^verbatim>\<open>Envblk_Ops\<close> and \<^verbatim>\<open>Envblk_Import\<close> have the properties.
\<close>

section \<open>Definitions\<close>

definition ZIPL_ENVBLK_SIGNATURE :: string where
  "ZIPL_ENVBLK_SIGNATURE = ''# zIPL Environment Block'' @ [NL]"

definition ENVBLK_MAX_LINES :: nat where
  "ENVBLK_MAX_LINES = 4096 div 8"

abbreviation LINE_HASH_SIZE :: nat where
  "LINE_HASH_SIZE \<equiv> 16"

abbreviation MAX_NR_SITES :: nat where
  "MAX_NR_SITES \<equiv> 10"

text \<open>The length of the signature without the terminating NUL.\<close>

abbreviation sig_len :: nat where
  "sig_len \<equiv> length ZIPL_ENVBLK_SIGNATURE"

definition envblk_blank :: "string \<Rightarrow> nat \<Rightarrow> c_fault + string" where
  "envblk_blank envblk envblk_len = buf_memset envblk sig_len NUL (envblk_len - sig_len)"

definition envblk_create_blank :: "string \<Rightarrow> nat \<Rightarrow> c_fault + string" where
  "envblk_create_blank envblk envblk_len =
     rbind (buf_write envblk 0 ZIPL_ENVBLK_SIGNATURE) (\<lambda>envblk. envblk_blank envblk envblk_len)"

subsection \<open>Hash tables of lines\<close>

record estr =
  prefix_of :: "char option"
  str_of :: string
  hashed_len :: nat

type_synonym line_table = "string list list"

text \<open>The sum is an \<^verbatim>\<open>unsigned int\<close>.\<close>

definition hash_fn :: "estr \<Rightarrow> nat" where
  "hash_fn estr =
     ((case prefix_of estr of None \<Rightarrow> 0 | Some p \<Rightarrow> 5 * of_char p) +
      sum_list (map (\<lambda>i. 5 * of_char (char_at (str_of estr) i)) [0..<hashed_len estr])) mod 2 ^ 32 mod LINE_HASH_SIZE"

definition cmp_fn :: "string \<Rightarrow> estr \<Rightarrow> int" where
  "cmp_fn str estr =
     (case prefix_of estr of
        None \<Rightarrow> c_strncmp str (str_of estr) (hashed_len estr)
      | Some p \<Rightarrow> if char_at str 0 \<noteq> p then - 1 else c_strncmp (tl str) (str_of estr) (hashed_len estr))"

definition estr_line :: "estr \<Rightarrow> string" where
  "estr_line estr = (case prefix_of estr of None \<Rightarrow> cstr (str_of estr) | Some p \<Rightarrow> p # cstr (str_of estr))"

definition empty_table :: line_table where
  "empty_table = replicate LINE_HASH_SIZE []"

definition hash_table_add :: "line_table \<Rightarrow> estr \<Rightarrow> line_table" where
  "hash_table_add table estr = (let hash = hash_fn estr in table[hash := estr_line estr # table ! hash])"

fun find_pos :: "('a \<Rightarrow> bool) \<Rightarrow> 'a list \<Rightarrow> nat option" where
  "find_pos P [] = None"
| "find_pos P (x # xs) = (if P x then Some 0 else map_option Suc (find_pos P xs))"

text \<open>An item of the table is found as its bucket and its position there.\<close>

definition hash_table_find :: "line_table option \<Rightarrow> estr \<Rightarrow> (nat \<times> nat) option" where
  "hash_table_find table estr =
     (case table of None \<Rightarrow> None
      | Some t \<Rightarrow> map_option (\<lambda>i. (hash_fn estr, i)) (find_pos (\<lambda>line. cmp_fn line estr = 0) (t ! hash_fn estr)))"

definition hash_entry_replace :: "line_table \<Rightarrow> nat \<times> nat \<Rightarrow> estr \<Rightarrow> int \<Rightarrow> line_table \<times> int" where
  "hash_entry_replace table item estr offset =
     (let (h, i) = item;
          old = table ! h ! i
      in (table[h := (table ! h)[i := estr_line estr]],
          offset - int (c_strlen old) + int (length (estr_line estr))))"

fun scan_items :: "('d \<Rightarrow> string \<Rightarrow> c_fault + int \<times> 'd) \<Rightarrow> string list \<Rightarrow> 'd \<Rightarrow> c_fault + int \<times> 'd" where
  "scan_items actor [] data = Inr (0, data)"
| "scan_items actor (item # items) data =
     rbind (actor data item) (\<lambda>(ret, data). if ret \<noteq> 0 then Inr (ret, data) else scan_items actor items data)"

definition hash_table_scan ::
    "line_table option \<Rightarrow> ('d \<Rightarrow> string \<Rightarrow> c_fault + int \<times> 'd) \<Rightarrow> 'd \<Rightarrow> c_fault + int \<times> 'd" where
  "hash_table_scan table actor data = (case table of None \<Rightarrow> Inr (0, data) | Some t \<Rightarrow> scan_items actor (concat t) data)"

fun flush_items :: "string list \<Rightarrow> string \<Rightarrow> nat \<Rightarrow> c_fault + string" where
  "flush_items [] dst off = Inr dst"
| "flush_items (line # items) dst off =
     rbind (buf_write dst off (cstr line)) (\<lambda>dst.
       (let off = off + c_strlen line
        in rbind (buf_get dst (off - 1)) (\<lambda>c.
          if c \<noteq> NL then rbind (buf_write dst off [NL]) (\<lambda>dst. flush_items items dst (off + 1))
          else flush_items items dst off)))"

definition hash_table_flush :: "line_table \<Rightarrow> string \<Rightarrow> nat \<Rightarrow> c_fault + string" where
  "hash_table_flush table dst off = flush_items (concat table) dst off"

subsection \<open>Lines of an environment file\<close>

datatype keyword_status = KW_UNKNOWN | KW_VALID | KW_MALFORMED | KW_UNSUPP_ID

text \<open>The loop of \<^verbatim>\<open>ignore_tail\<close> at a position that is not a new line character.\<close>

fun ignore_tail_loop :: "string \<Rightarrow> bool" where
  "ignore_tail_loop [] = False"
| "ignore_tail_loop (c # tail) =
     (if c = CHR ''#'' then True
      else if c = CHR 0x09 \<or> c = CHR '' '' then (if char_at tail 0 \<noteq> NL then ignore_tail_loop tail else False)
      else False)"

definition ignore_tail :: "string \<Rightarrow> bool" where
  "ignore_tail tail = (if char_at tail 0 = NL then True else ignore_tail_loop tail)"

text \<open>
  The status and the character that \<^verbatim>\<open>site_id\<close> points to. \<open>9\<close> is \<^verbatim>\<open>KEYWORD_SIZE\<close>; \<^verbatim>\<open>endptr\<close> is the
  position \<open>6 + n\<close>.
\<close>

definition check_keyword :: "string \<Rightarrow> keyword_status \<times> char" where
  "check_keyword line =
     (let len = length line
      in if len < 9 - 1 \<or> line ! (len - 1) \<noteq> NL then (KW_UNKNOWN, NUL)
         else if line ! 0 = CHR ''['' \<and> line ! 1 \<in> {CHR ''s'', CHR ''S''} \<and> line ! 2 \<in> {CHR ''i'', CHR ''I''} \<and>
                 line ! 3 \<in> {CHR ''t'', CHR ''T''} \<and> line ! 4 \<in> {CHR ''e'', CHR ''E''}
         then
           if line ! 5 \<noteq> CHR '' '' then (KW_MALFORMED, NUL)
           else
             (let (val, n) = c_strtol (drop 6 line);
                  sid = line ! 6
              in if n = 0 then (KW_MALFORMED, sid)
                 else if val < 0 then (KW_UNSUPP_ID, sid)
                 else if char_at line (6 + n) = CHR '']'' then
                   (if sid = CHR ''0'' \<and> n > 1 then (KW_UNSUPP_ID, sid)
                    else if \<not> ignore_tail (drop (6 + n + 1) line) then (KW_MALFORMED, sid)
                    else if val < int MAX_NR_SITES then (KW_VALID, sid) else (KW_UNSUPP_ID, sid))
                 else (KW_MALFORMED, sid))
         else (KW_UNKNOWN, NUL))"

definition envblk_check_name :: "string \<Rightarrow> nat \<Rightarrow> int" where
  "envblk_check_name name len =
     (if len = 0 then 1
      else if \<not> c_isalpha (char_at name 0) \<and> char_at name 0 \<noteq> CHR ''_'' then 1
      else if \<exists>i \<in> {1..<len}. \<not> c_isalpha (char_at name i) \<and> \<not> c_isdigit (char_at name i) \<and> char_at name i \<noteq> CHR ''_''
      then 1 else 0)"

definition get_key_len :: "string \<Rightarrow> c_fault + nat" where
  "get_key_len str = (case c_strchr str (CHR ''='') of None \<Rightarrow> Inl NullPointer | Some n \<Rightarrow> Inr n)"

definition get_hashed_len :: "string \<Rightarrow> c_fault + nat" where
  "get_hashed_len str = rbind (get_key_len str) (\<lambda>n. Inr (n + 1))"

definition import_one_line :: "string \<Rightarrow> line_table \<Rightarrow> int \<Rightarrow> char option \<Rightarrow> int \<times> line_table \<times> int" where
  "import_one_line this table offset ns_id =
     (if char_at this 0 = CHR ''#'' then (1, table, offset)
      else
        case c_strchr this (CHR ''='') of
          None \<Rightarrow> (1, table, offset)
        | Some p \<Rightarrow>
            if p = 0 then (1, table, offset)
            else if envblk_check_name this p \<noteq> 0 then (- 22, table, offset)
            else
              (let estr = \<lparr>prefix_of = ns_id, str_of = this, hashed_len = p + 1\<rparr>
               in case hash_table_find (Some table) estr of
                    None \<Rightarrow> (0, hash_table_add table estr, offset)
                  | Some item \<Rightarrow> (let (table, offset) = hash_entry_replace table item estr offset in (1, table, offset))))"

text \<open>The lines that \<^verbatim>\<open>getline\<close> reads from a file.\<close>

fun getlines :: "string \<Rightarrow> string list" where
  "getlines [] = []"
| "getlines (c # cs) =
     (if c = NL then [NL] # getlines cs
      else case getlines cs of [] \<Rightarrow> [[c]] | l # ls \<Rightarrow> (c # l) # ls)"

text \<open>
  The loop of \<^verbatim>\<open>envblk_import\<close> returns \<^verbatim>\<open>ret\<close>, the table, and whether the table is flushed into the
  block (it is not after \<^verbatim>\<open>goto error\<close>).
\<close>

fun import_loop :: "string list \<Rightarrow> int \<Rightarrow> line_table \<Rightarrow> int \<Rightarrow> nat \<Rightarrow> char \<Rightarrow> int \<times> bool \<times> line_table" where
  "import_loop [] envblk_size table offset lines_imported site_id = (0, True, table)"
| "import_loop (line # rest) envblk_size table offset lines_imported site_id =
     (let rd = int (length line)
      in if rd > envblk_size - offset then (- 22, True, table)
         else if rd < 2 then import_loop rest envblk_size table offset lines_imported site_id
         else
           case check_keyword line of
             (KW_VALID, sid) \<Rightarrow> import_loop rest envblk_size table offset lines_imported sid
           | (KW_MALFORMED, sid) \<Rightarrow> (- 22, False, table)
           | (KW_UNSUPP_ID, sid) \<Rightarrow> (- 22, False, table)
           | (KW_UNKNOWN, sid) \<Rightarrow>
               if line ! (length line - 1) \<noteq> NL \<and> rd = envblk_size - offset then (- 22, True, table)
               else
                 (let (ret, table, offset) =
                        import_one_line line table offset (if site_id \<noteq> NUL then Some site_id else None)
                  in if ret < 0 then (ret, True, table)
                     else if ret > 0 then import_loop rest envblk_size table offset lines_imported site_id
                     else if lines_imported \<ge> ENVBLK_MAX_LINES then (- 22, True, table)
                     else import_loop rest envblk_size table (offset + rd) (lines_imported + 1) site_id))"

text \<open>The argument \<open>from_file\<close> is the content of the file, or \<open>None\<close> when it cannot be opened.\<close>

definition envblk_import :: "string option \<Rightarrow> string \<Rightarrow> nat \<Rightarrow> c_fault + int \<times> string" where
  "envblk_import from_file to_buf envblk_size =
     (case from_file of
        None \<Rightarrow> Inr (0, to_buf)
      | Some content \<Rightarrow>
          (let (ret, flush, table) = import_loop (getlines content) (int envblk_size) empty_table (int sig_len) 0 NUL
           in if flush then rbind (hash_table_flush table to_buf sig_len) (\<lambda>to_buf. Inr (ret, to_buf))
              else Inr (ret, to_buf)))"

subsection \<open>Scanning and listing\<close>

definition envblk_next_line :: "string \<Rightarrow> nat \<Rightarrow> nat \<Rightarrow> nat" where
  "envblk_next_line b s e = skip_to b NL s e + 1"

text \<open>The loop of \<^verbatim>\<open>envblk_scan\<close> at position \<open>s\<close> of the block \<open>b\<close> that ends at \<open>e\<close>.\<close>

function scan_loop ::
    "string \<Rightarrow> nat \<Rightarrow> ('d \<Rightarrow> string \<Rightarrow> c_fault + int \<times> 'd) \<Rightarrow> 'd \<Rightarrow> nat \<Rightarrow> nat \<Rightarrow> c_fault + int \<times> 'd" where
  "scan_loop b e actor data s lines_scanned =
     (if s < e \<and> b ! s \<noteq> NUL then
        if lines_scanned > ENVBLK_MAX_LINES then Inr (- 1, data)
        else
          (let eq = skip_to b (CHR ''='') s e
           in if eq = e then Inr (- 1, data)
              else
                (let nl = skip_to b NL (eq + 1) e
                 in if nl = e then Inr (- 1, data)
                    else rbind (actor data (cstr (take (nl - s) (drop s b)))) (\<lambda>(ret, data).
                      if ret \<noteq> 0 then Inr (ret, data)
                      else scan_loop b e actor data (envblk_next_line b nl e) (lines_scanned + 1))))
      else Inr (0, data))"
  by pat_completeness auto
termination
proof (relation "measure (\<lambda>(b, e, actor, data, s, n). e - s)", goal_cases)
  case (2 b e actor data s n eq nl x ret)
  have "s \<le> eq" "eq + 1 \<le> nl" "nl \<le> skip_to b NL nl e"
    using skip_to_ge 2 by auto
  moreover have "s < e" using 2 by simp
  ultimately have "e - (skip_to b NL nl e + 1) < e - s" by linarith
  then show ?case by (simp add: envblk_next_line_def)
qed simp

declare scan_loop.simps [simp del]

definition envblk_scan ::
    "string \<Rightarrow> nat \<Rightarrow> ('d \<Rightarrow> string \<Rightarrow> c_fault + int \<times> 'd) \<Rightarrow> 'd \<Rightarrow> c_fault + int \<times> 'd" where
  "envblk_scan envblk envblk_size actor data =
     (if envblk_size \<le> length envblk then scan_loop envblk envblk_size actor data sig_len 0 else Inl BufferOverrun)"

definition indent_by_size :: "int \<Rightarrow> string" where
  "indent_by_size sz = (if sz = 1 then ''  '' else if sz = 2 then ''    '' else '''')"

type_synonym namespaces = "line_table option list"

definition no_tables :: namespaces where
  "no_tables = replicate (MAX_NR_SITES + 1) None"

definition add_line_namespace :: "namespaces \<Rightarrow> string \<Rightarrow> c_fault + int \<times> namespaces" where
  "add_line_namespace tables this =
     (let (v, n) = c_strtol this;
          val = (if n = 0 then int MAX_NR_SITES else to_int32 v)
      in if n \<noteq> 0 \<and> (val < 0 \<or> val \<ge> int MAX_NR_SITES) then Inr (- 22, tables)
         else
           (let i = nat val;
                table = (case tables ! i of None \<Rightarrow> empty_table | Some t \<Rightarrow> t);
                line = drop n this
            in rbind (get_hashed_len line) (\<lambda>len.
                 Inr (0, tables[i := Some (hash_table_add table \<lparr>prefix_of = None, str_of = line, hashed_len = len\<rparr>)]))))"

definition hash_table_print_line :: "int \<Rightarrow> string list \<Rightarrow> string \<Rightarrow> c_fault + int \<times> string list" where
  "hash_table_print_line indent out line = Inr (0, out @ [indent_by_size indent @ line @ [NL]])"

definition hash_table_print_line_cond ::
    "line_table option \<Rightarrow> int \<Rightarrow> string list \<Rightarrow> string \<Rightarrow> c_fault + int \<times> string list" where
  "hash_table_print_line_cond table indent out line =
     rbind (get_hashed_len line) (\<lambda>len.
       if hash_table_find table \<lparr>prefix_of = None, str_of = line, hashed_len = len\<rparr> = None
       then hash_table_print_line indent out line else Inr (0, out))"

definition print_namespace :: "line_table option \<Rightarrow> string \<Rightarrow> int \<Rightarrow> string list \<Rightarrow> c_fault + string list" where
  "print_namespace table title indent out =
     (case table of
        None \<Rightarrow> Inr out
      | Some t \<Rightarrow> rbind (hash_table_scan table (hash_table_print_line (indent + 1)) (out @ [indent_by_size indent @ title]))
          (\<lambda>(ret, out). Inr out))"

fun print_sites :: "namespaces \<Rightarrow> nat list \<Rightarrow> int \<Rightarrow> string list \<Rightarrow> c_fault + string list" where
  "print_sites tables [] indent out = Inr out"
| "print_sites tables (i # is) indent out =
     rbind (print_namespace (tables ! i) (''Site '' @ [char_of (48 + i)] @ '':'' @ [NL]) indent out)
       (print_sites tables is indent)"

definition envblk_list_all :: "string \<Rightarrow> nat \<Rightarrow> int \<Rightarrow> c_fault + int \<times> string list" where
  "envblk_list_all envblk envblk_size indent =
     rbind (envblk_scan envblk envblk_size add_line_namespace no_tables) (\<lambda>(ret, tables).
       if ret \<noteq> 0 then Inr (ret, [])
       else
         (let nr_sites = length (filter (\<lambda>t. t \<noteq> None) (take MAX_NR_SITES tables))
          in rbind (print_namespace (tables ! MAX_NR_SITES)
                      (if nr_sites \<noteq> 0 then ''Common variables:'' @ [NL] else '''')
                      (if nr_sites \<noteq> 0 then indent else indent - 1) [])
               (\<lambda>out. rbind (print_sites tables [0..<MAX_NR_SITES] indent out) (\<lambda>out. Inr (ret, out)))))"

definition envblk_list_effective_site :: "string \<Rightarrow> nat \<Rightarrow> nat \<Rightarrow> c_fault + int \<times> string list" where
  "envblk_list_effective_site envblk envblk_size site_id =
     rbind (envblk_scan envblk envblk_size add_line_namespace no_tables) (\<lambda>(ret, tables).
       if ret \<noteq> 0 then Inr (ret, [])
       else if site_id \<ge> length tables then Inl BufferOverrun
       else
         rbind (hash_table_scan (tables ! MAX_NR_SITES) (hash_table_print_line_cond (tables ! site_id) 0) []) (\<lambda>(r, out).
           rbind (hash_table_scan (tables ! site_id) (hash_table_print_line 0) out) (\<lambda>(r, out). Inr (ret, out))))"

definition envblk_list_site :: "string \<Rightarrow> nat \<Rightarrow> nat \<Rightarrow> c_fault + int \<times> string list" where
  "envblk_list_site envblk envblk_size site_id =
     rbind (envblk_scan envblk envblk_size add_line_namespace no_tables) (\<lambda>(ret, tables).
       if ret \<noteq> 0 then Inr (ret, [])
       else if site_id \<ge> length tables then Inl BufferOverrun
       else rbind (hash_table_scan (tables ! site_id) (hash_table_print_line 0) []) (\<lambda>(r, out). Inr (ret, out)))"

definition envblk_print :: "string \<Rightarrow> nat \<Rightarrow> c_fault + string list" where
  "envblk_print envblk envblk_size =
     rbind (envblk_list_all envblk envblk_size 1)
       (\<lambda>(ret, out). Inr ((''zIPL environment block content:'' @ [NL]) # out))"

subsection \<open>Setting and removing variables\<close>

text \<open>The start of the free space: the position after the last character that is not NUL.\<close>

fun last_text :: "string \<Rightarrow> nat \<Rightarrow> c_fault + nat" where
  "last_text b 0 = Inl BufferOverrun"
| "last_text b (Suc i) = (if b ! i = NUL then last_text b i else Inr i)"

definition at_name :: "string \<Rightarrow> nat \<Rightarrow> string \<Rightarrow> bool" where
  "at_name b s name \<longleftrightarrow> take (length name) (drop s b) = name \<and> char_at b (s + length name) = CHR ''=''"

text \<open>The search for a name: the result is the position of its line, if any, and the number of lines before it.\<close>

function find_name :: "string \<Rightarrow> nat \<Rightarrow> nat \<Rightarrow> string \<Rightarrow> nat \<Rightarrow> nat \<Rightarrow> (nat option \<times> nat) option" where
  "find_name b e fss name s lines_scanned =
     (if fss - s > length name then
        if lines_scanned \<ge> ENVBLK_MAX_LINES then None
        else if at_name b s name then Some (Some s, lines_scanned)
        else find_name b e fss name (envblk_next_line b s e) (lines_scanned + 1)
      else Some (None, lines_scanned))"
  by pat_completeness auto
termination
proof (relation "measure (\<lambda>(b, e, fss, name, s, n). fss - s)", goal_cases)
  case (2 b e fss name s n)
  have "s \<le> skip_to b NL s e" by (rule skip_to_ge)
  with 2 show ?case by (simp add: envblk_next_line_def)
qed simp

declare find_name.simps [simp del]

text \<open>Replacing the value at position \<open>s\<close>: the room is made precisely, then the value is copied.\<close>

definition replace_value :: "string \<Rightarrow> nat \<Rightarrow> nat \<Rightarrow> nat \<Rightarrow> string \<Rightarrow> c_fault + int \<times> string" where
  "replace_value b e fss s new_val =
     (let new_val_len = length new_val;
          cur_val_len = skip_to b NL s e - s
      in if s + cur_val_len \<ge> e then Inr (- 1, b)
         else if new_val_len > cur_val_len \<and> e - fss < new_val_len - cur_val_len then Inr (- 1, b)
         else
           rbind (if new_val_len < cur_val_len
                  then rbind (buf_memmove b (s + new_val_len) (s + cur_val_len) (e - (s + cur_val_len))) (\<lambda>b.
                         buf_memset b (fss + cur_val_len - new_val_len) NUL (cur_val_len - new_val_len))
                  else if e < s + new_val_len then Inl BufferOverrun
                  else buf_memmove b (s + new_val_len) (s + cur_val_len) (e - (s + new_val_len))) (\<lambda>b.
             rbind (buf_write b s (new_val @ [NL])) (\<lambda>b. Inr (0, b))))"

definition envblk_set :: "string \<Rightarrow> nat \<Rightarrow> string \<Rightarrow> string \<Rightarrow> c_fault + int \<times> string" where
  "envblk_set envblk envblk_size name new_val =
     (if envblk_size > length envblk then Inl BufferOverrun
      else rbind (last_text envblk envblk_size) (\<lambda>last.
        if envblk ! last \<noteq> NL then Inr (- 1, envblk)
        else
          (let fss = last + 1
           in case find_name envblk envblk_size fss name sig_len 0 of
                None \<Rightarrow> Inr (- 1, envblk)
              | Some (Some s, lines_scanned) \<Rightarrow>
                  replace_value envblk envblk_size fss (s + length name + 1) new_val
              | Some (None, lines_scanned) \<Rightarrow>
                  if lines_scanned = ENVBLK_MAX_LINES then Inr (- 1, envblk)
                  else if envblk_size - fss < length name + length new_val + 2 then Inr (- 1, envblk)
                  else rbind (buf_write envblk fss (name @ ''='' @ new_val @ [NL])) (\<lambda>b. Inr (0, b)))))"

function unset_loop :: "string \<Rightarrow> nat \<Rightarrow> string \<Rightarrow> nat \<Rightarrow> c_fault + int \<times> string" where
  "unset_loop b e pname s =
     (if e - s \<ge> length pname + 2 then
        if at_name b s pname then
          (let stop = skip_to b NL (s + length pname + 1) e
           in if stop \<ge> e then Inr (- 1, b)
              else
                (let cut_len = stop + 1 - s
                 in rbind (buf_memmove b s (s + cut_len) (e - (s + cut_len))) (\<lambda>b.
                      rbind (buf_memset b (e - cut_len) NUL cut_len) (\<lambda>b. Inr (0, b)))))
        else unset_loop b e pname (envblk_next_line b s e)
      else Inr (- 1, b))"
  by pat_completeness auto
termination
proof (relation "measure (\<lambda>(b, e, pname, s). e - s)", goal_cases)
  case (2 b e pname s)
  have "s \<le> skip_to b NL s e" by (rule skip_to_ge)
  with 2 show ?case by (simp add: envblk_next_line_def)
qed simp

declare unset_loop.simps [simp del]

definition envblk_unset :: "string \<Rightarrow> nat \<Rightarrow> string \<Rightarrow> c_fault + int \<times> string" where
  "envblk_unset envblk envblk_len pname =
     (if envblk_len > length envblk then Inl BufferOverrun else unset_loop envblk envblk_len pname sig_len)"

text \<open>The length of the block is \<^verbatim>\<open>strnlen (ii->envblk, ii->envblk_len)\<close>.\<close>

definition remove_name_value :: "char \<Rightarrow> nat \<Rightarrow> string \<Rightarrow> string \<Rightarrow> c_fault + int \<times> string" where
  "remove_name_value site_id envblk_len envblk line =
     rbind (get_key_len line) (\<lambda>len. envblk_unset envblk (c_strlen (take envblk_len envblk)) (site_id # take len line))"

definition envblk_remove_namespace :: "string \<Rightarrow> nat \<Rightarrow> char \<Rightarrow> c_fault + int \<times> string" where
  "envblk_remove_namespace envblk envblk_size site_id =
     rbind (envblk_scan envblk envblk_size add_line_namespace no_tables) (\<lambda>(ret, tables).
       if ret \<noteq> 0 then Inr (ret, envblk)
       else
         (let i = nat (fst (c_strtol [site_id]))
          in if i \<ge> length tables then Inl BufferOverrun
             else hash_table_scan (tables ! i) (remove_name_value site_id envblk_size) envblk))"

end
