(* ===== verification/Envblk_Ops.thy ===== *)
theory Envblk_Ops
  imports Envblk
begin

text \<open>
  The operations on an installed environment block against a list of variables: a well-formed block is
  the signature, one line per variable and zero padding. Setting a variable is \<open>env_put\<close> on the list,
  removing one is \<open>env_del\<close>, and a scan visits the lines in order.
\<close>

section \<open>Well-formed blocks\<close>

type_synonym env = "(string \<times> string) list"

definition key_ok :: "string \<Rightarrow> bool" where
  "key_ok k \<longleftrightarrow> k \<noteq> [] \<and> CHR ''='' \<notin> set k \<and> NL \<notin> set k \<and> NUL \<notin> set k"

definition val_ok :: "string \<Rightarrow> bool" where
  "val_ok v \<longleftrightarrow> NL \<notin> set v \<and> NUL \<notin> set v"

definition env_ok :: "env \<Rightarrow> bool" where
  "env_ok kvs \<longleftrightarrow> (\<forall>(k, v) \<in> set kvs. key_ok k \<and> val_ok v)"

definition pair_text :: "string \<times> string \<Rightarrow> string" where
  "pair_text p = fst p @ ''='' @ snd p"

definition render :: "env \<Rightarrow> string" where
  "render kvs = concat (map (\<lambda>p. pair_text p @ [NL]) kvs)"

definition block :: "env \<Rightarrow> nat \<Rightarrow> string" where
  "block kvs n = ZIPL_ENVBLK_SIGNATURE @ render kvs @ replicate n NUL"

fun env_put :: "string \<Rightarrow> string \<Rightarrow> env \<Rightarrow> env" where
  "env_put k v [] = [(k, v)]"
| "env_put k v ((a, b) # kvs) = (if a = k then (k, v) # kvs else (a, b) # env_put k v kvs)"

fun env_del :: "string \<Rightarrow> env \<Rightarrow> env" where
  "env_del k [] = []"
| "env_del k ((a, b) # kvs) = (if a = k then kvs else (a, b) # env_del k kvs)"

lemma render_simps [simp]:
  "render [] = []" "render (p # kvs) = pair_text p @ NL # render kvs" "render (xs @ ys) = render xs @ render ys"
  by (simp_all add: render_def)

lemma length_pair_text [simp]: "length (pair_text p) = length (fst p) + length (snd p) + 1"
  by (simp add: pair_text_def)

lemma pair_text_chars:
  assumes "key_ok (fst p)" and "val_ok (snd p)"
  shows "NL \<notin> set (pair_text p)" "NUL \<notin> set (pair_text p)"
  using assms by (auto simp: pair_text_def key_ok_def val_ok_def)

lemma env_ok_simps [simp]:
  "env_ok []" "env_ok (p # kvs) \<longleftrightarrow> key_ok (fst p) \<and> val_ok (snd p) \<and> env_ok kvs" "env_ok (xs @ ys) \<longleftrightarrow> env_ok xs \<and> env_ok ys"
  by (auto simp: env_ok_def split: prod.splits)

lemma env_split:
  assumes "k \<in> fst ` set kvs"
  obtains pre v post where "kvs = pre @ (k, v) # post" "k \<notin> fst ` set pre"
    "\<And>w. env_put k w kvs = pre @ (k, w) # post" "env_del k kvs = pre @ post"
  using assms
proof (induction kvs arbitrary: thesis)
  case (Cons p kvs)
  obtain a b where p: "p = (a, b)" by fastforce
  show ?case
  proof (cases "a = k")
    case True
    then show ?thesis using Cons.prems(1) [of "[]" b kvs] p by simp
  next
    case False
    then have "k \<in> fst ` set kvs" using Cons.prems(2) p by auto
    then obtain pre v post where "kvs = pre @ (k, v) # post" "k \<notin> fst ` set pre"
        "\<And>w. env_put k w kvs = pre @ (k, w) # post" "env_del k kvs = pre @ post"
      using Cons.IH by blast
    then show ?thesis using Cons.prems(1) [of "(a, b) # pre" v post] p False by simp
  qed
qed simp

lemma env_absent: "k \<notin> fst ` set kvs \<Longrightarrow> env_put k v kvs = kvs @ [(k, v)]"
  by (induction k v kvs rule: env_put.induct) auto

lemma env_put_lookup: "map_of (env_put k v kvs) = (map_of kvs)(k \<mapsto> v)"
  by (induction k v kvs rule: env_put.induct) auto

lemma env_put_ok: "env_ok kvs \<Longrightarrow> key_ok k \<Longrightarrow> val_ok v \<Longrightarrow> env_ok (env_put k v kvs)"
  by (induction k v kvs rule: env_put.induct) auto

lemma env_put_keys: "fst ` set (env_put k v kvs) = insert k (fst ` set kvs)"
  by (induction k v kvs rule: env_put.induct) auto

lemma env_put_distinct: "distinct (map fst kvs) \<Longrightarrow> distinct (map fst (env_put k v kvs))"
  by (induction k v kvs rule: env_put.induct) (auto simp: env_put_keys simp flip: image_iff)

section \<open>Steps over a line\<close>

text \<open>A name is found exactly at the start of its own line.\<close>

lemma at_name_line:
  assumes "key_ok k" and "key_ok name"
  shows "at_name (pre @ pair_text (k, v) @ rest) (length pre) name \<longleftrightarrow> k = name"
proof
  let ?t = "k @ CHR ''='' # v @ rest"
  assume "at_name (pre @ pair_text (k, v) @ rest) (length pre) name"
  then have t: "take (length name) ?t = name" and c: "char_at (pre @ ?t) (length pre + length name) = CHR ''=''"
    by (auto simp: at_name_def pair_text_def)
  have l: "length name < length ?t" and eq: "?t ! length name = CHR ''=''"
    using c by (auto simp: char_at_def nth_append split: if_splits)
  have "\<not> length k < length name"
  proof
    assume k: "length k < length name"
    have "name ! length k = take (length name) ?t ! length k" using t by simp
    also have "\<dots> = CHR ''=''" using k by (subst nth_take) simp_all
    finally show False using k assms(2) nth_mem [OF k] by (simp add: key_ok_def)
  qed
  moreover have "\<not> length name < length k"
  proof
    assume k: "length name < length k"
    then have "k ! length name = CHR ''=''" using eq by (simp add: nth_append)
    then show False using assms(1) nth_mem [OF k] by (simp add: key_ok_def)
  qed
  ultimately have "length k = length name" by simp
  then show "k = name" using t by simp
next
  assume "k = name"
  then show "at_name (pre @ pair_text (k, v) @ rest) (length pre) name"
    by (simp add: at_name_def pair_text_def char_at_def nth_append)
qed

lemma next_line_line:
  assumes "NL \<notin> set l" and "length pre + length l < e"
  shows "envblk_next_line (pre @ l @ NL # rest) (length pre) e = length pre + length l + 1"
  using skip_to_found [OF assms, of rest] by (simp add: envblk_next_line_def)

lemma last_text_found:
  assumes "c \<noteq> NUL"
  shows "last_text (p @ c # replicate n NUL) (length p + 1 + n) = Inr (length p)"
proof (induction n)
  case 0
  then show ?case using assms by (simp add: nth_append)
next
  case (Suc n)
  have "last_text (p @ c # replicate (Suc n) NUL) (length p + 1 + n) = last_text (p @ c # replicate n NUL) (length p + 1 + n)"
  proof -
    have "last_text (b @ x) k = last_text b k" if "k \<le> length b" for b x k
      using that by (induction k) (auto simp: nth_append)
    from this [of "length p + 1 + n" "p @ c # replicate n NUL" "[NUL]"] show ?thesis
      by (simp add: replicate_append_same)
  qed
  with Suc show ?case by (simp add: nth_append nth_Cons')
qed

lemma text_ends_NL: "\<exists>p. ZIPL_ENVBLK_SIGNATURE @ render kvs = p @ [NL]"
proof (cases kvs rule: rev_cases)
  case Nil
  then show ?thesis by (simp add: ZIPL_ENVBLK_SIGNATURE_def)
next
  case (snoc xs p)
  then show ?thesis by (intro exI [of _ "ZIPL_ENVBLK_SIGNATURE @ render xs @ pair_text p"]) simp
qed

lemma block_last:
  "\<exists>l. last_text (block kvs n) (length (block kvs n)) = Inr l \<and> block kvs n ! l = NL \<and>
    l + 1 = sig_len + length (render kvs)"
proof -
  obtain p where p: "ZIPL_ENVBLK_SIGNATURE @ render kvs = p @ [NL]" using text_ends_NL by blast
  then have b: "block kvs n = p @ NL # replicate n NUL" by (simp add: block_def flip: append_assoc)
  have "last_text (block kvs n) (length (block kvs n)) = Inr (length p)"
    unfolding b using last_text_found [of NL p n] by simp
  moreover have "block kvs n ! length p = NL" by (simp add: b)
  moreover have "length p + 1 = sig_len + length (render kvs)" using arg_cong [OF p, of length] by simp
  ultimately show ?thesis by blast
qed

lemma find_pos_None: "find_pos P xs = None \<longleftrightarrow> (\<forall>x \<in> set xs. \<not> P x)"
  by (induction xs) auto

lemma fst_less_render: "x \<in> set kvs \<Longrightarrow> length (fst x) < length (render kvs)"
  by (induction kvs) auto

section \<open>Finding a name\<close>

lemma find_name_block:
  fixes n
  assumes "env_ok (pre @ post)" and "key_ok name" and "length (pre @ post) \<le> ENVBLK_MAX_LINES" and "name \<notin> fst ` set pre"
  defines "b \<equiv> block (pre @ post) n"
  defines "fss \<equiv> sig_len + length (render (pre @ post))"
  shows "\<exists>m \<le> length (pre @ post). find_name b (length b) fss name (sig_len + length (render pre)) (length pre) =
    (case find_pos (\<lambda>p. fst p = name) post of
       None \<Rightarrow> Some (None, m)
     | Some i \<Rightarrow> Some (Some (sig_len + length (render (pre @ take i post))), length pre + i))"
  using assms(1-4) unfolding b_def fss_def
proof (induction post arbitrary: pre)
  case Nil
  then show ?case by (subst find_name.simps) auto
next
  case (Cons p post)
  obtain k v where p: "p = (k, v)" by fastforce
  let ?q = "ZIPL_ENVBLK_SIGNATURE @ render pre"
  let ?b = "block (pre @ p # post) n" and ?fss = "sig_len + length (render (pre @ p # post))"
  have b: "?b = ?q @ pair_text p @ NL # render post @ replicate n NUL" by (simp add: block_def)
  have k: "key_ok k" "val_ok v" using Cons.prems(1) p by auto
  have at: "at_name ?b (length ?q) name \<longleftrightarrow> k = name"
    unfolding b using at_name_line [OF k(1) Cons.prems(2), of ?q v "NL # render post @ replicate n NUL"] by (simp add: p)
  have nl: "envblk_next_line ?b (length ?q) (length ?b) = length ?q + length (pair_text p) + 1"
    unfolding b using pair_text_chars(1) [of p] k p by (intro next_line_line) auto
  show ?case
  proof (cases "?fss - length ?q > length name")
    case True
    have lt: "length pre < ENVBLK_MAX_LINES" using Cons.prems(3) by simp
    show ?thesis
    proof (cases "k = name")
      case eq: True
      then show ?thesis using True lt at p by (subst find_name.simps) auto
    next
      case False
      have "env_ok ((pre @ [p]) @ post)" "length ((pre @ [p]) @ post) \<le> ENVBLK_MAX_LINES" "name \<notin> fst ` set (pre @ [p])"
        using Cons.prems p False by auto
      note IH = Cons.IH [OF this(1) Cons.prems(2) this(2,3)]
      have "find_name ?b (length ?b) ?fss name (length ?q) (length pre) =
          find_name ?b (length ?b) ?fss name (sig_len + length (render (pre @ [p]))) (length (pre @ [p]))"
        using True lt at nl False by (subst find_name.simps) (simp add: p ac_simps)
      then show ?thesis using IH False p by (auto split: option.splits)
    qed
  next
    case False
    then have "length (render (p # post)) \<le> length name" by simp
    then have "\<forall>x \<in> set (p # post). fst x \<noteq> name" using fst_less_render by fastforce
    then have none: "find_pos (\<lambda>p. fst p = name) (p # post) = None" by (simp only: find_pos_None)
    have "find_name ?b (length ?b) ?fss name (length ?q) (length pre) = Some (None, length pre)"
      using False by (subst find_name.simps) simp
    then show ?thesis unfolding none by (intro exI [of _ "length pre"]) simp
  qed
qed

section \<open>Setting a variable\<close>

lemma replace_value_grow:
  assumes "NL \<notin> set cur" and "length cur \<le> length new" and "length new - length cur \<le> n"
  shows "replace_value (p @ cur @ NL # r @ replicate n NUL) (length (p @ cur @ NL # r @ replicate n NUL))
      (length (p @ cur @ NL # r)) (length p) new =
    Inr (0, p @ new @ NL # r @ replicate (n - (length new - length cur)) NUL)"
proof -
  define d where "d = length new - length cur"
  define b where "b = p @ cur @ NL # r @ replicate n NUL"
  have sk: "skip_to b NL (length p) (length b) = length p + length cur"
    unfolding b_def using assms(1) by (intro skip_to_found) auto
  have nd: "n = (n - d) + d" "length new = length cur + d" using assms(2,3) by (auto simp: d_def)
  have e: "length b = length p + length cur + 1 + length r + n" by (simp add: b_def)
  have tk: "take (length b - (length p + length new)) (drop (length p + length cur) b) = NL # r @ replicate (n - d) NUL"
  proof -
    have "drop (length p + length cur) b = (NL # r @ replicate (n - d) NUL) @ replicate d NUL"
      using nd(1) by (simp add: b_def replicate_add [symmetric])
    moreover have "length b - (length p + length new) = length (NL # r @ replicate (n - d) NUL)"
      using e nd by simp
    ultimately show ?thesis by simp
  qed
  have mv: "buf_memmove b (length p + length new) (length p + length cur) (length b - (length p + length new)) =
      Inr (take (length p + length new) b @ NL # r @ replicate (n - d) NUL)"
    unfolding buf_memmove_def tk using e nd by (simp add: buf_write_def)
  have wr: "buf_write (take (length p + length new) b @ NL # r @ replicate (n - d) NUL) (length p) (new @ [NL]) =
      Inr (p @ new @ NL # r @ replicate (n - d) NUL)"
  proof -
    have "take (length p + length new) b = p @ take (length new) (cur @ NL # r @ replicate n NUL)" by (simp add: b_def)
    moreover have "length (take (length new) (cur @ NL # r @ replicate n NUL) @ [NL]) = length (new @ [NL])"
      using e nd by (simp add: b_def)
    ultimately show ?thesis
      using buf_write_append [OF refl, of _ "new @ [NL]" p "r @ replicate (n - d) NUL"] by (metis append.assoc append_Cons append_Nil)
  qed
  have "\<not> length new < length cur" "\<not> (length new > length cur \<and> length b - length (p @ cur @ NL # r) < length new - length cur)"
      "\<not> length p + length cur \<ge> length b" "\<not> length b < length p + length new"
    using assms(2,3) e nd by auto
  then show ?thesis
    unfolding b_def [symmetric] replace_value_def Let_def sk using mv wr by (simp add: d_def)
qed

lemma replace_value_shrink:
  assumes "NL \<notin> set cur" and "length new < length cur"
  defines "d \<equiv> length cur - length new"
  shows "replace_value (p @ cur @ NL # r @ replicate n NUL) (length (p @ cur @ NL # r @ replicate n NUL))
      (length (p @ cur @ NL # r)) (length p) new =
    (if 2 * d \<le> n then Inr (0, p @ new @ NL # r @ replicate (n + d) NUL) else Inl BufferOverrun)"
proof -
  define b where "b = p @ cur @ NL # r @ replicate n NUL"
  have sk: "skip_to b NL (length p) (length b) = length p + length cur"
    unfolding b_def using assms(1) by (intro skip_to_found) auto
  have e: "length b = length p + length cur + 1 + length r + n" by (simp add: b_def)
  have cd: "length cur = length new + d" using assms(2) by (simp add: d_def)
  have dr: "drop (length p + length cur) b = NL # r @ replicate n NUL" by (simp add: b_def)
  define b1 where "b1 = take (length p + length new) b @ (NL # r @ replicate n NUL) @ drop (length b - d) b"
  have mv: "buf_memmove b (length p + length new) (length p + length cur) (length b - (length p + length cur)) = Inr b1"
    unfolding buf_memmove_def dr b1_def using e cd by (simp add: buf_write_def add.assoc)
  have l1: "length b1 = length b" using e cd by (simp add: b1_def)
  have set: "buf_memset b1 (length (p @ cur @ NL # r) + length cur - length new) NUL d =
      (if 2 * d \<le> n then Inr (take (length p + length new) b @ NL # r @ replicate (n + d) NUL) else Inl BufferOverrun)"
  proof (cases "2 * d \<le> n")
    case True
    have "b = (p @ cur @ NL # r @ replicate (n - d) NUL) @ replicate d NUL"
      using True by (simp add: b_def replicate_add [symmetric])
    then have "drop (length b - d) b = replicate d NUL" by (metis append_eq_conv_conj append_same_eq diff_add_inverse2 length_append length_replicate)
    moreover define u where "u = take (length p + length new) b @ NL # r @ replicate (2 * d) NUL"
    ultimately have b1: "b1 = u @ replicate d NUL @ replicate (n - 2 * d) NUL"
      using True by (simp add: b1_def replicate_add [symmetric])
    have len: "length (p @ cur @ NL # r) + length cur - length new = length u"
      using e cd by (simp add: u_def)
    have "buf_memset b1 (length u) NUL d = Inr b1"
      unfolding buf_memset_def b1 by (rule buf_write_append) simp_all
    moreover have "b1 = take (length p + length new) b @ NL # r @ replicate (n + d) NUL"
      using True by (simp add: b1 u_def replicate_add [symmetric] add.commute)
    ultimately show ?thesis using True unfolding len by simp
  next
    case False
    then show ?thesis using e cd l1 by (simp add: buf_memset_def buf_write_def)
  qed
  have wr: "buf_write (take (length p + length new) b @ NL # r @ replicate (n + d) NUL) (length p) (new @ [NL]) =
      Inr (p @ new @ NL # r @ replicate (n + d) NUL)"
  proof -
    have "take (length p + length new) b = p @ take (length new) cur" using cd by (simp add: b_def)
    then show ?thesis
      using buf_write_append [OF refl, of "take (length new) cur @ [NL]" "new @ [NL]" p "r @ replicate (n + d) NUL"] cd by simp
  qed
  have "length new < length cur" "\<not> length p + length cur \<ge> length b" using assms(2) e by auto
  then show ?thesis
    unfolding b_def [symmetric] replace_value_def Let_def sk using mv set wr by (simp add: d_def)
qed

lemma replicate_split: "m \<le> n \<Longrightarrow> replicate n c = replicate m c @ replicate (n - m) c"
  by (simp add: replicate_add [symmetric])

lemma find_pos_split: "find_pos P xs = Some i \<Longrightarrow> i < length xs \<and> P (xs ! i) \<and> (\<forall>x \<in> set (take i xs). \<not> P x)"
  by (induction xs arbitrary: i) (auto split: if_splits)

lemma find_pos_middle: "\<forall>x \<in> set xs. \<not> P x \<Longrightarrow> P y \<Longrightarrow> find_pos P (xs @ y # ys) = Some (length xs)"
  by (induction xs) auto

text \<open>Both outcomes of the search, as \<^verbatim>\<open>envblk_set\<close> uses them.\<close>

lemma envblk_set_found:
  assumes "env_ok kvs" and "key_ok name" and "length kvs \<le> ENVBLK_MAX_LINES"
    and "kvs = pre @ (name, cur) # post" "name \<notin> fst ` set pre"
  defines "q \<equiv> ZIPL_ENVBLK_SIGNATURE @ render pre @ name @ ''=''"
  shows "envblk_set (block kvs n) (length (block kvs n)) name v =
    replace_value (q @ cur @ NL # render post @ replicate n NUL) (length (q @ cur @ NL # render post @ replicate n NUL))
      (length (q @ cur @ NL # render post)) (length q) v"
proof -
  obtain l where l: "last_text (block kvs n) (length (block kvs n)) = Inr l" "block kvs n ! l = NL"
      "l + 1 = sig_len + length (render kvs)"
    using block_last by blast
  have "find_pos (\<lambda>p. fst p = name) kvs = Some (length pre)"
    unfolding assms(4) using assms(5) by (intro find_pos_middle) auto
  moreover have "take (length pre) kvs = pre" by (simp add: assms(4))
  ultimately have f: "find_name (block kvs n) (length (block kvs n)) (l + 1) name sig_len 0 =
      Some (Some (sig_len + length (render pre)), length pre)"
    using find_name_block [of "[]" kvs name n] assms(1-3) l(3) by auto
  have b: "block kvs n = q @ cur @ NL # render post @ replicate n NUL"
    by (simp add: block_def q_def assms(4) pair_text_def)
  have "l + 1 = length (q @ cur @ NL # render post)" "sig_len + length (render pre) + length name + 1 = length q"
    using l(3) by (auto simp: q_def assms(4))
  then show ?thesis
    using l(1,2) f unfolding b [symmetric] by (simp add: envblk_set_def)
qed

lemma envblk_set_absent:
  assumes "env_ok kvs" and "key_ok name" and "length kvs < ENVBLK_MAX_LINES" and "name \<notin> fst ` set kvs"
  shows "envblk_set (block kvs n) (length (block kvs n)) name v =
    (if n < length name + length v + 2 then Inr (- 1, block kvs n)
     else Inr (0, block (kvs @ [(name, v)]) (n - (length name + length v + 2))))"
proof -
  obtain l where l: "last_text (block kvs n) (length (block kvs n)) = Inr l" "block kvs n ! l = NL"
      "l + 1 = sig_len + length (render kvs)"
    using block_last by blast
  have "find_pos (\<lambda>p. fst p = name) kvs = None"
    using assms(4) by (auto simp: find_pos_None)
  then obtain m where f: "find_name (block kvs n) (length (block kvs n)) (l + 1) name sig_len 0 = Some (None, m)"
      "m < ENVBLK_MAX_LINES"
    using find_name_block [of "[]" kvs name n] assms(1-3) l(3) by auto
  have len: "length (block kvs n) - (l + 1) = n" unfolding l(3) by (simp add: block_def)
  have wr: "buf_write (block kvs n) (l + 1) (name @ ''='' @ v @ [NL]) =
      Inr (block (kvs @ [(name, v)]) (n - (length name + length v + 2)))" if "\<not> n < length name + length v + 2"
  proof -
    have "replicate n NUL = replicate (length name + length v + 2) NUL @ replicate (n - (length name + length v + 2)) NUL"
      using that by (intro replicate_split) simp
    then have b: "block kvs n = (ZIPL_ENVBLK_SIGNATURE @ render kvs) @ replicate (length name + length v + 2) NUL @
        replicate (n - (length name + length v + 2)) NUL"
      by (simp add: block_def)
    have "buf_write (block kvs n) (l + 1) (name @ ''='' @ v @ [NL]) =
        Inr ((ZIPL_ENVBLK_SIGNATURE @ render kvs) @ (name @ ''='' @ v @ [NL]) @ replicate (n - (length name + length v + 2)) NUL)"
      unfolding b using l(3) by (intro buf_write_append) simp_all
    then show ?thesis by (simp add: block_def pair_text_def)
  qed
  show ?thesis
    using l(1,2) f len wr by (simp add: envblk_set_def)
qed

section \<open>Removing a variable\<close>

lemma unset_cut:
  fixes p r
  assumes "NL \<notin> set cur" and "key_ok k" and "j \<le> n"
  defines "b \<equiv> p @ pair_text (k, cur) @ NL # r @ replicate n NUL"
  shows "unset_loop b (length (p @ pair_text (k, cur) @ NL # r) + j) k (length p) =
    Inr (0, p @ r @ replicate (n + length (pair_text (k, cur)) + 1) NUL)"
proof -
  let ?l = "pair_text (k, cur)" and ?e = "length (p @ pair_text (k, cur) @ NL # r) + j"
  define c where "c = length ?l + 1"
  have at: "at_name b (length p) k" unfolding b_def using at_name_line [OF assms(2,2), of p cur] by simp
  have "skip_to ((p @ k @ ''='') @ cur @ NL # r @ replicate n NUL) NL (length (p @ k @ ''='')) ?e = length (p @ k @ ''='') + length cur"
    using assms(1) by (intro skip_to_found) auto
  then have sk: "skip_to b NL (length p + length k + 1) ?e = length p + length ?l"
    by (simp add: b_def pair_text_def)
  have cut: "length p + length ?l + 1 - length p = c" "?e - (length p + c) = length r + j" "\<not> length p + length ?l \<ge> ?e"
    by (auto simp: c_def)
  have mv: "buf_memmove b (length p) (length p + c) (length r + j) =
      Inr (p @ r @ replicate j NUL @ drop (length p + length r + j) b)"
  proof -
    have "take (length r + j) (drop (length p + c) b) = r @ replicate j NUL"
      using assms(3) by (simp add: b_def c_def min_def)
    then show ?thesis using assms(3) by (simp add: buf_memmove_def buf_write_def b_def c_def)
  qed
  have set: "buf_memset (p @ r @ replicate j NUL @ drop (length p + length r + j) b) (?e - c) NUL c =
      Inr (p @ r @ replicate (n + c) NUL)"
  proof -
    define u where "u = drop (length p + length r + j) b"
    have "length u = c + (n - j)" using assms(3) by (simp add: u_def b_def c_def)
    moreover have "drop c u = replicate (n - j) NUL"
    proof -
      have "drop c u = drop (length (p @ ?l @ NL # r) + j) b" by (simp add: u_def c_def ac_simps)
      also have "\<dots> = replicate (n - j) NUL" by (simp add: b_def)
      finally show ?thesis .
    qed
    moreover have "?e - c = length (p @ r @ replicate j NUL)" by (simp add: c_def)
    moreover have "n + c = j + (c + (n - j))" using assms(3) by simp
    ultimately show ?thesis
      unfolding u_def [symmetric] by (simp add: buf_memset_def buf_write_def replicate_add [symmetric] ac_simps)
  qed
  have "?e - length p \<ge> length k + 2" by simp
  then show ?thesis
    using at sk cut mv set by (subst unset_loop.simps) (simp add: Let_def c_def)
qed

lemma unset_loop_block:
  assumes "env_ok (pre @ post)" and "key_ok name" and "name \<notin> fst ` set pre" and "j \<le> n"
  shows "unset_loop (block (pre @ post) n) (sig_len + length (render (pre @ post)) + j) name (sig_len + length (render pre)) =
    (if name \<in> fst ` set post
     then Inr (0, block (pre @ env_del name post) (n + (length (render post) - length (render (env_del name post)))))
     else Inr (- 1, block (pre @ post) n))"
  using assms
proof (induction post arbitrary: pre)
  case Nil
  let ?b = "block pre n" and ?s = "sig_len + length (render pre)"
  have z: "?b = (ZIPL_ENVBLK_SIGNATURE @ render pre) @ replicate j NUL @ replicate (n - j) NUL"
    using Nil.prems(4) by (simp add: block_def replicate_add [symmetric])
  have na: "\<not> at_name ?b ?s name"
  proof
    assume "at_name ?b ?s name"
    then have "take (length name) (replicate n NUL) = name" by (simp add: at_name_def block_def)
    then have "name = replicate (min (length name) n) NUL" by (simp add: take_replicate)
    then show False using Nil.prems(2) by (metis in_set_replicate key_ok_def length_0_conv length_replicate)
  qed
  have "skip_to ((ZIPL_ENVBLK_SIGNATURE @ render pre) @ replicate j NUL @ replicate (n - j) NUL) NL
      (length (ZIPL_ENVBLK_SIGNATURE @ render pre)) (?s + j) = ?s + j"
    by (rule skip_to_end) auto
  then have nl: "envblk_next_line ?b ?s (?s + j) = ?s + j + 1"
    unfolding z by (simp add: envblk_next_line_def)
  have stop: "unset_loop ?b (?s + j) name (?s + j + 1) = Inr (- 1, ?b)"
    by (subst unset_loop.simps) simp
  show ?case
    using na nl stop by (subst unset_loop.simps) auto
next
  case (Cons p post)
  obtain k v where p: "p = (k, v)" by fastforce
  let ?q = "ZIPL_ENVBLK_SIGNATURE @ render pre"
  have k: "key_ok k" "val_ok v" using Cons.prems(1) p by auto
  have b: "block (pre @ p # post) n = ?q @ pair_text (k, v) @ NL # render post @ replicate n NUL"
    by (simp add: block_def p)
  let ?e = "sig_len + length (render (pre @ p # post)) + j"
  have e: "?e = length (?q @ pair_text (k, v) @ NL # render post) + j" by (simp add: p)
  show ?case
  proof (cases "k = name")
    case True
    have "NL \<notin> set v" using k(2) by (simp add: val_ok_def)
    from unset_cut [OF this k(1) Cons.prems(4), of ?q "render post"] True p show ?thesis
      unfolding b e by (simp add: block_def ac_simps)
  next
    case False
    have at: "\<not> at_name (block (pre @ p # post) n) (length ?q) name"
      unfolding b using at_name_line [OF k(1) Cons.prems(2), of ?q v "NL # render post @ replicate n NUL"] False by simp
    have nl: "envblk_next_line (block (pre @ p # post) n) (length ?q) ?e = sig_len + length (render (pre @ [p]))"
      unfolding b e using pair_text_chars(1) [of p] k p by (subst next_line_line) auto
    have "unset_loop (block (pre @ p # post) n) ?e name (length ?q) =
        (if ?e - length ?q \<ge> length name + 2
         then unset_loop (block ((pre @ [p]) @ post) n) ?e name (sig_len + length (render (pre @ [p]))) else Inr (- 1, block (pre @ p # post) n))"
      using at nl by (subst unset_loop.simps) simp
    moreover have "unset_loop (block ((pre @ [p]) @ post) n) (sig_len + length (render ((pre @ [p]) @ post)) + j) name (sig_len + length (render (pre @ [p]))) =
      (if name \<in> fst ` set post
       then Inr (0, block ((pre @ [p]) @ env_del name post) (n + (length (render post) - length (render (env_del name post)))))
       else Inr (- 1, block ((pre @ [p]) @ post) n))"
      using Cons.prems p False by (intro Cons.IH) auto
    moreover have "name \<notin> fst ` set post" if "\<not> ?e - length ?q \<ge> length name + 2"
    proof
      assume "name \<in> fst ` set post"
      then obtain x where "x \<in> set post" "fst x = name" by auto
      from fst_less_render [OF this(1)] this(2) that show False by simp
    qed
    ultimately show ?thesis using False p by auto
  qed
qed

section \<open>Scanning\<close>

lemma scan_loop_step:
  assumes "b ! s \<noteq> NUL" "s < e" "\<not> lines_scanned > ENVBLK_MAX_LINES"
    and "skip_to b (CHR ''='') s e = eq" "eq \<noteq> e" and "skip_to b NL (eq + 1) e = nl" "nl \<noteq> e"
    and "cstr (take (nl - s) (drop s b)) = t" and "envblk_next_line b nl e = s'"
  shows "scan_loop b e actor data s lines_scanned =
    rbind (actor data t) (\<lambda>(ret, data). if ret \<noteq> 0 then Inr (ret, data) else scan_loop b e actor data s' (lines_scanned + 1))"
  unfolding scan_loop.simps [of b e actor data s lines_scanned] Let_def assms(4) assms(6) assms(8) assms(9)
  using assms(1-3,5,7) by simp

lemma scan_loop_block:
  assumes "env_ok (pre @ post)" and "length (pre @ post) \<le> ENVBLK_MAX_LINES + 1" and "j \<le> n"
  shows "scan_loop (block (pre @ post) n) (sig_len + length (render (pre @ post)) + j) actor data
      (sig_len + length (render pre)) (length pre) = scan_items actor (map pair_text post) data"
  using assms
proof (induction post arbitrary: pre data)
  case Nil
  have "block pre n ! (sig_len + length (render pre)) = NUL" if "0 < j"
    using that Nil.prems(3) by (simp add: block_def nth_append)
  then show ?case by (subst scan_loop.simps) auto
next
  case (Cons p post)
  obtain k v where p: "p = (k, v)" by fastforce
  let ?q = "ZIPL_ENVBLK_SIGNATURE @ render pre" and ?r = "render post @ replicate n NUL"
  let ?b = "block (pre @ p # post) n" and ?e = "sig_len + length (render (pre @ p # post)) + j"
  have k: "key_ok k" "val_ok v" using Cons.prems(1) p by auto
  have b: "?b = ?q @ k @ CHR ''='' # v @ NL # ?r" by (simp add: block_def p pair_text_def)
  have e: "?e = length (?q @ k @ CHR ''='' # v @ NL # render post) + j" by (simp add: p)
  have 1: "?b ! length ?q \<noteq> NUL"
  proof -
    obtain c cs where "k = c # cs" using k(1) by (cases k) (auto simp: key_ok_def)
    then show ?thesis unfolding b using k(1) by (auto simp: nth_append key_ok_def)
  qed
  have 2: "length ?q < ?e" unfolding e by simp
  have 4: "skip_to ?b (CHR ''='') (length ?q) ?e = length ?q + length k"
    unfolding b e using k(1) by (intro skip_to_found) (auto simp: key_ok_def)
  have 5: "length ?q + length k \<noteq> ?e" unfolding e by simp
  have 6: "skip_to ?b NL (length ?q + length k + 1) ?e = length ?q + length (pair_text p)"
  proof -
    have "skip_to ((?q @ k @ ''='') @ v @ NL # ?r) NL (length (?q @ k @ ''='')) ?e = length (?q @ k @ ''='') + length v"
      using k(2) by (intro skip_to_found) (auto simp: val_ok_def p)
    then show ?thesis unfolding b by (simp add: p ac_simps)
  qed
  have 7: "length ?q + length (pair_text p) \<noteq> ?e" unfolding e by (simp add: p)
  have 8: "cstr (take (length ?q + length (pair_text p) - length ?q) (drop (length ?q) ?b)) = pair_text p"
    unfolding b using pair_text_chars(2) [of p] k by (simp add: p pair_text_def)
  have 9: "envblk_next_line ?b (length ?q + length (pair_text p)) ?e = sig_len + length (render (pre @ [p]))"
  proof -
    have "skip_to ((?q @ pair_text p) @ [] @ NL # ?r) NL (length (?q @ pair_text p)) ?e = length (?q @ pair_text p) + length ([] :: string)"
      by (rule skip_to_found) (auto simp: p)
    then show ?thesis unfolding b by (simp add: envblk_next_line_def p pair_text_def ac_simps)
  qed
  have 3: "\<not> length pre > ENVBLK_MAX_LINES" using Cons.prems(2) by simp
  have eq1: "scan_loop ?b ?e actor data (length ?q) (length pre) =
      rbind (actor data (pair_text p)) (\<lambda>(ret, data). if ret \<noteq> 0 then Inr (ret, data)
        else scan_loop ?b ?e actor data (sig_len + length (render (pre @ [p]))) (length pre + 1))"
    by (rule scan_loop_step [OF 1 2 3 4 5 6 7 8 9])
  have eq2: "scan_loop ?b ?e actor data (sig_len + length (render (pre @ [p]))) (length pre + 1) =
      scan_items actor (map pair_text post) data" for data
    using Cons.IH [of "pre @ [p]" data] Cons.prems by simp
  show ?case using eq1 unfolding eq2 by simp
qed

lemma env_del_ok: "env_ok kvs \<Longrightarrow> env_ok (env_del k kvs)"
  by (induction k kvs rule: env_del.induct) auto

lemma block_strlen:
  assumes "env_ok kvs"
  shows "c_strlen (take (length (block kvs n)) (block kvs n)) = sig_len + length (render kvs)"
proof -
  have "NUL \<notin> set (render kvs)"
    using assms by (induction kvs) (auto dest: pair_text_chars(2))
  moreover have "NUL \<notin> set ZIPL_ENVBLK_SIGNATURE" by (simp add: ZIPL_ENVBLK_SIGNATURE_def)
  ultimately have "cstr (block kvs n) = ZIPL_ENVBLK_SIGNATURE @ render kvs"
    by (cases n) (auto simp: block_def cstr_append_NUL [of "ZIPL_ENVBLK_SIGNATURE @ render kvs", simplified])
  then show ?thesis by (simp add: c_strlen_def)
qed

section \<open>Correctness of the operations\<close>

lemma sig_len_eq: "sig_len = 25"
  by (simp add: ZIPL_ENVBLK_SIGNATURE_def)

lemma envblk_set_block:
  assumes "env_ok kvs" and "key_ok name" and "length kvs < ENVBLK_MAX_LINES"
  shows "envblk_set (block kvs n) (length (block kvs n)) name v =
    (let old = length (render kvs); new = length (render (env_put name v kvs))
     in if old + n < new then Inr (- 1, block kvs n)
        else if n < 2 * (old - new) then Inl BufferOverrun
        else Inr (0, block (env_put name v kvs) (old + n - new)))"
proof (cases "name \<in> fst ` set kvs")
  case False
  have new: "length (render (env_put name v kvs)) = length (render kvs) + (length name + length v + 2)"
    using env_absent [OF False, of v] by simp
  have eq: "length (render kvs) + n - (length (render kvs) + (length name + length v + 2)) = n - (length name + length v + 2)"
    by simp
  show ?thesis
    unfolding envblk_set_absent [OF assms False] new Let_def eq unfolding env_absent [OF False] by auto
next
  case True
  obtain pre cur post where k: "kvs = pre @ (name, cur) # post" "name \<notin> fst ` set pre"
      "\<And>w. env_put name w kvs = pre @ (name, w) # post"
    by (rule env_split [OF True]) blast
  define q where "q = ZIPL_ENVBLK_SIGNATURE @ render pre @ name @ ''=''"
  have "length kvs \<le> ENVBLK_MAX_LINES" using assms(3) by simp
  note F = envblk_set_found [OF assms(1,2) this k(1,2), of n v, folded q_def]
  have nl: "NL \<notin> set cur" using assms(1) k(1) by (simp add: val_ok_def)
  have old: "length (render kvs) + length v = length (render (env_put name v kvs)) + length cur"
    using k(1) k(3) [of v] by simp
  have blk: "block (env_put name v kvs) m = q @ v @ NL # render post @ replicate m NUL" for m
    using k(3) [of v] by (simp add: block_def q_def pair_text_def)
  consider "length cur \<le> length v \<and> length v - length cur \<le> n" | "length v < length cur" | "length cur + n < length v"
    by linarith
  then show ?thesis
  proof cases
    case 1
    then have "replace_value (q @ cur @ NL # render post @ replicate n NUL) (length (q @ cur @ NL # render post @ replicate n NUL))
        (length (q @ cur @ NL # render post)) (length q) v = Inr (0, q @ v @ NL # render post @ replicate (n - (length v - length cur)) NUL)"
      by (intro replace_value_grow [OF nl]) auto
    moreover have "n - (length v - length cur) = length (render kvs) + n - length (render (env_put name v kvs))"
      using old 1 by linarith
    ultimately show ?thesis unfolding F using blk old 1 by (auto simp: Let_def)
  next
    case 2
    have "length (render kvs) - length (render (env_put name v kvs)) = length cur - length v"
        "length (render kvs) + n - length (render (env_put name v kvs)) = n + (length cur - length v)"
      using old 2 by linarith+
    then show ?thesis unfolding F replace_value_shrink [OF nl 2] using blk old 2 by (auto simp: Let_def)
  next
    case 3
    have "skip_to (q @ cur @ NL # render post @ replicate n NUL) NL (length q) (length (q @ cur @ NL # render post @ replicate n NUL)) =
        length q + length cur" using nl by (intro skip_to_found) auto
    then have "replace_value (q @ cur @ NL # render post @ replicate n NUL) (length (q @ cur @ NL # render post @ replicate n NUL))
        (length (q @ cur @ NL # render post)) (length q) v = Inr (- 1, q @ cur @ NL # render post @ replicate n NUL)"
      unfolding replace_value_def Let_def using 3 less_diff_conv [of n "length v" "length cur"] by (simp add: add.commute)
    moreover have "block kvs n = q @ cur @ NL # render post @ replicate n NUL"
      by (simp add: block_def q_def k(1) pair_text_def)
    ultimately show ?thesis unfolding F using old 3 by (auto simp: Let_def)
  qed
qed

text \<open>C2. Setting a variable in a well-formed block. When the new text does not fit, the call fails and the
  block is unchanged. When the text becomes shorter by \<open>d\<close> and fewer than \<open>2 * d\<close> bytes are free, the
  padding is written beyond the end of the block. In all other cases the call succeeds, and the block
  is the well-formed one with the variable replaced, or appended when it was not there.\<close>

theorem envblk_set_refines:
  assumes "env_ok kvs" and "key_ok name" and "length kvs < ENVBLK_MAX_LINES"
  shows "envblk_set (block kvs n) (length (block kvs n)) name v =
    (let old = length (render kvs); new = length (render (env_put name v kvs))
     in if old + n < new then Inr (- 1, block kvs n)
        else if n < 2 * (old - new) then Inl BufferOverrun
        else Inr (0, block (env_put name v kvs) (old + n - new)))"
  by (rule envblk_set_block [OF assms])

theorem envblk_set_refines_witness:
  "envblk_set (block [(''a'', ''xyz''), (''b'', ''1'')] 4) (length (block [(''a'', ''xyz''), (''b'', ''1'')] 4)) ''a'' ''xy'' =
     Inr (0, block [(''a'', ''xy''), (''b'', ''1'')] 5) \<and>
   envblk_set (block [(''a'', ''xyz'')] 1) (length (block [(''a'', ''xyz'')] 1)) ''a'' '''' = Inl BufferOverrun"
  using envblk_set_refines [of "[(''a'', ''xyz''), (''b'', ''1'')]" "''a''" 4 "''xy''"]
    envblk_set_refines [of "[(''a'', ''xyz'')]" "''a''" 1 "''''"]
  by (simp add: key_ok_def val_ok_def ENVBLK_MAX_LINES_def Let_def)

text \<open>C27. Removing a variable cuts its line out of the block and adds the bytes to the padding; a name that is
  not there is an error, and the block is unchanged. The length that is passed may stop anywhere in the
  padding, as the callers compute it with \<^verbatim>\<open>strnlen\<close>.\<close>

theorem envblk_unset_refines:
  assumes "env_ok kvs" and "key_ok name" and "j \<le> n"
  shows "envblk_unset (block kvs n) (sig_len + length (render kvs) + j) name =
    (if name \<in> fst ` set kvs
     then Inr (0, block (env_del name kvs) (n + (length (render kvs) - length (render (env_del name kvs)))))
     else Inr (- 1, block kvs n))"
  using unset_loop_block [of "[]" kvs name j n] assms by (simp add: envblk_unset_def block_def)

theorem envblk_unset_refines_witness:
  "envblk_unset (block [(''a'', ''xyz''), (''b'', ''1'')] 4) 35 ''a'' = Inr (0, block [(''b'', ''1'')] 10) \<and>
   envblk_unset (block [(''b'', ''1'')] 10) 29 ''a'' = Inr (- 1, block [(''b'', ''1'')] 10)"
  using envblk_unset_refines [of "[(''a'', ''xyz''), (''b'', ''1'')]" "''a''" 0 4]
    envblk_unset_refines [of "[(''b'', ''1'')]" "''a''" 0 10]
  by (simp add: key_ok_def val_ok_def sig_len_eq)

text \<open>A scan of a well-formed block calls the actor on the text of every variable, in order, until one call
  returns a value other than zero; the block is never found to be corrupted.\<close>

theorem envblk_scan_visits:
  assumes "env_ok kvs" and "length kvs \<le> ENVBLK_MAX_LINES + 1" and "j \<le> n"
  shows "envblk_scan (block kvs n) (sig_len + length (render kvs) + j) actor data = scan_items actor (map pair_text kvs) data"
  using scan_loop_block [of "[]" kvs j n actor data] assms by (simp add: envblk_scan_def block_def)

theorem envblk_scan_visits_witness:
  "envblk_scan (block [(''a'', ''xyz''), (''b'', ''1'')] 4) 39 (\<lambda>out line. Inr (0, out @ [line])) [] =
     Inr (0, [''a=xyz'', ''b=1''])"
  using envblk_scan_visits [of "[(''a'', ''xyz''), (''b'', ''1'')]" 4 4 "\<lambda>out line. Inr (0, out @ [line])" "[]"]
  by (simp add: key_ok_def val_ok_def ENVBLK_MAX_LINES_def sig_len_eq pair_text_def)

end
