(* ===== verification/Envblk_Import.thy ===== *)
theory Envblk_Import
  imports Envblk_Ops
begin

text \<open>
  The import of an environment file and the removal of the variables of a site. The hash table of lines
  is abstracted to the multiset of its lines and to the map from names to values. Without sections for
  sites the import stays within the block, leaves a well-formed block, and gives every name the value
  of its last line.
\<close>

section \<open>Definitions\<close>

definition key_of :: "string \<Rightarrow> string" where
  "key_of l = takeWhile (\<lambda>c. c \<noteq> CHR ''='') l"

definition val_of :: "string \<Rightarrow> string" where
  "val_of l = takeWhile (\<lambda>c. c \<noteq> NL) (drop (length (key_of l) + 1) l)"

text \<open>A line of a table: \<open>NAME=VALUE\<close>, with or without the new line character.\<close>

definition entry_ok :: "string \<Rightarrow> bool" where
  "entry_ok l \<longleftrightarrow> (\<exists>k v. key_ok k \<and> val_ok v \<and> (l = k @ ''='' @ v @ [NL] \<or> l = k @ ''='' @ v))"

definition hash_key :: "string \<Rightarrow> nat" where
  "hash_key k = hash_fn \<lparr>prefix_of = None, str_of = k @ ''='', hashed_len = length k + 1\<rparr>"

definition table_ok :: "line_table \<Rightarrow> bool" where
  "table_ok t \<longleftrightarrow> length t = LINE_HASH_SIZE \<and> distinct (map key_of (concat t)) \<and>
     (\<forall>h < LINE_HASH_SIZE. \<forall>l \<in> set (t ! h). entry_ok l \<and> hash_key (key_of l) = h)"

text \<open>The lines of a text file and the variable that a line defines.\<close>

definition text_line :: "string \<Rightarrow> bool" where
  "text_line l \<longleftrightarrow> l \<noteq> [] \<and> NUL \<notin> set l \<and> NL \<notin> set (butlast l)"

definition line_def :: "string \<Rightarrow> (string \<times> string) option" where
  "line_def l =
     (if length l < 2 \<or> char_at l 0 = CHR ''#'' \<or> CHR ''='' \<notin> set l \<or> key_of l = [] then None
      else Some (key_of l, val_of l))"

fun file_env :: "string list \<Rightarrow> string \<rightharpoonup> string" where
  "file_env [] = Map.empty"
| "file_env (l # ls) = (case line_def l of None \<Rightarrow> Map.empty | Some (k, v) \<Rightarrow> [k \<mapsto> v]) ++ file_env ls"

section \<open>Lines\<close>

lemma key_of_append [simp]: "CHR ''='' \<notin> set k \<Longrightarrow> key_of (k @ CHR ''='' # r) = k"
  unfolding key_of_def by (subst takeWhile_append2) auto

lemma key_of_no_eq: "CHR ''='' \<notin> set (key_of l)"
  unfolding key_of_def using set_takeWhileD by fastforce

lemma line_split: "CHR ''='' \<in> set l \<Longrightarrow> l = key_of l @ CHR ''='' # drop (length (key_of l) + 1) l"
proof (induction l)
  case (Cons c l)
  then show ?case by (cases "c = CHR ''=''") (auto simp: key_of_def)
qed simp

lemma val_of_append:
  assumes "key_ok k" and "val_ok v"
  shows "val_of (k @ CHR ''='' # v @ [NL]) = v" "val_of (k @ CHR ''='' # v) = v"
proof -
  have "\<forall>c \<in> set v. c \<noteq> NL" using assms(2) by (auto simp: val_ok_def)
  then show "val_of (k @ CHR ''='' # v @ [NL]) = v" "val_of (k @ CHR ''='' # v) = v"
    using assms(1) by (simp_all add: val_of_def key_ok_def takeWhile_append2 takeWhile_eq_all_conv)
qed

lemma entry_okE:
  assumes "entry_ok l"
  obtains "key_ok (key_of l)" "val_ok (val_of l)"
    "l = pair_text (key_of l, val_of l) @ [NL] \<or> l = pair_text (key_of l, val_of l)"
proof -
  from assms obtain k v where kv: "key_ok k" "val_ok v" "l = k @ ''='' @ v @ [NL] \<or> l = k @ ''='' @ v"
    by (auto simp: entry_ok_def)
  then have "key_of l = k" "val_of l = v" using val_of_append [OF kv(1,2)] by (auto simp: key_ok_def)
  with kv that show thesis by (simp add: pair_text_def)
qed

lemma entry_take:
  assumes "entry_ok l"
  shows "take (length (key_of l) + 1) l = key_of l @ ''=''"
proof -
  have "CHR ''='' \<in> set l" using assms by (auto simp: entry_ok_def)
  from line_split [OF this] obtain k r where l: "l = k @ CHR ''='' # r" "key_of l = k" by blast
  then show ?thesis by simp
qed

lemma entry_no_NUL: "entry_ok l \<Longrightarrow> NUL \<notin> set l"
  by (auto simp: entry_ok_def key_ok_def val_ok_def)

lemma text_line_entry:
  assumes "text_line l" and "CHR ''='' \<in> set l" and "key_ok (key_of l)"
  shows "entry_ok l"
proof -
  define r where "r = drop (length (key_of l) + 1) l"
  have l: "l = key_of l @ CHR ''='' # r" unfolding r_def using line_split [OF assms(2)] by simp
  have r: "NUL \<notin> set r" "NL \<notin> set (butlast r)"
  proof -
    have "NUL \<notin> set (key_of l @ CHR ''='' # r)" "NL \<notin> set (butlast (key_of l @ CHR ''='' # r))"
      using assms(1) l by (metis text_line_def)+
    then show "NUL \<notin> set r" "NL \<notin> set (butlast r)" by (auto simp: butlast_append split: if_splits)
  qed
  show ?thesis
  proof (cases "r \<noteq> [] \<and> last r = NL")
    case True
    then have "r = butlast r @ [NL]" by (metis append_butlast_last_id)
    moreover have "val_ok (butlast r)" using r in_set_butlastD by (fastforce simp: val_ok_def)
    ultimately show ?thesis using l assms(3) unfolding entry_ok_def by (metis append.assoc append_Cons append_Nil)
  next
    case False
    then have "val_ok r" using r by (cases r rule: rev_cases) (auto simp: val_ok_def)
    then show ?thesis using l assms(3) unfolding entry_ok_def by (metis append_Cons append_Nil)
  qed
qed

lemma check_name_key:
  assumes "envblk_check_name l (length k) = 0" and "take (length k) l = k" and "CHR ''='' \<notin> set k"
  shows "key_ok k"
proof -
  have ne: "length k \<noteq> 0" using assms(1) by (auto simp: envblk_check_name_def)
  have at: "char_at l i = k ! i" if "i < length k" for i
  proof -
    have "i < length l" using that assms(2) by (metis length_take min_less_iff_conj)
    moreover have "take (length k) l ! i = l ! i" using that by simp
    ultimately show ?thesis using assms(2) by (simp add: char_at_def)
  qed
  have ok: "c_isalpha (k ! i) \<or> c_isdigit (k ! i) \<or> k ! i = CHR ''_''" if i: "i < length k" for i
  proof (cases i)
    case 0
    then show ?thesis using assms(1) at [of 0] i by (auto simp: envblk_check_name_def split: if_splits)
  next
    case (Suc j)
    then have "i \<in> {1..<length k}" using i by simp
    moreover have "\<forall>i \<in> {1..<length k}. c_isalpha (char_at l i) \<or> c_isdigit (char_at l i) \<or> char_at l i = CHR ''_''"
      using assms(1) by (auto simp: envblk_check_name_def split: if_splits)
    ultimately show ?thesis using at [OF i] by metis
  qed
  have "\<not> (c_isalpha NL \<or> c_isdigit NL \<or> NL = CHR ''_'')" "\<not> (c_isalpha NUL \<or> c_isdigit NUL \<or> NUL = CHR ''_'')"
    by (simp_all add: c_isalpha_def c_isdigit_def)
  then have "NL \<notin> set k" "NUL \<notin> set k" using ok by (metis in_set_conv_nth)+
  then show ?thesis using ne assms(3) by (auto simp: key_ok_def)
qed

section \<open>Hash tables\<close>

lemma hash_fn_less: "hash_fn e < LINE_HASH_SIZE"
  by (simp add: hash_fn_def)

lemma hash_fn_key:
  assumes "take (length k + 1) l = k @ ''=''"
  shows "hash_fn \<lparr>prefix_of = None, str_of = l, hashed_len = length k + 1\<rparr> = hash_key k"
proof -
  have "char_at l i = char_at (k @ ''='') i" if "i < length k + 1" for i
  proof -
    have "length (take (length k + 1) l) = length k + 1" using assms by simp
    then have "i < length l" using that by simp
    moreover have "(k @ ''='') ! i = l ! i" using that nth_take [of i "length k + 1" l] unfolding assms by simp
    ultimately show ?thesis using that by (simp add: char_at_def)
  qed
  then have "map (\<lambda>i. 5 * (of_char (char_at l i) :: nat)) [0..<length k + 1] =
      map (\<lambda>i. 5 * of_char (char_at (k @ ''='') i)) [0..<length k + 1]"
    by (intro map_cong) auto
  then show ?thesis by (simp only: hash_key_def hash_fn_def estr.select_convs option.case)
qed

lemma cmp_fn_key:
  assumes "entry_ok l" and "key_ok k" and "take (length k + 1) x = k @ ''=''"
  shows "cmp_fn l \<lparr>prefix_of = None, str_of = x, hashed_len = length k + 1\<rparr> = 0 \<longleftrightarrow> key_of l = k"
proof -
  have "c_strncmp l x n = c_strncmp l (take n x) n" for l n
  proof (induction n arbitrary: l x)
    case (Suc n)
    show ?case using Suc [of "tl l" "tl x"] by (cases x) (auto simp: Let_def char_at_def)
  qed simp
  then have "cmp_fn l \<lparr>prefix_of = None, str_of = x, hashed_len = length k + 1\<rparr> = c_strncmp l (k @ ''='') (length (k @ ''=''))"
    using assms(3) by (simp add: cmp_fn_def del: c_strncmp.simps)
  then have "cmp_fn l \<lparr>prefix_of = None, str_of = x, hashed_len = length k + 1\<rparr> = 0 \<longleftrightarrow> take (length (k @ ''='')) l = k @ ''=''"
    using strncmp_prefix [of "k @ ''=''" l] assms(2) by (simp add: key_ok_def)
  also have "\<dots> \<longleftrightarrow> key_of l = k"
  proof
    assume "take (length (k @ ''='')) l = k @ ''=''"
    then have "l = k @ CHR ''='' # drop (length (k @ ''='')) l" by (metis append.assoc append_Cons append_Nil append_take_drop_id)
    then show "key_of l = k" using assms(2) key_of_append by (metis key_ok_def)
  next
    assume "key_of l = k"
    moreover have "\<exists>r. l = key_of l @ CHR ''='' # r"
      using entry_okE [OF assms(1)] by (metis append.assoc append_Cons append_Nil fst_conv pair_text_def)
    ultimately obtain r where "l = k @ CHR ''='' # r" by auto
    then show "take (length (k @ ''='')) l = k @ ''=''" by simp
  qed
  finally show ?thesis .
qed

lemma mset_concat_update:
  assumes "h < length t"
  shows "mset (concat (t[h := b])) + mset (t ! h) = mset (concat t) + mset b"
proof -
  have "concat t = concat (take h t @ t ! h # drop (Suc h) t)" using id_take_nth_drop [OF assms] by simp
  moreover have "concat (t[h := b]) = concat (take h t @ b # drop (Suc h) t)" using upd_conv_take_nth_drop [OF assms, of b] by simp
  ultimately show ?thesis by (simp add: ac_simps)
qed

lemma add_mset_concat:
  assumes "h < length t"
  shows "mset (concat (t[h := l # t ! h])) = add_mset l (mset (concat t))"
  using mset_concat_update [OF assms, of "l # t ! h"] by simp

lemma replace_mset_concat:
  assumes "h < length t" and "i < length (t ! h)"
  shows "add_mset (t ! h ! i) (mset (concat (t[h := (t ! h)[i := l]]))) = add_mset l (mset (concat t))"
proof -
  have "mset ((t ! h)[i := l]) = add_mset l (mset (t ! h) - {#t ! h ! i#})" using assms(2) by (rule mset_update)
  moreover have "t ! h ! i \<in># mset (t ! h)" using assms(2) by simp
  ultimately have "add_mset (t ! h ! i) (mset ((t ! h)[i := l])) = add_mset l (mset (t ! h))" by simp
  then have "add_mset (t ! h ! i) (mset (concat (t[h := (t ! h)[i := l]])) + mset (t ! h)) = add_mset l (mset (concat t)) + mset (t ! h)"
    unfolding mset_concat_update [OF assms(1)] by (metis union_mset_add_mset_left union_mset_add_mset_right)
  then show ?thesis by (metis add_right_cancel union_mset_add_mset_left)
qed

lemma in_table:
  assumes "length t = LINE_HASH_SIZE"
  shows "l \<in> set (concat t) \<longleftrightarrow> (\<exists>h < LINE_HASH_SIZE. l \<in> set (t ! h))"
  using assms by (auto simp: in_set_conv_nth) (metis nth_mem in_set_conv_nth)+

text \<open>Looking a name up finds its line.\<close>

lemma table_find:
  assumes "table_ok t" and "key_ok k" and "take (length k + 1) x = k @ ''=''"
  shows "case hash_table_find (Some t) \<lparr>prefix_of = None, str_of = x, hashed_len = length k + 1\<rparr> of
      None \<Rightarrow> k \<notin> key_of ` set (concat t)
    | Some (h, i) \<Rightarrow> h = hash_key k \<and> h < length t \<and> i < length (t ! h) \<and> key_of (t ! h ! i) = k"
proof -
  define e where "e = \<lparr>prefix_of = None, str_of = x, hashed_len = length k + 1\<rparr>"
  define h where "h = hash_key k"
  have hash: "hash_fn e = h" unfolding e_def h_def by (rule hash_fn_key [OF assms(3)])
  have len: "length t = LINE_HASH_SIZE" "h < LINE_HASH_SIZE"
    using assms(1) hash_fn_less [of e] hash by (auto simp: table_ok_def)
  have ok: "entry_ok l" "hash_key (key_of l) = g" if "l \<in> set (t ! g)" "g < LINE_HASH_SIZE" for l g
    using assms(1) that by (auto simp: table_ok_def)
  have cmp: "cmp_fn l e = 0 \<longleftrightarrow> key_of l = k" if "l \<in> set (t ! h)" for l
    unfolding e_def using cmp_fn_key [OF ok(1) [OF that len(2)] assms(2,3)] .
  show ?thesis
  proof (cases "find_pos (\<lambda>l. cmp_fn l e = 0) (t ! h)")
    case None
    have "k \<notin> key_of ` set (concat t)"
    proof
      assume "k \<in> key_of ` set (concat t)"
      then obtain l where "l \<in> set (concat t)" "k = key_of l" by blast
      then obtain g where l: "l \<in> set (t ! g)" "g < LINE_HASH_SIZE" "k = key_of l" using in_table [OF len(1), of l] by blast
      then have "g = h" using ok(2) [OF l(1,2)] by (simp add: h_def)
      then show False using None l cmp by (auto simp: find_pos_None)
    qed
    then show ?thesis unfolding e_def [symmetric] using None by (simp add: hash_table_find_def hash)
  next
    case (Some i)
    from find_pos_split [OF this] have "i < length (t ! h)" "key_of (t ! h ! i) = k" using cmp by auto
    then show ?thesis unfolding e_def [symmetric] using Some len by (simp add: hash_table_find_def hash h_def [symmetric])
  qed
qed

section \<open>Importing a line\<close>

text \<open>The variables of a table, and the number of bytes of its lines.\<close>

definition table_env :: "line_table \<Rightarrow> string \<rightharpoonup> string" where
  "table_env t = map_of (map (\<lambda>l. (key_of l, val_of l)) (concat t))"

definition table_bytes :: "line_table \<Rightarrow> nat" where
  "table_bytes t = sum_list (map length (concat t))"

lemma table_bytes_mset: "table_bytes t = sum_mset (image_mset length (mset (concat t)))"
  by (simp add: table_bytes_def sum_mset_sum_list [symmetric] flip: mset_map)

lemma table_env_Some:
  assumes "table_ok t"
  shows "table_env t k = Some v \<longleftrightarrow> (\<exists>l \<in> set (concat t). key_of l = k \<and> val_of l = v)"
proof -
  have "distinct (map fst (map (\<lambda>l. (key_of l, val_of l)) (concat t)))" using assms by (simp add: table_ok_def comp_def)
  then have "table_env t k = Some v \<longleftrightarrow> (k, v) \<in> set (map (\<lambda>l. (key_of l, val_of l)) (concat t))"
    unfolding table_env_def by (rule map_of_eq_Some_iff)
  then show ?thesis by auto
qed

lemma table_env_update:
  assumes "table_ok t" "table_ok t'" and "\<And>l'. l' \<in> set (concat t') \<longleftrightarrow> l' = l \<or> l' \<in> set (concat t) \<and> key_of l' \<noteq> key_of l"
  shows "table_env t' = (table_env t)(key_of l \<mapsto> val_of l)"
proof
  fix k
  have "table_env t' k = Some v \<longleftrightarrow> ((table_env t)(key_of l \<mapsto> val_of l)) k = Some v" for v
    using table_env_Some [OF assms(1), of k v] table_env_Some [OF assms(2), of k v] assms(3)
    by (cases "k = key_of l") (auto simp del: set_concat)
  then show "table_env t' k = ((table_env t)(key_of l \<mapsto> val_of l)) k" by (metis not_None_eq)
qed

lemma table_okI:
  assumes "table_ok t" and "h < LINE_HASH_SIZE" and "distinct (map key_of (concat (t[h := b])))"
    and "\<And>l. l \<in> set b \<Longrightarrow> entry_ok l \<and> hash_key (key_of l) = h"
  shows "table_ok (t[h := b])"
  using assms by (auto simp: table_ok_def nth_list_update)

lemma table_add:
  assumes "table_ok t" and "entry_ok l" and "key_of l \<notin> key_of ` set (concat t)"
  defines "t' \<equiv> hash_table_add t \<lparr>prefix_of = None, str_of = l, hashed_len = length (key_of l) + 1\<rparr>"
  shows "table_ok t'" "table_env t' = (table_env t)(key_of l \<mapsto> val_of l)" "table_bytes t' = table_bytes t + length l"
    "set (concat t') = insert l (set (concat t))"
proof -
  define h where "h = hash_key (key_of l)"
  have hl: "h < LINE_HASH_SIZE" unfolding h_def hash_key_def by (rule hash_fn_less)
  have len: "length t = LINE_HASH_SIZE" using assms(1) by (simp add: table_ok_def)
  from hash_fn_key [OF entry_take [OF assms(2)]] have t': "t' = t[h := l # t ! h]"
    using entry_no_NUL [OF assms(2)] by (simp add: t'_def hash_table_add_def h_def estr_line_def Let_def)
  have ms: "mset (concat t') = add_mset l (mset (concat t))"
    unfolding t' using hl len by (intro add_mset_concat) simp
  then show set: "set (concat t') = insert l (set (concat t))" by (metis set_mset_add_mset_insert set_mset_mset)
  have "mset (map key_of (concat t')) = mset (map key_of (l # concat t))" using ms by simp
  moreover have "distinct (map key_of (l # concat t))" using assms(1,3) by (simp add: table_ok_def del: set_concat)
  ultimately have dist: "distinct (map key_of (concat t'))" using mset_eq_imp_distinct_iff by blast
  show ok: "table_ok t'"
    unfolding t'
  proof (rule table_okI [OF assms(1) hl])
    show "distinct (map key_of (concat (t[h := l # t ! h])))" using dist by (simp only: t')
    fix x assume "x \<in> set (l # t ! h)"
    then show "entry_ok x \<and> hash_key (key_of x) = h" using assms(1,2) hl by (auto simp: table_ok_def h_def)
  qed
  show "table_env t' = (table_env t)(key_of l \<mapsto> val_of l)"
    using assms(3) set by (intro table_env_update [OF assms(1) ok]) (metis imageI insert_iff)
  show "table_bytes t' = table_bytes t + length l" using ms by (simp add: table_bytes_mset)
qed

lemma table_replace:
  assumes "table_ok t" and "entry_ok l" and "h = hash_key (key_of l)" "i < length (t ! h)" "key_of (t ! h ! i) = key_of l"
  defines "t' \<equiv> t[h := (t ! h)[i := l]]"
  shows "table_ok t'" "table_env t' = (table_env t)(key_of l \<mapsto> val_of l)"
    "table_bytes t' + length (t ! h ! i) = table_bytes t + length l"
    "set (concat t') \<subseteq> insert l (set (concat t))"
proof -
  have hl: "h < LINE_HASH_SIZE" unfolding assms(3) hash_key_def by (rule hash_fn_less)
  have len: "length t = LINE_HASH_SIZE" using assms(1) by (simp add: table_ok_def)
  have ms: "add_mset (t ! h ! i) (mset (concat t')) = add_mset l (mset (concat t))"
    unfolding t'_def using hl len assms(4) by (intro replace_mset_concat) auto
  then show sub: "set (concat t') \<subseteq> insert l (set (concat t))"
    by (metis set_mset_add_mset_insert set_mset_mset subset_insertI)
  have "add_mset (key_of l) (mset (map key_of (concat t'))) = add_mset (key_of l) (mset (map key_of (concat t)))"
    using arg_cong [OF ms, of "image_mset key_of"] assms(5) by simp
  then have keys: "mset (map key_of (concat t')) = mset (map key_of (concat t))" by simp
  then have dist: "distinct (map key_of (concat t'))"
    using mset_eq_imp_distinct_iff assms(1) by (fastforce simp: table_ok_def)
  show ok: "table_ok t'"
    unfolding t'_def
  proof (rule table_okI [OF assms(1) hl])
    show "distinct (map key_of (concat (t[h := (t ! h)[i := l]])))" using dist by (simp add: t'_def)
    fix x assume "x \<in> set ((t ! h)[i := l])"
    then have "x = l \<or> x \<in> set (t ! h)" using set_update_subset_insert by fastforce
    then show "entry_ok x \<and> hash_key (key_of x) = h" using assms(1,2,3) hl by (auto simp: table_ok_def)
  qed
  have uniq: "x = y" if "x \<in> set (concat u)" "y \<in> set (concat u)" "key_of x = key_of y" "distinct (map key_of (concat u))" for x y u
    using that by (metis distinct_map inj_on_eq_iff)
  have "l \<in> set (concat t')"
    using hl len assms(4) by (auto simp: t'_def set_update_memI intro!: bexI [of _ "(t ! h)[i := l]"])
  moreover have "t ! h ! i \<in> set (concat t)" using hl len assms(4) by (auto intro!: bexI [of _ "t ! h"])
  moreover have "x \<in> set (concat t') \<longleftrightarrow> x \<in> set (concat t)" if "key_of x \<noteq> key_of l" for x
    using arg_cong [OF ms, of "\<lambda>m. x \<in># m"] that assms(5) by auto
  ultimately show "table_env t' = (table_env t)(key_of l \<mapsto> val_of l)"
    using uniq [OF _ _ _ dist] by (intro table_env_update [OF assms(1) ok]) metis
  show "table_bytes t' + length (t ! h ! i) = table_bytes t + length l"
    using arg_cong [OF ms, of "\<lambda>m. sum_mset (image_mset length m)"] by (simp add: table_bytes_mset)
qed

lemma strchr_key:
  assumes "text_line l"
  shows "c_strchr l (CHR ''='') = (if CHR ''='' \<in> set l then Some (length (key_of l)) else None)"
proof -
  have c: "cstr l = l" using assms by (simp add: text_line_def)
  have "length (key_of l) < length l \<longleftrightarrow> CHR ''='' \<in> set l"
    by (induction l) (auto simp: key_of_def)
  then show ?thesis unfolding c_strchr_def c Let_def key_of_def by simp
qed

text \<open>One line: what happens to the table, the variables and the offset.\<close>

lemma import_one_line_cases:
  assumes "table_ok t" and "text_line l" and "2 \<le> length l" and "import_one_line l t off None = (ret, t', off')"
  shows "ret = 1 \<and> line_def l = None \<and> t' = t \<and> off' = off \<or> ret = - 22 \<and> t' = t \<or>
    (\<exists>k v. line_def l = Some (k, v) \<and> entry_ok l \<and> table_ok t' \<and> table_env t' = (table_env t)(k \<mapsto> v) \<and>
      set (concat t') \<subseteq> insert l (set (concat t)) \<and> table_bytes t' \<le> table_bytes t + length l \<and>
      (ret = 0 \<and> off' = off \<and> table_bytes t' = table_bytes t + length l \<or>
       ret = 1 \<and> off' - off = int (table_bytes t') - int (table_bytes t)))"
proof (cases "char_at l 0 = CHR ''#'' \<or> CHR ''='' \<notin> set l \<or> key_of l = []")
  case True
  then show ?thesis
    using assms(3,4) strchr_key [OF assms(2)] by (auto simp: import_one_line_def line_def_def split: if_splits)
next
  case False
  define e where "e = \<lparr>prefix_of = None, str_of = l, hashed_len = length (key_of l) + 1\<rparr>"
  have sc: "c_strchr l (CHR ''='') = Some (length (key_of l))" "length (key_of l) \<noteq> 0" "char_at l 0 \<noteq> CHR ''#''"
    using strchr_key [OF assms(2)] False by auto
  note I = assms(4) [unfolded import_one_line_def sc(1) option.case Let_def, folded e_def]
  have ld: "line_def l = Some (key_of l, val_of l)" using False assms(3) by (simp add: line_def_def)
  show ?thesis
  proof (cases "envblk_check_name l (length (key_of l)) = 0")
    case name: True
    have "take (length (key_of l)) l = key_of l" unfolding key_of_def by (metis takeWhile_eq_take)
    then have k: "key_ok (key_of l)" by (rule check_name_key [OF name _ key_of_no_eq])
    have en: "entry_ok l" using text_line_entry [OF assms(2) _ k] False by blast
    have el: "estr_line e = l" using entry_no_NUL [OF en] by (simp add: e_def estr_line_def)
    note F = table_find [OF assms(1) k entry_take [OF en], folded e_def]
    show ?thesis
    proof (cases "hash_table_find (Some t) e")
      case None
      then have nk: "key_of l \<notin> key_of ` set (concat t)" using F by (simp del: set_concat)
      have "ret = 0" "t' = hash_table_add t e" "off' = off" using I name sc(2,3) None by auto
      then show ?thesis using table_add [OF assms(1) en nk, folded e_def] ld en by (metis order_refl)
    next
      case (Some x)
      obtain h i where x: "x = (h, i)" by fastforce
      have hi: "h = hash_key (key_of l)" "i < length (t ! h)" "key_of (t ! h ! i) = key_of l" using F Some x by auto
      have old: "c_strlen (t ! h ! i) = length (t ! h ! i)"
      proof -
        have "h < LINE_HASH_SIZE" unfolding hi(1) hash_key_def by (rule hash_fn_less)
        then have "entry_ok (t ! h ! i)" using assms(1) hi(2) by (auto simp: table_ok_def)
        then show ?thesis by (simp add: c_strlen_def entry_no_NUL)
      qed
      have "ret = 1" "t' = t[h := (t ! h)[i := l]]" "off' = off - int (length (t ! h ! i)) + int (length l)"
        using I name sc(2,3) Some old el by (auto simp: x hash_entry_replace_def)
      moreover note R = table_replace [OF assms(1) en hi]
      ultimately show ?thesis using ld en by (intro disjI2) (auto simp del: set_concat)
    qed
  next
    case False
    then show ?thesis using I sc(2,3) by simp
  qed
qed

section \<open>The import loop\<close>

lemma getlines_text:
  assumes "NUL \<notin> set s"
  shows "\<forall>l \<in> set (getlines s). text_line l" "\<forall>l \<in> set (butlast (getlines s)). last l = NL"
proof -
  have "(\<forall>l \<in> set (getlines s). text_line l) \<and> (\<forall>l \<in> set (butlast (getlines s)). last l = NL) \<and> (s = [] \<longleftrightarrow> getlines s = [])"
    using assms
  proof (induction s)
    case (Cons c s)
    then have IH: "\<forall>l \<in> set (getlines s). text_line l" "\<forall>l \<in> set (butlast (getlines s)). last l = NL" "s = [] \<longleftrightarrow> getlines s = []"
      by auto
    show ?case
    proof (cases "c = NL")
      case True
      then show ?thesis using IH by (cases "getlines s") (auto simp: text_line_def)
    next
      case False
      then show ?thesis
        using IH Cons.prems by (cases "getlines s") (auto simp: text_line_def split: if_splits)
    qed
  qed simp
  then show "\<forall>l \<in> set (getlines s). text_line l" "\<forall>l \<in> set (butlast (getlines s)). last l = NL" by auto
qed

text \<open>The number of bytes that are written when the table is flushed.\<close>

definition flush_bytes :: "line_table \<Rightarrow> nat" where
  "flush_bytes t = sum_list (map (\<lambda>l. length l + (if last l = NL then 0 else 1)) (concat t))"

lemma flush_bytes_all:
  assumes "\<forall>l \<in> set (concat t). last l = NL"
  shows "flush_bytes t = table_bytes t"
proof -
  have "map (\<lambda>l. length l + (if last l = NL then 0 else 1)) (concat t) = map length (concat t)"
    using assms by (intro map_cong) auto
  then show ?thesis by (simp only: flush_bytes_def table_bytes_def)
qed

lemma flush_bytes_one:
  assumes "table_ok t" and "\<forall>x \<in> set (concat t). x = l \<or> last x = NL"
  shows "flush_bytes t \<le> table_bytes t + 1"
proof -
  have "distinct (concat t)" using assms(1) by (simp add: table_ok_def distinct_map)
  moreover have "sum_list (map (\<lambda>l. length l + (if last l = NL then 0 else 1)) xs) \<le> sum_list (map length xs) + (if l \<in> set xs then 1 else 0)"
    if "distinct xs" "\<forall>x \<in> set xs. x = l \<or> last x = NL" for xs
    using that by (induction xs) auto
  ultimately have "flush_bytes t \<le> table_bytes t + (if l \<in> set (concat t) then 1 else 0)"
    using assms(2) unfolding flush_bytes_def table_bytes_def by blast
  then show ?thesis by (simp split: if_splits)
qed

lemma flush_bytes_accept:
  assumes "table_ok t1" "set (concat t1) \<subseteq> insert l (set (concat t))" "table_bytes t1 \<le> table_bytes t + length l"
    and "\<forall>l \<in> set (concat t). last l = NL" and "int (length l) \<le> sz - int (sig_len + table_bytes t)"
    and "l ! (length l - 1) = NL \<or> int (length l) \<noteq> sz - int (sig_len + table_bytes t)" "2 \<le> length l"
  shows "int (sig_len + flush_bytes t1) \<le> sz"
proof (cases "last l = NL")
  case True
  then have "\<forall>x \<in> set (concat t1). last x = NL" using assms(2,4) by blast
  then show ?thesis using flush_bytes_all assms(3,5) by (simp del: set_concat)
next
  case False
  have "l ! (length l - 1) = last l" using assms(7) by (subst last_conv_nth) auto
  then have "int (length l) \<noteq> sz - int (sig_len + table_bytes t)" using assms(6) False by simp
  moreover have "flush_bytes t1 \<le> table_bytes t1 + 1" using flush_bytes_one [OF assms(1), of l] assms(2,4) by blast
  ultimately show ?thesis using assms(3,5) by linarith
qed

text \<open>A line that is neither too long nor too short nor a section title.\<close>

lemma import_loop_line:
  assumes "\<not> int (length l) > sz - off" "\<not> length l < 2" "check_keyword l = (KW_UNKNOWN, sid)"
    and "\<not> (l ! (length l - 1) \<noteq> NL \<and> int (length l) = sz - off)" and "import_one_line l t off None = (r, t1, o1)"
  shows "import_loop (l # ls) sz t off n NUL =
    (if r < 0 then (r, True, t1) else if r > 0 then import_loop ls sz t1 o1 n NUL
     else if n \<ge> ENVBLK_MAX_LINES then (- 22, True, t1) else import_loop ls sz t1 (o1 + int (length l)) (n + 1) NUL)"
proof -
  have "\<not> int (length l) < 2" using assms(2) by simp
  then show ?thesis
    unfolding import_loop.simps Let_def if_not_P [OF assms(1)] assms(3) if_not_P [OF assms(4)] prod.case keyword_status.case
    by (simp only: if_False simp_thms assms(5) prod.case)
qed

lemma import_line_ok:
  assumes IH: "\<And>t off n. \<lbrakk>table_ok t; int (sig_len + flush_bytes t) \<le> sz;
      ls \<noteq> [] \<Longrightarrow> (\<forall>l \<in> set (concat t). last l = NL) \<and> off = int (sig_len + table_bytes t);
      import_loop ls sz t off n NUL = (ret, flush, t')\<rbrakk> \<Longrightarrow>
      table_ok t' \<and> int (sig_len + flush_bytes t') \<le> sz \<and> (ret = 0 \<longrightarrow> flush \<and> table_env t' = table_env t ++ file_env ls)"
    and t: "table_ok t" "int (sig_len + flush_bytes t) \<le> sz" "\<forall>l \<in> set (concat t). last l = NL" "off = int (sig_len + table_bytes t)"
    and l: "text_line l" "2 \<le> length l" "ls \<noteq> [] \<Longrightarrow> last l = NL"
    and fits: "\<not> int (length l) > sz - off" and guard: "\<not> (l ! (length l - 1) \<noteq> NL \<and> int (length l) = sz - off)"
    and i: "import_one_line l t off None = (r, t1, o1)"
    and I: "(if r < 0 then (r, True, t1) else if r > 0 then import_loop ls sz t1 o1 n NUL
      else if n \<ge> ENVBLK_MAX_LINES then (- 22, True, t1) else import_loop ls sz t1 (o1 + int (length l)) (n + 1) NUL) = (ret, flush, t')"
  shows "table_ok t' \<and> int (sig_len + flush_bytes t') \<le> sz \<and> (ret = 0 \<longrightarrow> flush \<and> table_env t' = table_env t ++ file_env (l # ls))"
proof -
  consider (ignored) "r = 1" "line_def l = None" "t1 = t" "o1 = off" | (bad) "r = - 22" "t1 = t"
    | (accepted) k v where "line_def l = Some (k, v)" "table_ok t1" "table_env t1 = (table_env t)(k \<mapsto> v)"
      "set (concat t1) \<subseteq> insert l (set (concat t))" "table_bytes t1 \<le> table_bytes t + length l"
      "r = 0 \<and> o1 = off \<and> table_bytes t1 = table_bytes t + length l \<or> r = 1 \<and> o1 - off = int (table_bytes t1) - int (table_bytes t)"
    using import_one_line_cases [OF t(1) l(1,2) i] by meson
  then show ?thesis
  proof cases
    case ignored
    then show ?thesis using I IH [OF t(1,2), of off n] t(3,4) by (simp del: set_concat)
  next
    case bad
    then show ?thesis using I t(1,2) by auto
  next
    case accepted
    have fb: "int (sig_len + flush_bytes t1) \<le> sz"
      using flush_bytes_accept [OF accepted(2,4,5) t(3), of sz] fits l(2) guard t(4) by auto
    have fe: "table_env t ++ file_env (l # ls) = table_env t1 ++ file_env ls" using accepted(1,3) by simp
    have nxt: "table_ok t' \<and> int (sig_len + flush_bytes t') \<le> sz \<and> (ret = 0 \<longrightarrow> flush \<and> table_env t' = table_env t1 ++ file_env ls)"
      if o2: "o2 = int (sig_len + table_bytes t1)" and run: "import_loop ls sz t1 o2 m NUL = (ret, flush, t')" for o2 m
    proof (rule IH [OF accepted(2) fb _ run])
      assume "ls \<noteq> []"
      then show "(\<forall>l \<in> set (concat t1). last l = NL) \<and> o2 = int (sig_len + table_bytes t1)"
        using accepted(4) t(3) l(3) o2 by blast
    qed
    show ?thesis
    proof (cases "r = 0")
      case True
      have "o1 + int (length l) = int (sig_len + table_bytes t1)" using accepted(6) True t(4) by simp
      then show ?thesis using I True nxt accepted(2) fb unfolding fe by (auto split: if_splits)
    next
      case False
      then have "r = 1" "o1 = int (sig_len + table_bytes t1)" using accepted(6) t(4) by auto
      then show ?thesis using I nxt unfolding fe by auto
    qed
  qed
qed

lemma import_loop_ok:
  assumes "\<forall>l \<in> set ls. text_line l \<and> fst (check_keyword l) \<noteq> KW_VALID" and "\<forall>l \<in> set (butlast ls). last l = NL"
    and "table_ok t" and "int (sig_len + flush_bytes t) \<le> sz"
    and "ls \<noteq> [] \<Longrightarrow> (\<forall>l \<in> set (concat t). last l = NL) \<and> off = int (sig_len + table_bytes t)"
    and "import_loop ls sz t off n NUL = (ret, flush, t')"
  shows "table_ok t' \<and> int (sig_len + flush_bytes t') \<le> sz \<and> (ret = 0 \<longrightarrow> flush \<and> table_env t' = table_env t ++ file_env ls)"
  using assms
proof (induction ls arbitrary: t off n)
  case (Cons l ls)
  have l: "text_line l" "fst (check_keyword l) \<noteq> KW_VALID" using Cons.prems(1) by auto
  have ls: "\<forall>l \<in> set ls. text_line l \<and> fst (check_keyword l) \<noteq> KW_VALID" "\<forall>l \<in> set (butlast ls). last l = NL"
      "ls \<noteq> [] \<Longrightarrow> last l = NL"
    using Cons.prems(1,2) by (auto split: if_splits)
  have inv: "\<forall>l \<in> set (concat t). last l = NL" "off = int (sig_len + table_bytes t)" using Cons.prems(5) by blast+
  obtain kw sid where kw: "check_keyword l = (kw, sid)" by fastforce
  obtain r t1 o1 where i: "import_one_line l t off None = (r, t1, o1)" by (cases "import_one_line l t off None") auto
  consider (long) "int (length l) > sz - off" | (short) "\<not> int (length l) > sz - off" "length l < 2"
    | (title) "\<not> int (length l) > sz - off" "\<not> length l < 2" "kw \<noteq> KW_UNKNOWN"
    | (full) "\<not> int (length l) > sz - off" "\<not> length l < 2" "kw = KW_UNKNOWN" "l ! (length l - 1) \<noteq> NL \<and> int (length l) = sz - off"
    | (line) "\<not> int (length l) > sz - off" "\<not> length l < 2" "kw = KW_UNKNOWN" "\<not> (l ! (length l - 1) \<noteq> NL \<and> int (length l) = sz - off)"
    by blast
  then show ?case
  proof cases
    case long
    then show ?thesis using Cons.prems(3,4,6) by (auto simp: Let_def)
  next
    case short
    then have "import_loop ls sz t off n NUL = (ret, flush, t')" using Cons.prems(6) by (simp add: Let_def)
    from Cons.IH [OF ls(1,2) Cons.prems(3,4) _ this] inv show ?thesis
      using short by (simp add: line_def_def del: set_concat)
  next
    case title
    then show ?thesis using kw l(2) Cons.prems(3,4,6) by (cases kw) (auto simp: Let_def)
  next
    case full
    then show ?thesis using kw Cons.prems(3,4,6) by (auto simp: Let_def)
  next
    case line
    have "2 \<le> length l" using line(2) by simp
    note L = import_loop_line [OF line(1,2) kw [unfolded line(3)] line(4) i, of ls n]
    show ?thesis
      by (rule import_line_ok [OF Cons.IH [OF ls(1,2)] Cons.prems(3,4) inv l(1) \<open>2 \<le> length l\<close> ls(3) line(1,4) i
          trans [OF L [symmetric] Cons.prems(6)]])
  qed
qed simp

section \<open>Flushing the table\<close>

definition terminated :: "string \<Rightarrow> string" where
  "terminated l = (if last l = NL then l else l @ [NL])"

lemma flush_items_ok:
  assumes "\<forall>l \<in> set ls. l \<noteq> [] \<and> NUL \<notin> set l" and "length q = sum_list (map (\<lambda>l. length (terminated l)) ls)"
  shows "flush_items ls (p @ q @ r) (length p) = Inr (p @ concat (map terminated ls) @ r)"
  using assms
proof (induction ls arbitrary: p q)
  case (Cons l ls)
  have l: "l \<noteq> []" "cstr l = l" "c_strlen l = length l" using Cons.prems(1) by (auto simp: c_strlen_def)
  define q1 where "q1 = take (length l) q"
  define q2 where "q2 = drop (length l) q"
  have q: "q = q1 @ q2" "length q1 = length l" using Cons.prems(2) by (auto simp: q1_def q2_def terminated_def)
  have w: "buf_write (p @ q @ r) (length p) l = Inr ((p @ l) @ q2 @ r)"
    using buf_write_append [OF refl q(2), of p "q2 @ r"] q(1) by simp
  have g: "buf_get ((p @ l) @ q2 @ r) (length p + length l - 1) = Inr (last l)"
  proof -
    obtain l' c where "l = l' @ [c]" using l(1) by (metis rev_exhaust)
    then show ?thesis by (simp add: buf_get_def nth_append)
  qed
  show ?case
  proof (cases "last l = NL")
    case True
    then have t: "terminated l = l" by (simp add: terminated_def)
    have "flush_items ls ((p @ l) @ q2 @ r) (length (p @ l)) = Inr ((p @ l) @ concat (map terminated ls) @ r)"
      using Cons.prems q t by (intro Cons.IH) auto
    then show ?thesis using l w g True t by (simp add: Let_def)
  next
    case False
    then have t: "terminated l = l @ [NL]" by (simp add: terminated_def)
    have "q2 \<noteq> []" using Cons.prems(2) q t by auto
    then obtain c q3 where q2: "q2 = c # q3" by (cases q2) auto
    have w2: "buf_write ((p @ l) @ q2 @ r) (length p + length l) [NL] = Inr ((p @ l @ [NL]) @ q3 @ r)"
      using buf_write_append [of "length p + length l" "p @ l" "[c]" "[NL]" "q3 @ r"] q2 by simp
    have "flush_items ls ((p @ l @ [NL]) @ q3 @ r) (length (p @ l @ [NL])) = Inr ((p @ l @ [NL]) @ concat (map terminated ls) @ r)"
      using Cons.prems q q2 t by (intro Cons.IH) auto
    then show ?thesis using l w g w2 False t by (simp add: Let_def)
  qed
qed simp

lemma flush_items_length: "flush_items ls dst off = Inr dst' \<Longrightarrow> length dst' = length dst"
proof (induction ls arbitrary: dst off)
  case (Cons l ls)
  then show ?case by (auto simp: rbind_Inr Let_def dest!: buf_write_length split: if_splits)
qed simp

lemma entry_terminated:
  assumes "entry_ok l"
  shows "terminated l = pair_text (key_of l, val_of l) @ [NL]" "l \<noteq> []"
proof -
  from entry_okE [OF assms] have e: "key_ok (key_of l)" "val_ok (val_of l)"
      "l = pair_text (key_of l, val_of l) @ [NL] \<or> l = pair_text (key_of l, val_of l)" by blast+
  show "l \<noteq> []" using assms by (auto simp: entry_ok_def)
  have "last (pair_text (key_of l, val_of l)) \<noteq> NL"
    using pair_text_chars(1) [of "(key_of l, val_of l)"] e(1,2)
    by (metis append_is_Nil_conv fst_conv last_in_set not_Cons_self2 pair_text_def snd_conv)
  then show "terminated l = pair_text (key_of l, val_of l) @ [NL]" using e(3) by (metis last_snoc terminated_def)
qed

text \<open>Flushing a table into a blank block gives a well-formed block.\<close>

lemma flush_block:
  assumes "table_ok t" and "sig_len + flush_bytes t \<le> sig_len + n"
  defines "kvs \<equiv> map (\<lambda>l. (key_of l, val_of l)) (concat t)"
  shows "hash_table_flush t (block [] n) sig_len = Inr (block kvs (n - flush_bytes t))" "env_ok kvs" "distinct (map fst kvs)"
    "map_of kvs = table_env t"
proof -
  have ok: "entry_ok l" if "l \<in> set (concat t)" for l
  proof -
    have "length t = LINE_HASH_SIZE" using assms(1) by (simp add: table_ok_def)
    from in_table [OF this, of l] that obtain h where "h < LINE_HASH_SIZE" "l \<in> set (t ! h)" by blast
    then show ?thesis using assms(1) by (simp add: table_ok_def)
  qed
  have len: "sum_list (map (\<lambda>l. length (terminated l)) (concat t)) = flush_bytes t"
  proof -
    have "map (\<lambda>l. length (terminated l)) (concat t) = map (\<lambda>l. length l + (if last l = NL then 0 else 1)) (concat t)"
      by (intro map_cong) (auto simp: terminated_def)
    then show ?thesis by (simp only: flush_bytes_def)
  qed
  have "concat (map terminated (concat t)) = concat (map (\<lambda>l. pair_text (key_of l, val_of l) @ [NL]) (concat t))"
    using entry_terminated(1) [OF ok] by (intro arg_cong [where f = concat] map_cong refl) blast
  also have "\<dots> = render kvs" by (simp only: render_def kvs_def map_map comp_def)
  finally have r: "concat (map terminated (concat t)) = render kvs" .
  have "\<forall>l \<in> set (concat t). l \<noteq> [] \<and> NUL \<notin> set l" using ok entry_terminated(2) entry_no_NUL by blast
  moreover have "block [] n = ZIPL_ENVBLK_SIGNATURE @ replicate (flush_bytes t) NUL @ replicate (n - flush_bytes t) NUL"
    using assms(2) replicate_split [of "flush_bytes t" n NUL] by (simp add: block_def)
  ultimately show "hash_table_flush t (block [] n) sig_len = Inr (block kvs (n - flush_bytes t))"
    using flush_items_ok [of "concat t" "replicate (flush_bytes t) NUL" ZIPL_ENVBLK_SIGNATURE "replicate (n - flush_bytes t) NUL"]
    unfolding hash_table_flush_def r len by (simp add: block_def del: set_concat)
  have "key_ok (key_of l) \<and> val_ok (val_of l)" if "l \<in> set (concat t)" for l
    by (rule entry_okE [OF ok [OF that]]) simp
  then show "env_ok kvs" by (auto simp: env_ok_def kvs_def simp del: set_concat)
  show "distinct (map fst kvs)" using assms(1) by (simp add: kvs_def comp_def table_ok_def)
  show "map_of kvs = table_env t" by (simp only: table_env_def kvs_def)
qed

section \<open>Correctness of the import\<close>

text \<open>C10. Importing a text file without site sections into a blank block: no write leaves the block, whatever the
  size of the file and of its lines. The block is well formed afterwards, with every name once, and when the
  import succeeds every name has the value of its last definition in the file.\<close>

theorem envblk_import_ok:
  assumes "NUL \<notin> set content" and "\<forall>l \<in> set (getlines content). fst (check_keyword l) \<noteq> KW_VALID"
  shows "\<exists>ret kvs m. envblk_import (Some content) (block [] n) (sig_len + n) = Inr (ret, block kvs m) \<and>
    length (render kvs) + m = n \<and> env_ok kvs \<and> distinct (map fst kvs) \<and>
    (ret = 0 \<longrightarrow> map_of kvs = file_env (getlines content))"
proof -
  obtain ret flush t where r: "import_loop (getlines content) (int (sig_len + n)) empty_table (int sig_len) 0 NUL = (ret, flush, t)"
    by (cases "import_loop (getlines content) (int (sig_len + n)) empty_table (int sig_len) 0 NUL") auto
  have e: "concat empty_table = []" by (simp add: empty_table_def)
  have "table_ok empty_table" "table_env empty_table = Map.empty" "table_bytes empty_table = 0" "flush_bytes empty_table = 0"
    by (auto simp: table_ok_def table_env_def table_bytes_def flush_bytes_def e empty_table_def)
  then have t: "table_ok t" "sig_len + flush_bytes t \<le> sig_len + n" "ret = 0 \<Longrightarrow> flush \<and> table_env t = file_env (getlines content)"
    using import_loop_ok [OF _ getlines_text(2) [OF assms(1)] _ _ _ r] assms(2) getlines_text(1) [OF assms(1)] e
    by (auto simp del: set_concat)
  note F = flush_block [OF t(1,2)]
  have len: "length (block kvs m) = sig_len + length (render kvs) + m" for kvs m by (simp add: block_def)
  show ?thesis
  proof (cases flush)
    case True
    have "length (render (map (\<lambda>l. (key_of l, val_of l)) (concat t))) + (n - flush_bytes t) = n"
    proof -
      have "length (block (map (\<lambda>l. (key_of l, val_of l)) (concat t)) (n - flush_bytes t)) = length (block [] n)"
        using F(1) flush_items_length unfolding hash_table_flush_def by metis
      then show ?thesis by (simp add: len)
    qed
    moreover have "envblk_import (Some content) (block [] n) (sig_len + n) =
        Inr (ret, block (map (\<lambda>l. (key_of l, val_of l)) (concat t)) (n - flush_bytes t))"
      using F(1) r True by (simp add: envblk_import_def)
    ultimately show ?thesis using F(2-4) t(3) by metis
  next
    case False
    then have "envblk_import (Some content) (block [] n) (sig_len + n) = Inr (ret, block [] n)" "ret \<noteq> 0"
      using r t(3) by (auto simp: envblk_import_def Let_def)
    then show ?thesis by (intro exI [of _ ret] exI [of _ "[]"] exI [of _ n]) simp
  qed
qed

definition sample_file :: string where
  "sample_file = ''# comment'' @ [NL] @ ''root=/dev/sda'' @ [NL] @ ''mode=1'' @ [NL] @ ''root=/dev/sdb'' @ [NL]"

theorem envblk_import_ok_witness:
  "\<exists>ret kvs m. envblk_import (Some sample_file) (block [] 100) (sig_len + 100) = Inr (ret, block kvs m) \<and>
    length (render kvs) + m = 100 \<and> (ret = 0 \<longrightarrow> map_of kvs ''root'' = Some ''/dev/sdb'')"
proof -
  have "NUL \<notin> set sample_file" by code_simp
  moreover have "\<forall>l \<in> set (getlines sample_file). fst (check_keyword l) \<noteq> KW_VALID" by code_simp
  moreover have "file_env (getlines sample_file) ''root'' = Some ''/dev/sdb''" by code_simp
  ultimately show ?thesis using envblk_import_ok [of sample_file 100] by metis
qed


text \<open>A site number may have blanks or a sign; the character after the blank is then taken as the site.\<close>

lemma check_keyword_blank_site: "check_keyword (''[site  5]'' @ [NL]) = (KW_VALID, CHR '' '')"
  by code_simp

end
