(* ===== verification/Envblk_Sites.thy ===== *)
theory Envblk_Sites
  imports Envblk_Import
begin

text \<open>
  The variables of a site: a line whose name starts with a digit belongs to the site of that number, all
  other lines are common. Sorting the lines of a block into the tables of the sites and removing all
  lines of a site.
\<close>

section \<open>Definitions\<close>

definition name_start :: "char \<Rightarrow> bool" where
  "name_start c \<longleftrightarrow> c_isalpha c \<or> c = CHR ''_''"

definition site_key :: "string \<Rightarrow> bool" where
  "site_key k \<longleftrightarrow> (\<exists>c n. k = c # n \<and> name_start c) \<or> (\<exists>d c n. k = d # c # n \<and> c_isdigit d \<and> name_start c)"

text \<open>The lines of a table and the lines that belong to a site.\<close>

definition lines_of :: "namespaces \<Rightarrow> nat \<Rightarrow> string list" where
  "lines_of tables i = (case tables ! i of None \<Rightarrow> [] | Some t \<Rightarrow> concat t)"

definition site_char :: "nat \<Rightarrow> char" where
  "site_char i = char_of (48 + i)"

definition site_lines :: "nat \<Rightarrow> env \<Rightarrow> string list" where
  "site_lines i kvs = map (\<lambda>p. tl (pair_text p)) (filter (\<lambda>p. hd (fst p) = site_char i) kvs)"

definition tables_ok :: "namespaces \<Rightarrow> bool" where
  "tables_ok tables \<longleftrightarrow> length tables = MAX_NR_SITES + 1 \<and> (\<forall>t. Some t \<in> set tables \<longrightarrow> length t = LINE_HASH_SIZE)"

section \<open>Numbers in front of names\<close>

lemma name_start_chars:
  assumes "name_start c"
  shows "\<not> c_isspace c" "\<not> c_isdigit c" "c \<noteq> CHR ''-''" "c \<noteq> CHR ''+''" "c \<noteq> NUL"
  using assms by (auto simp: name_start_def c_isalpha_def c_isspace_def c_isdigit_def)

lemma digit_chars:
  assumes "c_isdigit d"
  shows "\<not> c_isspace d" "d \<noteq> CHR ''-''" "d \<noteq> CHR ''+''" "\<not> name_start d"
  using assms by (auto simp: name_start_def c_isalpha_def c_isspace_def c_isdigit_def)

lemma strtol_name: "name_start c \<Longrightarrow> c_strtol (c # s) = (0, 0)"
  using name_start_chars [of c] by (simp add: c_strtol_def char_at_def)

lemma strtol_digit:
  assumes "c_isdigit d" and "s = [] \<or> (\<exists>c r. s = c # r \<and> name_start c)"
  shows "c_strtol (d # s) = (of_char d - 48, 1)"
proof -
  have "takeWhile c_isdigit (d # s) = [d]" using assms name_start_chars(2) by auto
  moreover have "48 \<le> (of_char d :: int)" "(of_char d :: int) \<le> 57"
    using assms(1) of_nat_of_char [of d, where 'a = int] by (auto simp: c_isdigit_def)
  ultimately show ?thesis
    using digit_chars [OF assms(1)] by (simp add: c_strtol_def char_at_def dec_value_def)
qed

lemma site_char_digit:
  assumes "c_isdigit d"
  obtains i where "i < MAX_NR_SITES" "d = site_char i" "of_char d - 48 = int i"
proof -
  define i where "i = (of_char d :: nat) - 48"
  have "(of_char d :: nat) = 48 + i" "i < 10" using assms by (auto simp: c_isdigit_def i_def)
  moreover have "d = char_of (of_char d :: nat)" by simp
  moreover have "(of_char d :: int) = int (of_char d)" by (simp add: of_nat_of_char)
  ultimately show thesis using that [of i] by (auto simp: site_char_def)
qed

lemma site_char_inj: "i < MAX_NR_SITES \<Longrightarrow> j < MAX_NR_SITES \<Longrightarrow> site_char i = site_char j \<longleftrightarrow> i = j"
  by (auto simp: site_char_def dest: arg_cong [where f = "of_char :: char \<Rightarrow> nat"])

section \<open>Sorting lines by site\<close>

lemma lines_of_add:
  assumes "tables_ok tables" and "i \<le> MAX_NR_SITES"
  defines "t \<equiv> (case tables ! i of None \<Rightarrow> empty_table | Some t \<Rightarrow> t)"
  shows "tables_ok (tables[i := Some (hash_table_add t e)])"
    "mset (lines_of (tables[i := Some (hash_table_add t e)]) j) =
      (if j = i then add_mset (estr_line e) (mset (lines_of tables i)) else mset (lines_of tables j))"
proof -
  have i: "i < length tables" using assms(1,2) by (simp add: tables_ok_def)
  have t: "length t = LINE_HASH_SIZE"
  proof (cases "tables ! i")
    case (Some u)
    then have "Some u \<in> set tables" using i by (metis nth_mem)
    then show ?thesis using assms(1) Some by (simp add: t_def tables_ok_def)
  qed (simp add: t_def empty_table_def)
  have "length (hash_table_add t e) = LINE_HASH_SIZE" using t by (simp add: hash_table_add_def Let_def)
  then show "tables_ok (tables[i := Some (hash_table_add t e)])"
    using assms(1) set_update_subset_insert [of tables i] by (fastforce simp: tables_ok_def)
  have "mset (concat (hash_table_add t e)) = add_mset (estr_line e) (mset (concat t))"
    unfolding hash_table_add_def Let_def using t hash_fn_less [of e] by (intro add_mset_concat) simp
  moreover have "concat t = lines_of tables i"
    by (cases "tables ! i") (simp_all add: t_def lines_of_def empty_table_def)
  ultimately show "mset (lines_of (tables[i := Some (hash_table_add t e)]) j) =
      (if j = i then add_mset (estr_line e) (mset (lines_of tables i)) else mset (lines_of tables j))"
    using i by (auto simp: lines_of_def)
qed

lemma hashed_len_pair:
  assumes "CHR ''='' \<notin> set k" "NUL \<notin> set k" "val_ok v"
  shows "get_hashed_len (pair_text (k, v)) = Inr (length k + 1)" "get_key_len (pair_text (k, v)) = Inr (length k)"
    "cstr (pair_text (k, v)) = pair_text (k, v)"
proof -
  show c: "cstr (pair_text (k, v)) = pair_text (k, v)" using assms by (auto simp: pair_text_def val_ok_def intro!: cstr_id)
  have "takeWhile (\<lambda>x. x \<noteq> CHR ''='') (pair_text (k, v)) = k"
    using key_of_append [OF assms(1), of v] by (simp add: pair_text_def key_of_def)
  then show g: "get_key_len (pair_text (k, v)) = Inr (length k)"
    unfolding get_key_len_def c_strchr_def c Let_def by (simp add: pair_text_def)
  then show "get_hashed_len (pair_text (k, v)) = Inr (length k + 1)" by (simp add: get_hashed_len_def)
qed

lemma add_line_ok:
  assumes "tables_ok tables" and "key_ok k" "val_ok v" "site_key k"
  shows "\<exists>tables'. add_line_namespace tables (pair_text (k, v)) = Inr (0, tables') \<and> tables_ok tables' \<and>
    (\<forall>i < MAX_NR_SITES. mset (lines_of tables' i) = mset (lines_of tables i) + mset (site_lines i [(k, v)]))"
proof -
  consider (common) c n where "k = c # n" "name_start c" | (site) d c n where "k = d # c # n" "c_isdigit d" "name_start c"
    using assms(4) by (auto simp: site_key_def)
  then show ?thesis
  proof cases
    case common
    define e where "e = \<lparr>prefix_of = None, str_of = pair_text (k, v), hashed_len = length k + 1\<rparr>"
    have st: "c_strtol (pair_text (k, v)) = (0, 0)" using strtol_name [OF common(2)] common(1) by (simp add: pair_text_def)
    have no: "site_lines i [(k, v)] = []" if "i < MAX_NR_SITES" for i
    proof -
      have "c_isdigit (site_char i)" using that by (auto simp: c_isdigit_def site_char_def)
      then show ?thesis using name_start_chars(2) [OF common(2)] common(1) by (auto simp: site_lines_def)
    qed
    have "get_hashed_len (pair_text (k, v)) = Inr (length k + 1)" using assms(2,3) by (intro hashed_len_pair) (auto simp: key_ok_def)
    then show ?thesis
      using lines_of_add [OF assms(1), of MAX_NR_SITES e] no
      by (auto simp: add_line_namespace_def st e_def Let_def)
  next
    case site
    obtain i where i: "i < MAX_NR_SITES" "d = site_char i" "of_char d - 48 = int i" using site_char_digit [OF site(2)] by blast
    define e where "e = \<lparr>prefix_of = None, str_of = pair_text (c # n, v), hashed_len = length n + 2\<rparr>"
    have st: "c_strtol (pair_text (k, v)) = (int i, 1)"
      using strtol_digit [OF site(2), of "c # n @ ''='' @ v"] site(1,3) i(3) by (simp add: pair_text_def)
    have r: "to_int32 (int i) = int i" using i(1) by (simp add: to_int32_def)
    have dr: "drop 1 (pair_text (k, v)) = pair_text (c # n, v)" using site(1) by (simp add: pair_text_def)
    have ck: "CHR ''='' \<notin> set (c # n)" "NUL \<notin> set (c # n)" using assms(2) site(1) by (auto simp: key_ok_def)
    note H = hashed_len_pair [OF ck assms(3)]
    have sl: "site_lines j [(k, v)] = (if j = i then [pair_text (c # n, v)] else [])" if "j < MAX_NR_SITES" for j
      using site(1) i(1,2) site_char_inj [OF i(1) that] by (simp add: site_lines_def pair_text_def)
    have "estr_line e = pair_text (c # n, v)" using H(3) by (simp add: e_def estr_line_def)
    then show ?thesis
      using lines_of_add [OF assms(1), of i e] sl i(1) H(1) dr
      by (auto simp: add_line_namespace_def st r e_def Let_def)
  qed
qed

lemma scan_namespaces:
  assumes "tables_ok tables" and "env_ok kvs" "\<forall>p \<in> set kvs. site_key (fst p)"
  shows "\<exists>tables'. scan_items add_line_namespace (map pair_text kvs) tables = Inr (0, tables') \<and> tables_ok tables' \<and>
    (\<forall>i < MAX_NR_SITES. mset (lines_of tables' i) = mset (lines_of tables i) + mset (site_lines i kvs))"
  using assms
proof (induction kvs arbitrary: tables)
  case Nil
  then show ?case by (simp add: site_lines_def)
next
  case (Cons p kvs)
  obtain k v where p: "p = (k, v)" by fastforce
  from add_line_ok [OF Cons.prems(1), of k v] Cons.prems(2,3) p
  obtain t1 where t1: "add_line_namespace tables (pair_text p) = Inr (0, t1)" "tables_ok t1"
      "\<forall>i < MAX_NR_SITES. mset (lines_of t1 i) = mset (lines_of tables i) + mset (site_lines i [p])" by auto
  from Cons.IH [OF t1(2)] Cons.prems(2,3)
  obtain t2 where t2: "scan_items add_line_namespace (map pair_text kvs) t1 = Inr (0, t2)" "tables_ok t2"
      "\<forall>i < MAX_NR_SITES. mset (lines_of t2 i) = mset (lines_of t1 i) + mset (site_lines i kvs)" by auto
  have "site_lines i (p # kvs) = site_lines i [p] @ site_lines i kvs" for i by (simp add: site_lines_def)
  then show ?case using t1 t2 by auto
qed

section \<open>Removing the variables of a site\<close>

lemma length_block_del:
  "length (render (env_del k kvs)) \<le> length (render kvs)"
  by (induction k kvs rule: env_del.induct) auto

lemma length_render_filter: "length (render (filter P kvs)) \<le> length (render kvs)"
  by (induction kvs) auto

lemma filter_env_del:
  "hd k = d \<Longrightarrow> filter (\<lambda>p. hd (fst p) \<noteq> d) (env_del k kvs) = filter (\<lambda>p. hd (fst p) \<noteq> d) kvs"
  by (induction k kvs rule: env_del.induct) auto

lemma mset_env_del:
  "k \<in> fst ` set kvs \<Longrightarrow> mset (map fst kvs) = add_mset k (mset (map fst (env_del k kvs)))"
  by (induction k kvs rule: env_del.induct) auto

lemma remove_one:
  assumes "env_ok kvs" and "key_ok (d # k)" "val_ok v" "d # k \<in> fst ` set kvs" and "length b = sz" "b = block kvs n"
  shows "remove_name_value d sz b (pair_text (k, v)) =
    Inr (0, block (env_del (d # k) kvs) (n + (length (render kvs) - length (render (env_del (d # k) kvs)))))"
proof -
  have "get_key_len (pair_text (k, v)) = Inr (length k)"
    using assms(2,3) by (intro hashed_len_pair) (auto simp: key_ok_def)
  moreover have "take (length k) (pair_text (k, v)) = k" by (simp add: pair_text_def)
  moreover have "c_strlen (take sz b) = sig_len + length (render kvs)" using block_strlen [OF assms(1), of n] assms(5,6) by simp
  ultimately show ?thesis
    using unset_loop_block [of "[]" kvs "d # k" 0 n] assms(1,2,4,6) by (simp add: remove_name_value_def envblk_unset_def block_def)
qed

lemma remove_all:
  assumes "env_ok kvs" and "length (block kvs n) = sz" and "\<forall>p \<in> set ps. val_ok (snd p)"
    and "image_mset (\<lambda>p. d # fst p) (mset ps) = filter_mset (\<lambda>k. hd k = d) (mset (map fst kvs))"
  shows "scan_items (remove_name_value d sz) (map pair_text ps) (block kvs n) =
    Inr (0, block (filter (\<lambda>p. hd (fst p) \<noteq> d) kvs)
      (n + (length (render kvs) - length (render (filter (\<lambda>p. hd (fst p) \<noteq> d) kvs)))))"
  using assms
proof (induction ps arbitrary: kvs n)
  case Nil
  then have none: "filter_mset (\<lambda>k. hd k = d) (mset (map fst kvs)) = {#}" by simp
  have "hd (fst p) \<noteq> d" if "p \<in> set kvs" for p
  proof
    assume "hd (fst p) = d"
    then have "fst p \<in># filter_mset (\<lambda>k. hd k = d) (mset (map fst kvs))" using that by simp
    then show False unfolding none by simp
  qed
  then have "filter (\<lambda>p. hd (fst p) \<noteq> d) kvs = kvs" by (intro filter_True) blast
  then show ?case by simp
next
  case (Cons p ps)
  obtain k v where p: "p = (k, v)" by fastforce
  define kvs' where "kvs' = env_del (d # k) kvs"
  define n' where "n' = n + (length (render kvs) - length (render kvs'))"
  have "d # k \<in># image_mset (\<lambda>p. d # fst p) (mset (p # ps))" by (simp add: p)
  then have "d # k \<in># filter_mset (\<lambda>k. hd k = d) (mset (map fst kvs))" unfolding Cons.prems(4) .
  then have mem: "d # k \<in> fst ` set kvs" by simp
  then have "key_ok (d # k)" using Cons.prems(1) by (auto simp: env_ok_def)
  then have one: "remove_name_value d sz (block kvs n) (pair_text p) = Inr (0, block kvs' n')"
    unfolding p kvs'_def n'_def using Cons.prems(2,3) p by (intro remove_one [OF Cons.prems(1) _ _ mem]) auto
  have le: "length (render kvs') \<le> length (render kvs)" unfolding kvs'_def by (rule length_block_del)
  have sz: "length (block kvs' n') = sz" using Cons.prems(2) le by (simp add: block_def n'_def)
  have f: "filter (\<lambda>p. hd (fst p) \<noteq> d) kvs' = filter (\<lambda>p. hd (fst p) \<noteq> d) kvs"
    unfolding kvs'_def by (rule filter_env_del) simp
  have "add_mset (d # k) (image_mset (\<lambda>p. d # fst p) (mset ps)) = add_mset (d # k) (filter_mset (\<lambda>k. hd k = d) (mset (map fst kvs')))"
    using Cons.prems(4) unfolding mset_env_del [OF mem] kvs'_def by (simp add: p)
  then have ms: "image_mset (\<lambda>p. d # fst p) (mset ps) = filter_mset (\<lambda>k. hd k = d) (mset (map fst kvs'))" by simp
  have vs: "\<forall>p \<in> set ps. val_ok (snd p)" using Cons.prems(3) by simp
  have "length (render (filter (\<lambda>p. hd (fst p) \<noteq> d) kvs')) \<le> length (render kvs')"
    by (rule length_render_filter)
  then have "n' + (length (render kvs') - length (render (filter (\<lambda>p. hd (fst p) \<noteq> d) kvs))) =
      n + (length (render kvs) - length (render (filter (\<lambda>p. hd (fst p) \<noteq> d) kvs)))"
    using le unfolding n'_def f by simp
  then show ?case using Cons.IH [OF env_del_ok [OF Cons.prems(1), of "d # k", folded kvs'_def] sz vs ms] one by (simp add: f)
qed

lemma mset_map_split:
  assumes "mset ls = mset (map f qs)"
  obtains ps where "mset ps = mset qs" "ls = map f ps"
  using assms
proof (induction ls arbitrary: qs thesis)
  case (Cons l ls)
  have "l \<in> set (map f qs)" using Cons.prems(2) by (metis list.set_intros(1) mset_eq_setD)
  then obtain q where q: "q \<in> set qs" "l = f q" by auto
  have "mset ls = mset (map f (remove1 q qs))"
    using arg_cong [OF Cons.prems(2), of "\<lambda>m. m - {#f q#}"] q by (simp add: image_mset_Diff)
  then obtain ps where "mset ps = mset (remove1 q qs)" "ls = map f ps" using Cons.IH by blast
  then show ?case using Cons.prems(1) [of "q # ps"] q by simp
qed simp

text \<open>Removing the namespace of a site deletes exactly the lines whose name starts with the digit of the site,
  keeps the order of all others, and adds the bytes to the padding.\<close>

theorem envblk_remove_namespace_filter:
  assumes "env_ok kvs" and "\<forall>p \<in> set kvs. site_key (fst p)" and "length kvs \<le> ENVBLK_MAX_LINES + 1" and "c_isdigit d"
  shows "envblk_remove_namespace (block kvs n) (length (block kvs n)) d =
    Inr (0, block (filter (\<lambda>p. hd (fst p) \<noteq> d) kvs)
      (n + (length (render kvs) - length (render (filter (\<lambda>p. hd (fst p) \<noteq> d) kvs)))))"
proof -
  have t0: "tables_ok no_tables" by (auto simp: tables_ok_def no_tables_def)
  obtain i where i: "i < MAX_NR_SITES" "d = site_char i" "of_char d - 48 = int i" using site_char_digit [OF assms(4)] by blast
  obtain tables where t: "scan_items add_line_namespace (map pair_text kvs) no_tables = Inr (0, tables)" "tables_ok tables"
      "mset (lines_of tables i) = mset (site_lines i kvs)"
    using scan_namespaces [OF t0 assms(1,2)] i(1) by (auto simp: lines_of_def no_tables_def)
  have scan: "envblk_scan (block kvs n) (length (block kvs n)) add_line_namespace no_tables = Inr (0, tables)"
    using scan_loop_block [of "[]" kvs n n add_line_namespace no_tables] assms(1,3) t(1)
    by (simp add: envblk_scan_def block_def add.assoc)
  define qs where "qs = map (\<lambda>p. (tl (fst p), snd p)) (filter (\<lambda>p. hd (fst p) = d) kvs)"
  have ne: "fst p \<noteq> []" if "p \<in> set kvs" for p using assms(1) that by (auto simp: env_ok_def key_ok_def)
  have "site_lines i kvs = map pair_text qs"
    using ne by (auto simp: site_lines_def qs_def i(2) pair_text_def)
  then obtain ps where ps: "mset ps = mset qs" "lines_of tables i = map pair_text ps" using mset_map_split t(3) by metis
  have "\<forall>p \<in> set ps. val_ok (snd p)"
    using mset_eq_setD [OF ps(1)] assms(1) by (auto simp: qs_def env_ok_def)
  moreover have "image_mset (\<lambda>p. d # fst p) (mset ps) = filter_mset (\<lambda>k. hd k = d) (mset (map fst kvs))"
  proof -
    have "map (\<lambda>p. d # fst p) qs = filter (\<lambda>k. hd k = d) (map fst kvs)"
      using ne by (auto simp: qs_def filter_map comp_def)
    then show ?thesis unfolding ps(1) by (metis mset_filter mset_map)
  qed
  ultimately have "scan_items (remove_name_value d (length (block kvs n))) (lines_of tables i) (block kvs n) =
      Inr (0, block (filter (\<lambda>p. hd (fst p) \<noteq> d) kvs)
        (n + (length (render kvs) - length (render (filter (\<lambda>p. hd (fst p) \<noteq> d) kvs)))))"
    unfolding ps(2) by (rule remove_all [OF assms(1) refl])
  moreover have "hash_table_scan (tables ! i) f b = scan_items f (lines_of tables i) b" for f :: "string \<Rightarrow> string \<Rightarrow> c_fault + int \<times> string" and b
    by (cases "tables ! i") (simp_all add: hash_table_scan_def lines_of_def)
  moreover have "nat (fst (c_strtol [d])) = i" using strtol_digit [OF assms(4), of "[]"] i(3) by simp
  ultimately show ?thesis
    using t(2) i(1) by (simp add: envblk_remove_namespace_def scan tables_ok_def)
qed

theorem envblk_remove_namespace_filter_witness:
  "envblk_remove_namespace (block [(''1a'', ''x''), (''b'', ''y''), (''1c'', ''''), (''2a'', ''z'')] 3)
     (length (block [(''1a'', ''x''), (''b'', ''y''), (''1c'', ''''), (''2a'', ''z'')] 3)) (CHR ''1'') =
   Inr (0, block [(''b'', ''y''), (''2a'', ''z'')] 12)"
  using envblk_remove_namespace_filter [of "[(''1a'', ''x''), (''b'', ''y''), (''1c'', ''''), (''2a'', ''z'')]" "CHR ''1''" 3]
  by (simp add: key_ok_def val_ok_def ENVBLK_MAX_LINES_def site_key_def name_start_def c_isalpha_def c_isdigit_def)

end
