(* ===== verification/Envblk_Edit.thy ===== *)
theory Envblk_Edit
  imports Envblk_Import
begin

text \<open>
  The program zipl-editenv (\<^verbatim>\<open>zipl/src/zipl-editenv.c\<close>): its options, the operations on the installed
  environment block, and the update of the block on disk.

  \<^item> The installed block is the state \<open>string option\<close> that an invocation reads and writes; it is \<open>None\<close>
    when the bootmap file cannot be opened or read, or has no environment block.
  \<^item> An invocation gets the list of its options, as \<^verbatim>\<open>util_opt_getopt_long\<close> delivers them.
  \<^item> Memory allocation and the write to the disk succeed; help, version and messages are left out.

  The contract of a store of variables is the locale \<open>var_store\<close>; it is interpreted on sequences of
  invocations of the program.
\<close>

section \<open>Definitions\<close>

datatype op_id = INVALID_OP_ID | SET_OP_ID | UNSET_OP_ID | RESET_OP_ID | LIST_OP_ID

record zipl_envblk =
  ze_buf :: "string option"
  need_update :: bool

definition zipl_envblk_init :: zipl_envblk where
  "zipl_envblk_init = \<lparr>ze_buf = None, need_update = False\<rparr>"

text \<open>The two site options; they exclude each other.\<close>

record edit_opts =
  site_id :: "char option"
  eff_site_id :: "char option"
  opcode :: op_id
  saved_arg :: string

definition atoi_char :: "char \<Rightarrow> nat" where
  "atoi_char c = nat (fst (c_strtol [c]))"

definition do_list :: "edit_opts \<Rightarrow> string \<Rightarrow> nat \<Rightarrow> c_fault + int \<times> string list" where
  "do_list opts envblk envblk_size =
     (case (site_id opts, eff_site_id opts) of
        (Some s, Some e) \<Rightarrow> Inl Stopped
      | (Some s, None) \<Rightarrow> envblk_list_site envblk envblk_size (atoi_char s)
      | (None, Some e) \<Rightarrow> envblk_list_effective_site envblk envblk_size (atoi_char e)
      | (None, None) \<Rightarrow> envblk_list_all envblk envblk_size 0)"

text \<open>Opening the block: it is read once, and it must start with the signature.\<close>

definition envblk_open :: "string option \<Rightarrow> zipl_envblk \<Rightarrow> int \<times> zipl_envblk" where
  "envblk_open installed zeb =
     (if ze_buf zeb \<noteq> None then (0, zeb)
      else
        case installed of
          None \<Rightarrow> (- 1, zeb)
        | Some b \<Rightarrow>
            if take sig_len b \<noteq> ZIPL_ENVBLK_SIGNATURE then (- 1, zeb) else (0, zeb\<lparr>ze_buf := Some b\<rparr>))"

text \<open>The prefixed name is written into a buffer of \<^verbatim>\<open>strlen (arg) + 1\<close> bytes.\<close>

definition build_prefixed_name :: "char option \<Rightarrow> string \<Rightarrow> c_fault + string" where
  "build_prefixed_name site arg =
     (case site of
        None \<Rightarrow> Inr arg
      | Some s \<Rightarrow>
          rbind (buf_write (replicate (length arg + 1) NUL) 0 [s]) (\<lambda>name.
            rbind (buf_write name 1 (arg @ [NUL])) (\<lambda>name. Inr (cstr name))))"

definition env_list :: "string option \<Rightarrow> edit_opts \<Rightarrow> zipl_envblk \<Rightarrow> c_fault + int \<times> zipl_envblk \<times> string list" where
  "env_list installed opts zeb =
     (let (rc, zeb) = envblk_open installed zeb
      in if rc \<noteq> 0 then Inr (- 1, zeb, [])
         else rbind (do_list opts (the (ze_buf zeb)) (c_strlen (the (ze_buf zeb)))) (\<lambda>(ret, out). Inr (ret, zeb, out)))"

definition env_set :: "string option \<Rightarrow> edit_opts \<Rightarrow> zipl_envblk \<Rightarrow> string \<Rightarrow> c_fault + int \<times> zipl_envblk" where
  "env_set installed opts zeb arg =
     (let (rc, zeb) = envblk_open installed zeb
      in if rc \<noteq> 0 then Inr (- 1, zeb)
         else rbind (build_prefixed_name (site_id opts) arg) (\<lambda>pname.
           case c_strchr pname (CHR ''='') of
             None \<Rightarrow> Inr (- 1, zeb)
           | Some p \<Rightarrow>
               if p = 0 then Inr (- 1, zeb)
               else
                 (let name = take p pname;
                      value = drop (p + 1) pname;
                      plain = (if site_id opts = None then name else tl name)
                  in if envblk_check_name plain (length plain) \<noteq> 0 then Inr (- 1, zeb)
                     else rbind (envblk_set (the (ze_buf zeb)) (length (the (ze_buf zeb))) name value) (\<lambda>(rc, b).
                       if rc = 0 then Inr (0, zeb\<lparr>ze_buf := Some b, need_update := True\<rparr>) else Inr (- 1, zeb)))))"

definition env_unset :: "string option \<Rightarrow> edit_opts \<Rightarrow> zipl_envblk \<Rightarrow> string \<Rightarrow> c_fault + int \<times> zipl_envblk" where
  "env_unset installed opts zeb arg =
     (let (rc, zeb) = envblk_open installed zeb
      in if rc \<noteq> 0 then Inr (- 1, zeb)
         else if c_strchr arg (CHR ''='') \<noteq> None then Inr (- 1, zeb)
         else rbind (build_prefixed_name (site_id opts) arg) (\<lambda>pname.
           rbind (envblk_unset (the (ze_buf zeb)) (c_strlen (the (ze_buf zeb))) pname) (\<lambda>(rc, b).
             if rc = 0 then Inr (0, zeb\<lparr>ze_buf := Some b, need_update := True\<rparr>) else Inr (- 1, zeb))))"

text \<open>The result of \<^verbatim>\<open>envblk_remove_namespace\<close> is ignored.\<close>

definition env_reset :: "string option \<Rightarrow> edit_opts \<Rightarrow> zipl_envblk \<Rightarrow> c_fault + int \<times> zipl_envblk" where
  "env_reset installed opts zeb =
     (let (rc, zeb) = envblk_open installed zeb
      in if rc \<noteq> 0 then Inr (- 1, zeb)
         else
           rbind (case site_id opts of
               Some s \<Rightarrow> rbind (envblk_remove_namespace (the (ze_buf zeb)) (length (the (ze_buf zeb))) s) (\<lambda>(rc, b). Inr b)
             | None \<Rightarrow> envblk_blank (the (ze_buf zeb)) (length (the (ze_buf zeb)))) (\<lambda>b.
             Inr (0, zeb\<lparr>ze_buf := Some b, need_update := True\<rparr>)))"

definition save_op :: "edit_opts \<Rightarrow> op_id \<Rightarrow> int \<times> edit_opts" where
  "save_op opts src = (if opcode opts \<noteq> INVALID_OP_ID then (- 22, opts) else (0, opts\<lparr>opcode := src\<rparr>))"

definition save_op_arg :: "edit_opts \<Rightarrow> op_id \<Rightarrow> string \<Rightarrow> int \<times> edit_opts" where
  "save_op_arg opts src src_arg =
     (let (ret, opts) = save_op opts src in if ret \<noteq> 0 then (ret, opts) else (0, opts\<lparr>saved_arg := src_arg\<rparr>))"

definition set_site_id_common :: "string \<Rightarrow> int + char" where
  "set_site_id_common arg =
     (let (val, n) = c_strtol arg
      in if n = 0 \<or> char_at arg n \<noteq> NUL then Inl (- 22)
         else if val < 0 \<or> val > 9 then Inl (- 22)
         else if n > 1 then Inl (- 22)
         else Inr (char_at arg 0))"

definition set_site_id :: "edit_opts \<Rightarrow> string \<Rightarrow> int \<times> edit_opts" where
  "set_site_id opts arg =
     (if eff_site_id opts \<noteq> None then (- 22, opts)
      else case set_site_id_common arg of Inl e \<Rightarrow> (e, opts) | Inr s \<Rightarrow> (0, opts\<lparr>site_id := Some s\<rparr>))"

definition set_effective_site_id :: "edit_opts \<Rightarrow> string \<Rightarrow> int \<times> edit_opts" where
  "set_effective_site_id opts arg =
     (if site_id opts \<noteq> None then (- 22, opts)
      else case set_site_id_common arg of Inl e \<Rightarrow> (e, opts) | Inr s \<Rightarrow> (0, opts\<lparr>eff_site_id := Some s\<rparr>))"

text \<open>The options \<^verbatim>\<open>-S\<close>, \<^verbatim>\<open>-E\<close>, \<^verbatim>\<open>-r\<close>, \<^verbatim>\<open>-l\<close>, \<^verbatim>\<open>-s\<close> and \<^verbatim>\<open>-u\<close>; any other one is an error.\<close>

datatype edit_opt = Opt_S string | Opt_E string | Opt_r | Opt_l | Opt_s string | Opt_u string | Opt_bad

fun parse_opts :: "edit_opt list \<Rightarrow> edit_opts \<Rightarrow> int \<times> edit_opts" where
  "parse_opts [] opts = (0, opts)"
| "parse_opts (c # cs) opts =
     (let (ret, opts) =
        (case c of
           Opt_S a \<Rightarrow> set_site_id opts a
         | Opt_E a \<Rightarrow> set_effective_site_id opts a
         | Opt_r \<Rightarrow> save_op opts RESET_OP_ID
         | Opt_l \<Rightarrow> save_op opts LIST_OP_ID
         | Opt_s a \<Rightarrow> save_op_arg opts SET_OP_ID a
         | Opt_u a \<Rightarrow> save_op_arg opts UNSET_OP_ID a
         | Opt_bad \<Rightarrow> (- 1, opts))
      in if ret \<noteq> 0 then (ret, opts) else parse_opts cs opts)"

text \<open>One invocation: the exit status, the installed block afterwards and the lines printed.\<close>

definition edit_main :: "edit_opt list \<Rightarrow> string option \<Rightarrow> c_fault + bool \<times> string option \<times> string list" where
  "edit_main args installed =
     (let zeb = zipl_envblk_init;
          (ret, opts) = parse_opts args \<lparr>site_id = None, eff_site_id = None, opcode = INVALID_OP_ID, saved_arg = ''''\<rparr>
      in if ret \<noteq> 0 then Inr (False, installed, [])
         else rbind (case opcode opts of
               SET_OP_ID \<Rightarrow> rbind (env_set installed opts zeb (saved_arg opts)) (\<lambda>(ret, zeb). Inr (ret, zeb, []))
             | UNSET_OP_ID \<Rightarrow> rbind (env_unset installed opts zeb (saved_arg opts)) (\<lambda>(ret, zeb). Inr (ret, zeb, []))
             | RESET_OP_ID \<Rightarrow> rbind (env_reset installed opts zeb) (\<lambda>(ret, zeb). Inr (ret, zeb, []))
             | LIST_OP_ID \<Rightarrow> env_list installed opts zeb
             | INVALID_OP_ID \<Rightarrow> Inr (0, zeb, [])) (\<lambda>(ret, zeb, out).
           if need_update zeb then Inr (True, ze_buf zeb, out) else Inr (ret = 0, installed, out)))"

section \<open>Sequences of commands\<close>

text \<open>A command sets a variable to a value, or removes it.\<close>

type_synonym env_cmd = "string \<times> string option"

definition env_cmd_step :: "env_cmd \<Rightarrow> env \<Rightarrow> env" where
  "env_cmd_step c kvs = (case snd c of Some v \<Rightarrow> env_put (fst c) v kvs | None \<Rightarrow> env_del (fst c) kvs)"

fun run_cmds :: "(string \<Rightarrow> string \<Rightarrow> 'b \<Rightarrow> 'b option) \<Rightarrow> (string \<Rightarrow> 'b \<Rightarrow> 'b option) \<Rightarrow> env_cmd list \<Rightarrow> 'b \<Rightarrow> 'b option" where
  "run_cmds put del [] b = Some b"
| "run_cmds put del (c # cs) b =
     Option.bind (case snd c of Some v \<Rightarrow> put (fst c) v b | None \<Rightarrow> del (fst c) b) (run_cmds put del cs)"

text \<open>The variables after a sequence of commands: the last command for a name decides.\<close>

definition last_cmd :: "env_cmd list \<Rightarrow> string \<Rightarrow> string option option" where
  "last_cmd cs k = map_of (rev cs) k"

locale var_store =
  fixes rep :: "'b \<Rightarrow> env \<Rightarrow> bool"
    and put :: "string \<Rightarrow> string \<Rightarrow> 'b \<Rightarrow> 'b option"
    and del :: "string \<Rightarrow> 'b \<Rightarrow> 'b option"
  assumes put_rep: "rep b kvs \<Longrightarrow> key_ok k \<Longrightarrow> val_ok v \<Longrightarrow> length kvs < ENVBLK_MAX_LINES \<Longrightarrow> put k v b = Some b' \<Longrightarrow>
      rep b' (env_put k v kvs)"
    and del_rep: "rep b kvs \<Longrightarrow> key_ok k \<Longrightarrow> del k b = Some b' \<Longrightarrow> rep b' (env_del k kvs)"
begin

lemma run_rep:
  assumes "rep b kvs" and "\<forall>c \<in> set cs. key_ok (fst c) \<and> (\<forall>v. snd c = Some v \<longrightarrow> val_ok v)"
    and "length kvs + length cs \<le> ENVBLK_MAX_LINES" and "run_cmds put del cs b = Some b'"
  shows "rep b' (fold env_cmd_step cs kvs)"
  using assms
proof (induction cs arbitrary: b kvs)
  case (Cons c cs)
  have len: "length (env_cmd_step c kvs) \<le> length kvs + 1"
  proof -
    have "length (env_put k v kvs) \<le> length kvs + 1" "length (env_del k kvs) \<le> length kvs" for k v
      by (induction kvs) (auto split: if_splits)
    then show ?thesis by (simp add: env_cmd_step_def le_SucI split: option.split)
  qed
  obtain b1 where b1: "(case snd c of Some v \<Rightarrow> put (fst c) v b | None \<Rightarrow> del (fst c) b) = Some b1" "run_cmds put del cs b1 = Some b'"
    using Cons.prems(4) by (auto simp: bind_eq_Some_conv)
  have "rep b1 (env_cmd_step c kvs)"
    using Cons.prems(1-3) b1(1) put_rep [of b kvs "fst c" _ b1] del_rep [of b kvs "fst c" b1]
    by (auto simp: env_cmd_step_def split: option.splits)
  from Cons.IH [OF this] Cons.prems(2,3) b1(2) len show ?case by simp
qed simp

end

lemma map_of_env_del:
  assumes "distinct (map fst kvs)"
  shows "map_of (env_del k kvs) = (map_of kvs)(k := None)"
  using assms
proof (induction k kvs rule: env_del.induct)
  case (2 k a b kvs)
  then show ?case by (cases "a = k") (auto simp: fun_eq_iff map_of_eq_None_iff [symmetric] dest: map_of_SomeD)
qed auto

lemma env_del_keys: "fst ` set (env_del k kvs) \<subseteq> fst ` set kvs"
  by (induction k kvs rule: env_del.induct) auto

lemma env_del_distinct: "distinct (map fst kvs) \<Longrightarrow> distinct (map fst (env_del k kvs))"
proof (induction k kvs rule: env_del.induct)
  case (2 k a b kvs)
  then show ?case using env_del_keys [of k kvs] by auto
qed simp

lemma fold_cmds_lookup:
  assumes "distinct (map fst kvs)"
  shows "map_of (fold env_cmd_step cs kvs) k = (case last_cmd cs k of Some r \<Rightarrow> r | None \<Rightarrow> map_of kvs k)"
proof -
  have "distinct (map fst (fold env_cmd_step cs kvs)) \<and>
      map_of (fold env_cmd_step cs kvs) k = (case last_cmd cs k of Some r \<Rightarrow> r | None \<Rightarrow> map_of kvs k)" for cs
  proof (induction cs rule: rev_induct)
    case (snoc c cs)
    have "last_cmd (cs @ [c]) k = (if k = fst c then Some (snd c) else last_cmd cs k)"
      by (cases c) (simp add: last_cmd_def)
    moreover have "map_of (env_cmd_step c xs) k = (if k = fst c then snd c else map_of xs k)" "distinct (map fst (env_cmd_step c xs))"
      if "distinct (map fst xs)" for xs
      using that env_put_distinct env_del_distinct map_of_env_del [OF that]
      by (auto simp: env_cmd_step_def env_put_lookup split: option.split)
    ultimately show ?case using snoc by simp
  qed (simp add: last_cmd_def assms)
  then show ?thesis by blast
qed

section \<open>Invocations of the program\<close>

definition edit_rep :: "string \<Rightarrow> env \<Rightarrow> bool" where
  "edit_rep b kvs \<longleftrightarrow> env_ok kvs \<and> (\<exists>n. b = block kvs n)"

text \<open>\<^verbatim>\<open>zipl-editenv -s NAME=VALUE\<close> and \<^verbatim>\<open>zipl-editenv -u NAME\<close>, when they exit successfully.\<close>

definition edit_run :: "edit_opt \<Rightarrow> string \<Rightarrow> string option" where
  "edit_run c b = (case edit_main [c] (Some b) of Inr (True, b', out) \<Rightarrow> b' | _ \<Rightarrow> None)"

definition edit_put :: "string \<Rightarrow> string \<Rightarrow> string \<Rightarrow> string option" where
  "edit_put k v = edit_run (Opt_s (k @ ''='' @ v))"

definition edit_del :: "string \<Rightarrow> string \<Rightarrow> string option" where
  "edit_del k = edit_run (Opt_u k)"

lemma block_signature: "take sig_len (block kvs n) = ZIPL_ENVBLK_SIGNATURE"
  by (simp add: block_def)

lemma edit_put_set:
  assumes "key_ok k" "val_ok v"
  shows "edit_put k v (block kvs n) = Some b' \<longleftrightarrow>
    envblk_check_name k (length k) = 0 \<and> envblk_set (block kvs n) (length (block kvs n)) k v = Inr (0, b')"
proof -
  have "cstr (k @ ''='' @ v) = k @ ''='' @ v" using assms(1,2) by (intro cstr_id) (auto simp: key_ok_def val_ok_def)
  moreover have "takeWhile (\<lambda>c. c \<noteq> CHR ''='') (k @ ''='' @ v) = k"
    using key_of_append [of k v] assms(1) by (simp add: key_of_def key_ok_def)
  ultimately have c: "c_strchr (k @ ''='' @ v) (CHR ''='') = Some (length k)" by (simp add: c_strchr_def Let_def)
  have "env_set (Some (block kvs n)) \<lparr>site_id = None, eff_site_id = None, opcode = SET_OP_ID, saved_arg = k @ ''='' @ v\<rparr>
      zipl_envblk_init (k @ ''='' @ v) =
    (if k = [] \<or> envblk_check_name k (length k) \<noteq> 0 then Inr (- 1, \<lparr>ze_buf = Some (block kvs n), need_update = False\<rparr>)
     else case envblk_set (block kvs n) (length (block kvs n)) k v of
         Inl e \<Rightarrow> Inl e
       | Inr (rc, b) \<Rightarrow> if rc = 0 then Inr (0, \<lparr>ze_buf = Some b, need_update = True\<rparr>)
           else Inr (- 1, \<lparr>ze_buf = Some (block kvs n), need_update = False\<rparr>))"
    using c by (cases "envblk_set (block kvs n) (length (block kvs n)) k v")
      (auto simp: env_set_def envblk_open_def zipl_envblk_init_def block_signature build_prefixed_name_def Let_def)
  then show ?thesis
    using assms(1) by (cases "envblk_set (block kvs n) (length (block kvs n)) k v")
      (auto simp: edit_put_def edit_run_def edit_main_def save_op_arg_def save_op_def Let_def zipl_envblk_init_def key_ok_def
        split: if_splits)
qed

lemma edit_del_unset:
  assumes "env_ok kvs" "key_ok k"
  shows "edit_del k (block kvs n) = Some b' \<longleftrightarrow>
    k \<in> fst ` set kvs \<and> b' = block (env_del k kvs) (n + (length (render kvs) - length (render (env_del k kvs))))"
proof -
  have "cstr k = k" using assms(2) by (intro cstr_id) (simp add: key_ok_def)
  moreover have "takeWhile (\<lambda>c. c \<noteq> CHR ''='') k = k"
    using assms(2) by (intro takeWhile_eq_all_conv [THEN iffD2]) (auto simp: key_ok_def)
  ultimately have c: "c_strchr k (CHR ''='') = None" by (simp only: c_strchr_def Let_def if_False less_irrefl)
  have len: "c_strlen (block kvs n) = sig_len + length (render kvs)"
    using block_strlen [OF assms(1), of n] by simp
  have u: "envblk_unset (block kvs n) (sig_len + length (render kvs)) k =
    (if k \<in> fst ` set kvs
     then Inr (0, block (env_del k kvs) (n + (length (render kvs) - length (render (env_del k kvs))))) else Inr (- 1, block kvs n))"
    using unset_loop_block [of "[]" kvs k 0 n] assms(1,2) by (simp add: envblk_unset_def block_def)
  have "env_unset (Some (block kvs n)) \<lparr>site_id = None, eff_site_id = None, opcode = UNSET_OP_ID, saved_arg = k\<rparr> zipl_envblk_init k =
    (if k \<in> fst ` set kvs
     then Inr (0, \<lparr>ze_buf = Some (block (env_del k kvs) (n + (length (render kvs) - length (render (env_del k kvs))))), need_update = True\<rparr>)
     else Inr (- 1, \<lparr>ze_buf = Some (block kvs n), need_update = False\<rparr>))"
    using c u by (auto simp: env_unset_def envblk_open_def zipl_envblk_init_def block_signature build_prefixed_name_def Let_def len)
  then show ?thesis
    by (auto simp: edit_del_def edit_run_def edit_main_def save_op_arg_def save_op_def Let_def zipl_envblk_init_def
        split: if_splits)
qed

interpretation edit: var_store edit_rep edit_put edit_del
proof
  fix b kvs k v b'
  assume r: "edit_rep b kvs" and k: "key_ok k" and v: "val_ok v" and len: "length kvs < ENVBLK_MAX_LINES" and p: "edit_put k v b = Some b'"
  from r obtain n where n: "env_ok kvs" "b = block kvs n" by (auto simp: edit_rep_def)
  from p [unfolded n(2) edit_put_set [OF k v]] have "\<exists>m. b' = block (env_put k v kvs) m"
    unfolding envblk_set_block [OF n(1) k len] by (auto simp: Let_def split: if_splits)
  then show "edit_rep b' (env_put k v kvs)" using env_put_ok [OF n(1) k v] by (auto simp: edit_rep_def)
next
  fix b kvs k b'
  assume r: "edit_rep b kvs" and k: "key_ok k" and p: "edit_del k b = Some b'"
  from r obtain n where n: "env_ok kvs" "b = block kvs n" by (auto simp: edit_rep_def)
  from p [unfolded n(2) edit_del_unset [OF n(1) k]] show "edit_rep b' (env_del k kvs)"
    using env_del_ok [OF n(1)] by (auto simp: edit_rep_def)
qed

section \<open>Correctness of the program\<close>





end
