(* ===== verification/Boot_Libc.thy ===== *)
theory Boot_Libc
  imports C_Strings
begin

text \<open>
  The C library of the boot loader (\<^verbatim>\<open>src/zipl/boot/libc.c\<close>) and its number parser
  (\<^verbatim>\<open>src/zipl/boot/ebcdic.c\<close>).

  A memory region is a list of characters and a pointer a position in it; the two regions of \<^verbatim>\<open>memcpy\<close>
  and \<^verbatim>\<open>strcpy\<close> are different objects, those of \<^verbatim>\<open>memmove\<close> the same. An access outside of the region is
  the fault \<open>BufferOverrun\<close>, and \<^verbatim>\<open>libc_stop\<close> is \<open>Stopped\<close>. The loader is compiled for the execution
  character set IBM-1047, so that its character constants are EBCDIC codes: the digits are 0xF0 to 0xF9,
  \<^verbatim>\<open>a\<close> to \<^verbatim>\<open>f\<close> are 0x81 to 0x86, and the percent sign, full stop, blank, \<^verbatim>\<open>l\<close>, \<^verbatim>\<open>o\<close>, \<^verbatim>\<open>s\<close>, \<^verbatim>\<open>u\<close> and
  \<^verbatim>\<open>x\<close> are 0x6C, 0x4B, 0x40, 0x93, 0x96, 0xA2, 0xA4 and 0xA7.

  The lemmas show that the copy loops move their region as it was before, that the string functions
  compute what their C counterparts do, that \<^verbatim>\<open>vsnprintf\<close> truncates an unbounded rendering, which numbers
  \<^verbatim>\<open>ebcdic_strtoul\<close> reads, and that the page allocator hands out a page once.
\<close>

section \<open>Memory and strings\<close>

definition store :: "string \<Rightarrow> nat \<Rightarrow> char \<Rightarrow> c_fault + string" where
  "store m p c = (if p < length m then Inr (m[p := c]) else Inl BufferOverrun)"

fun memset :: "string \<Rightarrow> nat \<Rightarrow> char \<Rightarrow> nat \<Rightarrow> c_fault + string" where
  "memset m s c 0 = Inr m"
| "memset m s c (Suc n) = rbind (store m s c) (\<lambda>m. memset m (s + 1) c n)"

fun memcpy :: "string \<Rightarrow> nat \<Rightarrow> string \<Rightarrow> nat \<Rightarrow> nat \<Rightarrow> c_fault + string" where
  "memcpy m d src s 0 = Inr m"
| "memcpy m d src s (Suc n) =
     rbind (buf_get src s) (\<lambda>x. rbind (store m d x) (\<lambda>m. memcpy m (d + 1) src (s + 1) n))"

text \<open>The two loops of \<^verbatim>\<open>memmove\<close>, from the end and from the start of the region.\<close>

fun move_down :: "string \<Rightarrow> nat \<Rightarrow> nat \<Rightarrow> nat \<Rightarrow> c_fault + string" where
  "move_down m d s 0 = Inr m"
| "move_down m d s (Suc n) =
     rbind (buf_get m (s + n)) (\<lambda>x. rbind (store m (d + n) x) (\<lambda>m. move_down m d s n))"

fun move_up :: "string \<Rightarrow> nat \<Rightarrow> nat \<Rightarrow> nat \<Rightarrow> c_fault + string" where
  "move_up m d s 0 = Inr m"
| "move_up m d s (Suc n) =
     rbind (buf_get m s) (\<lambda>x. rbind (store m d x) (\<lambda>m. move_up m (d + 1) (s + 1) n))"

definition memmove :: "string \<Rightarrow> nat \<Rightarrow> nat \<Rightarrow> nat \<Rightarrow> c_fault + string" where
  "memmove m d s n = (if s < d then move_down m d s n else move_up m d s n)"

lemma store_length: "store m p c = Inr m' \<Longrightarrow> length m' = length m"
  by (auto simp: store_def split: if_splits)

function strcpy :: "string \<Rightarrow> nat \<Rightarrow> string \<Rightarrow> nat \<Rightarrow> c_fault + string" where
  "strcpy m d src s =
     rbind (buf_get src s) (\<lambda>c.
       if c \<noteq> NUL then rbind (store m d c) (\<lambda>m. strcpy m (d + 1) src (s + 1)) else store m d NUL)"
  by pat_completeness auto
termination
  by (relation "measure (\<lambda>(m, d, src, s). length src - s)") (auto simp: buf_get_def split: if_splits)

function strlen :: "string \<Rightarrow> nat \<Rightarrow> c_fault + nat" where
  "strlen m s = rbind (buf_get m s) (\<lambda>c. if c \<noteq> NUL then rbind (strlen m (s + 1)) (\<lambda>n. Inr (n + 1)) else Inr 0)"
  by pat_completeness auto
termination
  by (relation "measure (\<lambda>(m, s). length m - s)") (auto simp: buf_get_def split: if_splits)

definition strlcpy :: "string \<Rightarrow> nat \<Rightarrow> string \<Rightarrow> nat \<Rightarrow> nat \<Rightarrow> c_fault + string \<times> nat" where
  "strlcpy m d src s sz =
     rbind (strlen src s) (\<lambda>str_len.
       if sz \<noteq> 0 then
         let len = min (sz - 1) str_len
         in rbind (memcpy m d src s len) (\<lambda>m. rbind (store m (d + len) NUL) (\<lambda>m. Inr (m, str_len)))
       else Inr (m, str_len))"

definition strcat :: "string \<Rightarrow> nat \<Rightarrow> string \<Rightarrow> nat \<Rightarrow> c_fault + string" where
  "strcat m d src s = rbind (strlen m d) (\<lambda>n. strcpy m (d + n) src s)"

text \<open>This \<^verbatim>\<open>strncmp\<close> does not stop at the end of the strings.\<close>

fun strncmp :: "string \<Rightarrow> nat \<Rightarrow> string \<Rightarrow> nat \<Rightarrow> nat \<Rightarrow> c_fault + int" where
  "strncmp a i b j 0 = Inr 0"
| "strncmp a i b j (Suc n) =
     rbind (buf_get a i) (\<lambda>x. rbind (buf_get b j) (\<lambda>y.
       if x \<noteq> y then Inr (of_char x - of_char y) else strncmp a (i + 1) b (j + 1) n))"

function strchr :: "string \<Rightarrow> nat \<Rightarrow> char \<Rightarrow> c_fault + nat option" where
  "strchr m s c =
     rbind (buf_get m s) (\<lambda>x.
       if x \<noteq> NUL then if x = c then Inr (Some s) else strchr m (s + 1) c else Inr None)"
  by pat_completeness auto
termination
  by (relation "measure (\<lambda>(m, s, c). length m - s)") (auto simp: buf_get_def split: if_splits)

declare strcpy.simps [simp del] strlen.simps [simp del] strchr.simps [simp del]

function strhash_loop :: "string \<Rightarrow> nat \<Rightarrow> u32 \<Rightarrow> c_fault + u32" where
  "strhash_loop m s acc =
     rbind (buf_get m s) (\<lambda>x. if x \<noteq> NUL then strhash_loop m (s + 1) (acc + 5 * of_char x) else Inr acc)"
  by pat_completeness auto
termination
  by (relation "measure (\<lambda>(m, s, acc). length m - s)") (auto simp: buf_get_def split: if_splits)

declare strhash_loop.simps [simp del]

definition strhash :: "string \<Rightarrow> nat \<Rightarrow> char option \<Rightarrow> nat \<Rightarrow> c_fault + nat" where
  "strhash m str prefix hash_size =
     rbind (strhash_loop m str (case prefix of None \<Rightarrow> 0 | Some p \<Rightarrow> 5 * of_char p)) (\<lambda>acc.
       Inr (unat (acc mod of_nat hash_size)))"

section \<open>Numbers\<close>

definition ebcdic_isdigit :: "char \<Rightarrow> bool" where
  "ebcdic_isdigit c \<longleftrightarrow> 0xF0 \<le> (of_char c :: nat) \<and> (of_char c :: nat) \<le> 0xF9"

text \<open>The value and the position of \<^verbatim>\<open>endptr\<close>, which is not updated in case of an overflow.\<close>

function strtoul_loop :: "string \<Rightarrow> nat \<Rightarrow> u64 \<Rightarrow> u64 \<Rightarrow> c_fault + u64 \<times> nat option" where
  "strtoul_loop m nptr base val =
     rbind (buf_get m nptr) (\<lambda>c.
       if ebcdic_isdigit c then
         let val = (if val \<noteq> 0 then val * base else val); d = of_char c - 0xF0
         in if 2 ^ 64 \<le> unat val + unat d then Inr (0xFFFFFFFFFFFFFFFF, None)
            else strtoul_loop m (nptr + 1) base (val + d)
       else Inr (val, Some nptr))"
  by pat_completeness auto
termination
  by (relation "measure (\<lambda>(m, s, base, val). length m - s)") (auto simp: buf_get_def split: if_splits)

declare strtoul_loop.simps [simp del]

definition ebcdic_strtoul :: "string \<Rightarrow> nat \<Rightarrow> u64 \<Rightarrow> c_fault + u64 \<times> nat option" where
  "ebcdic_strtoul m nptr base = strtoul_loop m nptr base 0"

section \<open>Pages and program checks\<close>

text \<open>
  The heap between \<^verbatim>\<open>__heap_start\<close> and \<^verbatim>\<open>__heap_stop\<close>, its memory as a list of pages, and the vector of
  pages in use.
\<close>

abbreviation PAGE_SIZE :: nat where
  "PAGE_SIZE \<equiv> 4096"

abbreviation MEM_ALLOC_MAX :: nat where
  "MEM_ALLOC_MAX \<equiv> 4"

record heap =
  heap_start :: nat
  heap_stop :: nat
  heap_mem :: "string list"
  mem_page_alloc_vec :: "bool list"

definition page_count :: "heap \<Rightarrow> nat" where
  "page_count h = min MEM_ALLOC_MAX ((heap_stop h - heap_start h) div PAGE_SIZE)"

fun zeroed_page_loop :: "heap \<Rightarrow> nat \<Rightarrow> nat \<Rightarrow> c_fault + nat \<times> heap" where
  "zeroed_page_loop h i 0 = Inl Stopped"
| "zeroed_page_loop h i (Suc n) =
     (if mem_page_alloc_vec h ! i then zeroed_page_loop h (i + 1) n
      else Inr (heap_start h + i * PAGE_SIZE,
                h\<lparr>heap_mem := (heap_mem h)[i := replicate PAGE_SIZE NUL],
                  mem_page_alloc_vec := (mem_page_alloc_vec h)[i := True]\<rparr>))"

definition get_zeroed_page :: "heap \<Rightarrow> c_fault + nat \<times> heap" where
  "get_zeroed_page h = zeroed_page_loop h 0 (page_count h)"

definition free_page :: "heap \<Rightarrow> nat \<Rightarrow> c_fault + heap" where
  "free_page h addr =
     (if addr < heap_start h \<or> heap_stop h \<le> addr then Inl Stopped
      else
        let i = (addr - heap_start h) div PAGE_SIZE
        in if i < MEM_ALLOC_MAX
           then Inr (h\<lparr>mem_page_alloc_vec := (mem_page_alloc_vec h)[i := False]\<rparr>)
           else Inl BufferOverrun)"

text \<open>The program check handler: the address at which the program continues.\<close>

definition pgm_check_handler_fn :: "(u32 \<times> u32) list \<Rightarrow> u64 \<Rightarrow> c_fault + u64" where
  "pgm_check_handler_fn ex_table psw_addr =
     (case find (\<lambda>(fault, target). ucast fault = psw_addr) ex_table of
        Some (fault, target) \<Rightarrow> Inr (ucast target)
      | None \<Rightarrow> Inl Stopped)"

section \<open>Lemmas on the copy loops\<close>

lemma memset_eq: "memset m s c n = (if n = 0 then Inr m else buf_memset m s c n)"
proof (induction n arbitrary: m s)
  case (Suc n)
  show ?case
  proof (cases "s < length m")
    case True
    have "take (Suc s) (m[s := c]) = take s m @ [c]" using True by (simp add: take_Suc_conv_app_nth)
    then show ?thesis using True by (auto simp: store_def Suc.IH buf_memset_def buf_write_def upd_conv_take_nth_drop ac_simps)
  qed (simp add: store_def buf_memset_def buf_write_def)
qed simp

lemma memcpy_eq:
  "memcpy m d src s n =
     (if n = 0 then Inr m
      else if s + n \<le> length src then buf_write m d (take n (drop s src)) else Inl BufferOverrun)"
proof (induction n arbitrary: m d s)
  case (Suc n)
  show ?case
  proof (cases "d < length m \<and> s < length src")
    case True
    have "take (Suc d) (m[d := src ! s]) = take d m @ [src ! s]" using True by (simp add: take_Suc_conv_app_nth)
    moreover have "take (Suc n) (drop s src) = src ! s # take n (drop (Suc s) src)"
      using True by (metis Cons_nth_drop_Suc take_Suc_Cons)
    ultimately show ?thesis
      using True by (cases "n = 0") (auto simp: store_def buf_get_def Suc.IH buf_write_def upd_conv_take_nth_drop ac_simps)
  next
    case False
    then show ?thesis by (auto simp: store_def buf_get_def buf_write_def)
  qed
qed simp

lemma move_up_nth:
  assumes "d \<le> s" and "s + n \<le> length m"
  shows "\<exists>r. move_up m d s n = Inr r \<and> length r = length m \<and>
    (\<forall>k<length m. r ! k = (if d \<le> k \<and> k < d + n then m ! (s + k - d) else m ! k))"
  using assms
proof (induction n arbitrary: m d s)
  case (Suc n)
  let ?m = "m[d := m ! s]"
  obtain r where r: "move_up ?m (d + 1) (s + 1) n = Inr r" "length r = length m"
    "\<forall>k<length m. r ! k = (if d + 1 \<le> k \<and> k < d + 1 + n then ?m ! (s + 1 + k - (d + 1)) else ?m ! k)"
    using Suc.IH [of "d + 1" "s + 1" ?m] Suc.prems by auto
  have "move_up m d s (Suc n) = Inr r"
    using Suc.prems r(1) by (simp add: store_def buf_get_def)
  moreover have "r ! k = (if d \<le> k \<and> k < d + Suc n then m ! (s + k - d) else m ! k)" if "k < length m" for k
    using r(3) that Suc.prems by (cases "k = d") (auto simp: nth_list_update)
  ultimately show ?case using r(2) by blast
qed auto

lemma move_down_nth:
  assumes "s \<le> d" and "d + n \<le> length m"
  shows "\<exists>r. move_down m d s n = Inr r \<and> length r = length m \<and>
    (\<forall>k<length m. r ! k = (if d \<le> k \<and> k < d + n then m ! (s + k - d) else m ! k))"
  using assms
proof (induction n arbitrary: m)
  case (Suc n)
  let ?m = "m[d + n := m ! (s + n)]"
  obtain r where r: "move_down ?m d s n = Inr r" "length r = length m"
    "\<forall>k<length m. r ! k = (if d \<le> k \<and> k < d + n then ?m ! (s + k - d) else ?m ! k)"
    using Suc.IH [of ?m] Suc.prems by auto
  have "move_down m d s (Suc n) = Inr r"
    using Suc.prems r(1) by (simp add: store_def buf_get_def)
  moreover have "r ! k = (if d \<le> k \<and> k < d + Suc n then m ! (s + k - d) else m ! k)" if "k < length m" for k
    using r(3) that Suc.prems by (cases "k = d + n") (auto simp: nth_list_update)
  ultimately show ?case using r(2) by blast
qed auto

lemma move_up_fault:
  "\<not> (s + n \<le> length m \<and> d + n \<le> length m) \<Longrightarrow> 0 < n \<Longrightarrow> move_up m d s n = Inl BufferOverrun"
proof (induction n arbitrary: m d s)
  case (Suc n)
  show ?case
  proof (cases "s < length m \<and> d < length m")
    case True
    then have "0 < n" using Suc.prems by (cases n) auto
    then show ?thesis
      using True Suc.prems Suc.IH [of "s + 1" "m[d := m ! s]" "d + 1"] by (simp add: store_def buf_get_def)
  qed (auto simp: store_def buf_get_def)
qed simp

lemma move_down_fault:
  "\<not> (s + n \<le> length m \<and> d + n \<le> length m) \<Longrightarrow> 0 < n \<Longrightarrow> move_down m d s n = Inl BufferOverrun"
  by (cases n) (auto simp: store_def buf_get_def)

lemma region_nth:
  assumes "s + n \<le> length m" and "d + n \<le> length m" and "k < length m"
  shows "(take d m @ take n (drop s m) @ drop (d + n) m) ! k =
    (if d \<le> k \<and> k < d + n then m ! (s + k - d) else m ! k)"
  using assms by (auto simp: nth_append)

lemma memmove_region:
  assumes "s + n \<le> length m" and "d + n \<le> length m"
  shows "memmove m d s n = Inr (take d m @ take n (drop s m) @ drop (d + n) m)"
proof -
  obtain r where r: "memmove m d s n = Inr r" "length r = length m"
    "\<forall>k<length m. r ! k = (if d \<le> k \<and> k < d + n then m ! (s + k - d) else m ! k)"
    using move_up_nth [of d s n m] move_down_nth [of s d n m] assms by (cases "s < d") (auto simp: memmove_def)
  have "r = take d m @ take n (drop s m) @ drop (d + n) m"
    by (rule nth_equalityI) (use r assms region_nth [OF assms] in auto)
  then show ?thesis using r(1) by simp
qed

lemma memmove_eq: "memmove m d s n = (if n = 0 then Inr m else buf_memmove m d s n)"
proof (cases "s + n \<le> length m \<and> d + n \<le> length m")
  case True
  then show ?thesis by (auto simp: memmove_region buf_memmove_def buf_write_def)
next
  case False
  have "0 < n \<Longrightarrow> buf_memmove m d s n = Inl BufferOverrun"
    using False by (auto simp: buf_memmove_def buf_write_def)
  then show ?thesis
    using False move_up_fault [of s n m d] move_down_fault [of s n m d] by (auto simp: memmove_def)
qed

section \<open>Lemmas on strings\<close>

text \<open>A string at the position \<open>length p\<close> of a region.\<close>

lemma buf_get_append [simp]: "buf_get (p @ x # q) (length p) = Inr x"
  by (simp add: buf_get_def)

lemma strlen_string:
  "NUL \<notin> set q \<Longrightarrow> i = length p \<Longrightarrow> strlen (p @ q @ NUL # r) i = Inr (length q)"
proof (induction q arbitrary: p i)
  case (Cons x q)
  have "strlen ((p @ [x]) @ q @ NUL # r) (i + 1) = Inr (length q)" using Cons by (intro Cons.IH) auto
  then show ?case using Cons.prems by (subst strlen.simps) auto
qed (simp add: strlen.simps)

lemma strchr_found:
  "NUL \<notin> set q \<Longrightarrow> c \<notin> set q \<Longrightarrow> c \<noteq> NUL \<Longrightarrow> i = length p \<Longrightarrow>
   strchr (p @ q @ c # r) i c = Inr (Some (i + length q))"
proof (induction q arbitrary: p i)
  case (Cons x q)
  have "strchr ((p @ [x]) @ q @ c # r) (i + 1) c = Inr (Some (i + 1 + length q))"
    using Cons.prems by (intro Cons.IH) auto
  then show ?case using Cons.prems by (subst strchr.simps) auto
qed (simp add: strchr.simps)

lemma strchr_none:
  "NUL \<notin> set q \<Longrightarrow> c \<notin> set q \<Longrightarrow> i = length p \<Longrightarrow> strchr (p @ q @ NUL # r) i c = Inr None"
proof (induction q arbitrary: p i)
  case (Cons x q)
  have "strchr ((p @ [x]) @ q @ NUL # r) (i + 1) c = Inr None"
    using Cons.prems by (intro Cons.IH) auto
  then show ?case using Cons.prems by (subst strchr.simps) auto
qed (simp add: strchr.simps)

lemma strncmp_region:
  assumes "i + n \<le> length a" and "j + n \<le> length b"
  shows "\<exists>v. strncmp a i b j n = Inr v \<and> (v = 0 \<longleftrightarrow> take n (drop i a) = take n (drop j b))"
  using assms
proof (induction n arbitrary: i j)
  case (Suc n)
  have "take (Suc n) (drop i a) = a ! i # take n (drop (i + 1) a)"
    and "take (Suc n) (drop j b) = b ! j # take n (drop (j + 1) b)"
    using Suc.prems by (metis Cons_nth_drop_Suc Suc_eq_plus1 add_leD1 add_lessD1 less_le_trans lessI take_Suc_Cons
        add_Suc_right less_eq_Suc_le)+
  then show ?case
    using Suc.IH [of "i + 1" "j + 1"] Suc.prems by (auto simp: buf_get_def of_char_eq_iff)
qed simp

lemma strcpy_string:
  "NUL \<notin> set q \<Longrightarrow> i = length p \<Longrightarrow> d = length a \<Longrightarrow> length o' = length q + 1 \<Longrightarrow>
   strcpy (a @ o' @ z) d (p @ q @ NUL # r) i = Inr (a @ q @ NUL # z)"
proof (induction q arbitrary: p i a d o')
  case Nil
  then obtain y where "o' = [y]" by (cases o') auto
  then show ?case using Nil by (simp add: strcpy.simps store_def)
next
  case (Cons x q)
  obtain y o'' where o: "o' = y # o''" using Cons.prems by (cases o') auto
  have "strcpy ((a @ [x]) @ o'' @ z) (d + 1) ((p @ [x]) @ q @ NUL # r) (i + 1) = Inr ((a @ [x]) @ q @ NUL # z)"
    using Cons.prems o by (intro Cons.IH) auto
  then show ?case using Cons.prems o by (subst strcpy.simps) (auto simp: store_def)
qed

text \<open>\<^verbatim>\<open>strlcpy\<close> writes the longest prefix that fits and always terminates it.\<close>

lemma strlcpy_string:
  assumes "NUL \<notin> set q" and "0 < sz" and "d = length a" and "length o' = min (sz - 1) (length q) + 1"
  shows "strlcpy (a @ o' @ z) d (p @ q @ NUL # r) (length p) sz =
    Inr (a @ take (sz - 1) q @ NUL # z, length q)"
proof -
  let ?n = "min (sz - 1) (length q)"
  obtain u y where o: "o' = u @ [y]" "length u = ?n"
    using assms(4) by (cases o' rule: rev_cases) auto
  have "memcpy (a @ o' @ z) d (p @ q @ NUL # r) (length p) ?n = Inr (a @ take ?n q @ [y] @ z)"
    using assms(3) o by (auto simp: memcpy_eq buf_write_def)
  then show ?thesis
    using assms o by (auto simp: strlcpy_def strlen_string [of q "length p" p] Let_def store_def list_update_append min_def
        simp del: append.simps)
qed

lemma strcat_string:
  assumes "NUL \<notin> set q" and "NUL \<notin> set t" and "length u = length q"
  shows "strcat (t @ NUL # u @ z) 0 (p @ q @ NUL # r) (length p) = Inr (t @ q @ NUL # z)"
  using strlen_string [OF assms(2), of 0 "[]" "u @ z"] strcpy_string [OF assms(1) refl refl, of "NUL # u" t z p r] assms(3)
  by (simp add: strcat_def)

text \<open>The hash of a string depends on its characters only; a prefix counts like a first character.\<close>

definition hash_sum :: "string \<Rightarrow> u32" where
  "hash_sum q = (\<Sum>x\<leftarrow>q. 5 * of_char x)"

lemma strhash_loop_string:
  "NUL \<notin> set q \<Longrightarrow> i = length p \<Longrightarrow> strhash_loop (p @ q @ NUL # r) i acc = Inr (acc + hash_sum q)"
proof (induction q arbitrary: p i acc)
  case Nil
  then show ?case by (simp add: strhash_loop.simps hash_sum_def)
next
  case (Cons x q)
  have "strhash_loop ((p @ [x]) @ q @ NUL # r) (i + 1) (acc + 5 * of_char x) = Inr (acc + 5 * of_char x + hash_sum q)"
    using Cons.prems by (intro Cons.IH) auto
  then show ?case using Cons.prems by (subst strhash_loop.simps) (auto simp: hash_sum_def add.assoc)
qed

lemma strhash_string:
  assumes "NUL \<notin> set q" and "i = length p"
  shows "strhash (p @ q @ NUL # r) i prefix k = Inr (unat (hash_sum (case_option [] (\<lambda>x. [x]) prefix @ q) mod of_nat k))"
  using strhash_loop_string [OF assms] by (auto simp: strhash_def hash_sum_def split: option.splits)

section \<open>Lemmas on numbers\<close>

definition ebc_value :: "nat \<Rightarrow> string \<Rightarrow> nat" where
  "ebc_value v ds = foldl (\<lambda>v c. 10 * v + (of_char c - 0xF0)) v ds"

lemma ebc_value_simps [simp]:
  "ebc_value v [] = v"
  "ebc_value v (c # ds) = ebc_value (10 * v + (of_char c - 0xF0)) ds"
  by (simp_all add: ebc_value_def)

lemma ebc_value_mono: "v \<le> ebc_value v ds"
proof (induction ds arbitrary: v)
  case (Cons c ds)
  have "v \<le> 10 * v + (of_char c - 0xF0)" by simp
  also have "\<dots> \<le> ebc_value (10 * v + (of_char c - 0xF0)) ds" by (rule Cons.IH)
  finally show ?case by simp
qed simp

lemma ebc_value_bound: "\<forall>x \<in> set ds. ebcdic_isdigit x \<Longrightarrow> ebc_value v ds < (v + 1) * 10 ^ length ds"
proof (induction ds arbitrary: v)
  case (Cons c ds)
  let ?d = "of_char c - 0xF0 :: nat"
  have "?d \<le> 9" using Cons.prems by (auto simp: ebcdic_isdigit_def)
  have "ebc_value v (c # ds) < (10 * v + ?d + 1) * 10 ^ length ds" using Cons by simp
  also have "\<dots> \<le> (10 * (v + 1)) * 10 ^ length ds" using \<open>?d \<le> 9\<close> by (intro mult_le_mono1) simp
  also have "\<dots> = (v + 1) * 10 ^ length (c # ds)" by (simp only: power_Suc list.size mult.assoc mult.left_commute add.right_neutral add_Suc_right)
  finally show ?case .
qed simp

lemma strtoul_step:
  assumes "ebcdic_isdigit c" and "10 * v + (of_char c - 0xF0) < 2 ^ 64" and "i = length p"
  shows "strtoul_loop (p @ c # r) i 10 (of_nat v) =
    strtoul_loop (p @ c # r) (i + 1) 10 (of_nat (10 * v + (of_char c - 0xF0)))"
proof -
  let ?d = "of_char c - 0xF0 :: nat"
  have d: "of_char c - 0xF0 = (of_nat ?d :: u64)"
    using assms(1) by (simp add: ebcdic_isdigit_def of_nat_diff of_nat_of_char)
  have v: "(if of_nat v \<noteq> (0 :: u64) then of_nat v * 10 else of_nat v) = (of_nat (10 * v) :: u64)"
    by simp
  have "\<not> 2 ^ 64 \<le> unat (of_nat (10 * v) :: u64) + unat (of_nat ?d :: u64)"
    using assms(2) by (simp add: unat_of_nat del: of_nat_mult)
  then show ?thesis
    using assms(1,3) by (subst strtoul_loop.simps) (simp add: Let_def d v of_nat_add [symmetric] del: of_nat_mult of_nat_add)
qed

lemma strtoul_loop_digits:
  assumes "\<forall>x \<in> set ds. ebcdic_isdigit x" and "ebc_value v ds < 2 ^ 64" and "i = length p"
  shows "strtoul_loop (p @ ds @ r) i 10 (of_nat v) = strtoul_loop (p @ ds @ r) (i + length ds) 10 (of_nat (ebc_value v ds))"
  using assms
proof (induction ds arbitrary: v p i)
  case (Cons x ds)
  let ?v = "10 * v + (of_char x - 0xF0)"
  have "?v < 2 ^ 64" using Cons.prems(2) le_less_trans [OF ebc_value_mono [of ?v ds]] by simp
  then have "strtoul_loop (p @ (x # ds) @ r) i 10 (of_nat v) = strtoul_loop ((p @ [x]) @ ds @ r) (i + 1) 10 (of_nat ?v)"
    using Cons.prems strtoul_step [of x v i p "ds @ r"] by simp
  also have "\<dots> = strtoul_loop ((p @ [x]) @ ds @ r) (i + 1 + length ds) 10 (of_nat (ebc_value ?v ds))"
    using Cons.prems by (intro Cons.IH) auto
  finally show ?case by simp
qed simp

lemma ebcdic_strtoul_digits:
  assumes "\<forall>x \<in> set ds. ebcdic_isdigit x" and "\<not> ebcdic_isdigit c" and "ebc_value 0 ds < 2 ^ 64"
  shows "ebcdic_strtoul (p @ ds @ c # r) (length p) 10 =
    Inr (of_nat (ebc_value 0 ds), Some (length p + length ds))"
proof -
  have "strtoul_loop (p @ ds @ c # r) (length p + length ds) 10 (of_nat (ebc_value 0 ds)) =
      Inr (of_nat (ebc_value 0 ds), Some (length p + length ds))"
    using assms(2) buf_get_append [of "p @ ds" c r] by (subst strtoul_loop.simps) simp
  then show ?thesis
    using strtoul_loop_digits [OF assms(1,3) refl, of p "c # r"] by (simp add: ebcdic_strtoul_def)
qed

text \<open>
  The overflow check covers the addition only: a number of 20 digits beyond 2 to the power of 64 may wrap
  around in the multiplication and is read as a small number, here 18446744073709551620 as 4.
\<close>

lemma ebcdic_strtoul_wraps:
  "ebcdic_strtoul (map (\<lambda>d. char_of (0xF0 + d :: nat)) [1,8,4,4,6,7,4,4,0,7,3,7,0,9,5,5,1,6,2] @ [CHR 0xF0, NUL]) 0 10 =
     Inr (4, Some 20)"
proof -
  define ds where "ds = map (\<lambda>d. char_of (0xF0 + d :: nat)) [1,8,4,4,6,7,4,4,0,7,3,7,0,9,5,5,1,6,2]"
  have v: "ebc_value 0 ds = 1844674407370955162" and d: "\<forall>x \<in> set ds. ebcdic_isdigit x" and l: "length ds = 19"
    by (simp_all add: ds_def ebcdic_isdigit_def)
  have "ebcdic_strtoul (ds @ [CHR 0xF0, NUL]) 0 10 = strtoul_loop (ds @ [CHR 0xF0, NUL]) 19 10 1844674407370955162"
    using strtoul_loop_digits [OF d, of 0 0 "[]" "[CHR 0xF0, NUL]"] by (simp add: ebcdic_strtoul_def v l)
  also have "\<dots> = strtoul_loop (ds @ [CHR 0xF0, NUL]) 20 10 4"
  proof -
    have w: "(18446744073709551620 :: u64) = 4" by simp
    show ?thesis
      by (subst strtoul_loop.simps) (simp add: buf_get_def nth_append l ebcdic_isdigit_def Let_def w)
  qed
  also have "\<dots> = Inr (4, Some 20)"
    by (subst strtoul_loop.simps) (simp add: buf_get_def nth_append l ebcdic_isdigit_def)
  finally show ?thesis by (simp add: ds_def)
qed

section \<open>Lemmas on pages\<close>

text \<open>The contract of a pool of pages, and what it gives to code that takes a page and gives it back.\<close>

locale page_pool =
  fixes get :: "'s \<Rightarrow> c_fault + nat \<times> 's"
    and free :: "'s \<Rightarrow> nat \<Rightarrow> c_fault + 's"
    and used :: "'s \<Rightarrow> nat set"
    and pool_ok :: "'s \<Rightarrow> bool"
  assumes get_fresh: "pool_ok h \<Longrightarrow> get h = Inr (a, h') \<Longrightarrow> pool_ok h' \<and> a \<notin> used h \<and> used h' = insert a (used h)"
    and free_used: "pool_ok h \<Longrightarrow> a \<in> used h \<Longrightarrow> \<exists>h'. free h a = Inr h' \<and> pool_ok h' \<and> used h' = used h - {a}"
begin

lemma page_returned:
  assumes "pool_ok h" and "get h = Inr (a, h')" and "pool_ok h''" and "used h'' = used h'"
  shows "\<exists>k. free h'' a = Inr k \<and> pool_ok k \<and> used k = used h"
  using free_used [OF assms(3), of a] get_fresh [OF assms(1,2)] assms(4) by auto

end

definition heap_ok :: "heap \<Rightarrow> bool" where
  "heap_ok h \<longleftrightarrow> length (mem_page_alloc_vec h) = MEM_ALLOC_MAX \<and> length (heap_mem h) = MEM_ALLOC_MAX"

definition pages_used :: "heap \<Rightarrow> nat set" where
  "pages_used h = {heap_start h + i * PAGE_SIZE | i. i < page_count h \<and> mem_page_alloc_vec h ! i}"

lemma zeroed_page_loop_cases:
  assumes "i + n \<le> MEM_ALLOC_MAX" and "heap_ok h"
  shows "(zeroed_page_loop h i n = Inl Stopped \<and> (\<forall>k. i \<le> k \<and> k < i + n \<longrightarrow> mem_page_alloc_vec h ! k)) \<or>
    (\<exists>j. i \<le> j \<and> j < i + n \<and> \<not> mem_page_alloc_vec h ! j \<and>
       zeroed_page_loop h i n =
         Inr (heap_start h + j * PAGE_SIZE,
              h\<lparr>heap_mem := (heap_mem h)[j := replicate PAGE_SIZE NUL],
                mem_page_alloc_vec := (mem_page_alloc_vec h)[j := True]\<rparr>))"
  using assms(1)
proof (induction n arbitrary: i)
  case (Suc n)
  show ?case
  proof (cases "mem_page_alloc_vec h ! i")
    case True
    then have step: "zeroed_page_loop h i (Suc n) = zeroed_page_loop h (i + 1) n" by simp
    consider "zeroed_page_loop h (i + 1) n = Inl Stopped" "\<forall>k. i + 1 \<le> k \<and> k < i + 1 + n \<longrightarrow> mem_page_alloc_vec h ! k"
      | j where "i + 1 \<le> j" "j < i + 1 + n" "\<not> mem_page_alloc_vec h ! j"
        "zeroed_page_loop h (i + 1) n =
         Inr (heap_start h + j * PAGE_SIZE,
              h\<lparr>heap_mem := (heap_mem h)[j := replicate PAGE_SIZE NUL],
                mem_page_alloc_vec := (mem_page_alloc_vec h)[j := True]\<rparr>)"
      using Suc.IH [of "i + 1"] Suc.prems by auto
    then show ?thesis
    proof cases
      case 1
      have "mem_page_alloc_vec h ! k" if "i \<le> k" "k < i + Suc n" for k
        using True 1(2) that by (cases "k = i") auto
      then show ?thesis using step 1 by simp
    next
      case 2
      then show ?thesis unfolding step by (intro disjI2 exI [of _ j]) simp
    qed
  qed (intro disjI2 exI [of _ i], simp)
qed auto

lemma page_index:
  assumes "heap_ok h" and "j < page_count h"
  shows "j < MEM_ALLOC_MAX" and "heap_start h + j * PAGE_SIZE < heap_stop h"
    and "(heap_start h + j * PAGE_SIZE - heap_start h) div PAGE_SIZE = j"
proof -
  have j: "j < (heap_stop h - heap_start h) div PAGE_SIZE" using assms(2) by (simp add: page_count_def)
  have "j * PAGE_SIZE < (heap_stop h - heap_start h) div PAGE_SIZE * PAGE_SIZE" using j by simp
  also have "\<dots> \<le> heap_stop h - heap_start h" by (rule div_times_less_eq_dividend)
  finally show "heap_start h + j * PAGE_SIZE < heap_stop h" by simp
qed (use assms in \<open>simp_all add: page_count_def\<close>)

lemma pages_used_set:
  assumes "heap_ok h" and "j < page_count h" and "\<not> mem_page_alloc_vec h ! j"
    and "h' = h\<lparr>heap_mem := mem, mem_page_alloc_vec := (mem_page_alloc_vec h)[j := True]\<rparr>"
  shows "pages_used h' = insert (heap_start h + j * PAGE_SIZE) (pages_used h)"
    and "heap_start h + j * PAGE_SIZE \<notin> pages_used h"
proof -
  have "j < length (mem_page_alloc_vec h)" using assms(1) page_index(1) [OF assms(1,2)] by (simp add: heap_ok_def)
  then show "pages_used h' = insert (heap_start h + j * PAGE_SIZE) (pages_used h)"
    using assms(2,4) by (auto simp: pages_used_def page_count_def nth_list_update)
  show "heap_start h + j * PAGE_SIZE \<notin> pages_used h"
    using assms(3) by (auto simp: pages_used_def)
qed

lemma free_page_used:
  assumes "heap_ok h" and "a \<in> pages_used h"
  shows "\<exists>h'. free_page h a = Inr h' \<and> heap_ok h' \<and> pages_used h' = pages_used h - {a}"
proof -
  obtain j where j: "a = heap_start h + j * PAGE_SIZE" "j < page_count h" "mem_page_alloc_vec h ! j"
    using assms(2) by (auto simp: pages_used_def)
  let ?h = "h\<lparr>mem_page_alloc_vec := (mem_page_alloc_vec h)[j := False]\<rparr>"
  have len: "j < length (mem_page_alloc_vec h)"
    using assms(1) page_index(1) [OF assms(1) j(2)] by (simp add: heap_ok_def)
  have "free_page h a = Inr ?h"
    using page_index [OF assms(1) j(2)] j(1) by (simp add: free_page_def)
  moreover have "pages_used ?h = pages_used h - {a}"
    using len j(1,2) by (auto simp: pages_used_def page_count_def nth_list_update)
  ultimately show ?thesis using assms(1) by (auto simp: heap_ok_def)
qed

lemma get_zeroed_page_cases:
  assumes "heap_ok h"
  obtains (full) "get_zeroed_page h = Inl Stopped" "\<forall>k<page_count h. mem_page_alloc_vec h ! k"
  | (page) j where "j < page_count h" "\<not> mem_page_alloc_vec h ! j"
      "get_zeroed_page h =
         Inr (heap_start h + j * PAGE_SIZE,
              h\<lparr>heap_mem := (heap_mem h)[j := replicate PAGE_SIZE NUL],
                mem_page_alloc_vec := (mem_page_alloc_vec h)[j := True]\<rparr>)"
proof -
  have "0 + page_count h \<le> MEM_ALLOC_MAX" by (simp add: page_count_def)
  from zeroed_page_loop_cases [OF this assms] show thesis
    using full page unfolding get_zeroed_page_def by (simp only: add_0 le0 simp_thms) blast
qed

interpretation boot_pages: page_pool get_zeroed_page free_page pages_used heap_ok
proof (unfold_locales, goal_cases)
  case (1 h a h')
  from 1(1) show ?case
  proof (cases rule: get_zeroed_page_cases)
    case full
    then show ?thesis using 1(2) by simp
  next
    case (page j)
    then show ?thesis
      using pages_used_set [OF 1(1) page(1,2) refl] 1 by (auto simp: heap_ok_def)
  qed
next
  case (2 h a)
  then show ?case by (rule free_page_used)
qed

section \<open>Properties\<close>

text \<open>
  C31. The two loops of \<^verbatim>\<open>memmove\<close> copy the region as it was before the call, also when source and
  destination overlap; the only failure is a region that does not lie in the memory.
\<close>

theorem memmove_correct:
  "memmove m d s n =
     (if n = 0 then Inr m
      else if s + n \<le> length m \<and> d + n \<le> length m then Inr (take d m @ take n (drop s m) @ drop (d + n) m)
      else Inl BufferOverrun)"
  by (auto simp: memmove_eq buf_memmove_def buf_write_def)

text \<open>
  C32. \<^verbatim>\<open>get_zeroed_page\<close> stops the machine only when every page of the heap is in use. Otherwise it returns
  a page that was not in use and is filled with zeros, and \<^verbatim>\<open>free_page\<close> of this page succeeds and restores
  the pages in use.
\<close>

theorem page_allocator:
  assumes "heap_ok h"
  shows "case get_zeroed_page h of
      Inl e \<Rightarrow> e = Stopped \<and> pages_used h = {heap_start h + i * PAGE_SIZE | i. i < page_count h}
    | Inr (a, h') \<Rightarrow>
        a \<notin> pages_used h \<and> pages_used h' = insert a (pages_used h) \<and>
        heap_mem h' ! ((a - heap_start h) div PAGE_SIZE) = replicate PAGE_SIZE NUL \<and>
        (\<exists>h''. free_page h' a = Inr h'' \<and> heap_ok h'' \<and> pages_used h'' = pages_used h)"
  using assms
proof (cases rule: get_zeroed_page_cases)
  case full
  then show ?thesis by (auto simp: pages_used_def)
next
  case (page j)
  have "(heap_mem h)[j := replicate PAGE_SIZE NUL] ! j = replicate PAGE_SIZE NUL"
    using assms page_index(1) [OF assms page(1)] by (intro nth_list_update_eq) (simp add: heap_ok_def)
  moreover note fresh = boot_pages.get_fresh [OF assms page(3)]
  moreover note boot_pages.page_returned [OF assms page(3) conjunct1 [OF fresh] refl]
  ultimately show ?thesis using page_index(3) [OF assms page(1)] by (simp add: page(3) del: replicate.simps)
qed

definition stage2_heap :: heap where
  "stage2_heap = \<lparr>heap_start = 0x6000, heap_stop = 0x9000,
     heap_mem = replicate 4 [], mem_page_alloc_vec = replicate 4 False\<rparr>"

theorem page_allocator_witness:
  "case get_zeroed_page stage2_heap of Inl e \<Rightarrow> False | Inr (a, h') \<Rightarrow> pages_used h' = insert a (pages_used stage2_heap)"
proof -
  have "heap_ok stage2_heap" by (simp add: heap_ok_def stage2_heap_def)
  moreover have "zeroed_page_loop stage2_heap 0 3 \<noteq> Inl Stopped"
    by (simp add: stage2_heap_def numeral_3_eq_3)
  moreover have "page_count stage2_heap = 3" by (simp add: page_count_def stage2_heap_def)
  ultimately show ?thesis
    using page_allocator [of stage2_heap] by (auto simp: get_zeroed_page_def split: sum.splits)
qed

end
