(* ===== verification/Boot_Ebcdic.thy ===== *)
theory Boot_Ebcdic
  imports Boot_Libc
begin

text \<open>
  The EBCDIC tables and functions of the boot loader (\<^verbatim>\<open>src/zipl/boot/ebcdic_conv.c\<close> and
  \<^verbatim>\<open>src/zipl/boot/ebcdic.h\<close>). The table is the one of code page 037; outside of z/VM seven entries are
  changed to code page 500. Digits, letters, blanks and the newline have the same code in both.
\<close>

section \<open>Definitions\<close>

definition ebcdic :: "nat list" where
  "ebcdic =
    [0x00, 0x01, 0x02, 0x03, 0x07, 0x09, 0x07, 0x7F, 0x07, 0x07, 0x07, 0x0B, 0x0C, 0x0D, 0x0E, 0x0F,
     0x10, 0x11, 0x12, 0x13, 0x07, 0x0A, 0x08, 0x07, 0x18, 0x19, 0x07, 0x07, 0x07, 0x07, 0x07, 0x07,
     0x07, 0x07, 0x1C, 0x07, 0x07, 0x0A, 0x17, 0x1B, 0x07, 0x07, 0x07, 0x07, 0x07, 0x05, 0x06, 0x07,
     0x07, 0x07, 0x16, 0x07, 0x07, 0x07, 0x07, 0x04, 0x07, 0x07, 0x07, 0x07, 0x14, 0x15, 0x07, 0x1A,
     0x20, 0xFF, 0x83, 0x84, 0x85, 0xA0, 0x07, 0x86, 0x87, 0xA4, 0x9B, 0x2E, 0x3C, 0x28, 0x2B, 0x7C,
     0x26, 0x82, 0x88, 0x89, 0x8A, 0xA1, 0x8C, 0x07, 0x8D, 0xE1, 0x21, 0x24, 0x2A, 0x29, 0x3B, 0xAA,
     0x2D, 0x2F, 0x07, 0x8E, 0x07, 0x07, 0x07, 0x8F, 0x80, 0xA5, 0x07, 0x2C, 0x25, 0x5F, 0x3E, 0x3F,
     0x07, 0x90, 0x07, 0x07, 0x07, 0x07, 0x07, 0x07, 0x70, 0x60, 0x3A, 0x23, 0x40, 0x27, 0x3D, 0x22,
     0x07, 0x61, 0x62, 0x63, 0x64, 0x65, 0x66, 0x67, 0x68, 0x69, 0xAE, 0xAF, 0x07, 0x07, 0x07, 0xF1,
     0xF8, 0x6A, 0x6B, 0x6C, 0x6D, 0x6E, 0x6F, 0x70, 0x71, 0x72, 0xA6, 0xA7, 0x91, 0x07, 0x92, 0x07,
     0xE6, 0x7E, 0x73, 0x74, 0x75, 0x76, 0x77, 0x78, 0x79, 0x7A, 0xAD, 0xAB, 0x07, 0x07, 0x07, 0x07,
     0x5E, 0x9C, 0x9D, 0xFA, 0x07, 0x07, 0x07, 0xAC, 0xAB, 0x07, 0x5B, 0x5D, 0x07, 0x07, 0x07, 0x07,
     0x7B, 0x41, 0x42, 0x43, 0x44, 0x45, 0x46, 0x47, 0x48, 0x49, 0x07, 0x93, 0x94, 0x95, 0xA2, 0x07,
     0x7D, 0x4A, 0x4B, 0x4C, 0x4D, 0x4E, 0x4F, 0x50, 0x51, 0x52, 0x07, 0x96, 0x81, 0x97, 0xA3, 0x98,
     0x5C, 0xF6, 0x53, 0x54, 0x55, 0x56, 0x57, 0x58, 0x59, 0x5A, 0xFD, 0x07, 0x99, 0x07, 0x07, 0x07,
     0x30, 0x31, 0x32, 0x33, 0x34, 0x35, 0x36, 0x37, 0x38, 0x39, 0x07, 0x07, 0x9A, 0x07, 0x07, 0x07]"

definition ebcdic_update_table :: "bool \<Rightarrow> nat list \<Rightarrow> nat list" where
  "ebcdic_update_table is_zvm tab =
     (if is_zvm then tab
      else tab[74 := 0x5B, 79 := 0x21, 90 := 0x5D, 95 := 0x5E, 176 := 0xA2, 186 := 0xAC, 187 := 0x7C])"

text \<open>The conversion of \<open>l\<close> characters from the position \<open>p\<close> on, in place.\<close>

fun ebcdic_to_ascii :: "nat list \<Rightarrow> string \<Rightarrow> nat \<Rightarrow> nat \<Rightarrow> c_fault + string" where
  "ebcdic_to_ascii tab m p 0 = Inr m"
| "ebcdic_to_ascii tab m p (Suc l) =
     rbind (buf_get m p) (\<lambda>c. rbind (store m p (char_of (tab ! of_char c))) (\<lambda>m. ebcdic_to_ascii tab m (p + 1) l))"

definition ecbdic_isspace :: "char \<Rightarrow> bool" where
  "ecbdic_isspace c \<longleftrightarrow>
     c = CHR 0x40 \<or> c = CHR 0x05 \<or> c = CHR 0x15 \<or> c = CHR 0x25 \<or> c = CHR 0x0B \<or> c = CHR 0x0C \<or> c = CHR 0x0D"

definition ebcdic_isupper :: "char \<Rightarrow> bool" where
  "ebcdic_isupper c \<longleftrightarrow>
     (let n = of_char c :: nat
      in (0xC1 \<le> n \<and> n \<le> 0xC9) \<or> (0xD1 \<le> n \<and> n \<le> 0xD9) \<or> (0xE2 \<le> n \<and> n \<le> 0xE9))"

definition ebcdic_tolower :: "char \<Rightarrow> char" where
  "ebcdic_tolower c = (if ebcdic_isupper c then char_of (of_char c - 0x40 :: nat) else c)"

section \<open>Lemmas\<close>

definition to_ascii :: "nat list \<Rightarrow> char \<Rightarrow> char" where
  "to_ascii tab c = char_of (tab ! of_char c)"

lemma ebcdic_to_ascii_region:
  "i = length p \<Longrightarrow> ebcdic_to_ascii tab (p @ q @ r) i (length q) = Inr (p @ map (to_ascii tab) q @ r)"
proof (induction q arbitrary: p i)
  case (Cons c q)
  then show ?case using Cons.IH [of "i + 1" "p @ [to_ascii tab c]"] by (simp add: store_def to_ascii_def)
qed simp

text \<open>The two tables that are in use.\<close>

definition table_ok :: "nat list \<Rightarrow> bool" where
  "table_ok tab \<longleftrightarrow> (\<exists>zvm. tab = ebcdic_update_table zvm ebcdic)"

lemma to_ascii_common:
  assumes "table_ok tab" and "of_char c \<notin> {74, 79, 90, 95, 176, 186, 187 :: nat}"
  shows "to_ascii tab c = char_of (ebcdic ! of_char c)"
  using assms by (auto simp: table_ok_def to_ascii_def ebcdic_update_table_def)

lemma to_ascii_digit:
  assumes "table_ok tab" and "ebcdic_isdigit c"
  shows "to_ascii tab c = char_of (of_char c - 0xF0 + 0x30 :: nat)"
proof -
  obtain d :: nat where d: "of_char c = 0xF0 + d" "d < 10"
    using assms(2) that [of "of_char c - 0xF0 :: nat"] by (auto simp: ebcdic_isdigit_def)
  have "d \<in> {0, 1, 2, 3, 4, 5, 6, 7, 8, 9}" using d(2) by auto
  then have "ebcdic ! (0xF0 + d) = d + 0x30" by (auto simp: ebcdic_def)
  then show ?thesis using d to_ascii_common [OF assms(1), of c] by simp
qed

text \<open>Lower case letters lie 0x40 below the upper case ones, and their conversion agrees with ASCII.\<close>

lemma ebcdic_tolower_ascii:
  assumes "table_ok tab" and "ebcdic_isupper c"
  shows "of_char (to_ascii tab (ebcdic_tolower c)) = (of_char (to_ascii tab c) + 0x20 :: nat)"
proof -
  let ?n = "of_char c :: nat"
  have n: "?n \<in> {0xC1, 0xC2, 0xC3, 0xC4, 0xC5, 0xC6, 0xC7, 0xC8, 0xC9, 0xD1, 0xD2, 0xD3, 0xD4, 0xD5, 0xD6, 0xD7, 0xD8, 0xD9,
      0xE2, 0xE3, 0xE4, 0xE5, 0xE6, 0xE7, 0xE8, 0xE9}"
    using assms(2) unfolding ebcdic_isupper_def Let_def by (simp only: insert_iff empty_iff) presburger
  have "of_char (ebcdic_tolower c) = ?n - 0x40" using assms(2) n by (auto simp: ebcdic_tolower_def)
  moreover have "ebcdic ! (?n - 0x40) mod 256 = ebcdic ! ?n mod 256 + 0x20"
    using n by (elim insertE emptyE) (simp_all add: ebcdic_def)
  moreover have "?n - 0x40 \<notin> {74, 79, 90, 95, 176, 186, 187}" "?n \<notin> {74, 79, 90, 95, 176, 186, 187}"
    using n by auto
  ultimately show ?thesis
    using to_ascii_common [OF assms(1), of c] to_ascii_common [OF assms(1), of "ebcdic_tolower c"] by simp
qed

text \<open>The signature of the environment block as the loader has it, in EBCDIC.\<close>

definition EBC_SIGNATURE :: string where
  "EBC_SIGNATURE = map char_of [0x7B, 0x40, 0xA9, 0xC9, 0xD7, 0xD3, 0x40, 0xC5, 0x95, 0xA5, 0x89, 0x99, 0x96, 0x95, 0x94, 0x85, 0x95, 0xA3, 0x40, 0xC2, 0x93, 0x96, 0x83, 0x92, 0x15 :: nat]"

end
