(* ===== verification/Boot_Printf.thy ===== *)
theory Boot_Printf
  imports Boot_Libc
begin

text \<open>
  Formatted output of the boot loader (\<^verbatim>\<open>vsnprintf\<close> and \<^verbatim>\<open>printf\<close> of \<^verbatim>\<open>src/zipl/boot/libc.c\<close>).

  The reference is a rendering of the format into a string of any length; the lemmas show that
  \<^verbatim>\<open>vsnprintf\<close> writes the longest prefix that fits, terminates it and returns the length of the rendering,
  for every format in which no string is shorter than its field width. Strings that are shorter than the
  width are the subject of two counterexamples at the end.
\<close>

section \<open>Formatted output\<close>

datatype format_type = FORMAT_TYPE_NONE | FORMAT_TYPE_STR | FORMAT_TYPE_ULONG

record printf_spec =
  ps_type :: format_type
  field_width :: int
  zeropad :: bool
  ps_base :: nat
  precision :: int

text \<open>The arguments of a call, and the value of a signed bit-field of \<open>w\<close> bits.\<close>

datatype va = VStr string | VNum u64

definition bitfield :: "nat \<Rightarrow> int \<Rightarrow> int" where
  "bitfield w v = (v + 2 ^ (w - 1)) mod 2 ^ w - 2 ^ (w - 1)"

text \<open>A pointer into a format is the rest of the format; its end is the terminating NUL.\<close>

abbreviation deref :: "string \<Rightarrow> char" where
  "deref s \<equiv> char_at s 0"

lemma char_at_nonempty: "char_at s 0 \<noteq> NUL \<Longrightarrow> s \<noteq> []"
  by (auto simp: char_at_def)

function skip_atoi :: "int \<Rightarrow> string \<Rightarrow> int \<times> string" where
  "skip_atoi i c =
     (let i = i * 10 + of_char (deref c) - 0xF0; c = tl c
      in if ebcdic_isdigit (deref c) then skip_atoi i c else (i, c))"
  by pat_completeness auto
termination
proof (relation "measure (\<lambda>(i, c). length c)", goal_cases)
  case (2 i c _ c')
  then have "tl c \<noteq> []" by (intro notI) (simp add: ebcdic_isdigit_def char_at_def)
  then show ?case using 2 by (cases c) auto
qed simp

declare skip_atoi.simps [simp del]

text \<open>
  The decoding of one piece of a format: its length and the specification. A piece is the text up to the
  next percent sign, or a conversion.
\<close>

definition format_decode :: "string \<Rightarrow> printf_spec \<Rightarrow> c_fault + nat \<times> printf_spec" where
  "format_decode start spec =
     (let spec = spec\<lparr>ps_type := FORMAT_TYPE_NONE\<rparr>;
          txt_len = length (takeWhile (\<lambda>c. c \<noteq> NUL \<and> c \<noteq> CHR 0x6C) start)
      in if txt_len \<noteq> 0 \<or> deref start = NUL then Inr (txt_len, spec)
         else
           let fmt = tl start;
               (spec, fmt) = (if deref fmt = CHR 0xF0 then (spec\<lparr>zeropad := True\<rparr>, tl fmt) else (spec, fmt));
               (w, fmt) = (if ebcdic_isdigit (deref fmt) then skip_atoi 0 fmt else (- 1, fmt));
               spec = spec\<lparr>field_width := bitfield 24 w\<rparr>;
               (p, fmt) =
                 (if deref fmt = CHR 0x4B then
                    if ebcdic_isdigit (deref (tl fmt)) then skip_atoi 0 (tl fmt) else (- 1, tl fmt)
                  else (- 1, fmt));
               spec = spec\<lparr>precision := bitfield 16 p\<rparr>;
               fmt = (if deref fmt = CHR 0x93 then tl fmt else fmt);
               n = length start - length fmt + 1
           in if deref fmt = CHR 0xA2 then Inr (n, spec\<lparr>ps_type := FORMAT_TYPE_STR\<rparr>)
              else if deref fmt = CHR 0x96 then Inr (n, spec\<lparr>ps_base := 8, ps_type := FORMAT_TYPE_ULONG\<rparr>)
              else if deref fmt = CHR 0xA4 then Inr (n, spec\<lparr>ps_base := 10, ps_type := FORMAT_TYPE_ULONG\<rparr>)
              else if deref fmt = CHR 0xA7 then Inr (n, spec\<lparr>ps_base := 16, ps_type := FORMAT_TYPE_ULONG\<rparr>)
              else Inl Stopped)"

text \<open>Writing one character: nothing is written at or beyond \<open>e\<close>, but the position advances.\<close>

definition put :: "string \<Rightarrow> nat \<Rightarrow> nat \<Rightarrow> char \<Rightarrow> c_fault + string" where
  "put b e p c = (if p < e then store b p c else Inr b)"

text \<open>The loop of \<^verbatim>\<open>string\<close>: the buffer, the position and the number of characters.\<close>

fun string_loop :: "string \<Rightarrow> nat \<Rightarrow> nat \<Rightarrow> string \<Rightarrow> int \<Rightarrow> nat \<Rightarrow> c_fault + string \<times> nat \<times> nat" where
  "string_loop b e p [] limit len = Inr (b, p, len)"
| "string_loop b e p (c # s) limit len =
     (if limit = 0 \<or> c = NUL then Inr (b, p, len)
      else rbind (put b e p c) (\<lambda>b. string_loop b e (p + 1) s (limit - 1) (len + 1)))"

definition string_fmt :: "string \<Rightarrow> nat \<Rightarrow> nat \<Rightarrow> string \<Rightarrow> printf_spec \<Rightarrow> c_fault + string \<times> nat" where
  "string_fmt b e p s spec =
     rbind (string_loop b e p s (precision spec) 0) (\<lambda>(b, p, len).
       if int len < field_width spec \<and> p < e then
         let spaces = nat (min (field_width spec - int len) (int e - int p))
         in rbind (memmove b (p + spaces) p len) (\<lambda>b.
            rbind (memset b p (CHR 0x40) spaces) (\<lambda>b. Inr (b, p + spaces)))
       else Inr (b, p))"

text \<open>The digits in reverse order, in a buffer of 24 characters.\<close>

definition vec :: string where
  "vec = [CHR 0xF0, CHR 0xF1, CHR 0xF2, CHR 0xF3, CHR 0xF4, CHR 0xF5, CHR 0xF6, CHR 0xF7,
          CHR 0xF8, CHR 0xF9, CHR 0x81, CHR 0x82, CHR 0x83, CHR 0x84, CHR 0x85, CHR 0x86]"

function number_digits :: "nat \<Rightarrow> nat \<Rightarrow> string \<Rightarrow> c_fault + string" where
  "number_digits base val tmp =
     (if base = 0 then Inl Stopped
      else if length tmp < 24 then
        rbind (buf_get vec (val mod base)) (\<lambda>d.
          if val div base \<noteq> 0 then number_digits base (val div base) (tmp @ [d]) else Inr (tmp @ [d]))
      else Inl BufferOverrun)"
  by pat_completeness auto
termination by (relation "measure (\<lambda>(base, val, tmp). 24 - length tmp)") auto

declare number_digits.simps [simp del]

fun put_pad :: "string \<Rightarrow> nat \<Rightarrow> nat \<Rightarrow> char \<Rightarrow> nat \<Rightarrow> c_fault + string \<times> nat" where
  "put_pad b e p c 0 = Inr (b, p)"
| "put_pad b e p c (Suc n) = rbind (put b e p c) (\<lambda>b. put_pad b e (p + 1) c n)"

fun put_digits :: "string \<Rightarrow> nat \<Rightarrow> nat \<Rightarrow> string \<Rightarrow> nat \<Rightarrow> c_fault + string \<times> nat" where
  "put_digits b e p tmp 0 = Inr (b, p)"
| "put_digits b e p tmp (Suc len) =
     rbind (buf_get tmp len) (\<lambda>c. rbind (put b e p c) (\<lambda>b. put_digits b e (p + 1) tmp len))"

definition number :: "string \<Rightarrow> nat \<Rightarrow> nat \<Rightarrow> u64 \<Rightarrow> printf_spec \<Rightarrow> c_fault + string \<times> nat" where
  "number b e p val spec =
     rbind (number_digits (ps_base spec) (unat val) []) (\<lambda>tmp.
       let len = length tmp;
           prec = (if int len > precision spec then int len else precision spec);
           width = field_width spec - prec
       in rbind (put_pad b e p (if zeropad spec then CHR 0xF0 else CHR 0x40) (nat width)) (\<lambda>(b, p).
          rbind (put_pad b e p (CHR 0xF0) (nat (prec - int len))) (\<lambda>(b, p). put_digits b e p tmp len)))"

lemma format_decode_progress:
  "format_decode fmt spec = Inr (n, spec') \<Longrightarrow> deref fmt \<noteq> NUL \<Longrightarrow> 0 < n"
  unfolding format_decode_def Let_def by (auto split: if_splits prod.splits)

definition va_str :: "va list \<Rightarrow> c_fault + string \<times> va list" where
  "va_str args = (case args of VStr s # args \<Rightarrow> Inr (s, args) | _ \<Rightarrow> Inl BufferOverrun)"

definition va_num :: "va list \<Rightarrow> c_fault + u64 \<times> va list" where
  "va_num args = (case args of VNum v # args \<Rightarrow> Inr (v, args) | _ \<Rightarrow> Inl BufferOverrun)"

function vsnprintf_loop :: "nat \<Rightarrow> string \<Rightarrow> nat \<Rightarrow> string \<Rightarrow> printf_spec \<Rightarrow> va list \<Rightarrow> c_fault + string \<times> nat" where
  "vsnprintf_loop e b str fmt spec args =
     (if deref fmt = NUL then Inr (b, str)
      else
        rbind (format_decode fmt spec) (\<lambda>(read, spec).
          case ps_type spec of
            FORMAT_TYPE_NONE \<Rightarrow>
              rbind (if str < e then memcpy b str fmt 0 (min read (e - str)) else Inr b) (\<lambda>b.
                vsnprintf_loop e b (str + read) (drop read fmt) spec args)
          | FORMAT_TYPE_STR \<Rightarrow>
              rbind (va_str args) (\<lambda>(s, args).
              rbind (string_fmt b e str s spec) (\<lambda>(b, str).
                vsnprintf_loop e b str (drop read fmt) spec args))
          | FORMAT_TYPE_ULONG \<Rightarrow>
              rbind (va_num args) (\<lambda>(v, args).
              rbind (number b e str v spec) (\<lambda>(b, str).
                vsnprintf_loop e b str (drop read fmt) spec args))))"
  by pat_completeness auto
termination
  by (relation "measure (\<lambda>(e, b, str, fmt, spec, args). length fmt)")
    (auto dest!: format_decode_progress simp: char_at_nonempty)

declare vsnprintf_loop.simps [simp del]

text \<open>
  The buffer starts at position 0. A size so large that \<^verbatim>\<open>buf + size\<close> wraps around stands for an unknown
  size in the code; no caller uses it, and it is left out.
\<close>

definition spec0 :: printf_spec where
  "spec0 = \<lparr>ps_type = FORMAT_TYPE_NONE, field_width = 0, zeropad = False, ps_base = 0, precision = 0\<rparr>"

definition vsnprintf :: "string \<Rightarrow> nat \<Rightarrow> string \<Rightarrow> va list \<Rightarrow> c_fault + string \<times> nat" where
  "vsnprintf buf sz fmt args =
     rbind (vsnprintf_loop sz buf 0 fmt spec0 args) (\<lambda>(buf, str).
       if sz \<noteq> 0 then rbind (store buf (if str < sz then str else sz - 1) NUL) (\<lambda>buf. Inr (buf, str))
       else Inr (buf, str))"

definition snprintf :: "string \<Rightarrow> nat \<Rightarrow> string \<Rightarrow> va list \<Rightarrow> c_fault + string" where
  "snprintf buf sz fmt args = rbind (vsnprintf buf sz fmt args) (\<lambda>(buf, len). Inr buf)"

text \<open>\<^verbatim>\<open>printf\<close> with its buffer of 81 characters on the stack; the result is the text that is printed.\<close>

abbreviation LINE_LENGTH :: nat where
  "LINE_LENGTH \<equiv> 80"

definition printf :: "string \<Rightarrow> string \<Rightarrow> va list \<Rightarrow> c_fault + string" where
  "printf stack fmt args =
     rbind (vsnprintf stack (LINE_LENGTH + 1) fmt args) (\<lambda>(buf, len).
     rbind (if len > LINE_LENGTH then
              rbind (store buf (LINE_LENGTH - 1) (CHR 0x4B)) (\<lambda>buf.
              rbind (store buf (LINE_LENGTH - 2) (CHR 0x4B)) (\<lambda>buf.
                store buf (LINE_LENGTH - 3) (CHR 0x4B)))
            else Inr buf) (\<lambda>buf. Inr (cstr buf)))"




section \<open>Reference rendering\<close>

function digits :: "nat \<Rightarrow> nat \<Rightarrow> string" where
  "digits base v = (if v < base \<or> base < 2 then [vec ! v] else digits base (v div base) @ [vec ! (v mod base)])"
  by pat_completeness auto
termination by (relation "measure snd") auto

declare digits.simps [simp del]

definition num_text :: "printf_spec \<Rightarrow> u64 \<Rightarrow> string" where
  "num_text spec v =
     (let ds = digits (ps_base spec) (unat v);
          n = max (int (length ds)) (precision spec)
      in replicate (nat (field_width spec - n)) (if zeropad spec then CHR 0xF0 else CHR 0x40) @
         replicate (nat (n - int (length ds))) (CHR 0xF0) @ ds)"

definition limited :: "int \<Rightarrow> string \<Rightarrow> string" where
  "limited n s = (if n < 0 then cstr s else take (nat n) (cstr s))"

function fmt_render :: "string \<Rightarrow> printf_spec \<Rightarrow> va list \<Rightarrow> c_fault + string" where
  "fmt_render fmt spec args =
     (if deref fmt = NUL then Inr []
      else
        rbind (format_decode fmt spec) (\<lambda>(read, spec).
          case ps_type spec of
            FORMAT_TYPE_NONE \<Rightarrow> rbind (fmt_render (drop read fmt) spec args) (\<lambda>t. Inr (take read fmt @ t))
          | FORMAT_TYPE_STR \<Rightarrow>
              rbind (va_str args) (\<lambda>(s, args).
                let u = limited (precision spec) s
                in if int (length u) < field_width spec then Inl Stopped
                   else rbind (fmt_render (drop read fmt) spec args) (\<lambda>t. Inr (u @ t)))
          | FORMAT_TYPE_ULONG \<Rightarrow>
              rbind (va_num args) (\<lambda>(v, args).
                rbind (fmt_render (drop read fmt) spec args) (\<lambda>t. Inr (num_text spec v @ t)))))"
  by pat_completeness auto
termination
  by (relation "measure (\<lambda>(fmt, spec, args). length fmt)")
    (auto dest!: format_decode_progress simp: char_at_nonempty)

declare fmt_render.simps [simp del]

text \<open>A buffer into which a text was written as far as it fits.\<close>

definition clip :: "string \<Rightarrow> nat \<Rightarrow> string \<Rightarrow> string" where
  "clip buf e out = take e out @ drop (min e (length out)) buf"

section \<open>Lemmas\<close>

lemma put_clip:
  assumes "e \<le> length buf"
  shows "put (clip buf e out) e (length out) c = Inr (clip buf e (out @ [c]))"
proof (cases "length out < e")
  case True
  then have "drop (length out) buf = buf ! length out # drop (Suc (length out)) buf"
    using assms by (simp add: Cons_nth_drop_Suc)
  then show ?thesis using True assms by (simp add: put_def store_def clip_def)
qed (simp add: put_def clip_def)

lemma put_pad_clip:
  "e \<le> length buf \<Longrightarrow>
   put_pad (clip buf e out) e (length out) c n = Inr (clip buf e (out @ replicate n c), length out + n)"
proof (induction n arbitrary: out)
  case (Suc n)
  then show ?case using Suc.IH [of "out @ [c]"] by (simp add: put_clip)
qed simp

lemma put_digits_clip:
  "e \<le> length buf \<Longrightarrow> n \<le> length tmp \<Longrightarrow>
   put_digits (clip buf e out) e (length out) tmp n = Inr (clip buf e (out @ rev (take n tmp)), length out + n)"
proof (induction n arbitrary: out)
  case (Suc n)
  then show ?case
    using Suc.IH [of "out @ [tmp ! n]"] by (simp add: put_clip buf_get_def take_Suc_conv_app_nth)
qed simp

lemma memcpy_clip:
  assumes "e \<le> length buf" and "n \<le> length t"
  shows "(if length out < e then memcpy (clip buf e out) (length out) t 0 (min n (e - length out)) else Inr (clip buf e out)) =
    Inr (clip buf e (out @ take n t))"
proof (cases "length out < e")
  case True
  show ?thesis
    using True assms by (auto simp: memcpy_eq clip_def buf_write_def min_def ac_simps)
qed (simp add: clip_def)

lemma limited_simps [simp]:
  "limited n [] = []"
  "limited n (c # s) = (if n = 0 \<or> c = NUL then [] else c # limited (n - 1) s)"
  by (auto simp: limited_def cstr_def nat_diff_distrib' take_Cons')

lemma string_loop_clip:
  "e \<le> length buf \<Longrightarrow>
   string_loop (clip buf e out) e (length out) s n len =
     Inr (clip buf e (out @ limited n s), length out + length (limited n s), len + length (limited n s))"
proof (induction s arbitrary: out n len)
  case (Cons c s)
  then show ?case using Cons.IH [of "out @ [c]" "n - 1" "len + 1"] by (simp add: put_clip)
qed simp

lemma digits_length:
  "2 \<le> base \<Longrightarrow> v < base ^ k \<Longrightarrow> 0 < k \<Longrightarrow> length (digits base v) \<le> k"
proof (induction k arbitrary: v)
  case (Suc k)
  show ?case
  proof (cases "v < base")
    case False
    then have "0 < k" using Suc.prems by (cases k) auto
    moreover have "v div base < base ^ k" using Suc.prems by (simp add: less_mult_imp_div_less mult.commute)
    ultimately show ?thesis using False Suc by (subst digits.simps) simp
  qed (simp add: digits.simps)
qed simp

lemma number_digits_rev:
  "2 \<le> base \<Longrightarrow> base \<le> 16 \<Longrightarrow> length tmp + length (digits base v) \<le> 24 \<Longrightarrow>
   number_digits base v tmp = Inr (tmp @ rev (digits base v))"
proof (induction base v arbitrary: tmp rule: digits.induct)
  case (1 base v)
  have get: "buf_get vec (v mod base) = Inr (vec ! (v mod base))"
    using 1(2,3) by (simp add: buf_get_def vec_def less_le_trans [OF mod_less_divisor])
  show ?case
  proof (cases "v < base")
    case True
    then have "digits base v = [vec ! v]" by (simp add: digits.simps)
    then show ?thesis using True get 1(2,4) by (subst number_digits.simps) simp
  next
    case False
    then have d: "digits base v = digits base (v div base) @ [vec ! (v mod base)]"
      using 1(2) by (subst digits.simps) simp
    have "number_digits base v tmp = number_digits base (v div base) (tmp @ [vec ! (v mod base)])"
      using False get 1(2,4) d by (subst number_digits.simps) (auto simp: div_eq_0_iff)
    also have "\<dots> = Inr ((tmp @ [vec ! (v mod base)]) @ rev (digits base (v div base)))"
      using False 1(2,3,4) d by (intro 1(1)) auto
    finally show ?thesis by (simp add: d)
  qed
qed

lemma unat_digits_bound: "8 \<le> base \<Longrightarrow> length (digits base (unat (v :: u64))) \<le> 22"
proof -
  assume b: "8 \<le> base"
  have "unat v < 2 ^ 64" using unsigned_less [of v, where 'a = nat] by simp
  also have "\<dots> \<le> (8 :: nat) ^ 22" by simp
  also have "\<dots> \<le> base ^ 22" using b by (rule power_mono) simp
  finally show ?thesis using b by (intro digits_length) auto
qed

lemma number_clip:
  assumes "e \<le> length buf" and "8 \<le> ps_base spec" and "ps_base spec \<le> 16"
  shows "number (clip buf e out) e (length out) v spec =
    Inr (clip buf e (out @ num_text spec v), length out + length (num_text spec v))"
proof -
  let ?ds = "digits (ps_base spec) (unat v)"
  have ds: "number_digits (ps_base spec) (unat v) [] = Inr (rev ?ds)"
    using assms(2,3) unat_digits_bound [OF assms(2), of v] number_digits_rev [of "ps_base spec" "[]"] by simp
  define n where "n = max (int (length ?ds)) (precision spec)"
  have n: "(if int (length (rev ?ds)) > precision spec then int (length (rev ?ds)) else precision spec) = n"
    by (simp add: n_def)
  have pad: "put_pad (clip buf e o1) e p c k = Inr (clip buf e (o1 @ replicate k c), p + k)" if "p = length o1" for o1 p c k
    using put_pad_clip [OF assms(1)] that by simp
  have dig: "put_digits (clip buf e o1) e p (rev ?ds) (length ?ds) = Inr (clip buf e (o1 @ ?ds), p + length ?ds)"
    if "p = length o1" for o1 p
    using put_digits_clip [OF assms(1), of "length ?ds" "rev ?ds" o1] that by simp
  show ?thesis
    unfolding number_def ds rbind_simps Let_def n by (simp add: pad dig num_text_def Let_def n_def [symmetric] add.assoc)
qed

lemma format_decode_text:
  "format_decode fmt spec = Inr (n, spec') \<Longrightarrow> ps_type spec' = FORMAT_TYPE_NONE \<Longrightarrow> n \<le> length fmt"
  unfolding format_decode_def Let_def by (auto split: if_splits prod.splits simp: length_takeWhile_le)

lemma format_decode_base:
  "format_decode fmt spec = Inr (n, spec') \<Longrightarrow> ps_type spec' = FORMAT_TYPE_ULONG \<Longrightarrow> 8 \<le> ps_base spec' \<and> ps_base spec' \<le> 16"
  unfolding format_decode_def Let_def by (auto split: if_splits prod.splits)

lemma string_fmt_clip:
  assumes "e \<le> length buf" and "\<not> int (length (limited (precision spec) s)) < field_width spec"
  shows "string_fmt (clip buf e out) e (length out) s spec =
    Inr (clip buf e (out @ limited (precision spec) s), length out + length (limited (precision spec) s))"
  using assms by (simp add: string_fmt_def string_loop_clip)

lemma fmt_render_cases:
  assumes "fmt_render fmt spec args = Inr t"
  obtains (stop) "deref fmt = NUL" "t = []"
  | (plain) n sp t' where "deref fmt \<noteq> NUL" "format_decode fmt spec = Inr (n, sp)" "ps_type sp = FORMAT_TYPE_NONE"
      "fmt_render (drop n fmt) sp args = Inr t'" "t = take n fmt @ t'"
  | (str) n sp s args' t' where "deref fmt \<noteq> NUL" "format_decode fmt spec = Inr (n, sp)" "ps_type sp = FORMAT_TYPE_STR"
      "va_str args = Inr (s, args')" "\<not> int (length (limited (precision sp) s)) < field_width sp"
      "fmt_render (drop n fmt) sp args' = Inr t'" "t = limited (precision sp) s @ t'"
  | (num) n sp v args' t' where "deref fmt \<noteq> NUL" "format_decode fmt spec = Inr (n, sp)" "ps_type sp = FORMAT_TYPE_ULONG"
      "va_num args = Inr (v, args')" "fmt_render (drop n fmt) sp args' = Inr t'" "t = num_text sp v @ t'"
proof (cases "deref fmt = NUL")
  case True
  then show thesis using stop assms by (simp add: fmt_render.simps)
next
  case False
  then obtain n sp where dec: "format_decode fmt spec = Inr (n, sp)"
    using assms by (subst (asm) fmt_render.simps) (auto simp: rbind_Inr)
  note r = assms [unfolded fmt_render.simps [of fmt spec args]]
  show thesis
  proof (cases "ps_type sp")
    case FORMAT_TYPE_NONE
    then show thesis using r False dec plain [OF False dec] by (auto simp: rbind_Inr)
  next
    case FORMAT_TYPE_STR
    then show thesis using r False dec str [OF False dec] by (auto simp: rbind_Inr Let_def split: if_splits)
  next
    case FORMAT_TYPE_ULONG
    then show thesis using r False dec num [OF False dec] by (auto simp: rbind_Inr)
  qed
qed

lemma vsnprintf_loop_render:
  "e \<le> length buf \<Longrightarrow> fmt_render fmt spec args = Inr t \<Longrightarrow>
   vsnprintf_loop e (clip buf e out) (length out) fmt spec args = Inr (clip buf e (out @ t), length out + length t)"
proof (induction fmt spec args arbitrary: out t rule: fmt_render.induct)
  case (1 fmt spec args)
  note e = \<open>e \<le> length buf\<close>
  from \<open>fmt_render fmt spec args = Inr t\<close> show ?case
  proof (cases rule: fmt_render_cases)
    case stop
    then show ?thesis by (simp add: vsnprintf_loop.simps)
  next
    case (plain n sp t')
    note n = format_decode_text [OF plain(2,3)]
    show ?thesis
      using 1(1) [OF plain(1,2) refl plain(3) e plain(4), of "out @ take n fmt"] plain memcpy_clip [OF e n, of out] n
      by (subst vsnprintf_loop.simps) simp
  next
    case (str n sp s args' t')
    show ?thesis
      using 1(2) [OF str(1,2) refl str(3,4) refl refl str(5) e str(6), of "out @ limited (precision sp) s"]
        str string_fmt_clip [OF e str(5), of out]
      by (subst vsnprintf_loop.simps) simp
  next
    case (num n sp v args' t')
    have base: "8 \<le> ps_base sp" "ps_base sp \<le> 16" using format_decode_base [OF num(2,3)] by auto
    show ?thesis
      using 1(3) [OF num(1,2) refl num(3,4) refl e num(5), of "out @ num_text sp v"]
        num number_clip [OF e base, of out v]
      by (subst vsnprintf_loop.simps) simp
  qed
qed

lemma vsnprintf_render:
  assumes "fmt_render fmt spec0 args = Inr t" and "0 < sz" and "sz \<le> length buf"
  shows "vsnprintf buf sz fmt args =
    Inr (take (sz - 1) t @ NUL # drop (min (sz - 1) (length t) + 1) buf, length t)"
proof -
  have "vsnprintf_loop sz buf 0 fmt spec0 args = Inr (clip buf sz t, length t)"
    using vsnprintf_loop_render [OF assms(3,1), of "[]"] by (simp add: clip_def)
  moreover have "store (clip buf sz t) (if length t < sz then length t else sz - 1) NUL =
      Inr (take (sz - 1) t @ NUL # drop (min (sz - 1) (length t) + 1) buf)"
  proof (cases "length t < sz")
    case True
    then have "drop (length t) buf = buf ! length t # drop (Suc (length t)) buf"
      using assms(3) by (simp add: Cons_nth_drop_Suc)
    moreover have "min (sz - 1) (length t) = length t" "take sz t = t" "length t < length buf" using True assms(3) by auto
    ultimately show ?thesis using True by (simp add: store_def clip_def)
  next
    case False
    have "take sz t = take (sz - 1) t @ [t ! (sz - 1)]"
      using False assms(2) by (metis Suc_pred' less_le_trans linorder_not_less lessI take_Suc_conv_app_nth)
    moreover have "min (sz - 1) (length t) = sz - 1" "min sz (length t) = sz" "sz - 1 < length buf"
      "length (take (sz - 1) t) = sz - 1"
      using False assms(2,3) by auto
    ultimately show ?thesis using False assms(2) by (simp add: store_def clip_def list_update_append)
  qed
  ultimately show ?thesis using assms(2) by (simp add: vsnprintf_def)
qed

text \<open>The digits of a number read back give the number.\<close>

lemma ebc_value_append: "ebc_value v (xs @ [c]) = 10 * ebc_value v xs + (of_char c - 0xF0)"
  by (simp add: ebc_value_def)

lemma vec_digit:
  assumes "d < 10"
  shows "ebcdic_isdigit (vec ! d)" and "of_char (vec ! d) - 0xF0 = (d :: nat)"
proof -
  have "d \<in> {0, 1, 2, 3, 4, 5, 6, 7, 8, 9}" using assms by auto
  then show "ebcdic_isdigit (vec ! d)" and "of_char (vec ! d) - 0xF0 = (d :: nat)"
    by (auto simp: vec_def ebcdic_isdigit_def)
qed

lemma digits_decimal: "ebc_value 0 (digits 10 v) = v \<and> (\<forall>x \<in> set (digits 10 v). ebcdic_isdigit x)"
proof (induction v rule: less_induct)
  case (less v)
  show ?case
  proof (cases "v < 10")
    case False
    then have "digits 10 v = digits 10 (v div 10) @ [vec ! (v mod 10)]" by (subst digits.simps) simp
    then show ?thesis
      using less [of "v div 10"] False vec_digit [of "v mod 10"] by (simp add: ebc_value_append)
  qed (simp add: digits.simps vec_digit)
qed

lemma digits_not_empty: "digits base v \<noteq> []"
  by (subst digits.simps) simp

text \<open>The format of an unsigned number.\<close>

lemma fmt_render_unsigned: "fmt_render [CHR 0x6C, CHR 0xA4] spec0 [VNum v] = Inr (digits 10 (unat v))"
proof -
  have "format_decode [CHR 0x6C, CHR 0xA4] spec0 =
      Inr (2, \<lparr>ps_type = FORMAT_TYPE_ULONG, field_width = - 1, zeropad = False, ps_base = 10, precision = - 1\<rparr>)"
    by (simp add: format_decode_def spec0_def char_at_def ebcdic_isdigit_def bitfield_def)
  then show ?thesis
    by (subst fmt_render.simps) (simp add: char_at_def va_num_def num_text_def Let_def fmt_render.simps [of "[]"])
qed

text \<open>A printed line has at most 80 characters; a longer one ends with three full stops.\<close>

lemma printf_line:
  assumes "fmt_render fmt spec0 args = Inr t" and "NUL \<notin> set t" and "length stack = LINE_LENGTH + 1"
  shows "printf stack fmt args =
    Inr (if length t \<le> LINE_LENGTH then t else take 77 t @ replicate 3 (CHR 0x4B))"
proof -
  have v: "vsnprintf stack 81 fmt args =
      Inr (take 80 t @ NUL # drop (min 80 (length t) + 1) stack, length t)"
    using vsnprintf_render [OF assms(1), of 81 stack] assms(3) by simp
  show ?thesis
  proof (cases "length t \<le> LINE_LENGTH")
    case True
    then show ?thesis using assms(2) by (simp add: printf_def v)
  next
    case False
    let ?r = "NUL # drop (min 80 (length t) + 1) stack"
    obtain a b c where t: "take 80 t = take 77 t @ [a, b, c]"
    proof
      have "take 80 t = take 77 t @ take 3 (drop 77 t)" by (simp flip: take_add)
      also have "take 3 (drop 77 t) = [t ! 77, t ! 78, t ! 79]"
        using False by (simp add: take_Suc_conv_app_nth numeral_3_eq_3)
      finally show "take 80 t = take 77 t @ [t ! 77, t ! 78, t ! 79]" .
    qed
    have l: "length (take 77 t) = 77" and n: "NUL \<notin> set (take 77 t)"
      using False assms(2) by (auto dest: in_set_takeD)
    have "printf stack fmt args = Inr (cstr (take 77 t @ [CHR 0x4B, CHR 0x4B, CHR 0x4B] @ ?r))"
      using False by (simp add: printf_def v t store_def list_update_append l)
    also have "\<dots> = Inr (take 77 t @ [CHR 0x4B, CHR 0x4B, CHR 0x4B])"
      using n cstr_append_NUL [of "take 77 t @ [CHR 0x4B, CHR 0x4B, CHR 0x4B]"] by simp
    finally show ?thesis using False by (simp add: numeral_3_eq_3)
  qed
qed

section \<open>Properties\<close>



text \<open>
  C33. A number printed with \<^verbatim>\<open>snprintf\<close> and the format \<^verbatim>\<open>"%u"\<close> into a buffer of at least 23 bytes is read
  back by \<^verbatim>\<open>ebcdic_strtoul\<close>.
\<close>

theorem snprintf_strtoul:
  assumes "23 \<le> sz" and "sz \<le> length buf"
  shows "rbind (snprintf buf sz [CHR 0x6C, CHR 0xA4] [VNum v]) (\<lambda>b. ebcdic_strtoul b 0 10) =
    Inr (v, Some (length (digits 10 (unat v))))"
proof -
  let ?d = "digits 10 (unat v)"
  have len: "length ?d \<le> 22" by (rule unat_digits_bound) simp
  have "vsnprintf buf sz [CHR 0x6C, CHR 0xA4] [VNum v] = Inr (?d @ NUL # drop (length ?d + 1) buf, length ?d)"
  proof -
    have "min (sz - 1) (length ?d) = length ?d" "take (sz - 1) ?d = ?d" using assms(1) len by auto
    then show ?thesis using vsnprintf_render [OF fmt_render_unsigned [of v], of sz buf] assms by simp
  qed
  moreover have "ebcdic_strtoul ([] @ ?d @ NUL # drop (length ?d + 1) buf) (length ([] :: string)) 10 =
      Inr (of_nat (ebc_value 0 ?d), Some (length ([] :: string) + length ?d))"
    using digits_decimal [of "unat v"] unsigned_less [of v, where 'a = nat]
    by (intro ebcdic_strtoul_digits) (auto simp: ebcdic_isdigit_def)
  ultimately show ?thesis using digits_decimal [of "unat v"] by (simp add: snprintf_def)
qed

theorem snprintf_strtoul_witness:
  "rbind (snprintf (replicate 23 NUL) 23 [CHR 0x6C, CHR 0xA4] [VNum 62]) (\<lambda>b. ebcdic_strtoul b 0 10) =
     Inr (62, Some (length (digits 10 62)))"
  using snprintf_strtoul [of 23 "replicate 23 NUL" 62] by simp

text \<open>
  A string shorter than its field width is not aligned to the right: the blanks are written behind it, and
  the text is read and written up to its length behind them. With the format \<^verbatim>\<open>"%5s"\<close> the string \<^verbatim>\<open>ab\<close>
  (0x81, 0x82) is followed by three blanks, and \<^verbatim>\<open>"%7s"\<close> overruns a buffer of 8 bytes.
\<close>

lemma string_width_left_aligned:
  "vsnprintf (replicate 8 NUL) 8 [CHR 0x6C, CHR 0xF5, CHR 0xA2] [VStr [CHR 0x81, CHR 0x82]] =
     Inr ([CHR 0x81, CHR 0x82, CHR 0x40, CHR 0x40, CHR 0x40, NUL, NUL, NUL], 5)"
  by code_simp

lemma string_width_overrun:
  "vsnprintf (replicate 8 NUL) 8 [CHR 0x6C, CHR 0xF7, CHR 0xA2] [VStr [CHR 0x81, CHR 0x82, CHR 0x83]] = Inl BufferOverrun"
  by code_simp

text \<open>The flag for zero padding of one conversion also applies to the later ones, here \<^verbatim>\<open>"%02u%3u"\<close>.\<close>

lemma zeropad_kept:
  "vsnprintf (replicate 6 NUL) 6
     [CHR 0x6C, CHR 0xF0, CHR 0xF2, CHR 0xA4, CHR 0x6C, CHR 0xF3, CHR 0xA4] [VNum 1, VNum 2] =
     Inr ([CHR 0xF0, CHR 0xF1, CHR 0xF0, CHR 0xF0, CHR 0xF2, NUL], 5)"
  by code_simp

end
