(* ===== verification/Boot_Env.thy ===== *)
theory Boot_Env
  imports Boot_Ebcdic Boot_Printf Envblk_Ops
begin

text \<open>
  The environment of the kernel command line at boot time (\<^verbatim>\<open>src/zipl/boot/stage3.c\<close>): the loader parses
  the environment block into a hash table of positions in the block, replaces every \<^verbatim>\<open>${NAME}\<close> in the
  command line by the value of the variable, and prefers the variables of the active site.

  The block, the command line and the extra parameters are regions of memory. A hash entry is its index in
  the page of entries; \<open>next\<close> is the index of the next entry of the bucket, if any. A chain that does not
  end within the number of entries is \<open>Stopped\<close>; the tables that the loader builds have no such chain.
\<close>

section \<open>The hash table\<close>

abbreviation STR_HASH_SIZE :: nat where
  "STR_HASH_SIZE \<equiv> 16"

abbreviation MAX_ITEMS :: nat where
  "MAX_ITEMS \<equiv> 512"

record env_hash_entry =
  eh_next :: "nat option"
  eh_name :: nat

type_synonym buckets = "nat option list"

definition boot_hash_add ::
    "string \<Rightarrow> env_hash_entry list \<Rightarrow> buckets \<Rightarrow> nat \<Rightarrow> c_fault + env_hash_entry list \<times> buckets" where
  "boot_hash_add m items bs name =
     (if length items < MAX_ITEMS then
        rbind (strhash m name None STR_HASH_SIZE) (\<lambda>h.
          Inr (items @ [\<lparr>eh_next = bs ! h, eh_name = name\<rparr>], bs[h := Some (length items)]))
      else Inl BufferOverrun)"

text \<open>The string at \<open>i\<close> of \<open>m\<close> against the string at \<open>j\<close> of \<open>cl\<close> with an optional prefix.\<close>

definition str_eq :: "string \<Rightarrow> nat \<Rightarrow> string \<Rightarrow> nat \<Rightarrow> char option \<Rightarrow> c_fault + bool" where
  "str_eq m i cl j prefix =
     rbind (strlen m i) (\<lambda>n. rbind (strlen cl j) (\<lambda>k.
       case prefix of
         Some p \<Rightarrow>
           if n = k + 1 then
             rbind (buf_get m i) (\<lambda>c.
               if c = p then rbind (strncmp m (i + 1) cl j k) (\<lambda>r. Inr (r = 0)) else Inr False)
           else Inr False
       | None \<Rightarrow> if n = k then rbind (strncmp m i cl j n) (\<lambda>r. Inr (r = 0)) else Inr False))"

fun find_chain ::
    "nat \<Rightarrow> string \<Rightarrow> env_hash_entry list \<Rightarrow> nat option \<Rightarrow> string \<Rightarrow> nat \<Rightarrow> char option \<Rightarrow> c_fault + nat option" where
  "find_chain fuel m items None cl j prefix = Inr None"
| "find_chain 0 m items (Some i) cl j prefix = Inl Stopped"
| "find_chain (Suc fuel) m items (Some i) cl j prefix =
     rbind (str_eq m (eh_name (items ! i)) cl j prefix) (\<lambda>eq.
       if eq then Inr (Some i) else find_chain fuel m items (eh_next (items ! i)) cl j prefix)"

definition boot_hash_find ::
    "string \<Rightarrow> env_hash_entry list \<Rightarrow> buckets \<Rightarrow> string \<Rightarrow> nat \<Rightarrow> char option \<Rightarrow> c_fault + nat option" where
  "boot_hash_find m items bs cl name prefix =
     rbind (strlen cl name) (\<lambda>n.
       if n = 0 then Inr None
       else rbind (strhash cl name prefix STR_HASH_SIZE) (\<lambda>h.
              find_chain (length items) m items (bs ! h) cl name prefix))"

definition lookup_item ::
    "string \<Rightarrow> env_hash_entry list \<Rightarrow> buckets \<Rightarrow> string \<Rightarrow> nat \<Rightarrow> char option \<Rightarrow> c_fault + nat option" where
  "lookup_item m items bs cl name prefix =
     rbind (boot_hash_find m items bs cl name prefix) (\<lambda>result.
       if result \<noteq> None then Inr result
       else if prefix \<noteq> None then boot_hash_find m items bs cl name None else Inr None)"

section \<open>Parsing the block\<close>

text \<open>The significant length of the block, behind the newline at \<open>nl\<close>.\<close>

function block_len :: "string \<Rightarrow> nat \<Rightarrow> nat \<Rightarrow> nat \<Rightarrow> c_fault + nat" where
  "block_len m nl avail len =
     (if len < avail then
        rbind (buf_get m (nl + len + 1)) (\<lambda>c. if c = NUL then Inr len else block_len m nl avail (len + 1))
      else Inr len)"
  by pat_completeness auto
termination by (relation "measure (\<lambda>(m, nl, avail, len). avail - len)") auto

declare block_len.simps [simp del]

text \<open>
  The loop over the lines. The flag tells that the block is bad; the entries that were added before are
  kept, and so are the NUL characters that were written.
\<close>

lemma strchr_ge: "strchr m s c = Inr (Some p) \<Longrightarrow> s \<le> p \<and> p < length m"
proof (induction m s c rule: strchr.induct)
  case (1 m s c)
  then show ?case by (subst (asm) strchr.simps) (auto simp: rbind_Inr buf_get_def split: if_splits)
qed

function parse_lines ::
    "nat \<Rightarrow> string \<Rightarrow> nat \<Rightarrow> nat \<Rightarrow> env_hash_entry list \<Rightarrow> buckets \<Rightarrow> c_fault + bool \<times> string \<times> env_hash_entry list \<times> buckets" where
  "parse_lines len m nl off items bs =
     (if off < len \<and> length items < MAX_ITEMS then
        rbind (strchr m (nl + 1) (CHR 0x3D)) (\<lambda>eq.
          case eq of
            None \<Rightarrow> Inr (False, m, items, bs)
          | Some equation \<Rightarrow>
              rbind (store m equation NUL) (\<lambda>m.
              rbind (boot_hash_add m items bs (nl + 1)) (\<lambda>(items, bs).
              rbind (strchr m (equation + 1) (CHR 0x0A)) (\<lambda>n.
                case n of
                  None \<Rightarrow> Inr (False, m, items, bs)
                | Some newline \<Rightarrow>
                    rbind (store m newline NUL) (\<lambda>m.
                      parse_lines len m newline (off + (equation - nl) + (newline - equation)) items bs)))))
      else Inr (True, m, items, bs))"
  by pat_completeness auto
termination
  by (relation "measure (\<lambda>(len, m, nl, off, items, bs). len - off)") (auto dest!: strchr_ge)

declare parse_lines.simps [simp del]

abbreviation ENVBLK_SIGNATURE_SIZE :: nat where
  "ENVBLK_SIGNATURE_SIZE \<equiv> 25"

definition parse_envblk :: "nat list \<Rightarrow> string \<Rightarrow> c_fault + bool \<times> string \<times> env_hash_entry list \<times> buckets" where
  "parse_envblk tab m =
     (let items = []; bs = replicate STR_HASH_SIZE None
      in rbind (ebcdic_to_ascii tab EBC_SIGNATURE 0 ENVBLK_SIGNATURE_SIZE) (\<lambda>sgn.
         rbind (strncmp m 0 sgn 0 ENVBLK_SIGNATURE_SIZE) (\<lambda>r.
           if r \<noteq> 0 then Inr (False, m, items, bs)
           else
             let nl = ENVBLK_SIGNATURE_SIZE - 1
             in rbind (block_len m nl (length m - ENVBLK_SIGNATURE_SIZE) 0) (\<lambda>len.
                  parse_lines len m nl 0 items bs))))"

section \<open>The command line\<close>

definition item_value :: "string \<Rightarrow> env_hash_entry list \<Rightarrow> nat option \<Rightarrow> c_fault + string \<times> nat" where
  "item_value m items item =
     (case item of
        None \<Rightarrow> Inr ([NUL], 0)
      | Some i \<Rightarrow> rbind (strlen m (eh_name (items ! i))) (\<lambda>n. Inr (m, eh_name (items ! i) + n + 1)))"

text \<open>The loop of \<^verbatim>\<open>process_parm_line\<close>: the command line and its length.\<close>

function parm_loop ::
    "string \<Rightarrow> env_hash_entry list \<Rightarrow> buckets \<Rightarrow> char option \<Rightarrow> nat \<Rightarrow> string \<Rightarrow> nat \<Rightarrow> nat \<Rightarrow> c_fault + string \<times> nat" where
  "parm_loop m items bs site_id max_len cl start cmdl_end =
     (if start < cmdl_end then
        rbind (strchr cl start (CHR 0x24)) (\<lambda>s.
          case s of
            None \<Rightarrow> Inr (cl, cmdl_end)
          | Some start \<Rightarrow>
              if start + 3 \<ge> cmdl_end then Inr (cl, cmdl_end)
              else
                rbind (buf_get cl (start + 1)) (\<lambda>c.
                  if c \<noteq> CHR 0x7B then parm_loop m items bs site_id max_len cl (start + 1) cmdl_end
                  else
                    rbind (strchr cl start (CHR 0x7D)) (\<lambda>e.
                      case e of
                        None \<Rightarrow> Inr (cl, cmdl_end)
                      | Some stop \<Rightarrow>
                          if stop \<ge> cmdl_end then Inr (cl, cmdl_end)
                          else
                            rbind (store cl stop NUL) (\<lambda>cl.
                            rbind (lookup_item m items bs cl (start + 2) site_id) (\<lambda>item.
                            rbind (item_value m items item) (\<lambda>(src, val).
                            rbind (strlen src val) (\<lambda>len.
                              if cmdl_end + len - (stop - start + 1) \<ge> max_len then Inr (cl, cmdl_end)
                              else
                                rbind (memmove cl (start + len) (stop + 1) (cmdl_end - (stop + 1))) (\<lambda>cl.
                                rbind (memcpy cl start src val len) (\<lambda>cl.
                                  parm_loop m items bs site_id max_len cl (start + len)
                                    (cmdl_end + len - (stop - start + 1)))))))))))
      else Inr (cl, cmdl_end))"
  by pat_completeness auto
termination
  by (relation "measure (\<lambda>(m, items, bs, site_id, max_len, cl, start, cmdl_end). cmdl_end - start)")
    (auto dest!: strchr_ge)

declare parm_loop.simps [simp del]

definition process_parm_line ::
    "string \<Rightarrow> env_hash_entry list \<Rightarrow> buckets \<Rightarrow> string \<Rightarrow> nat \<Rightarrow> nat \<Rightarrow> char option \<Rightarrow> c_fault + string" where
  "process_parm_line m items bs cl cmdl_len max_len site_id =
     rbind (parm_loop m items bs site_id max_len cl 0 cmdl_len) (\<lambda>(cl, cmdl_end).
       if cmdl_len > cmdl_end then memset cl cmdl_end NUL (cmdl_len - cmdl_end) else Inr cl)"

section \<open>Lemmas on the hash table\<close>

definition key_of :: "char option \<Rightarrow> string \<Rightarrow> string" where
  "key_of prefix nm = (case prefix of None \<Rightarrow> nm | Some p \<Rightarrow> p # nm)"

lemma take_append_eq: "take (length a) (a @ b) = a"
  by simp

lemma str_eq_string:
  assumes "NUL \<notin> set k" and "NUL \<notin> set nm" and "i = length p" and "j = length a"
  shows "str_eq (p @ k @ NUL # r) i (a @ nm @ NUL # b) j prefix = Inr (k = key_of prefix nm)"
proof -
  note len = strlen_string [OF assms(1,3), of r] strlen_string [OF assms(2,4), of b]
  show ?thesis
  proof (cases prefix)
    case None
    show ?thesis
    proof (cases "length k = length nm")
      case True
      obtain v where "strncmp (p @ k @ NUL # r) i (a @ nm @ NUL # b) j (length k) = Inr v"
        "(v = 0) = (take (length k) (k @ NUL # r) = take (length k) (nm @ NUL # b))"
        using strncmp_region [of i "length k" "p @ k @ NUL # r" j "a @ nm @ NUL # b"] assms(3,4) True by auto
      then show ?thesis using None True len by (simp add: str_eq_def key_of_def)
    qed (use None len in \<open>auto simp: str_eq_def key_of_def\<close>)
  next
    case (Some c)
    show ?thesis
    proof (cases "length k = length nm + 1")
      case True
      then obtain x k' where k: "k = x # k'" "length k' = length nm" by (cases k) auto
      obtain v where "strncmp (p @ k @ NUL # r) (i + 1) (a @ nm @ NUL # b) j (length nm) = Inr v"
        "(v = 0) = (take (length nm) (k' @ NUL # r) = take (length nm) (nm @ NUL # b))"
        using strncmp_region [of "i + 1" "length nm" "p @ k @ NUL # r" j "a @ nm @ NUL # b"] assms(3,4) k by auto
      then show ?thesis using Some len assms(3) k by (cases "x = c") (auto simp: str_eq_def key_of_def)
    qed (use Some len in \<open>auto simp: str_eq_def key_of_def\<close>)
  qed
qed

text \<open>A bucket as the list of the indices of its entries.\<close>

fun chain :: "env_hash_entry list \<Rightarrow> nat option \<Rightarrow> nat list \<Rightarrow> bool" where
  "chain items p [] \<longleftrightarrow> p = None"
| "chain items p (i # is) \<longleftrightarrow> p = Some i \<and> i < length items \<and> chain items (eh_next (items ! i)) is"

lemma chain_append: "chain items p is \<Longrightarrow> chain (items @ [x]) p is"
  by (induction "is" arbitrary: p) (auto simp: nth_append)

definition boot_hash :: "string \<Rightarrow> nat" where
  "boot_hash k = unat (hash_sum k mod 16)"

lemma boot_hash_less: "boot_hash k < STR_HASH_SIZE"
proof -
  have "hash_sum k mod 16 < (16 :: u32)" by (rule word_mod_less_divisor) simp
  then show ?thesis using unat_mono by (fastforce simp: boot_hash_def)
qed

text \<open>The text of parsed variables, and the table that belongs to it.\<close>

definition cell :: "string \<times> string \<Rightarrow> string" where
  "cell p = fst p @ NUL # snd p @ [NUL]"

definition cells :: "env \<Rightarrow> string" where
  "cells kvs = concat (map cell kvs)"

lemma cells_simps [simp]:
  "cells [] = []" "cells (p # kvs) = cell p @ cells kvs" "cells (xs @ ys) = cells xs @ cells ys"
  by (simp_all add: cells_def)

lemma length_cell [simp]: "length (cell p) = length (fst p) + length (snd p) + 2"
  by (simp add: cell_def)

definition bucket_indices :: "env \<Rightarrow> nat \<Rightarrow> nat list" where
  "bucket_indices kvs h = rev (filter (\<lambda>i. boot_hash (fst (kvs ! i)) = h) [0..<length kvs])"

definition table_for :: "env \<Rightarrow> env_hash_entry list \<Rightarrow> buckets \<Rightarrow> bool" where
  "table_for kvs items bs \<longleftrightarrow>
     length items = length kvs \<and> length bs = STR_HASH_SIZE \<and>
     (\<forall>i<length kvs. eh_name (items ! i) = ENVBLK_SIGNATURE_SIZE + length (cells (take i kvs))) \<and>
     (\<forall>h<STR_HASH_SIZE. chain items (bs ! h) (bucket_indices kvs h))"

lemma bucket_indices_snoc:
  "bucket_indices (kvs @ [p]) h =
     (if boot_hash (fst p) = h then length kvs # bucket_indices kvs h else bucket_indices kvs h)"
proof -
  have "filter (\<lambda>i. boot_hash (fst ((kvs @ [p]) ! i)) = h) [0..<length kvs] =
      filter (\<lambda>i. boot_hash (fst (kvs ! i)) = h) [0..<length kvs]"
    by (rule filter_cong) (auto simp: nth_append)
  then show ?thesis by (simp add: bucket_indices_def)
qed

lemma table_for_empty: "table_for [] [] (replicate STR_HASH_SIZE None)"
  by (simp add: table_for_def bucket_indices_def)

lemma table_for_add:
  assumes "table_for kvs items bs" and "bs' = bs[boot_hash (fst p) := Some (length items)]"
    and "items' = items @ [\<lparr>eh_next = bs ! boot_hash (fst p), eh_name = ENVBLK_SIGNATURE_SIZE + length (cells kvs)\<rparr>]"
  shows "table_for (kvs @ [p]) items' bs'"
proof -
  have "chain items' (bs' ! h) (bucket_indices (kvs @ [p]) h)" if "h < STR_HASH_SIZE" for h
    using assms that chain_append [of items "bs ! h" "bucket_indices kvs h"]
    by (auto simp: table_for_def bucket_indices_snoc nth_list_update nth_append)
  moreover have "eh_name (items' ! i) = ENVBLK_SIGNATURE_SIZE + length (cells (take i (kvs @ [p])))"
    if "i < length (kvs @ [p])" for i
    using assms that by (cases "i = length kvs") (auto simp: table_for_def nth_append)
  ultimately show ?thesis using assms by (auto simp: table_for_def)
qed

lemma boot_hash_add_string:
  assumes "NUL \<notin> set k" and "i = length p" and "length items < MAX_ITEMS"
  shows "boot_hash_add (p @ k @ NUL # r) items bs i =
    Inr (items @ [\<lparr>eh_next = bs ! boot_hash k, eh_name = i\<rparr>], bs[boot_hash k := Some (length items)])"
  using strhash_string [OF assms(1,2), of r None STR_HASH_SIZE] assms(3)
  by (simp add: boot_hash_add_def boot_hash_def)

section \<open>Lemmas on the parser\<close>

definition parsed :: "env \<Rightarrow> env \<Rightarrow> nat \<Rightarrow> string" where
  "parsed dn rest n = ZIPL_ENVBLK_SIGNATURE @ cells dn @ render rest @ replicate n NUL"

lemma length_signature [simp]: "length ZIPL_ENVBLK_SIGNATURE = 25"
  using sig_len_eq by (simp add: ZIPL_ENVBLK_SIGNATURE_def)

text \<open>One line of the block.\<close>

lemma parse_lines_step:
  assumes "key_ok k" and "val_ok v" and "off < len" and "length items < MAX_ITEMS" and "nl + 1 = length p"
  shows "parse_lines len (p @ k @ CHR ''='' # v @ NL # r) nl off items bs =
    parse_lines len (p @ cell (k, v) @ r) (nl + length (cell (k, v))) (off + length (cell (k, v)))
      (items @ [\<lparr>eh_next = bs ! boot_hash k, eh_name = nl + 1\<rparr>]) (bs[boot_hash k := Some (length items)])"
proof -
  let ?q = "p @ k @ [NUL]"
  have k: "NUL \<notin> set k" "CHR ''='' \<notin> set k" and v: "NUL \<notin> set v" "NL \<notin> set v"
    using assms(1,2) by (auto simp: key_ok_def val_ok_def)
  have eq: "strchr (p @ k @ CHR ''='' # v @ NL # r) (nl + 1) (CHR ''='') = Inr (Some (nl + 1 + length k))"
    using strchr_found [OF k, of "nl + 1" p] assms(5) by simp
  have st: "store (p @ k @ CHR ''='' # v @ NL # r) (nl + 1 + length k) NUL = Inr (p @ k @ NUL # v @ NL # r)"
    using assms(5) by (simp add: store_def list_update_append)
  have nl: "strchr (p @ k @ NUL # v @ NL # r) (nl + 1 + length k + 1) NL = Inr (Some (nl + 1 + length k + 1 + length v))"
    using strchr_found [OF v, of "length ?q" ?q r] assms(5) by simp
  have st': "store (p @ k @ NUL # v @ NL # r) (nl + 1 + length k + 1 + length v) NUL = Inr (p @ cell (k, v) @ r)"
    using assms(5) by (simp add: store_def list_update_append cell_def)
  show ?thesis
    using assms(3,4) eq st nl st' boot_hash_add_string [OF k(1) assms(5,4), of "v @ NL # r" bs]
    by (subst parse_lines.simps) (simp add: add.assoc)
qed

lemma parse_lines_block:
  assumes "env_ok (dn @ rest)" and "length (dn @ rest) \<le> MAX_ITEMS" and "table_for dn items bs"
  shows "\<exists>items' bs'.
    parse_lines (length (cells dn) + length (render rest)) (parsed dn rest n) (24 + length (cells dn)) (length (cells dn)) items bs =
      Inr (True, parsed (dn @ rest) [] n, items', bs') \<and> table_for (dn @ rest) items' bs'"
  using assms
proof (induction rest arbitrary: dn items bs)
  case Nil
  then show ?case by (subst parse_lines.simps) simp
next
  case (Cons p rest)
  obtain k v where p: "p = (k, v)" by (cases p)
  let ?items = "items @ [\<lparr>eh_next = bs ! boot_hash k, eh_name = 25 + length (cells dn)\<rparr>]"
  let ?bs = "bs[boot_hash k := Some (length items)]"
  have len: "length items < MAX_ITEMS" using Cons.prems(2,3) by (simp add: table_for_def)
  have "table_for (dn @ [p]) ?items ?bs" using table_for_add [OF Cons.prems(3) refl refl, of p] p by simp
  then obtain items' bs' where IH:
    "parse_lines (length (cells (dn @ [p])) + length (render rest)) (parsed (dn @ [p]) rest n) (24 + length (cells (dn @ [p])))
       (length (cells (dn @ [p]))) ?items ?bs = Inr (True, parsed (dn @ p # rest) [] n, items', bs')"
    "table_for (dn @ p # rest) items' bs'"
    using Cons.IH [of "dn @ [p]" ?items ?bs] Cons.prems by auto
  have "parse_lines (length (cells dn) + length (render (p # rest)))
      ((ZIPL_ENVBLK_SIGNATURE @ cells dn) @ k @ CHR ''='' # v @ NL # (render rest @ replicate n NUL))
      (24 + length (cells dn)) (length (cells dn)) items bs =
    parse_lines (length (cells dn) + length (render (p # rest)))
      ((ZIPL_ENVBLK_SIGNATURE @ cells dn) @ cell (k, v) @ render rest @ replicate n NUL)
      (24 + length (cells dn) + length (cell (k, v))) (length (cells dn) + length (cell (k, v)))
      (items @ [\<lparr>eh_next = bs ! boot_hash k, eh_name = 24 + length (cells dn) + 1\<rparr>]) ?bs"
    by (rule parse_lines_step) (use Cons.prems(1) p len in auto)
  then show ?case
    using IH p by (simp add: parsed_def pair_text_def add.assoc)
qed

lemma block_len_text:
  "NUL \<notin> set t \<Longrightarrow> nl + 1 + len = length p \<Longrightarrow> avail = len + length t + n \<Longrightarrow>
   block_len (p @ t @ replicate n NUL) nl avail len = Inr (len + length t)"
proof (induction t arbitrary: p len)
  case Nil
  then show ?case by (subst block_len.simps) (cases n; auto simp: buf_get_def nth_append)
next
  case (Cons c t)
  have "block_len ((p @ [c]) @ t @ replicate n NUL) nl avail (len + 1) = Inr (len + 1 + length t)"
    using Cons.prems by (intro Cons.IH) auto
  moreover have "buf_get (p @ (c # t) @ replicate n NUL) (nl + len + 1) = Inr c"
    using Cons.prems(2) buf_get_append [of p c "t @ replicate n NUL"] by (simp add: ac_simps)
  ultimately show ?case using Cons.prems by (subst block_len.simps) auto
qed

lemma render_no_NUL: "env_ok kvs \<Longrightarrow> NUL \<notin> set (render kvs)"
proof (induction kvs)
  case (Cons p kvs)
  then show ?case using pair_text_chars [of p] by auto
qed simp

lemma signature_ascii:
  assumes "table_ok tab"
  shows "ebcdic_to_ascii tab EBC_SIGNATURE 0 ENVBLK_SIGNATURE_SIZE = Inr ZIPL_ENVBLK_SIGNATURE"
proof -
  have "map (to_ascii tab) EBC_SIGNATURE = ZIPL_ENVBLK_SIGNATURE"
    by (simp add: EBC_SIGNATURE_def ZIPL_ENVBLK_SIGNATURE_def to_ascii_common [OF assms] ebcdic_def char_of_def bit_0)
  moreover have "length EBC_SIGNATURE = 25" by (simp add: EBC_SIGNATURE_def)
  ultimately show ?thesis using ebcdic_to_ascii_region [of 0 "[]" tab EBC_SIGNATURE "[]"] by simp
qed

text \<open>The loader accepts every well-formed block with at most 512 variables.\<close>

lemma parse_envblk_block:
  assumes "table_ok tab" and "env_ok kvs" and "length kvs \<le> MAX_ITEMS"
  shows "\<exists>items bs. parse_envblk tab (block kvs n) = Inr (True, parsed kvs [] n, items, bs) \<and> table_for kvs items bs"
proof -
  obtain items bs where r: "parse_lines (length (render kvs)) (block kvs n) 24 0 [] (replicate STR_HASH_SIZE None) =
      Inr (True, parsed kvs [] n, items, bs)" "table_for kvs items bs"
    using parse_lines_block [of "[]" kvs, OF _ _ table_for_empty, of n] assms(2,3) by (auto simp: block_def parsed_def)
  have "block_len (block kvs n) 24 (length (render kvs) + n) 0 = Inr (0 + length (render kvs))"
    unfolding block_def by (rule block_len_text) (use render_no_NUL [OF assms(2)] in auto)
  moreover obtain v where "strncmp (block kvs n) 0 ZIPL_ENVBLK_SIGNATURE 0 25 = Inr v" "v = 0"
    using strncmp_region [of 0 25 "block kvs n" 0 ZIPL_ENVBLK_SIGNATURE] by (auto simp: block_def)
  ultimately have "parse_envblk tab (block kvs n) = Inr (True, parsed kvs [] n, items, bs)"
    using signature_ascii [OF assms(1)] r(1) by (simp add: parse_envblk_def Let_def block_def)
  then show ?thesis using r(2) by blast
qed

section \<open>Lemmas on the lookup\<close>

lemma parsed_cell:
  assumes "i < length kvs"
  obtains p r where "parsed kvs [] n = p @ fst (kvs ! i) @ NUL # snd (kvs ! i) @ NUL # r"
    "length p = ENVBLK_SIGNATURE_SIZE + length (cells (take i kvs))"
proof
  have "cells kvs = cells (take i kvs) @ cell (kvs ! i) @ cells (drop (Suc i) kvs)"
    using assms id_take_nth_drop [of i kvs] by (metis cells_simps(2,3))
  then show "parsed kvs [] n = (ZIPL_ENVBLK_SIGNATURE @ cells (take i kvs)) @ fst (kvs ! i) @ NUL # snd (kvs ! i) @ NUL #
      (cells (drop (Suc i) kvs) @ replicate n NUL)"
    by (simp add: parsed_def cell_def)
qed simp

lemma env_ok_nth:
  assumes "env_ok kvs" and "i < length kvs"
  shows "NUL \<notin> set (fst (kvs ! i)) \<and> NUL \<notin> set (snd (kvs ! i))"
proof -
  have "case kvs ! i of (k, v) \<Rightarrow> key_ok k \<and> val_ok v"
    using bspec [OF assms(1) [unfolded env_ok_def] nth_mem [OF assms(2)]] .
  then show ?thesis unfolding case_prod_unfold key_ok_def val_ok_def by simp
qed

lemma find_chain_find:
  assumes "table_for kvs items bs" and "env_ok kvs" and "NUL \<notin> set nm" and "j = length a"
  shows "chain items p is \<Longrightarrow> \<forall>i \<in> set is. i < length kvs \<Longrightarrow> length is \<le> fuel \<Longrightarrow>
    find_chain fuel (parsed kvs [] n) items p (a @ nm @ NUL # b) j prefix =
      Inr (find (\<lambda>i. fst (kvs ! i) = key_of prefix nm) is)"
proof (induction "is" arbitrary: p fuel)
  case (Cons i "is")
  obtain fuel' where f: "fuel = Suc fuel'" using Cons.prems(3) by (cases fuel) auto
  have i: "i < length kvs" "p = Some i" using Cons.prems by auto
  obtain q r where m: "parsed kvs [] n = q @ fst (kvs ! i) @ NUL # snd (kvs ! i) @ NUL # r"
    "length q = ENVBLK_SIGNATURE_SIZE + length (cells (take i kvs))"
    using parsed_cell [OF i(1)] .
  have "str_eq (parsed kvs [] n) (eh_name (items ! i)) (a @ nm @ NUL # b) j prefix =
      Inr (fst (kvs ! i) = key_of prefix nm)"
    unfolding m(1) by (rule str_eq_string) (use assms env_ok_nth [OF assms(2) i(1)] i(1) m(2) in \<open>auto simp: table_for_def\<close>)
  then show ?case using Cons.IH [of "eh_next (items ! i)" fuel'] Cons.prems f i(2) by simp
qed simp

lemma find_filter: "(\<And>x. P x \<Longrightarrow> Q x) \<Longrightarrow> find P (filter Q xs) = find P xs"
  by (induction xs) auto

definition last_index :: "env \<Rightarrow> string \<Rightarrow> nat option" where
  "last_index kvs k = find (\<lambda>i. fst (kvs ! i) = k) (rev [0..<length kvs])"

lemma last_index_less: "last_index kvs k = Some i \<Longrightarrow> i < length kvs"
  unfolding last_index_def find_Some_iff by (metis atLeastLessThan_iff nth_mem set_rev set_upt)

lemma last_index_snoc:
  "last_index (kvs @ [p]) k = (if fst p = k then Some (length kvs) else last_index kvs k)"
  using find_cong [of "rev [0..<length kvs]" "rev [0..<length kvs]" "\<lambda>i. fst ((kvs @ [p]) ! i) = k" "\<lambda>i. fst (kvs ! i) = k"]
  by (simp add: last_index_def nth_append)

lemma last_index_map_of: "map_of (rev kvs) k = map_option (\<lambda>i. snd (kvs ! i)) (last_index kvs k)"
proof (induction kvs rule: rev_induct)
  case (snoc p kvs)
  then show ?case
    using last_index_less [of kvs k]
    by (cases p; cases "last_index kvs k") (auto simp: last_index_snoc nth_append)
qed (simp add: last_index_def)

lemma boot_hash_find_last:
  assumes "table_for kvs items bs" and "env_ok kvs" and "NUL \<notin> set nm" and "j = length a"
  shows "boot_hash_find (parsed kvs [] n) items bs (a @ nm @ NUL # b) j prefix =
    Inr (if nm = [] then None else last_index kvs (key_of prefix nm))"
proof -
  let ?k = "key_of prefix nm"
  have "strhash (a @ nm @ NUL # b) j prefix STR_HASH_SIZE = Inr (boot_hash ?k)"
    using strhash_string [OF assms(3,4), of b prefix STR_HASH_SIZE]
    by (simp add: boot_hash_def key_of_def split: option.splits)
  moreover have "find_chain (length items) (parsed kvs [] n) items (bs ! boot_hash ?k) (a @ nm @ NUL # b) j prefix =
      Inr (find (\<lambda>i. fst (kvs ! i) = ?k) (bucket_indices kvs (boot_hash ?k)))"
  proof (rule find_chain_find [OF assms])
    show "chain items (bs ! boot_hash ?k) (bucket_indices kvs (boot_hash ?k))"
      using assms(1) boot_hash_less by (simp add: table_for_def)
    show "length (bucket_indices kvs (boot_hash ?k)) \<le> length items"
      using assms(1) length_filter_le [of _ "[0..<length kvs]"] by (simp add: table_for_def bucket_indices_def)
  qed (simp add: bucket_indices_def)
  moreover have "find (\<lambda>i. fst (kvs ! i) = ?k) (bucket_indices kvs (boot_hash ?k)) = last_index kvs ?k"
    unfolding bucket_indices_def last_index_def rev_filter by (rule find_filter) simp
  ultimately show ?thesis using strlen_string [OF assms(3,4), of b] by (simp add: boot_hash_find_def)
qed

text \<open>The value of a name at boot time: the last definition for the site, or the last common one.\<close>

definition boot_value :: "env \<Rightarrow> char option \<Rightarrow> string \<Rightarrow> string" where
  "boot_value kvs site nm =
     (if nm = [] then []
      else case map_of (rev kvs) (key_of site nm) of
             Some v \<Rightarrow> v
           | None \<Rightarrow> (case map_of (rev kvs) nm of Some v \<Rightarrow> v | None \<Rightarrow> []))"

lemma lookup_item_value:
  assumes "table_for kvs items bs" and "env_ok kvs" and "NUL \<notin> set nm" and "j = length a"
  obtains item src q r where "lookup_item (parsed kvs [] n) items bs (a @ nm @ NUL # b) j site = Inr item"
    "item_value (parsed kvs [] n) items item = Inr (src, length q)"
    "src = q @ boot_value kvs site nm @ NUL # r" "NUL \<notin> set (boot_value kvs site nm)"
proof -
  let ?item = "if nm = [] then None else
    (case last_index kvs (key_of site nm) of Some i \<Rightarrow> Some i | None \<Rightarrow> last_index kvs nm)"
  have l: "lookup_item (parsed kvs [] n) items bs (a @ nm @ NUL # b) j site = Inr ?item"
    using boot_hash_find_last [OF assms, of n b site] boot_hash_find_last [OF assms, of n b None]
    by (cases site) (auto simp: lookup_item_def key_of_def split: option.splits)
  show thesis
  proof (cases ?item)
    case None
    then have "boot_value kvs site nm = []"
      by (auto simp: boot_value_def last_index_map_of split: option.splits if_splits)
    then show thesis using that [OF l, of "[NUL]" "[]"] None by (simp add: item_value_def)
  next
    case (Some i)
    then have v: "boot_value kvs site nm = snd (kvs ! i)" and i: "i < length kvs"
      by (auto simp: boot_value_def last_index_map_of dest: last_index_less split: option.splits if_splits)
    obtain q r where m: "parsed kvs [] n = q @ fst (kvs ! i) @ NUL # snd (kvs ! i) @ NUL # r"
      "length q = ENVBLK_SIGNATURE_SIZE + length (cells (take i kvs))"
      using parsed_cell [OF i] .
    have q: "eh_name (items ! i) = length q" using assms(1) i m(2) by (simp add: table_for_def)
    have "strlen (parsed kvs [] n) (length q) = Inr (length (fst (kvs ! i)))"
      unfolding m(1) using env_ok_nth [OF assms(2) i] by (intro strlen_string) auto
    then have "item_value (parsed kvs [] n) items ?item = Inr (parsed kvs [] n, length (q @ fst (kvs ! i) @ [NUL]))"
      using Some q by (simp add: item_value_def)
    then show thesis
      using that [OF l, of "parsed kvs [] n" "q @ fst (kvs ! i) @ [NUL]" r] m(1) v env_ok_nth [OF assms(2) i] by simp
  qed
qed

end
