(* ===== verification/Boot_Cmdline.thy ===== *)
theory Boot_Cmdline
  imports Boot_Env
begin

text \<open>
  The kernel command line (\<^verbatim>\<open>process_parm_line\<close>, \<^verbatim>\<open>get_active_site\<close>, \<^verbatim>\<open>handle_environment\<close> and
  \<^verbatim>\<open>setup_cmdline\<close> of \<^verbatim>\<open>src/zipl/boot/stage3.c\<close>).

  The reference \<open>expand\<close> replaces the patterns of a string from left to right. It also computes the largest
  length that the line has on the way, since the code does not clear what a longer line leaves behind. The
  lemmas show that the loop in memory computes \<open>expand\<close>, that the result is terminated if the line ends
  shorter than it began or at its largest length, and that otherwise it need not be.
\<close>

section \<open>The active site\<close>

abbreviation PARAM_SIZE :: nat where
  "PARAM_SIZE \<equiv> 8"

record nr_pair =
  np_str :: string
  np_val :: u64

text \<open>
  The subchannel that the machine was started from, and the load parameter as \<^verbatim>\<open>sclp_param\<close> returns it, if
  it does.
\<close>

record ipl_info =
  sc_one :: bool
  sc_ssid :: u64
  loadparm :: "string option"

function site_loop :: "ipl_info \<Rightarrow> string \<Rightarrow> nat \<Rightarrow> nr_pair \<Rightarrow> c_fault + nr_pair" where
  "site_loop ipl lp i np =
     (if i < PARAM_SIZE then
        rbind (buf_get lp i) (\<lambda>c.
          if c = CHR 0xE2 then
            rbind (buf_get lp (i + 1)) (\<lambda>c.
              if c = CHR 0xE2 then
                if sc_one ipl then
                  rbind (snprintf (np_str np) (PARAM_SIZE - 1) [CHR 0x6C, CHR 0xA4] [VNum (sc_ssid ipl)]) (\<lambda>s.
                    Inr (np\<lparr>np_str := s, np_val := sc_ssid ipl\<rparr>))
                else Inr np
              else
                rbind (ebcdic_strtoul lp (i + 1) 10) (\<lambda>(v, endptr).
                  case endptr of
                    None \<Rightarrow> Inl NullPointer
                  | Some e \<Rightarrow>
                      rbind (memcpy (np_str np) 0 lp (i + 1) (e - (i + 1))) (\<lambda>s. Inr (np\<lparr>np_str := s, np_val := v\<rparr>))))
          else site_loop ipl lp (i + 1) np)
      else Inr np)"
  by pat_completeness auto
termination by (relation "measure (\<lambda>(ipl, lp, i, np). PARAM_SIZE - i)") auto

declare site_loop.simps [simp del]

definition get_active_site_by_loadparm :: "ipl_info \<Rightarrow> nr_pair \<Rightarrow> c_fault + nr_pair" where
  "get_active_site_by_loadparm ipl np =
     (case loadparm ipl of
        None \<Rightarrow> Inr np
      | Some p \<Rightarrow> rbind (memcpy (replicate (PARAM_SIZE + 1) NUL) 0 p 0 PARAM_SIZE) (\<lambda>lp. site_loop ipl lp 0 np))"

text \<open>The text of the site, or nothing; the code uses its first character as the prefix.\<close>

definition get_active_site :: "nat list \<Rightarrow> ipl_info \<Rightarrow> c_fault + string option" where
  "get_active_site tab ipl =
     rbind (get_active_site_by_loadparm ipl \<lparr>np_str = replicate PARAM_SIZE NUL, np_val = 0\<rparr>) (\<lambda>np.
     rbind (buf_get (np_str np) 0) (\<lambda>c.
       if c = NUL then Inr None
       else rbind (strlen (np_str np) 0) (\<lambda>n.
            rbind (ebcdic_to_ascii tab (np_str np) 0 n) (\<lambda>s. Inr (Some s)))))"

section \<open>The command line\<close>

text \<open>
  The parts of the memory that stage 3 works on: its heap, the conversion table, the environment block, the
  parameter line and the extra parameters, if there are any, and the command line of the kernel.
\<close>

record stage3 =
  s3_heap :: heap
  s3_table :: "nat list"
  s3_envblk :: "string option"
  s3_parm :: "string option"
  s3_extra_parm :: bool
  s3_cextra :: string
  s3_cmdline :: string
  s3_max_cmdline :: nat

definition handle_environment :: "ipl_info \<Rightarrow> stage3 \<Rightarrow> nat \<Rightarrow> nat \<Rightarrow> c_fault + stage3" where
  "handle_environment ipl st len max_len =
     (case s3_envblk st of
        None \<Rightarrow> Inr st
      | Some m \<Rightarrow>
          rbind (get_zeroed_page (s3_heap st)) (\<lambda>(page, h).
          rbind (parse_envblk (s3_table st) m) (\<lambda>(good, m, items, bs).
          rbind (get_active_site (s3_table st) ipl) (\<lambda>site.
          rbind (process_parm_line m items bs (s3_cmdline st) len max_len (map_option (\<lambda>s. s ! 0) site)) (\<lambda>cl.
          rbind (free_page h page) (\<lambda>h.
            Inr (st\<lparr>s3_heap := h, s3_envblk := Some m, s3_cmdline := cl\<rparr>)))))))"

function skip_space :: "string \<Rightarrow> nat \<Rightarrow> c_fault + nat" where
  "skip_space m i = rbind (buf_get m i) (\<lambda>c. if c_isspace c then skip_space m (i + 1) else Inr i)"
  by pat_completeness auto
termination by (relation "measure (\<lambda>(m, i). length m - i)") (auto simp: buf_get_def split: if_splits)

declare skip_space.simps [simp del]

abbreviation LEGACY_COMMAND_LINE_SIZE :: nat where
  "LEGACY_COMMAND_LINE_SIZE \<equiv> 896"

abbreviation COMMAND_LINE_EXTRA_SIZE :: nat where
  "COMMAND_LINE_EXTRA_SIZE \<equiv> 1024"

text \<open>The extra parameters replace the line after an equals sign and are appended otherwise.\<close>

definition add_extra :: "nat list \<Rightarrow> string \<Rightarrow> string \<Rightarrow> nat \<Rightarrow> nat \<Rightarrow> c_fault + string \<times> string" where
  "add_extra tab cextra cl cmdline_len mx =
     rbind (ebcdic_to_ascii tab cextra 0 COMMAND_LINE_EXTRA_SIZE) (\<lambda>cextra.
     rbind (skip_space cextra 0) (\<lambda>i.
     rbind (buf_get cextra i) (\<lambda>c.
       if c = CHR 0x3D then rbind (strlcpy cl 0 cextra (i + 1) mx) (\<lambda>(cl, n). Inr (cextra, cl))
       else if c \<noteq> NUL \<and> cmdline_len + 1 \<le> mx - 1 then
         rbind (store cl cmdline_len (CHR 0x20)) (\<lambda>cl.
         rbind (strlcpy cl (cmdline_len + 1) cextra i (mx - (cmdline_len + 1))) (\<lambda>(cl, n). Inr (cextra, cl)))
       else Inr (cextra, cl))))"

definition setup_cmdline :: "ipl_info \<Rightarrow> stage3 \<Rightarrow> c_fault + stage3" where
  "setup_cmdline ipl st =
     (let mx = (if s3_max_cmdline st = 0 then LEGACY_COMMAND_LINE_SIZE else s3_max_cmdline st)
      in rbind (case s3_parm st of
                  None \<Rightarrow> Inr (s3_cmdline st)
                | Some p \<Rightarrow> rbind (strlcpy (s3_cmdline st) 0 p 0 mx) (\<lambda>(cl, n). Inr cl)) (\<lambda>cl.
         rbind (strlen cl 0) (\<lambda>n.
         rbind (if s3_extra_parm st then buf_get (s3_cextra st) 0 else Inr NUL) (\<lambda>c.
         rbind (if c = NUL then Inr (s3_cextra st, cl)
                else add_extra (s3_table st) (s3_cextra st) cl (min n (mx - 1)) mx) (\<lambda>(cextra, cl).
         rbind (strlen cl 0) (\<lambda>n.
           handle_environment ipl (st\<lparr>s3_cextra := cextra, s3_cmdline := cl\<rparr>) n mx))))))"

section \<open>The reference\<close>

function expand :: "(string \<Rightarrow> string) \<Rightarrow> nat \<Rightarrow> nat \<Rightarrow> nat \<Rightarrow> string \<Rightarrow> (string \<times> nat) option" where
  "expand val mx hw n rest =
     (let pre = takeWhile (\<lambda>c. c \<noteq> CHR ''$'') rest; tail = drop (length pre) rest
      in if length tail \<le> 3 then Some (rest, hw)
         else if tail ! 1 \<noteq> CHR 0x7B then
           map_option (\<lambda>(t, hw). (pre @ CHR ''$'' # t, hw)) (expand val mx hw (n + length pre + 1) (tl tail))
         else
           let nm = takeWhile (\<lambda>c. c \<noteq> CHR 0x7D) (drop 2 tail)
           in if length nm = length (drop 2 tail) then Some (rest, hw)
              else
                let v = val nm; e = n + length rest + length v - (length nm + 3)
                in if mx \<le> e then None
                   else map_option (\<lambda>(t, hw). (pre @ v @ t, hw))
                          (expand val mx (max hw e) (n + length pre + length v) (drop (length nm + 3) tail)))"
  by pat_completeness auto
termination
  by (relation "measure (\<lambda>(val, mx, hw, n, rest). length rest)") auto

declare expand.simps [simp del]

lemma takeWhile_all: "c \<notin> set xs \<Longrightarrow> takeWhile (\<lambda>x. x \<noteq> c) xs = xs"
  by (induction xs) auto

lemma takeWhile_first: "c \<notin> set xs \<Longrightarrow> takeWhile (\<lambda>x. x \<noteq> c) (xs @ c # ys) = xs"
  using takeWhile_all [of c xs] by (induction xs) auto

text \<open>The cases of the reference, by the form of the rest of the line.\<close>

lemma expand_no_dollar: "CHR ''$'' \<notin> set rest \<Longrightarrow> expand val mx hw n rest = Some (rest, hw)"
  by (subst expand.simps) (simp add: Let_def takeWhile_all)

lemma expand_short:
  "CHR ''$'' \<notin> set pre \<Longrightarrow> length t \<le> 2 \<Longrightarrow> expand val mx hw n (pre @ CHR ''$'' # t) = Some (pre @ CHR ''$'' # t, hw)"
  by (subst expand.simps) (simp add: Let_def takeWhile_first)

lemma expand_plain:
  "CHR ''$'' \<notin> set pre \<Longrightarrow> 2 < length t \<Longrightarrow> t ! 0 \<noteq> CHR 0x7B \<Longrightarrow>
   expand val mx hw n (pre @ CHR ''$'' # t) =
     map_option (\<lambda>(u, hw). (pre @ CHR ''$'' # u, hw)) (expand val mx hw (n + length pre + 1) t)"
  by (subst expand.simps) (simp add: Let_def takeWhile_first)

lemma expand_open:
  "CHR ''$'' \<notin> set pre \<Longrightarrow> 1 < length t \<Longrightarrow> CHR 0x7D \<notin> set t \<Longrightarrow>
   expand val mx hw n (pre @ CHR ''$'' # CHR 0x7B # t) = Some (pre @ CHR ''$'' # CHR 0x7B # t, hw)"
  by (subst expand.simps) (simp add: Let_def takeWhile_first takeWhile_all)

lemma expand_pattern:
  assumes "CHR ''$'' \<notin> set pre" and "CHR 0x7D \<notin> set nm" and "0 < length nm + length t"
    and "e = n + length pre + length (val nm) + length t"
  shows "expand val mx hw n (pre @ CHR ''$'' # CHR 0x7B # nm @ CHR 0x7D # t) =
    (if mx \<le> e then None
     else map_option (\<lambda>(u, hw). (pre @ val nm @ u, hw)) (expand val mx (max hw e) (n + length pre + length (val nm)) t))"
proof -
  have "takeWhile (\<lambda>c. c \<noteq> CHR 0x7D) (nm @ CHR 0x7D # t) = nm" using assms(2) by (rule takeWhile_first)
  moreover have "takeWhile (\<lambda>c. c \<noteq> CHR ''$'') (pre @ CHR ''$'' # CHR 0x7B # nm @ CHR 0x7D # t) = pre"
    using assms(1) by (rule takeWhile_first)
  moreover have "n + length (pre @ CHR ''$'' # CHR 0x7B # nm @ CHR 0x7D # t) + length (val nm) - (length nm + 3) = e"
    using assms(4) by simp
  moreover have "drop (length nm + 3) (CHR ''$'' # CHR 0x7B # nm @ CHR 0x7D # t) = t" by (simp add: numeral_3_eq_3)
  ultimately show ?thesis
    using assms(3) by (subst expand.simps) (auto simp: Let_def)
qed

section \<open>The loop in memory\<close>

text \<open>The forms of a line.\<close>

lemma line_cases:
  obtains (no_dollar) "CHR ''$'' \<notin> set rest"
  | (short) pre t where "rest = pre @ CHR ''$'' # t" "CHR ''$'' \<notin> set pre" "length t \<le> 2"
  | (plain) pre t where "rest = pre @ CHR ''$'' # t" "CHR ''$'' \<notin> set pre" "2 < length t" "t ! 0 \<noteq> CHR 0x7B"
  | (open_brace) pre t where "rest = pre @ CHR ''$'' # CHR 0x7B # t" "CHR ''$'' \<notin> set pre" "1 < length t" "CHR 0x7D \<notin> set t"
  | (pattern) pre nm t where "rest = pre @ CHR ''$'' # CHR 0x7B # nm @ CHR 0x7D # t" "CHR ''$'' \<notin> set pre"
      "CHR 0x7D \<notin> set nm" "0 < length nm + length t"
proof (cases "CHR ''$'' \<in> set rest")
  case True
  then obtain pre t where r: "rest = pre @ CHR ''$'' # t" "CHR ''$'' \<notin> set pre" by (meson split_list_first)
  consider "length t \<le> 2" | "2 < length t" "t ! 0 \<noteq> CHR 0x7B" | "2 < length t" "t ! 0 = CHR 0x7B" by linarith
  then show thesis
  proof cases
    case 3
    then obtain u where u: "t = CHR 0x7B # u" "1 < length u" by (cases t) auto
    show thesis
    proof (cases "CHR 0x7D \<in> set u")
      case True
      then obtain nm v where "u = nm @ CHR 0x7D # v" "CHR 0x7D \<notin> set nm" by (meson split_list_first)
      then show thesis using pattern [of pre nm v] r u by simp
    qed (use open_brace [of pre u] r u in simp)
  qed (use short [of pre t] plain [of pre t] r in auto)
qed (use no_dollar in simp)

lemma strchr_skip:
  "NUL \<notin> set q \<Longrightarrow> c \<notin> set q \<Longrightarrow> i = length p \<Longrightarrow> strchr (p @ q @ r) i c = strchr (p @ q @ r) (i + length q) c"
proof (induction q arbitrary: p i)
  case (Cons x q)
  have "strchr ((p @ [x]) @ q @ r) (i + 1) c = strchr ((p @ [x]) @ q @ r) (i + 1 + length q) c"
    using Cons.prems by (intro Cons.IH) auto
  moreover have "strchr (p @ (x # q) @ r) i c = strchr (p @ (x # q) @ r) (i + 1) c"
    using Cons.prems by (subst strchr.simps) auto
  ultimately show ?case by simp
qed simp

lemma strchr_total: "NUL \<in> set (drop s m) \<Longrightarrow> \<exists>r. strchr m s c = Inr r"
proof (induction m s c rule: strchr.induct)
  case (1 m s c)
  have s: "s < length m" using 1(2) by (metis drop_all empty_iff empty_set linorder_not_less)
  then have "drop s m = m ! s # drop (s + 1) m" by (simp add: Cons_nth_drop_Suc)
  then have "m ! s = NUL \<or> NUL \<in> set (drop (s + 1) m)" using 1(2) by auto
  then show ?case using 1(1) [of "m ! s"] s by (subst strchr.simps) (auto simp: buf_get_def)
qed

lemma strchr_beyond:
  assumes "NUL \<notin> set q" and "c \<notin> set q" and "NUL \<in> set r" and "i = length p"
  shows "strchr (p @ q @ r) i c = Inr None \<or> (\<exists>s. strchr (p @ q @ r) i c = Inr (Some s) \<and> i + length q \<le> s)"
proof -
  obtain v where v: "strchr (p @ q @ r) (i + length q) c = Inr v"
    using strchr_total [of "i + length q" "p @ q @ r" c] assms(3,4) by auto
  then show ?thesis
    using strchr_skip [OF assms(1,2,4), of r] by (cases v) (auto dest: strchr_ge)
qed

lemma parm_loop_no_dollar:
  assumes "CHR ''$'' \<notin> set rest" and "NUL \<notin> set rest" and "NUL \<in> set junk"
  shows "parm_loop m items bs site mx (dn @ rest @ junk) (length dn) (length dn + length rest) =
    Inr (dn @ rest @ junk, length dn + length rest)"
  using strchr_beyond [OF assms(2,1,3) refl, of dn] by (subst parm_loop.simps) auto

lemma parm_loop_short:
  assumes "CHR ''$'' \<notin> set pre" and "NUL \<notin> set (pre @ CHR ''$'' # t)" and "length t \<le> 2"
  shows "parm_loop m items bs site mx (dn @ (pre @ CHR ''$'' # t) @ junk) (length dn) (length dn + length (pre @ CHR ''$'' # t)) =
    Inr (dn @ (pre @ CHR ''$'' # t) @ junk, length dn + length (pre @ CHR ''$'' # t))"
  using strchr_found [of pre "CHR ''$''" "length dn" dn "t @ junk"] assms by (subst parm_loop.simps) auto

lemma parm_loop_plain:
  assumes "CHR ''$'' \<notin> set pre" and "NUL \<notin> set (pre @ CHR ''$'' # t)" and "2 < length t" and "t ! 0 \<noteq> CHR 0x7B"
  shows "parm_loop m items bs site mx (dn @ (pre @ CHR ''$'' # t) @ junk) (length dn) (length dn + length (pre @ CHR ''$'' # t)) =
    parm_loop m items bs site mx ((dn @ pre @ [CHR ''$'']) @ t @ junk) (length (dn @ pre @ [CHR ''$'']))
      (length (dn @ pre @ [CHR ''$'']) + length t)"
proof -
  have "buf_get (dn @ (pre @ CHR ''$'' # t) @ junk) (length dn + length pre + 1) = Inr (t ! 0)"
    using assms(3) by (auto simp: buf_get_def nth_append)
  then show ?thesis
    using strchr_found [of pre "CHR ''$''" "length dn" dn "t @ junk"] assms by (subst parm_loop.simps) (auto simp: add.assoc)
qed

lemma parm_loop_open:
  assumes "CHR ''$'' \<notin> set pre" and "NUL \<notin> set (pre @ CHR ''$'' # CHR 0x7B # t)" and "1 < length t"
    and "CHR 0x7D \<notin> set t" and "NUL \<in> set junk"
  shows "parm_loop m items bs site mx (dn @ (pre @ CHR ''$'' # CHR 0x7B # t) @ junk) (length dn)
      (length dn + length (pre @ CHR ''$'' # CHR 0x7B # t)) =
    Inr (dn @ (pre @ CHR ''$'' # CHR 0x7B # t) @ junk, length dn + length (pre @ CHR ''$'' # CHR 0x7B # t))"
proof -
  have "buf_get (dn @ (pre @ CHR ''$'' # CHR 0x7B # t) @ junk) (length dn + length pre + 1) = Inr (CHR 0x7B)"
    by (auto simp: buf_get_def nth_append)
  then show ?thesis
    using strchr_found [of pre "CHR ''$''" "length dn" dn "CHR 0x7B # t @ junk"] assms
      strchr_beyond [of "CHR ''$'' # CHR 0x7B # t" "CHR 0x7D" junk "length dn + length pre" "dn @ pre"]
    by (subst parm_loop.simps) auto
qed

text \<open>Replacing one pattern: the room for the value, and the value.\<close>

lemma replace_pattern:
  assumes "length dn = start" and "length old = stop + 1 - start" and "start \<le> stop"
    and "start + length v + length t \<le> length (dn @ old @ t @ junk)" and "src = q @ v @ NUL # r"
  shows "rbind (memmove (dn @ old @ t @ junk) (start + length v) (stop + 1) (length t)) (\<lambda>cl. memcpy cl start src (length q) (length v)) =
    Inr (dn @ v @ t @ drop (start + length v + length t) (dn @ old @ t @ junk))"
proof -
  define cl where "cl = dn @ old @ t @ junk"
  have "stop + 1 = length (dn @ old)" using assms(1-3) by simp
  then have t: "take (length t) (drop (stop + 1) cl) = t" and l: "stop + 1 + length t \<le> length cl" by (auto simp: cl_def)
  define w where "w = take (length v) (old @ t @ junk)"
  have w: "take (start + length v) cl = dn @ w" "length w = length v"
    using assms(1,4) by (auto simp: cl_def w_def)
  have "memmove cl (start + length v) (stop + 1) (length t) = Inr (dn @ w @ t @ drop (start + length v + length t) cl)"
    using memmove_region [OF l] assms(4) t w(1) by (simp add: cl_def [symmetric])
  moreover have "memcpy (dn @ w @ z) start src (length q) (length v) = Inr (dn @ v @ z)" for z
  proof (cases "v = []")
    case False
    have "take (length v) (drop (length q) src) = v" "length q + length v \<le> length src" using assms(5) by simp_all
    then show ?thesis
      using False buf_write_append [of start dn w v z] assms(1) w(2) by (simp only: memcpy_eq length_0_conv if_True if_False simp_thms)
  qed (use w(2) in simp)
  ultimately show ?thesis unfolding cl_def [symmetric] by simp
qed

lemma parm_loop_pattern:
  assumes "table_for kvs items bs" and "env_ok kvs" and "CHR ''$'' \<notin> set pre" and "CHR 0x7D \<notin> set nm"
    and "NUL \<notin> set rest" and "rest = pre @ CHR ''$'' # CHR 0x7B # nm @ CHR 0x7D # t" and "0 < length nm + length t"
    and "v = boot_value kvs site nm" and "e = length dn + length pre + length v + length t"
    and "mx \<le> length (dn @ rest @ junk)"
  shows "parm_loop (parsed kvs [] n) items bs site mx (dn @ rest @ junk) (length dn) (length dn + length rest) =
    (if mx \<le> e then Inr (dn @ pre @ CHR ''$'' # CHR 0x7B # nm @ NUL # t @ junk, length dn + length rest)
     else parm_loop (parsed kvs [] n) items bs site mx
            ((dn @ pre @ v) @ t @ drop e (dn @ pre @ CHR ''$'' # CHR 0x7B # nm @ NUL # t @ junk))
            (length (dn @ pre @ v)) (length (dn @ pre @ v) + length t))"
proof -
  let ?start = "length dn + length pre" and ?stop = "length dn + length pre + 2 + length nm"
  let ?a = "dn @ pre @ [CHR ''$'', CHR 0x7B]"
  let ?cl = "?a @ nm @ NUL # t @ junk"
  have nul: "NUL \<notin> set pre" "NUL \<notin> set nm" using assms(5,6) by auto
  have dollar: "strchr (dn @ rest @ junk) (length dn) (CHR ''$'') = Inr (Some ?start)"
    using strchr_found [OF nul(1) assms(3), of "length dn" dn "CHR 0x7B # nm @ CHR 0x7D # t @ junk"] assms(6) by simp
  have brace: "buf_get (dn @ rest @ junk) (?start + 1) = Inr (CHR 0x7B)"
    using assms(6) by (auto simp: buf_get_def nth_append)
  have close: "strchr (dn @ rest @ junk) ?start (CHR 0x7D) = Inr (Some ?stop)"
    using strchr_found [of "CHR ''$'' # CHR 0x7B # nm" "CHR 0x7D" ?start "dn @ pre" "t @ junk"] assms(4,6) nul(2) by simp
  have st: "store (dn @ rest @ junk) ?stop NUL = Inr ?cl"
    using assms(6) by (simp add: store_def list_update_append)
  have a: "?start + 2 = length ?a" by simp
  obtain item src q r where "lookup_item (parsed kvs [] n) items bs ?cl (?start + 2) site = Inr item"
    "item_value (parsed kvs [] n) items item = Inr (src, length q)" "src = q @ boot_value kvs site nm @ NUL # r"
    "NUL \<notin> set (boot_value kvs site nm)"
    by (rule lookup_item_value [OF assms(1,2) nul(2) a, of n "t @ junk" site])
  note item = this [folded assms(8)]
  have len: "strlen src (length q) = Inr (length v)" using strlen_string [OF item(4) refl, of q r] item(3) by simp
  have e: "length dn + length rest + length v - (?stop - ?start + 1) = e" using assms(6,9) by simp
  have n: "length dn + length rest - (?stop + 1) = length t" using assms(6) by simp
  have fits: "?start + length v + length t \<le> length ?cl" if "\<not> mx \<le> e" using that assms(6,9,10) by simp
  have mv: "\<exists>cl. memmove ?cl (?start + length v) (?stop + 1) (length t) = Inr cl \<and>
      memcpy cl ?start src (length q) (length v) = Inr ((dn @ pre @ v) @ t @ drop e ?cl)" if "\<not> mx \<le> e"
    using replace_pattern [of "dn @ pre" ?start "CHR ''$'' # CHR 0x7B # nm @ [NUL]" ?stop v t junk src q r] fits [OF that] item(3) assms(9)
    by (simp add: rbind_Inr)
  have lt: "length dn < length dn + length rest" "\<not> ?start + 3 \<ge> length dn + length rest" "\<not> ?stop \<ge> length dn + length rest"
    using assms(6,7) by auto
  note run = lt dollar brace close st item(1,2) len e n rbind_simps option.case prod.case if_True if_False simp_thms
  have cl: "dn @ pre @ CHR ''$'' # CHR 0x7B # nm @ NUL # t @ junk = ?cl" by simp
  show ?thesis
  proof (cases "mx \<le> e")
    case True
    then show ?thesis
      unfolding cl by (subst parm_loop.simps) (simp only: run)
  next
    case False
    then obtain cl' where mm: "memmove ?cl (?start + length v) (?stop + 1) (length t) = Inr cl'"
      "memcpy cl' ?start src (length q) (length v) = Inr ((dn @ pre @ v) @ t @ drop e ?cl)"
      using mv by blast
    have pos: "?start + length v = length (dn @ pre @ v)" "e = length (dn @ pre @ v) + length t" using assms(9) by simp_all
    have "parm_loop (parsed kvs [] n) items bs site mx (dn @ rest @ junk) (length dn) (length dn + length rest) =
        parm_loop (parsed kvs [] n) items bs site mx ((dn @ pre @ v) @ t @ drop e ?cl) (?start + length v) e"
      using False by (subst parm_loop.simps) (simp only: run mm)
    then show ?thesis unfolding cl using False pos by simp
  qed
qed

definition zero_from :: "nat \<Rightarrow> string \<Rightarrow> bool" where
  "zero_from k cl \<longleftrightarrow> (\<forall>x \<in> set (drop k cl). x = NUL)"

lemma zero_from_junk:
  assumes "zero_from hw (p @ junk)" and "length p \<le> hw" and "hw < length (p @ junk)"
  shows "NUL \<in> set junk"
proof -
  have "drop (hw - length p) junk \<noteq> []" using assms(2,3) by simp
  then obtain x where "x \<in> set (drop (hw - length p) junk)" by (metis list.set_intros(1) neq_Nil_conv)
  then show ?thesis using assms(1,2) by (auto simp: zero_from_def dest: in_set_dropD)
qed

lemma zero_from_mono: "zero_from k cl \<Longrightarrow> k \<le> l \<Longrightarrow> zero_from l cl"
  using set_drop_subset_set_drop by (fastforce simp: zero_from_def)

lemma pattern_zero:
  assumes "zero_from hw (dn @ (pre @ a # b # nm @ c # t) @ junk)" and "length dn + length (pre @ a # b # nm @ c # t) \<le> hw"
    and "length d = e"
  shows "zero_from (max hw e) (d @ drop e (dn @ pre @ a # b # nm @ NUL # t @ junk))"
proof -
  let ?cl = "dn @ pre @ a # b # nm @ NUL # t @ junk"
  have "drop hw ?cl = drop hw (dn @ (pre @ a # b # nm @ c # t) @ junk)"
    using assms(2) by (simp add: drop_append drop_Cons')
  then have "zero_from (max hw e) ?cl" using assms(1) zero_from_mono [of hw ?cl "max hw e"] by (simp add: zero_from_def)
  moreover have "drop (max hw e) (d @ drop e ?cl) = drop (max hw e) ?cl" 
  proof -
    have "drop k (d @ drop e xs) = drop k xs" if "e \<le> k" for k and xs :: string using assms(3) that by simp
    then show ?thesis by (meson max.cobounded2)
  qed
  ultimately show ?thesis by (simp only: zero_from_def)
qed

text \<open>The loop computes the reference.\<close>

lemma parm_loop_expand:
  assumes "table_for kvs items bs" and "env_ok kvs"
  shows "expand (boot_value kvs site) mx hw (length dn) rest = Some (t, hw') \<Longrightarrow> NUL \<notin> set rest \<Longrightarrow>
    length dn + length rest \<le> hw \<Longrightarrow> hw < mx \<Longrightarrow> mx \<le> length (dn @ rest @ junk) \<Longrightarrow> zero_from hw (dn @ rest @ junk) \<Longrightarrow>
    \<exists>junk'. parm_loop (parsed kvs [] n) items bs site mx (dn @ rest @ junk) (length dn) (length dn + length rest) =
        Inr (dn @ t @ junk', length dn + length t) \<and>
      length (dn @ t @ junk') = length (dn @ rest @ junk) \<and> zero_from hw' (dn @ t @ junk') \<and>
      length dn + length t \<le> hw' \<and> hw' < mx"
proof (induction "length rest" arbitrary: rest dn junk hw t rule: less_induct)
  case less
  have junk: "NUL \<in> set junk" using zero_from_junk [of hw "dn @ rest" junk] less.prems by simp
  show ?case
  proof (cases rest rule: line_cases)
    case no_dollar
    then show ?thesis
      using less.prems parm_loop_no_dollar [OF no_dollar less.prems(2) junk] by (auto simp: expand_no_dollar)
  next
    case (short pre u)
    then show ?thesis
      using less.prems parm_loop_short [of pre u] by (auto simp: expand_short)
  next
    case (open_brace pre u)
    then show ?thesis
      using less.prems parm_loop_open [of pre u junk] junk by (auto simp: expand_open)
  next
    case (plain pre u)
    let ?d = "dn @ pre @ [CHR ''$'']"
    obtain s where s: "expand (boot_value kvs site) mx hw (length ?d) u = Some (s, hw')" "t = pre @ CHR ''$'' # s"
      using less.prems(1) plain by (auto simp: expand_plain)
    have "\<exists>junk'. parm_loop (parsed kvs [] n) items bs site mx (?d @ u @ junk) (length ?d) (length ?d + length u) =
        Inr (?d @ s @ junk', length ?d + length s) \<and>
      length (?d @ s @ junk') = length (?d @ u @ junk) \<and> zero_from hw' (?d @ s @ junk') \<and> length ?d + length s \<le> hw' \<and> hw' < mx"
      by (rule less.hyps [OF _ s(1)]) (use plain less.prems in auto)
    then show ?thesis
      using parm_loop_plain [of pre u "parsed kvs [] n" items bs site mx dn junk] plain less.prems(2) s(2) by auto
  next
    case (pattern pre nm u)
    define v where "v = boot_value kvs site nm"
    define e where "e = length dn + length pre + length v + length u"
    let ?d = "dn @ pre @ v" and ?cl = "dn @ pre @ CHR ''$'' # CHR 0x7B # nm @ NUL # u @ junk"
    obtain s where s: "\<not> mx \<le> e" "expand (boot_value kvs site) mx (max hw e) (length ?d) u = Some (s, hw')" "t = pre @ v @ s"
      using less.prems(1) expand_pattern [OF pattern(2,3,4), of e "length dn" "boot_value kvs site" mx hw] pattern(1) v_def e_def
      by (auto simp: add.assoc split: if_splits)
    have len: "length (?d @ u @ drop e ?cl) = length (dn @ rest @ junk)" using s(1) less.prems(5) pattern(1) e_def by simp
    have "\<exists>junk'. parm_loop (parsed kvs [] n) items bs site mx (?d @ u @ drop e ?cl) (length ?d) (length ?d + length u) =
        Inr (?d @ s @ junk', length ?d + length s) \<and>
      length (?d @ s @ junk') = length (?d @ u @ drop e ?cl) \<and> zero_from hw' (?d @ s @ junk') \<and> length ?d + length s \<le> hw' \<and> hw' < mx"
    proof (rule less.hyps [OF _ s(2)])
      show "zero_from (max hw e) (?d @ u @ drop e ?cl)"
        using pattern_zero [of hw dn pre _ _ nm _ u junk "?d @ u" e] less.prems(3,6) pattern(1) e_def by simp
    qed (use pattern less.prems s(1) len e_def in auto)
    then show ?thesis
      using parm_loop_pattern [OF assms pattern(2,3) less.prems(2) pattern(1,4) v_def e_def less.prems(5), of n] s len by auto
  qed
qed

section \<open>The whole line\<close>

lemma boot_value_no_NUL:
  assumes "env_ok kvs"
  shows "NUL \<notin> set (boot_value kvs site nm)"
proof -
  have "NUL \<notin> set v" if "map_of (rev kvs) k = Some v" for k v
    using that last_index_less [of kvs k] env_ok_nth [OF assms] by (auto simp: last_index_map_of)
  then show ?thesis by (auto simp: boot_value_def split: option.splits)
qed

lemma expand_no_NUL:
  assumes "\<And>nm. NUL \<notin> set (val nm)"
  shows "expand val mx hw n rest = Some (t, hw') \<Longrightarrow> NUL \<notin> set rest \<Longrightarrow> NUL \<notin> set t"
proof (induction "length rest" arbitrary: rest hw n t rule: less_induct)
  case less
  show ?case
  proof (cases rest rule: line_cases)
    case (plain pre u)
    obtain s where "expand val mx hw (n + length pre + 1) u = Some (s, hw')" "t = pre @ CHR ''$'' # s"
      using less.prems(1) plain by (auto simp: expand_plain)
    then show ?thesis using less.hyps [of u] plain less.prems(2) by auto
  next
    case (pattern pre nm u)
    obtain s hw2 k where "expand val mx hw2 k u = Some (s, hw')" "t = pre @ val nm @ s"
      using less.prems(1) expand_pattern [OF pattern(2,3,4) refl, where n = n and val = val and mx = mx and hw = hw] pattern(1) by (auto split: if_splits)
    then show ?thesis using less.hyps [of u] pattern less.prems(2) assms by auto
  qed (use less.prems in \<open>auto simp: expand_no_dollar expand_short expand_open\<close>)
qed

text \<open>The result in memory: the expanded line, terminated if it is shorter than before or at its largest length.\<close>

lemma process_parm_line_expand:
  assumes "table_for kvs items bs" and "env_ok kvs" and "NUL \<notin> set line" and "length line < mx" and "mx \<le> length line + z"
    and "expand (boot_value kvs site) mx (length line) 0 line = Some (line', hw)"
  shows "\<exists>junk. process_parm_line (parsed kvs [] n) items bs (line @ replicate z NUL) (length line) mx site = Inr (line' @ junk) \<and>
    length (line' @ junk) = length line + z \<and>
    (length line' < length line \<or> length line' = hw \<longrightarrow> junk ! 0 = NUL \<and> junk \<noteq> [])"
proof -
  have z: "zero_from (length line) (line @ replicate z NUL)" by (simp add: zero_from_def)
  obtain junk where j: "parm_loop (parsed kvs [] n) items bs site mx (line @ replicate z NUL) 0 (length line) =
      Inr (line' @ junk, length line')" "length (line' @ junk) = length line + z"
    "zero_from hw (line' @ junk)" "length line' \<le> hw" "hw < mx"
    using parm_loop_expand [OF assms(1,2), of site mx "length line" "[]" line line' hw "replicate z NUL" n] assms z by auto
  have ne: "junk \<noteq> []" using j(2,4,5) assms(5) by auto
  show ?thesis
  proof (cases "length line' < length line")
    case True
    let ?k = "length line - length line'"
    have "memset (line' @ junk) (length line') NUL ?k = Inr (line' @ replicate ?k NUL @ drop ?k junk)"
      using True j(2) by (simp add: memset_eq buf_memset_def buf_write_def)
    then show ?thesis
      using True j(1,2) by (intro exI [of _ "replicate ?k NUL @ drop ?k junk"]) (auto simp: process_parm_line_def nth_append)
  next
    case False
    have "junk ! 0 = NUL" if "length line' = hw"
      using j(3) that ne by (simp add: zero_from_def)
    then show ?thesis
      using False j(1,2) ne by (intro exI [of _ junk]) (auto simp: process_parm_line_def)
  qed
qed

lemma cstr_terminated: "NUL \<notin> set t \<Longrightarrow> junk ! 0 = NUL \<Longrightarrow> junk \<noteq> [] \<Longrightarrow> cstr (t @ junk) = t"
  by (cases junk) auto

section \<open>Lemmas on the active site\<close>

lemma site_loop_skip:
  "CHR 0xE2 \<notin> set pre \<Longrightarrow> i = length p \<Longrightarrow> i + length pre \<le> PARAM_SIZE \<Longrightarrow>
   site_loop ipl (p @ pre @ r) i np = site_loop ipl (p @ pre @ r) (i + length pre) np"
proof (induction pre arbitrary: p i)
  case (Cons x pre)
  have "site_loop ipl ((p @ [x]) @ pre @ r) (i + 1) np = site_loop ipl ((p @ [x]) @ pre @ r) (i + 1 + length pre) np"
    using Cons.prems by (intro Cons.IH) auto
  moreover have "site_loop ipl (p @ (x # pre) @ r) i np = site_loop ipl (p @ (x # pre) @ r) (i + 1) np"
    using Cons.prems by (subst site_loop.simps) auto
  ultimately show ?case by simp
qed simp

text \<open>A load parameter with digits behind the first \<^verbatim>\<open>S\<close> selects the site of these digits.\<close>

lemma get_active_site_digits:
  assumes "table_ok tab" and "loadparm ipl = Some (pre @ CHR 0xE2 # ds @ suf)" and "length (pre @ CHR 0xE2 # ds @ suf) = PARAM_SIZE"
    and "CHR 0xE2 \<notin> set pre" and "ds \<noteq> []" and "\<forall>x \<in> set ds. ebcdic_isdigit x"
    and "suf = [] \<or> \<not> ebcdic_isdigit (suf ! 0)"
  shows "get_active_site tab ipl = Inr (Some (map (to_ascii tab) ds @ replicate (PARAM_SIZE - length ds) NUL))"
proof -
  let ?np = "\<lparr>np_str = replicate PARAM_SIZE NUL, np_val = 0\<rparr>" and ?z = "replicate (PARAM_SIZE - length ds) NUL"
  define lp where "lp = pre @ CHR 0xE2 # ds @ suf @ [NUL]"
  obtain c r where c: "suf @ [NUL] = c # r" "\<not> ebcdic_isdigit c"
    using assms(7) by (cases suf) (auto simp: ebcdic_isdigit_def)
  have lp: "lp = pre @ CHR 0xE2 # ds @ c # r" using c(1) by (simp add: lp_def)
  obtain d ds' where d: "ds = d # ds'" "ebcdic_isdigit d" using assms(5,6) by (cases ds) auto
  have nul: "x \<noteq> NUL" "x \<noteq> CHR 0xE2" if "ebcdic_isdigit x" for x using that by (auto simp: ebcdic_isdigit_def)
  have cp: "memcpy (replicate (PARAM_SIZE + 1) NUL) 0 (pre @ CHR 0xE2 # ds @ suf) 0 PARAM_SIZE = Inr lp"
    using assms(3) by (simp add: memcpy_eq buf_write_def lp_def)
  have "ebc_value 0 ds < 10 ^ length ds" using ebc_value_bound [OF assms(6), of 0] by simp
  also have "\<dots> \<le> 10 ^ 8" using assms(3) by (intro power_increasing) auto
  finally have v: "ebc_value 0 ds < 2 ^ 64" by simp
  have num: "ebcdic_strtoul lp (length pre + 1) 10 = Inr (of_nat (ebc_value 0 ds), Some (length pre + 1 + length ds))"
    using ebcdic_strtoul_digits [OF assms(6) c(2) v, of "pre @ [CHR 0xE2]" r] lp by simp
  have str: "memcpy (replicate PARAM_SIZE NUL) 0 lp (length pre + 1) (length ds) = Inr (ds @ ?z)"
    using assms(3,5) by (simp add: memcpy_eq buf_write_def lp)
  have at: "buf_get lp (length pre) = Inr (CHR 0xE2)" "buf_get lp (length pre + 1) = Inr d"
    using d(1) by (simp_all add: lp buf_get_def nth_append)
  have "site_loop ipl lp 0 ?np = site_loop ipl lp (length pre) ?np"
    using site_loop_skip [OF assms(4), of 0 "[]" ipl "CHR 0xE2 # ds @ c # r" ?np] assms(3) lp by simp
  also have "\<dots> = Inr \<lparr>np_str = ds @ ?z, np_val = of_nat (ebc_value 0 ds)\<rparr>"
    using assms(3) at num str nul(2) [OF d(2)] by (subst site_loop.simps) simp
  finally have "get_active_site_by_loadparm ipl ?np = Inr \<lparr>np_str = ds @ ?z, np_val = of_nat (ebc_value 0 ds)\<rparr>"
    using assms(2) cp by (simp add: get_active_site_by_loadparm_def)
  moreover have "strlen (ds @ ?z) 0 = Inr (length ds)"
  proof -
    obtain k where "?z = NUL # replicate k NUL"
      using assms(3) by (cases "PARAM_SIZE - length ds") auto
    then show ?thesis using strlen_string [of ds 0 "[]"] assms(6) nul by fastforce
  qed
  moreover have "ebcdic_to_ascii tab (ds @ ?z) 0 (length ds) = Inr (map (to_ascii tab) ds @ ?z)"
    using ebcdic_to_ascii_region [of 0 "[]" tab ds ?z] by simp
  ultimately show ?thesis
    using d nul(1) [OF d(2)] by (simp add: get_active_site_def buf_get_def)
qed

section \<open>Lemmas on the setup of the command line\<close>

lemma handle_environment_expand:
  assumes "s3_envblk st = Some (block kvs n)" and "table_ok (s3_table st)" and "env_ok kvs" and "length kvs \<le> MAX_ITEMS"
    and "heap_ok (s3_heap st)" and "get_zeroed_page (s3_heap st) = Inr (a, h)"
    and "get_active_site (s3_table st) ipl = Inr site" and "prefix = map_option (\<lambda>s. s ! 0) site"
    and "s3_cmdline st = line @ replicate z NUL" and "NUL \<notin> set line" and "length line < mx" and "mx \<le> length line + z"
    and "expand (boot_value kvs prefix) mx (length line) 0 line = Some (line', hw)"
    and "length line' < length line \<or> length line' = hw"
  shows "\<exists>st'. handle_environment ipl st (length line) mx = Inr st' \<and> cstr (s3_cmdline st') = line' \<and>
    length (s3_cmdline st') = length (s3_cmdline st) \<and> pages_used (s3_heap st') = pages_used (s3_heap st)"
proof -
  obtain items bs where p: "parse_envblk (s3_table st) (block kvs n) = Inr (True, parsed kvs [] n, items, bs)"
    "table_for kvs items bs"
    using parse_envblk_block [OF assms(2,3,4)] by blast
  obtain junk where j: "process_parm_line (parsed kvs [] n) items bs (line @ replicate z NUL) (length line) mx prefix = Inr (line' @ junk)"
    "length (line' @ junk) = length line + z" "junk ! 0 = NUL" "junk \<noteq> []"
    using process_parm_line_expand [OF p(2) assms(3,10,11,12,13), of n] assms(14) by blast
  have "heap_ok h" using boot_pages.get_fresh [OF assms(5,6)] by simp
  then obtain h' where h': "free_page h a = Inr h'" "pages_used h' = pages_used (s3_heap st)"
    using boot_pages.page_returned [OF assms(5,6) _ refl] by blast
  have "NUL \<notin> set line'" using expand_no_NUL [OF boot_value_no_NUL [OF assms(3)] assms(13,10)] .
  then have "cstr (line' @ junk) = line'" using j(3,4) by (rule cstr_terminated)
  then show ?thesis
    using assms(1,6-9) p(1) j(1,2) h' by (simp add: handle_environment_def)
qed

lemma setup_cmdline_expand:
  assumes "s3_parm st = Some (line @ NUL # q)" and "\<not> s3_extra_parm st" and "s3_cmdline st = replicate N NUL"
    and "mx = (if s3_max_cmdline st = 0 then LEGACY_COMMAND_LINE_SIZE else s3_max_cmdline st)" and "mx \<le> N" and "length line < mx"
    and "NUL \<notin> set line"
    and "s3_envblk st = Some (block kvs n)" and "table_ok (s3_table st)" and "env_ok kvs" and "length kvs \<le> MAX_ITEMS"
    and "heap_ok (s3_heap st)" and "get_zeroed_page (s3_heap st) = Inr (a, h)"
    and "get_active_site (s3_table st) ipl = Inr site" and "prefix = map_option (\<lambda>s. s ! 0) site"
    and "expand (boot_value kvs prefix) mx (length line) 0 line = Some (line', hw)"
    and "length line' < length line \<or> length line' = hw"
  shows "\<exists>st'. setup_cmdline ipl st = Inr st' \<and> cstr (s3_cmdline st') = line' \<and> pages_used (s3_heap st') = pages_used (s3_heap st)"
proof -
  let ?n = "length line" and ?z = "N - length line"
  have N: "replicate N NUL = [] @ replicate (?n + 1) NUL @ replicate (N - (?n + 1)) NUL"
  proof -
    have "N = (?n + 1) + (N - (?n + 1))" using assms(5,6) by simp
    then show ?thesis by (metis append_Nil replicate_add)
  qed
  have z: "NUL # replicate (N - (?n + 1)) NUL = replicate ?z NUL"
    using assms(5,6) by (cases ?z) (auto simp: Suc_diff_Suc)
  have cp: "strlcpy (replicate N NUL) 0 (line @ NUL # q) 0 mx = Inr (line @ replicate ?z NUL, ?n)"
  proof -
    have "strlcpy ([] @ replicate (?n + 1) NUL @ replicate (N - (?n + 1)) NUL) 0 ([] @ line @ NUL # q) (length ([] :: string)) mx =
        Inr ([] @ take (mx - 1) line @ NUL # replicate (N - (?n + 1)) NUL, ?n)"
      by (rule strlcpy_string) (use assms(6,7) in auto)
    moreover have "take (mx - 1) line = line" using assms(6) by simp
    ultimately show ?thesis using N z by simp
  qed
  have len: "strlen (line @ replicate ?z NUL) 0 = Inr ?n"
    using strlen_string [OF assms(7), of 0 "[]" "replicate (N - (?n + 1)) NUL"] z by simp
  let ?st = "st\<lparr>s3_cextra := s3_cextra st, s3_cmdline := line @ replicate ?z NUL\<rparr>"
  have "setup_cmdline ipl st = handle_environment ipl ?st ?n mx"
    unfolding setup_cmdline_def Let_def assms(4) [symmetric]
    using assms(1-3) cp len by simp
  moreover have "\<exists>st'. handle_environment ipl ?st ?n mx = Inr st' \<and> cstr (s3_cmdline st') = line' \<and>
      length (s3_cmdline st') = length (s3_cmdline ?st) \<and> pages_used (s3_heap st') = pages_used (s3_heap ?st)"
    by (rule handle_environment_expand [of ?st kvs n a h ipl site prefix line ?z mx line' hw]) (use assms in simp_all)
  ultimately show ?thesis by auto
qed

text \<open>A line with a single pattern.\<close>

lemma expand_single:
  assumes "CHR ''$'' \<notin> set a" and "CHR ''$'' \<notin> set b" and "CHR 0x7D \<notin> set nm" and "nm \<noteq> []"
    and "line = a @ CHR ''$'' # CHR 0x7B # nm @ CHR 0x7D # b" and "length (a @ val nm @ b) < mx"
  shows "expand val mx (length line) 0 line = Some (a @ val nm @ b, max (length line) (length (a @ val nm @ b)))"
  using expand_pattern [OF assms(1,3), where t = b and n = 0 and val = val and mx = mx and hw = "length line"] assms(4-6)
  by (simp add: expand_no_dollar [OF assms(2)] add.assoc)

lemma map_of_rev: "distinct (map fst kvs) \<Longrightarrow> map_of (rev kvs) = map_of kvs"
  by (simp add: map_of_inject_set rev_map [symmetric])

lemma boot_value_distinct:
  assumes "distinct (map fst kvs)" and "nm \<noteq> []"
  shows "boot_value kvs site nm =
    (case map_of kvs (key_of site nm) of Some v \<Rightarrow> v | None \<Rightarrow> (case map_of kvs nm of Some v \<Rightarrow> v | None \<Rightarrow> []))"
  using assms map_of_rev [OF assms(1)] by (simp only: boot_value_def if_False)

lemma length_env_put: "length (env_put k v kvs) \<le> length kvs + 1"
  by (induction kvs) auto

lemma boot_value_put:
  assumes "distinct (map fst kvs)" and "nm \<noteq> []"
    and "name = key_of prefix nm \<or> (name = nm \<and> key_of prefix nm \<notin> fst ` set kvs)"
  shows "boot_value (env_put name v kvs) prefix nm = v"
proof -
  have "map_of kvs (key_of prefix nm) = None" if "key_of prefix nm \<notin> fst ` set kvs"
    using that by (simp add: map_of_eq_None_iff)
  then show ?thesis
    using boot_value_distinct [OF env_put_distinct [OF assms(1)] assms(2)] assms(3) by (auto simp: env_put_lookup)
qed

text \<open>The two lines of the counterexamples.\<close>

lemma parm_loop_done: "e \<le> start \<Longrightarrow> parm_loop m items bs site mx cl start e = Inr (cl, e)"
  by (subst parm_loop.simps) simp

lemma leftover_name:
  assumes "table_for [(''A'', ''0123456789'')] items bs"
  shows "process_parm_line (parsed [(''A'', ''0123456789'')] [] n) items bs
    ([CHR ''$'', CHR 0x7B, CHR ''A'', CHR 0x7D, CHR ''$'', CHR 0x7B, CHR ''B'', CHR 0x7D] @ replicate 8 NUL) 8 16 None =
    Inr (''0123456789'' @ CHR ''$'' # CHR 0x7B # CHR ''B'' # replicate 3 NUL)"
proof -
  let ?kvs = "[(''A'', ''0123456789'')]"
  have ok: "env_ok ?kvs" by (simp add: key_ok_def val_ok_def)
  have val: "boot_value ?kvs None ''A'' = ''0123456789''" "boot_value ?kvs None ''B'' = []"
    by (simp_all add: boot_value_def key_of_def)
  note one = parm_loop_pattern [OF assms ok, where pre = "[]" and nm = "''A''" and dn = "[]" and t = "[CHR ''$'', CHR 0x7B, CHR ''B'', CHR 0x7D]"
      and site = None and mx = 16 and junk = "replicate 8 NUL" and n = n, OF _ _ _ refl _ refl refl]
  note two = parm_loop_pattern [OF assms ok, where pre = "[]" and nm = "''B''" and dn = "''0123456789''" and t = "[]"
      and site = None and mx = 16 and junk = "[NUL, NUL]" and n = n, OF _ _ _ refl _ refl refl]
  show ?thesis
    using one two by (simp add: val process_parm_line_def parm_loop_done numeral_eq_Suc)
qed

lemma lost_tail:
  assumes "table_for [(''A'', ''0123456789'')] items bs"
  shows "process_parm_line (parsed [(''A'', ''0123456789'')] [] n) items bs
    ([CHR ''$'', CHR 0x7B, CHR ''A'', CHR 0x7D, CHR '' '', CHR ''r'', CHR ''o''] @ replicate 8 NUL) 7 12 None =
    Inr (CHR ''$'' # CHR 0x7B # CHR ''A'' # NUL # '' ro'' @ replicate 8 NUL)"
proof -
  let ?kvs = "[(''A'', ''0123456789'')]"
  have ok: "env_ok ?kvs" by (simp add: key_ok_def val_ok_def)
  have val: "boot_value ?kvs None ''A'' = ''0123456789''" by (simp add: boot_value_def key_of_def)
  note one = parm_loop_pattern [OF assms ok, where pre = "[]" and nm = "''A''" and dn = "[]" and t = "'' ro''"
      and site = None and mx = 12 and junk = "replicate 8 NUL" and n = n, OF _ _ _ refl _ refl refl]
  show ?thesis using one by (simp add: val process_parm_line_def numeral_eq_Suc)
qed

section \<open>Properties\<close>


text \<open>A machine with a free page, a command line of 64 bytes and the load parameter \<^verbatim>\<open>S1\<close>.\<close>

definition sample_stage3 :: "string \<Rightarrow> string \<Rightarrow> stage3" where
  "sample_stage3 blk line =
     \<lparr>s3_heap = stage2_heap, s3_table = ebcdic, s3_envblk = Some blk, s3_parm = Some (line @ [NUL]),
      s3_extra_parm = False, s3_cextra = [], s3_cmdline = replicate 64 NUL, s3_max_cmdline = 64\<rparr>"

definition sample_ipl :: ipl_info where
  "sample_ipl = \<lparr>sc_one = False, sc_ssid = 0,
     loadparm = Some ([] @ CHR 0xE2 # [CHR 0xF1] @ replicate 6 (CHR 0x40))\<rparr>"

lemma sample_table: "table_ok ebcdic"
  unfolding table_ok_def ebcdic_update_table_def by (intro exI [of _ True]) simp

lemma sample_page: "heap_ok stage2_heap" "\<exists>a h. get_zeroed_page stage2_heap = Inr (a, h)"
proof -
  show ok: "heap_ok stage2_heap" by (simp add: heap_ok_def stage2_heap_def)
  show "\<exists>a h. get_zeroed_page stage2_heap = Inr (a, h)"
    using ok
  proof (cases rule: get_zeroed_page_cases)
    case full
    then show ?thesis by (auto simp: stage2_heap_def page_count_def dest!: spec [of _ 0])
  qed blast
qed

lemma sample_site: "\<exists>s. get_active_site ebcdic sample_ipl = Inr (Some s) \<and> s ! 0 = CHR ''1''"
proof -
  have "get_active_site ebcdic sample_ipl =
      Inr (Some (map (to_ascii ebcdic) [CHR 0xF1] @ replicate (PARAM_SIZE - length [CHR 0xF1]) NUL))"
    by (rule get_active_site_digits [OF sample_table, where pre = "[]" and suf = "replicate 6 (CHR 0x40)"]) (simp_all add: sample_ipl_def ebcdic_isdigit_def)
  moreover have "to_ascii ebcdic (CHR 0xF1) = CHR ''1''" by (simp add: to_ascii_def ebcdic_def char_of_def bit_0)
  ultimately show ?thesis by simp
qed


text \<open>
  C8. A variable that \<^verbatim>\<open>zipl-editenv\<close> sets is what the kernel gets at the next boot: after a successful
  \<^verbatim>\<open>envblk_set\<close> of the variable itself, or of the one of the active site, the pattern of the name in the
  parameter line is replaced by the new value.
\<close>

theorem envblk_set_boot:
  assumes "env_ok kvs" and "distinct (map fst kvs)" and "length kvs < ENVBLK_MAX_LINES" and "key_ok name" and "val_ok v"
    and "envblk_set (block kvs n) (length (block kvs n)) name v = Inr (0, blk)"
    and "get_active_site (s3_table st) ipl = Inr site" and "prefix = map_option (\<lambda>s. s ! 0) site"
    and "name = key_of prefix nm \<or> (name = nm \<and> key_of prefix nm \<notin> fst ` set kvs)"
    and "nm \<noteq> []" and "CHR 0x7D \<notin> set nm" and "CHR ''$'' \<notin> set a" and "CHR ''$'' \<notin> set b"
    and "line = a @ CHR ''$'' # CHR 0x7B # nm @ CHR 0x7D # b" and "NUL \<notin> set line"
    and "length line < mx" and "length (a @ v @ b) < mx" and "mx \<le> N"
    and "mx = (if s3_max_cmdline st = 0 then LEGACY_COMMAND_LINE_SIZE else s3_max_cmdline st)"
    and "s3_envblk st = Some blk" and "s3_parm st = Some (line @ NUL # q)" and "\<not> s3_extra_parm st"
    and "s3_cmdline st = replicate N NUL" and "table_ok (s3_table st)"
    and "heap_ok (s3_heap st)" and "get_zeroed_page (s3_heap st) = Inr (pg, h)"
  shows "\<exists>st'. setup_cmdline ipl st = Inr st' \<and> cstr (s3_cmdline st') = a @ v @ b"
proof -
  let ?kvs = "env_put name v kvs"
  obtain n' where blk: "blk = block ?kvs n'"
    using envblk_set_block [OF assms(1,4,3), of n v] assms(6) by (auto simp: Let_def split: if_splits)
  have v: "boot_value ?kvs prefix nm = v" by (rule boot_value_put [OF assms(2,10,9)])
  have e: "expand (boot_value ?kvs prefix) mx (length line) 0 line = Some (a @ v @ b, max (length line) (length (a @ v @ b)))"
    using expand_single [OF assms(12,13,11,10,14), of "boot_value ?kvs prefix" mx] assms(17) by (simp only: v)
  have len: "length ?kvs \<le> MAX_ITEMS"
    using length_env_put [of name v kvs] assms(3) by (simp add: ENVBLK_MAX_LINES_def)
  have "length (a @ v @ b) < length line \<or> length (a @ v @ b) = max (length line) (length (a @ v @ b))" by linarith
  from setup_cmdline_expand [OF assms(21,22,23,19,18,16,15) assms(20) [unfolded blk] assms(24) env_put_ok [OF assms(1,4,5)] len
      assms(25,26,7,8) e this]
  show ?thesis by blast
qed

theorem envblk_set_boot_witness:
  "\<exists>blk st'. envblk_set (block [(''r'', ''x'')] 9) (length (block [(''r'', ''x'')] 9)) ''1r'' ''sda'' = Inr (0, blk) \<and>
     setup_cmdline sample_ipl (sample_stage3 blk (''root='' @ CHR ''$'' # CHR 0x7B # ''r'' @ CHR 0x7D # '' ro'')) = Inr st' \<and>
     cstr (s3_cmdline st') = ''root=sda ro''"
proof -
  let ?line = "''root='' @ CHR ''$'' # CHR 0x7B # ''r'' @ CHR 0x7D # '' ro''"
  have ok: "env_ok [(''r'', ''x'')]" "key_ok ''1r''" "val_ok ''sda''" by (simp_all add: key_ok_def val_ok_def)
  obtain blk where blk: "envblk_set (block [(''r'', ''x'')] 9) (length (block [(''r'', ''x'')] 9)) ''1r'' ''sda'' = Inr (0, blk)"
    using envblk_set_block [OF ok(1,2), of 9 "''sda''"] by (simp add: ENVBLK_MAX_LINES_def Let_def)
  let ?st = "sample_stage3 blk ?line"
  obtain pg h where page: "get_zeroed_page (s3_heap ?st) = Inr (pg, h)" using sample_page(2) by (auto simp: sample_stage3_def)
  obtain s where site: "get_active_site (s3_table ?st) sample_ipl = Inr (Some s)" "s ! 0 = CHR ''1''"
    using sample_site by (auto simp: sample_stage3_def)
  have "\<exists>st'. setup_cmdline sample_ipl ?st = Inr st' \<and> cstr (s3_cmdline st') = ''root='' @ ''sda'' @ '' ro''"
    by (rule envblk_set_boot [OF ok(1) _ _ ok(2,3) blk site(1) refl _ _ _ _ _ _ _ _ _ _ _ _ _ _ _ _ _ page,
          where nm = "''r''" and line = ?line and mx = 64 and N = 64 and q = "[]"])
      (simp_all add: sample_stage3_def sample_table sample_page(1) key_of_def site(2) ENVBLK_MAX_LINES_def)
  then show ?thesis using blk by auto
qed


end
