(* ===== verification/Boot_Memory.thy ===== *)
theory Boot_Memory
  imports S390_Prelude
begin

text \<open>
  Memory as a function from addresses to bytes, with the big-endian values in it. The loader stages and the
  structures that the installer writes for them share these definitions.
\<close>

section \<open>Definitions\<close>

type_synonym memory = "nat \<Rightarrow> u8"

definition read_be :: "memory \<Rightarrow> nat \<Rightarrow> nat \<Rightarrow> nat" where
  "read_be mem a n = foldl (\<lambda>v i. 256 * v + unat (mem (a + i))) 0 [0..<n]"

definition mem_bytes :: "memory \<Rightarrow> nat \<Rightarrow> nat \<Rightarrow> u8 list" where
  "mem_bytes mem a n = map (\<lambda>i. mem (a + i)) [0..<n]"

definition mem_write :: "memory \<Rightarrow> nat \<Rightarrow> u8 list \<Rightarrow> memory" where
  "mem_write mem a bs = (\<lambda>x. if a \<le> x \<and> x < a + length bs then bs ! (x - a) else mem x)"

text \<open>The \<open>n\<close> bytes of a field; higher digits are cut off, as in the assignment to a narrower field.\<close>

primrec be :: "nat \<Rightarrow> nat \<Rightarrow> u8 list" where
  "be 0 v = []"
| "be (Suc n) v = of_nat (v div 256 ^ n) # be n v"

definition be_value :: "u8 list \<Rightarrow> nat" where
  "be_value bs = foldl (\<lambda>v b. 256 * v + unat b) 0 bs"

section \<open>Lemmas\<close>

lemma length_mem_bytes [simp]: "length (mem_bytes mem a n) = n"
  by (simp add: mem_bytes_def)

lemma nth_mem_bytes [simp]: "i < n \<Longrightarrow> mem_bytes mem a n ! i = mem (a + i)"
  by (simp add: mem_bytes_def)

lemma length_be [simp]: "length (be n v) = n"
  by (induction n) auto

lemma read_be_value: "read_be mem a n = be_value (mem_bytes mem a n)"
  by (simp add: read_be_def be_value_def mem_bytes_def foldl_map)

lemma mem_bytes_eq: "(\<And>i. i < n \<Longrightarrow> mem (a + i) = bs ! i) \<Longrightarrow> length bs = n \<Longrightarrow> mem_bytes mem a n = bs"
  by (simp add: list_eq_iff_nth_eq)

lemma mem_bytes_append: "mem_bytes mem a (n + k) = mem_bytes mem a n @ mem_bytes mem (a + n) k"
  by (rule mem_bytes_eq) (auto simp: nth_append)

lemma mem_bytes_sub:
  assumes "mem_bytes mem a n = bs" and "i + k \<le> n"
  shows "mem_bytes mem (a + i) k = take k (drop i bs)"
  using assms by (intro mem_bytes_eq) (auto simp: mem_bytes_def add.assoc)

lemma mem_bytes_write [simp]: "n = length bs \<Longrightarrow> mem_bytes (mem_write mem a bs) a n = bs"
  by (rule mem_bytes_eq) (simp_all add: mem_write_def)

lemma mem_write_outside: "x < a \<or> a + length bs \<le> x \<Longrightarrow> mem_write mem a bs x = mem x"
  by (auto simp: mem_write_def)

lemma mem_bytes_cong: "(\<And>x. a \<le> x \<Longrightarrow> x < a + n \<Longrightarrow> m x = m' x) \<Longrightarrow> mem_bytes m a n = mem_bytes m' a n"
  by (simp add: mem_bytes_def)

lemma mem_bytes_write_outside:
  "a + n \<le> b \<or> b + length bs \<le> a \<Longrightarrow> mem_bytes (mem_write mem b bs) a n = mem_bytes mem a n"
  by (rule mem_bytes_cong) (auto simp: mem_write_def)

lemma mem_write_append: "mem_write (mem_write mem a bs) (a + length bs) cs = mem_write mem a (bs @ cs)"
  by (auto simp: mem_write_def nth_append fun_eq_iff)

lemma mem_write_Nil [simp]: "mem_write mem a [] = mem"
  by (auto simp: mem_write_def fun_eq_iff)

lemma be_value_acc: "foldl (\<lambda>v b. 256 * v + unat (b :: u8)) v bs = v * 256 ^ length bs + be_value bs"
proof (induction bs arbitrary: v)
  case (Cons b bs)
  have "foldl (\<lambda>v b. 256 * v + unat b) v (b # bs) = (256 * v + unat b) * 256 ^ length bs + be_value bs"
    using Cons by simp
  moreover have "be_value (b # bs) = unat b * 256 ^ length bs + be_value bs"
    using Cons [of "unat b"] by (simp add: be_value_def)
  ultimately show ?case by (simp add: algebra_simps)
qed (simp add: be_value_def)

lemma be_value_simps [simp]:
  "be_value [] = 0" "be_value (b # bs) = unat b * 256 ^ length bs + be_value bs"
  using be_value_acc [of "unat b" bs] by (simp_all add: be_value_def)

lemma be_value_be: "be_value (be n v) = v mod 256 ^ n"
proof (induction n)
  case (Suc n)
  have "be_value (be (Suc n) v) = (v div 256 ^ n mod 256) * 256 ^ n + v mod 256 ^ n"
    by (simp add: Suc unat_of_nat)
  also have "\<dots> = v mod (256 ^ n * 256)" unfolding mod_mult2_eq by (simp only: mult.commute)
  finally show ?case by (simp only: power_Suc mult.commute)
qed simp

lemma be_value_less: "be_value bs < 256 ^ length bs"
proof (induction bs)
  case (Cons b bs)
  have "unat b < 256" using unsigned_less [of b, where ?'a = nat] by simp
  then have "unat b \<le> 255" by simp
  then have "unat b * 256 ^ length bs + be_value bs < 255 * 256 ^ length bs + 256 ^ length bs"
    using Cons by (intro add_le_less_mono mult_le_mono1)
  then show ?case by simp
qed simp

lemma read_be_less: "read_be mem a n < 256 ^ n"
  using be_value_less [of "mem_bytes mem a n"] by (simp add: read_be_value)

lemma read_be_bytes: "mem_bytes mem a n = be n v \<Longrightarrow> v < 256 ^ n \<Longrightarrow> read_be mem a n = v"
  by (simp add: read_be_value be_value_be)

lemma read_be_simps:
  "read_be mem a 4 = 256 * (256 * (256 * unat (mem a) + unat (mem (a + 1))) + unat (mem (a + 2))) + unat (mem (a + 3))"
  "read_be mem a 8 = 256 * (256 * (256 * (256 * read_be mem a 4 + unat (mem (a + 4))) + unat (mem (a + 5))) + unat (mem (a + 6))) + unat (mem (a + 7))"
proof -
  have u: "[0..<4] = [0, 1, 2, 3]" "[0..<8] = [0, 1, 2, 3, 4, 5, 6, 7]" by (simp_all add: upt_rec)
  show "read_be mem a 4 = 256 * (256 * (256 * unat (mem a) + unat (mem (a + 1))) + unat (mem (a + 2))) + unat (mem (a + 3))"
    and "read_be mem a 8 = 256 * (256 * (256 * (256 * read_be mem a 4 + unat (mem (a + 4))) + unat (mem (a + 5))) + unat (mem (a + 6))) + unat (mem (a + 7))"
    unfolding read_be_def u by simp_all
qed

end
