(* ===== verification/Boot_Secure.thy ===== *)
theory Boot_Secure
  imports Boot_Libc Boot_Memory
begin

text \<open>
  The checks of a secure boot (\<^verbatim>\<open>is_verified_address\<close>, \<^verbatim>\<open>secure_boot_enabled\<close> and
  \<^verbatim>\<open>verify_secure_boot\<close> of \<^verbatim>\<open>src/zipl/boot/stage3.c\<close>).

  The firmware leaves a report in memory: a list of blocks, each with its length and type, one of which
  lists the components that were loaded. Memory is a function from addresses to bytes, and the fields are
  big-endian. The walk over the blocks does not end if a block has length zero; not returning is \<open>None\<close>.
  The machine and what \<^verbatim>\<open>diag308\<close> returns are parameters.
\<close>

unbundle bit_operations_syntax

section \<open>Definitions\<close>

text \<open>The fields of a report block at \<open>rb\<close> and of a component entry at \<open>c\<close>.\<close>

definition rb_len :: "memory \<Rightarrow> nat \<Rightarrow> nat" where
  "rb_len mem rb = read_be mem rb 4"

definition rb_type :: "memory \<Rightarrow> nat \<Rightarrow> u8" where
  "rb_type mem rb = mem (rb + 4)"

definition comp_addr :: "memory \<Rightarrow> nat \<Rightarrow> nat" where
  "comp_addr mem c = read_be mem c 8"

definition comp_flags :: "memory \<Rightarrow> nat \<Rightarrow> u8" where
  "comp_flags mem c = mem (c + 16)"

abbreviation IPL_RBT_COMPONENTS :: u8 where
  "IPL_RBT_COMPONENTS \<equiv> 2"

abbreviation IPL_RB_COMPONENT_FLAG_SIGNED :: u8 where
  "IPL_RB_COMPONENT_FLAG_SIGNED \<equiv> 0x80"

abbreviation IPL_RB_COMPONENT_FLAG_VERIFIED :: u8 where
  "IPL_RB_COMPONENT_FLAG_VERIFIED \<equiv> 0x40"

text \<open>The condition and the walk of the loop over the report blocks; headers have 16 bytes.\<close>

definition rb_inside :: "memory \<Rightarrow> nat \<Rightarrow> nat \<Rightarrow> bool" where
  "rb_inside mem rl_end rb \<longleftrightarrow> rb + 16 < rl_end \<and> rb + rb_len mem rb \<le> rl_end"

partial_function (option) rb_walk :: "memory \<Rightarrow> nat \<Rightarrow> nat \<Rightarrow> nat option \<Rightarrow> nat option option" where
  "rb_walk mem rl_end rb comps =
     (if rb_inside mem rl_end rb then
        rb_walk mem rl_end (rb + rb_len mem rb) (if rb_type mem rb = IPL_RBT_COMPONENTS then Some rb else comps)
      else Some comps)"

text \<open>The entries of a component block have 32 bytes and follow its header.\<close>

function find_component :: "memory \<Rightarrow> nat \<Rightarrow> nat \<Rightarrow> nat \<Rightarrow> bool" where
  "find_component mem comps ce image_addr =
     (if ce + 32 \<le> comps + rb_len mem comps then
        if image_addr = comp_addr mem ce \<and> comp_flags mem ce AND IPL_RB_COMPONENT_FLAG_SIGNED \<noteq> 0 \<and>
           comp_flags mem ce AND IPL_RB_COMPONENT_FLAG_VERIFIED \<noteq> 0
        then True
        else find_component mem comps (ce + 32) image_addr
      else False)"
  by pat_completeness auto
termination
  by (relation "measure (\<lambda>(mem, comps, ce, image_addr). comps + rb_len mem comps - ce)") auto

declare find_component.simps [simp del]

text \<open>The report list follows the parameter list at the next double word.\<close>

definition report_list :: "memory \<Rightarrow> nat \<Rightarrow> nat" where
  "report_list mem ipl_parmblock_ptr = (ipl_parmblock_ptr + read_be mem ipl_parmblock_ptr 4 + 7) div 8 * 8"

definition is_verified_address :: "memory \<Rightarrow> nat \<Rightarrow> nat \<Rightarrow> bool option" where
  "is_verified_address mem ipl_parmblock_ptr image_addr =
     (let rl = report_list mem ipl_parmblock_ptr
      in map_option (\<lambda>comps. case comps of None \<Rightarrow> False | Some c \<Rightarrow> find_component mem c (c + 16) image_addr)
           (rb_walk mem (rl + read_be mem rl 4) (rl + 16) None))"

text \<open>What \<^verbatim>\<open>diag308\<close> stores: the return code and the version and flags of the parameter list.\<close>

datatype diag308_rc = DIAG308_RC_OK | DIAG308_RC_NOCONFIG | DIAG308_RC_OTHER

record diag308_store =
  d308_rc :: diag308_rc
  d308_version :: u8
  d308_flags :: u8

definition secure_boot_enabled :: "diag308_store \<Rightarrow> heap \<Rightarrow> c_fault + bool \<times> heap" where
  "secure_boot_enabled d h =
     rbind (get_zeroed_page h) (\<lambda>(page, h).
     rbind (case d308_rc d of
              DIAG308_RC_OK \<Rightarrow> Inr (d308_version d \<le> 0 \<and> d308_flags d AND 0x40 \<noteq> 0)
            | DIAG308_RC_NOCONFIG \<Rightarrow> Inr False
            | DIAG308_RC_OTHER \<Rightarrow> Inl Stopped) (\<lambda>rc.
     rbind (free_page h page) (\<lambda>h. Inr (rc, h))))"

abbreviation IMAGE_LOAD_ADDRESS :: u64 where
  "IMAGE_LOAD_ADDRESS \<equiv> 0x10000"

abbreviation DEFAULT_PSW_LOAD :: u64 where
  "DEFAULT_PSW_LOAD \<equiv> 0x0008000080010000"

abbreviation PSW32_ADDR_MASK :: u64 where
  "PSW32_ADDR_MASK \<equiv> 0x7FFFFFFF"

definition verify_secure_boot :: "memory \<Rightarrow> nat \<Rightarrow> u64 \<Rightarrow> u64 \<Rightarrow> (c_fault + unit) option" where
  "verify_secure_boot mem ptr image_addr load_psw =
     (if image_addr \<noteq> IMAGE_LOAD_ADDRESS \<or> load_psw \<noteq> DEFAULT_PSW_LOAD then Some (Inl Stopped)
      else map_option (\<lambda>ok. if ok then Inr () else Inl Stopped)
             (is_verified_address mem ptr (unat (load_psw AND PSW32_ADDR_MASK))))"

text \<open>The first statement of \<^verbatim>\<open>start\<close>.\<close>

definition start_secure :: "diag308_store \<Rightarrow> memory \<Rightarrow> nat \<Rightarrow> u64 \<Rightarrow> u64 \<Rightarrow> heap \<Rightarrow> (c_fault + heap) option" where
  "start_secure d mem ptr image_addr load_psw h =
     (case secure_boot_enabled d h of
        Inl e \<Rightarrow> Some (Inl e)
      | Inr (enabled, h) \<Rightarrow>
          if enabled then map_option (\<lambda>r. rbind r (\<lambda>_. Inr h)) (verify_secure_boot mem ptr image_addr load_psw)
          else Some (Inr h))"

section \<open>Lemmas\<close>

text \<open>The blocks that the walk visits.\<close>

inductive rb_blocks :: "memory \<Rightarrow> nat \<Rightarrow> nat \<Rightarrow> nat list \<Rightarrow> bool" for mem rl_end where
  rb_stop: "\<not> rb_inside mem rl_end rb \<Longrightarrow> rb_blocks mem rl_end rb []"
| rb_step: "rb_inside mem rl_end rb \<Longrightarrow> rb_blocks mem rl_end (rb + rb_len mem rb) bs \<Longrightarrow> rb_blocks mem rl_end rb (rb # bs)"

inductive_cases rb_blocks_consE: "rb_blocks mem rl_end rb (b # bs)"

definition last_components :: "memory \<Rightarrow> nat list \<Rightarrow> nat option \<Rightarrow> nat option" where
  "last_components mem bs c = fold (\<lambda>rb c. if rb_type mem rb = IPL_RBT_COMPONENTS then Some rb else c) bs c"

lemma rb_walk_blocks: "rb_blocks mem rl_end rb bs \<Longrightarrow> rb_walk mem rl_end rb c = Some (last_components mem bs c)"
  by (induction arbitrary: c rule: rb_blocks.induct) (simp_all add: rb_walk.simps last_components_def)

lemma rb_blocks_exist:
  assumes "\<And>rb. rb_inside mem rl_end rb \<Longrightarrow> 0 < rb_len mem rb"
  shows "\<exists>bs. rb_blocks mem rl_end rb bs"
proof (induction "rl_end - rb" arbitrary: rb rule: less_induct)
  case less
  show ?case
  proof (cases "rb_inside mem rl_end rb")
    case True
    then have "rl_end - (rb + rb_len mem rb) < rl_end - rb" using assms [OF True] by (auto simp: rb_inside_def)
    then show ?thesis using less [of "rb + rb_len mem rb"] True rb_step by blast
  qed (blast intro: rb_stop)
qed


lemma rb_walk_Some:
  assumes "rb_walk mem rl_end rb c = Some r"
  shows "\<exists>bs. rb_blocks mem rl_end rb bs \<and> r = last_components mem bs c"
proof (rule rb_walk.raw_induct [where P = "\<lambda>mem rl_end rb c r. \<exists>bs. rb_blocks mem rl_end rb bs \<and> r = last_components mem bs c", OF _ assms])
  fix f mem rl_end rb c r
  assume IH: "\<And>mem rl_end rb c r. f mem rl_end rb c = Some r \<Longrightarrow> \<exists>bs. rb_blocks mem rl_end rb bs \<and> r = last_components mem bs c"
    and r: "(if rb_inside mem rl_end rb
      then f mem rl_end (rb + rb_len mem rb) (if rb_type mem rb = IPL_RBT_COMPONENTS then Some rb else c) else Some c) = Some r"
  show "\<exists>bs. rb_blocks mem rl_end rb bs \<and> r = last_components mem bs c"
  proof (cases "rb_inside mem rl_end rb")
    case True
    then obtain bs where "rb_blocks mem rl_end (rb + rb_len mem rb) bs"
      "r = last_components mem bs (if rb_type mem rb = IPL_RBT_COMPONENTS then Some rb else c)"
      using IH [of mem rl_end "rb + rb_len mem rb"] r by (simp only: if_True) blast
    then show ?thesis
      using rb_step [OF True] by (intro exI [of _ "rb # bs"]) (simp add: last_components_def)
  next
    case False
    then show ?thesis using r rb_stop by (intro exI [of _ "[]"]) (simp add: last_components_def)
  qed
qed

text \<open>A component entry that is signed and verified.\<close>

definition verified_entry :: "memory \<Rightarrow> nat \<Rightarrow> nat \<Rightarrow> bool" where
  "verified_entry mem ce addr \<longleftrightarrow>
     comp_addr mem ce = addr \<and> comp_flags mem ce AND IPL_RB_COMPONENT_FLAG_SIGNED \<noteq> 0 \<and>
     comp_flags mem ce AND IPL_RB_COMPONENT_FLAG_VERIFIED \<noteq> 0"

lemma find_component_iff:
  "find_component mem comps ce addr \<longleftrightarrow> (\<exists>i. ce + 32 * i + 32 \<le> comps + rb_len mem comps \<and> verified_entry mem (ce + 32 * i) addr)"
proof (induction mem comps ce addr rule: find_component.induct)
  case (1 mem comps ce addr)
  show ?case
  proof (cases "ce + 32 \<le> comps + rb_len mem comps \<and> \<not> verified_entry mem ce addr")
    case True
    have "(\<exists>i. ce + 32 * i + 32 \<le> comps + rb_len mem comps \<and> verified_entry mem (ce + 32 * i) addr) \<longleftrightarrow>
        (\<exists>i. ce + 32 + 32 * i + 32 \<le> comps + rb_len mem comps \<and> verified_entry mem (ce + 32 + 32 * i) addr)" (is "?l \<longleftrightarrow> ?r")
    proof
      assume ?l
      then obtain i where i: "ce + 32 * i + 32 \<le> comps + rb_len mem comps" "verified_entry mem (ce + 32 * i) addr" by blast
      then obtain j where "i = Suc j" using True by (cases i) auto
      then show ?r using i by (intro exI [of _ j]) (simp add: ac_simps)
    next
      assume ?r
      then obtain i where "ce + 32 + 32 * i + 32 \<le> comps + rb_len mem comps" "verified_entry mem (ce + 32 + 32 * i) addr" by blast
      then show ?l by (intro exI [of _ "Suc i"]) (simp add: ac_simps)
    qed
    then show ?thesis using 1 True by (subst find_component.simps) (auto simp: verified_entry_def)
  next
    case False
    then show ?thesis
      by (subst find_component.simps) (auto simp: verified_entry_def intro: exI [of _ 0])
  qed
qed

text \<open>What a report says of an address.\<close>

definition report_verifies :: "memory \<Rightarrow> nat \<Rightarrow> nat \<Rightarrow> bool" where
  "report_verifies mem ptr addr \<longleftrightarrow>
     (let rl = report_list mem ptr
      in \<exists>bs c i. rb_blocks mem (rl + read_be mem rl 4) (rl + 16) bs \<and> last_components mem bs None = Some c \<and>
           c + 16 + 32 * i + 32 \<le> c + rb_len mem c \<and> verified_entry mem (c + 16 + 32 * i) addr)"

lemma rb_blocks_unique: "rb_blocks mem rl_end rb bs \<Longrightarrow> rb_blocks mem rl_end rb bs' \<Longrightarrow> bs = bs'"
proof (induction arbitrary: bs' rule: rb_blocks.induct)
  case (rb_stop rb)
  then show ?case by (auto elim: rb_blocks.cases)
next
  case (rb_step rb bs)
  from rb_step(4) rb_step(1) obtain bs'' where "bs' = rb # bs''" "rb_blocks mem rl_end (rb + rb_len mem rb) bs''"
    by (auto elim: rb_blocks.cases)
  then show ?case using rb_step(3) by simp
qed

lemma is_verified_address_Some:
  assumes "is_verified_address mem ptr addr = Some v"
  shows "v \<longleftrightarrow> report_verifies mem ptr addr"
proof -
  let ?rl = "report_list mem ptr" and ?e = "report_list mem ptr + read_be mem (report_list mem ptr) 4"
  obtain r where r: "rb_walk mem ?e (?rl + 16) None = Some r" and
    v: "v = (case r of None \<Rightarrow> False | Some c \<Rightarrow> find_component mem c (c + 16) addr)"
    using assms by (auto simp: is_verified_address_def Let_def)
  obtain bs where bs: "rb_blocks mem ?e (?rl + 16) bs" "r = last_components mem bs None" using rb_walk_Some [OF r] by blast
  have "v \<longleftrightarrow> (\<exists>c. last_components mem bs None = Some c \<and> find_component mem c (c + 16) addr)"
    unfolding v bs(2) by (cases "last_components mem bs None") auto
  also have "\<dots> \<longleftrightarrow> (\<exists>c i. last_components mem bs None = Some c \<and>
      c + 16 + 32 * i + 32 \<le> c + rb_len mem c \<and> verified_entry mem (c + 16 + 32 * i) addr)"
    unfolding find_component_iff by blast
  also have "\<dots> \<longleftrightarrow> report_verifies mem ptr addr"
    unfolding report_verifies_def Let_def using bs(1) rb_blocks_unique [OF bs(1)] by metis
  finally show ?thesis .
qed

section \<open>Properties\<close>

text \<open>
  C7. With secure boot enabled, stage 3 goes on only if the kernel was loaded to its default address with its
  default PSW and the report of the firmware has an entry for the entry point 0x10000 that is signed and
  verified; the page for the parameter list is returned.
\<close>

theorem secure_boot_safe:
  assumes "heap_ok h" and "d308_rc d = DIAG308_RC_OK" and "d308_version d = 0" and "d308_flags d AND 0x40 \<noteq> 0"
    and "start_secure d mem ptr image_addr load_psw h = Some (Inr h')"
  shows "image_addr = IMAGE_LOAD_ADDRESS \<and> load_psw = DEFAULT_PSW_LOAD \<and> report_verifies mem ptr 0x10000 \<and>
    pages_used h' = pages_used h"
proof -
  obtain h2 where en: "secure_boot_enabled d h = Inr (True, h2)" and v: "verify_secure_boot mem ptr image_addr load_psw = Some (Inr ())"
    and h': "h' = h2"
    using assms(2-5) by (auto simp: start_secure_def secure_boot_enabled_def rbind_Inr split: sum.splits if_splits)
  obtain page hp where "get_zeroed_page h = Inr (page, hp)" "free_page hp page = Inr h2"
    using en by (auto simp: secure_boot_enabled_def rbind_Inr split: diag308_rc.splits)
  then have "pages_used h' = pages_used h"
    using boot_pages.page_returned [OF assms(1) _ _ refl, of page hp] boot_pages.get_fresh [OF assms(1), of page hp] h' by auto
  moreover have "is_verified_address mem ptr (unat (DEFAULT_PSW_LOAD AND PSW32_ADDR_MASK)) = Some True"
    and "image_addr = IMAGE_LOAD_ADDRESS" "load_psw = DEFAULT_PSW_LOAD"
    using v by (auto simp: verify_secure_boot_def split: if_splits)
  moreover have "unat (DEFAULT_PSW_LOAD AND PSW32_ADDR_MASK) = 0x10000" by simp
  ultimately show ?thesis using is_verified_address_Some [of mem ptr "0x10000" True] by auto
qed

text \<open>A report with one component block, and the heap of the loader.\<close>

definition sample_report :: memory where
  "sample_report = (\<lambda>_. 0)(3 := 8, 11 := 64, 27 := 48, 28 := 2, 45 := 1, 56 := 0xC0)"

definition sample_diag :: diag308_store where
  "sample_diag = \<lparr>d308_rc = DIAG308_RC_OK, d308_version = 0, d308_flags = 0x40\<rparr>"

lemma sample_report_verified: "is_verified_address sample_report 0 0x10000 = Some True"
proof -
  have rl: "report_list sample_report 0 = 8" "read_be sample_report 8 4 = 64" "rb_len sample_report 24 = 48"
    by (simp_all add: report_list_def read_be_simps rb_len_def sample_report_def)
  have c: "find_component sample_report 24 40 0x10000"
    unfolding find_component_iff by (intro exI [of _ 0])
      (simp add: rl verified_entry_def comp_addr_def comp_flags_def read_be_simps, simp add: sample_report_def)
  have in1: "rb_inside sample_report 72 24" and in2: "\<not> rb_inside sample_report 72 72"
    by (simp_all add: rb_inside_def rl)
  have ty: "rb_type sample_report 24 = 2" by (simp add: rb_type_def sample_report_def)
  have "rb_walk sample_report 72 24 None = rb_walk sample_report 72 72 (Some 24)"
    using in1 rl(3) ty by (subst rb_walk.simps) simp
  also have "\<dots> = Some (Some 24)" using in2 by (subst rb_walk.simps) simp
  finally show ?thesis using c by (simp add: is_verified_address_def Let_def rl)
qed

theorem secure_boot_safe_witness:
  "\<exists>h'. start_secure sample_diag sample_report 0 0x10000 0x0008000080010000 stage2_heap = Some (Inr h') \<and>
     report_verifies sample_report 0 0x10000 \<and> pages_used h' = pages_used stage2_heap"
proof -
  have ok: "heap_ok stage2_heap" by (simp add: heap_ok_def stage2_heap_def)
  obtain page hp where p: "get_zeroed_page stage2_heap = Inr (page, hp)"
    using ok
  proof (cases rule: get_zeroed_page_cases)
    case full
    then show ?thesis by (auto simp: stage2_heap_def page_count_def dest!: spec [of _ 0])
  qed
  obtain h2 where h2: "free_page hp page = Inr h2"
    using boot_pages.page_returned [OF ok p _ refl] boot_pages.get_fresh [OF ok p] by auto
  have v: "verify_secure_boot sample_report 0 0x10000 0x0008000080010000 = Some (Inr ())"
    using sample_report_verified by (simp add: verify_secure_boot_def)
  have s: "start_secure sample_diag sample_report 0 0x10000 0x0008000080010000 stage2_heap = Some (Inr h2)"
    using p h2 v by (simp add: start_secure_def secure_boot_enabled_def sample_diag_def)
  have "0x10000 = IMAGE_LOAD_ADDRESS \<and> 0x0008000080010000 = DEFAULT_PSW_LOAD \<and> report_verifies sample_report 0 0x10000 \<and>
      pages_used h2 = pages_used stage2_heap"
    by (rule secure_boot_safe [OF ok _ _ _ s]) (simp_all add: sample_diag_def)
  then show ?thesis using s by blast
qed

text \<open>
  The search of the report returns if no block that lies in the list has length zero, and its result is
  the verdict of the report.
\<close>

theorem is_verified_address_returns:
  assumes "\<And>rb. rb_inside mem (report_list mem ptr + read_be mem (report_list mem ptr) 4) rb \<Longrightarrow> 0 < rb_len mem rb"
  shows "\<exists>v. is_verified_address mem ptr addr = Some v \<and> (v \<longleftrightarrow> report_verifies mem ptr addr)"
proof -
  obtain bs where "rb_blocks mem (report_list mem ptr + read_be mem (report_list mem ptr) 4) (report_list mem ptr + 16) bs"
    using rb_blocks_exist [OF assms] by blast
  then obtain v where "is_verified_address mem ptr addr = Some v"
    using rb_walk_blocks by (simp add: is_verified_address_def Let_def)
  then show ?thesis using is_verified_address_Some by blast
qed

theorem is_verified_address_returns_witness:
  "\<exists>v. is_verified_address (\<lambda>_. 1) 0 0x10000 = Some v \<and> (v \<longleftrightarrow> report_verifies (\<lambda>_. 1) 0 0x10000)"
proof -
  have "0 < rb_len (\<lambda>_. 1) rb" for rb by (simp add: rb_len_def read_be_simps)
  then show ?thesis using is_verified_address_returns [of "\<lambda>_. 1" 0 "0x10000"] by blast
qed

text \<open>The walk never returns from a block of length zero.\<close>

lemma rb_walk_zero_length:
  assumes "rb_inside mem rl_end rb" and "rb_len mem rb = 0"
  shows "rb_walk mem rl_end rb c = None"
proof -
  have "False" if "rb_blocks mem rl_end rb' bs" "rb' = rb" for rb' bs
    using that assms by (induction rule: rb_blocks.induct) auto
  then show ?thesis using rb_walk_Some [of mem rl_end rb c] by (cases "rb_walk mem rl_end rb c") blast+
qed

end
