(* ===== verification/Boot_Menu.thy ===== *)
theory Boot_Menu
  imports Boot_Ebcdic Boot_Printf
begin

text \<open>
  The boot menu (\<^verbatim>\<open>src/zipl/boot/menu.c\<close>): the load parameter or the console selects a configuration, the
  rest of the input becomes extra kernel parameters, and the number of the configuration is appended.

  The console is a parameter: the results of \<^verbatim>\<open>sclp_read\<close> in order, each a return code and the text that was
  read; \<open>None\<close> is a menu that still waits for input. The load parameter is what \<^verbatim>\<open>sclp_param\<close> returns, if it
  does. The lines that are printed are part of the result.
\<close>

section \<open>Definitions\<close>

text \<open>String literals in the execution character set IBM-1047.\<close>

definition exec_char :: "char \<Rightarrow> char" where
  "exec_char c =
     (let n = (of_char c :: nat)
      in char_of
        (if 48 \<le> n \<and> n \<le> 57 then n - 48 + 0xF0
         else if 97 \<le> n \<and> n \<le> 105 then n - 97 + 0x81
         else if 106 \<le> n \<and> n \<le> 114 then n - 106 + 0x91
         else if 115 \<le> n \<and> n \<le> 122 then n - 115 + 0xA2
         else if 65 \<le> n \<and> n \<le> 73 then n - 65 + 0xC1
         else if 74 \<le> n \<and> n \<le> 82 then n - 74 + 0xD1
         else if 83 \<le> n \<and> n \<le> 90 then n - 83 + 0xE2
         else if n = 32 then 0x40 else if n = 10 then 0x15 else if n = 37 then 0x6C else if n = 58 then 0x7A
         else if n = 40 then 0x4D else if n = 41 then 0x5D else if n = 35 then 0x7B else if n = 39 then 0x7D
         else if n = 60 then 0x4C else if n = 62 then 0x6E else if n = 61 then 0x7E else if n = 95 then 0x6D else 0))"

definition ebc :: "string \<Rightarrow> string" where
  "ebc s = map exec_char s"

abbreviation BOOT_MENU_ENTRIES :: nat where
  "BOOT_MENU_ENTRIES \<equiv> 63"

abbreviation PARAM_SIZE :: nat where
  "PARAM_SIZE \<equiv> 8"

abbreviation TEXT_OFFSET :: nat where
  "TEXT_OFFSET \<equiv> 4"

record boot_stage2_params =
  sp_flag :: nat
  sp_timeout :: nat
  sp_banner :: nat
  sp_config :: "nat list"
  sp_mem :: string

record console =
  con_zvm :: bool
  con_setup :: bool
  con_loadparm :: "string option"
  con_reads :: "(int \<times> string) list"
  con_stack :: string

definition say :: "console \<Rightarrow> string \<Rightarrow> va list \<Rightarrow> string list \<Rightarrow> c_fault + string list" where
  "say con fmt args lines = rbind (printf (con_stack con) fmt args) (\<lambda>t. Inr (lines @ [t]))"

definition menu_prompt :: "console \<Rightarrow> nat \<Rightarrow> string list \<Rightarrow> c_fault + string list" where
  "menu_prompt con timeout lines =
     (if timeout \<noteq> 0
      then say con (ebc ''Please choose (default will boot in %u seconds):'') [VNum (of_nat timeout)] lines
      else say con (ebc ''Please choose:'') [] lines)"

text \<open>Waiting for a line: whether the read succeeded, the buffer, the cnt and the reads that are left.\<close>

fun wait_input :: "(int \<times> string) list \<Rightarrow> string \<Rightarrow> c_fault + (bool \<times> string \<times> nat \<times> (int \<times> string) list) option" where
  "wait_input [] temp = Inr None"
| "wait_input ((rc, d) # rs) temp =
     (if rc \<noteq> 0 then Inr (Some (False, temp, 0, rs))
      else rbind (memcpy temp 0 d 0 (length d)) (\<lambda>temp.
        if length d = 0 then wait_input rs temp else Inr (Some (True, temp, length d, rs))))"

fun lower_loop :: "string \<Rightarrow> nat \<Rightarrow> nat \<Rightarrow> c_fault + string" where
  "lower_loop temp i 0 = Inr temp"
| "lower_loop temp i (Suc n) =
     rbind (buf_get temp i) (\<lambda>c. rbind (store temp i (ebcdic_tolower c)) (\<lambda>temp. lower_loop temp (i + 1) n))"

lemma wait_input_shorter: "wait_input rs temp = Inr (Some (ok, temp', cnt, rs')) \<Longrightarrow> length rs' < length rs"
  by (induction rs temp rule: wait_input.induct) (fastforce simp: rbind_Inr split: if_splits)+

text \<open>The loop of \<^verbatim>\<open>menu_read\<close>: the value, the extra parameters and the lines printed.\<close>

definition valid_config :: "boot_stage2_params \<Rightarrow> u64 \<Rightarrow> bool" where
  "valid_config sp v \<longleftrightarrow> unat v < BOOT_MENU_ENTRIES \<and> sp_config sp ! unat v \<noteq> 0"

function read_loop ::
    "boot_stage2_params \<Rightarrow> console \<Rightarrow> (int \<times> string) list \<Rightarrow> nat \<Rightarrow> string \<Rightarrow> string \<Rightarrow> string list \<Rightarrow>
     c_fault + (u64 \<times> string \<times> string list) option" where
  "read_loop sp con rs timeout temp extra lines =
     rbind (menu_prompt con timeout lines) (\<lambda>lines.
     rbind (wait_input rs temp) (\<lambda>r.
       case r of
         None \<Rightarrow> Inr None
       | Some (ok, temp, cnt, rs) \<Rightarrow>
           if \<not> ok then Inr (Some (0, extra, lines))
           else
             let cnt = min cnt LINE_LENGTH
             in rbind (if con_zvm con then lower_loop temp 0 cnt else Inr temp) (\<lambda>temp.
                rbind (ebcdic_strtoul temp 0 10) (\<lambda>(v, endptr).
                  if endptr \<noteq> Some 0 \<and> valid_config sp v then
                    case endptr of
                      None \<Rightarrow> Inl NullPointer
                    | Some e \<Rightarrow>
                        if e < cnt
                        then rbind (memcpy extra 0 temp e (cnt - e)) (\<lambda>extra. Inr (Some (v, extra, lines)))
                        else Inr (Some (v, extra, lines))
                  else
                    rbind (say con (ebc ''Error: undefined configuration'' @ [CHR 0x15]) [] lines) (\<lambda>lines.
                    rbind (memset temp 0 NUL PAGE_SIZE) (\<lambda>temp. read_loop sp con rs 0 temp extra lines))))))"
  by pat_completeness auto
termination
  by (relation "measure (\<lambda>(sp, con, rs, timeout, temp, extra, lines). length rs)") (auto dest: wait_input_shorter)

declare read_loop.simps [simp del]

definition menu_read ::
    "boot_stage2_params \<Rightarrow> console \<Rightarrow> heap \<Rightarrow> string \<Rightarrow> string list \<Rightarrow> c_fault + (u64 \<times> string \<times> heap \<times> string list) option" where
  "menu_read sp con h extra lines =
     rbind (get_zeroed_page h) (\<lambda>(page, h).
     rbind (read_loop sp con (con_reads con) (sp_timeout sp) (replicate PAGE_SIZE NUL) extra lines) (\<lambda>r.
       case r of
         None \<Rightarrow> Inr None
       | Some (v, extra, lines) \<Rightarrow> rbind (free_page h page) (\<lambda>h. Inr (Some (v, extra, h, lines)))))"

fun list_loop :: "boot_stage2_params \<Rightarrow> console \<Rightarrow> nat list \<Rightarrow> string list \<Rightarrow> c_fault + string list" where
  "list_loop sp con [] lines = Inr lines"
| "list_loop sp con (i # is) lines =
     (if sp_config sp ! i = 0 then list_loop sp con is lines
      else
        rbind (say con [CHR 0x6C, CHR 0xA2, CHR 0x15] [VStr (drop (sp_config sp ! i) (sp_mem sp))] lines) (\<lambda>lines.
        rbind (if i = 0 then say con [CHR 0x15] [] lines else Inr lines) (\<lambda>lines. list_loop sp con is lines)))"

definition menu_list :: "boot_stage2_params \<Rightarrow> console \<Rightarrow> string list \<Rightarrow> c_fault + string list" where
  "menu_list sp con lines = list_loop sp con [0..<BOOT_MENU_ENTRIES] lines"

datatype param_result = NUMBER_FOUND u64 | PRINT_PROMPT | NOTHING_FOUND | SCLP_ERROR

function skip_blanks :: "string \<Rightarrow> nat \<Rightarrow> c_fault + nat" where
  "skip_blanks lp i =
     (if i < PARAM_SIZE then rbind (buf_get lp i) (\<lambda>c. if ecbdic_isspace c then skip_blanks lp (i + 1) else Inr i) else Inr i)"
  by pat_completeness auto
termination by (relation "measure (\<lambda>(lp, i). PARAM_SIZE - i)") auto

declare skip_blanks.simps [simp del]

text \<open>
  The value is stored through the pointer also when no number is found, where it is zero, the default. The
  array on the stack has 8 characters and no terminating NUL.
\<close>

definition menu_param :: "console \<Rightarrow> c_fault + param_result" where
  "menu_param con =
     (case con_loadparm con of
        None \<Rightarrow> Inr SCLP_ERROR
      | Some loadparm \<Rightarrow>
          rbind (ebcdic_strtoul loadparm 0 10) (\<lambda>(v, endptr).
            if endptr \<noteq> Some 0 then Inr (NUMBER_FOUND v)
            else
              rbind (skip_blanks loadparm 0) (\<lambda>i.
              rbind (strncmp loadparm i (ebc ''PROMPT'' @ [NUL]) 0 6) (\<lambda>r.
                Inr (if r = 0 then PRINT_PROMPT else NOTHING_FOUND)))))"

definition boot_config ::
    "boot_stage2_params \<Rightarrow> console \<Rightarrow> u64 \<Rightarrow> string \<Rightarrow> heap \<Rightarrow> string list \<Rightarrow>
     c_fault + (u64 \<times> string \<times> heap \<times> string list) option" where
  "boot_config sp con v extra h lines =
     (if \<not> valid_config sp v then Inl Stopped
      else
        rbind (say con (ebc ''Booting %s'' @ [CHR 0x15]) [VStr (drop (sp_config sp ! unat v + TEXT_OFFSET) (sp_mem sp))] lines) (\<lambda>lines.
        rbind (snprintf (replicate 15 NUL) 15 (ebc '' BOOT_IMAGE=%u'') [VNum v]) (\<lambda>endstring.
        rbind (strlen extra 0) (\<lambda>n.
        rbind (strlen endstring 0) (\<lambda>k.
        rbind (if n + k < 896 then strcat extra 0 endstring 0 else Inr extra) (\<lambda>extra.
          Inr (Some (v, extra, h, lines))))))))"

text \<open>The dialog on the console, or the default if there is none.\<close>

definition menu_dialog :: "boot_stage2_params \<Rightarrow> console \<Rightarrow> string \<Rightarrow> heap \<Rightarrow> c_fault + (u64 \<times> string \<times> heap \<times> string list) option" where
  "menu_dialog sp con extra h =
     (if \<not> con_setup con then boot_config sp con 0 extra h []
      else
        rbind (say con [CHR 0x6C, CHR 0xA2, CHR 0x15] [VStr (drop (sp_banner sp) (sp_mem sp))] []) (\<lambda>lines.
        rbind (menu_list sp con lines) (\<lambda>lines.
        rbind (if con_zvm con
               then say con (ebc ''Note: VM users please use '' @ ebc [CHR 0x27] @ ebc ''#cp vi vmsg <input>'' @ ebc [CHR 0x27] @ [CHR 0x15]) [] lines
               else Inr lines) (\<lambda>lines.
        rbind (menu_read sp con h extra lines) (\<lambda>res.
          case res of None \<Rightarrow> Inr None | Some (v, extra, h, lines) \<Rightarrow> boot_config sp con v extra h lines)))))"

definition menu :: "boot_stage2_params \<Rightarrow> console \<Rightarrow> string \<Rightarrow> heap \<Rightarrow> c_fault + (u64 \<times> string \<times> heap \<times> string list) option" where
  "menu sp con extra h =
     rbind (memset extra 0 NUL 1024) (\<lambda>extra.
     rbind (menu_param con) (\<lambda>r.
       case r of
         NUMBER_FOUND v \<Rightarrow> boot_config sp con v extra h []
       | PRINT_PROMPT \<Rightarrow> menu_dialog sp con extra h
       | SCLP_ERROR \<Rightarrow> rbind (say con (ebc ''SCLP_ERROR'' @ [CHR 0x15]) [] []) (\<lambda>lines. boot_config sp con 0 extra h lines)
       | NOTHING_FOUND \<Rightarrow> if sp_flag sp = 0 then boot_config sp con 0 extra h [] else menu_dialog sp con extra h))"

section \<open>Lemmas\<close>

lemma fmt_render_text_num:
  assumes "s \<noteq> []" and "CHR 0x6C \<notin> set s" and "NUL \<notin> set s"
  shows "fmt_render (s @ [CHR 0x6C, CHR 0xA4]) spec0 [VNum v] = Inr (s @ digits 10 (unat v))"
proof -
  have "takeWhile (\<lambda>c. c \<noteq> NUL \<and> c \<noteq> CHR 0x6C) (s @ [CHR 0x6C, CHR 0xA4]) = s"
    using assms(2,3) by (induction s) auto
  moreover have "spec0\<lparr>ps_type := FORMAT_TYPE_NONE\<rparr> = spec0" by (simp add: spec0_def)
  ultimately have d: "format_decode (s @ [CHR 0x6C, CHR 0xA4]) spec0 = Inr (length s, spec0)"
    using assms(1) by (simp add: format_decode_def Let_def)
  have "deref (s @ [CHR 0x6C, CHR 0xA4]) \<noteq> NUL" using assms(1,3) by (cases s) (auto simp: char_at_def)
  then show ?thesis
    using d fmt_render_unsigned [of v] by (subst fmt_render.simps) (simp add: spec0_def)
qed

definition boot_image :: "u64 \<Rightarrow> string" where
  "boot_image v = ebc '' BOOT_IMAGE='' @ digits 10 (unat v)"

lemma boot_image_chars: "NUL \<notin> set (boot_image v)"
  using digits_decimal [of "unat v"]
  by (auto simp: boot_image_def ebc_def exec_char_def char_of_def bit_0 ebcdic_isdigit_def)

lemma boot_image_length: "unat v < BOOT_MENU_ENTRIES \<Longrightarrow> length (boot_image v) \<le> 14"
  using digits_length [of 10 "unat v" 2] by (simp add: boot_image_def ebc_def)

text \<open>The number always fits the buffer of 15 bytes.\<close>

lemma endstring_eq:
  assumes "unat v < BOOT_MENU_ENTRIES"
  shows "\<exists>r. snprintf (replicate 15 NUL) 15 (ebc '' BOOT_IMAGE=%u'') [VNum v] = Inr (boot_image v @ NUL # r)"
proof -
  have f: "ebc '' BOOT_IMAGE=%u'' = ebc '' BOOT_IMAGE='' @ [CHR 0x6C, CHR 0xA4]"
    by (simp add: ebc_def exec_char_def char_of_def bit_0)
  have "fmt_render (ebc '' BOOT_IMAGE='' @ [CHR 0x6C, CHR 0xA4]) spec0 [VNum v] = Inr (boot_image v)"
    unfolding boot_image_def by (rule fmt_render_text_num) (simp_all add: ebc_def exec_char_def char_of_def bit_0)
  from vsnprintf_render [OF this, of 15 "replicate 15 NUL"] show ?thesis
    using boot_image_length [OF assms] by (simp add: snprintf_def f)
qed

text \<open>The area of extra parameters holds at most a line, followed by zeros.\<close>

definition extra_ok :: "string \<Rightarrow> bool" where
  "extra_ok e \<longleftrightarrow> (\<exists>d. e = d @ replicate (1024 - length d) NUL \<and> length d \<le> LINE_LENGTH)"

lemma extra_ok_split:
  assumes "extra_ok e" and "k \<le> 900"
  obtains t u z where "e = t @ NUL # u @ z" "NUL \<notin> set t" "length u = k" "length t \<le> LINE_LENGTH"
proof -
  obtain d where d: "e = d @ replicate (1024 - length d) NUL" "length d \<le> LINE_LENGTH" using assms(1) by (auto simp: extra_ok_def)
  have "NUL \<in> set e" using d by simp
  then obtain t r where t: "e = t @ NUL # r" "NUL \<notin> set t" by (meson split_list_first)
  have "\<not> length d < length t"
  proof
    assume l: "length d < length t"
    have "e ! length d = NUL" using d by (simp add: nth_append)
    then show False using l t nth_mem [of "length d" t] by (simp add: nth_append)
  qed
  then have len: "length t \<le> LINE_LENGTH" using d(2) by simp
  have "length e = 1024" using d by simp
  then have "k \<le> length r" using t(1) len assms(2) by simp
  then show thesis
    using that [of t "take k r" "drop k r"] t len by simp
qed

lemma boot_config_Some:
  assumes "extra_ok extra" and "boot_config sp con v extra h lines = Inr (Some (v', extra', h', lines'))"
  shows "valid_config sp v' \<and> h' = h \<and> (\<exists>t z. extra' = t @ boot_image v' @ NUL # z \<and> NUL \<notin> set t \<and> length t \<le> LINE_LENGTH)"
proof -
  have ok: "valid_config sp v" using assms(2) by (auto simp: boot_config_def split: if_splits)
  then have v: "unat v < BOOT_MENU_ENTRIES" by (simp add: valid_config_def)
  obtain r where r: "snprintf (replicate 15 NUL) 15 (ebc '' BOOT_IMAGE=%u'') [VNum v] = Inr (boot_image v @ NUL # r)"
    using endstring_eq [OF v] by blast
  have k: "length (boot_image v) \<le> 900" using boot_image_length [OF v] by simp
  obtain t u z where t: "extra = t @ NUL # u @ z" "NUL \<notin> set t" "length u = length (boot_image v)" "length t \<le> LINE_LENGTH"
    using extra_ok_split [OF assms(1) k] .
  have "strlen extra 0 = Inr (length t)" using strlen_string [OF t(2), of 0 "[]"] t(1) by simp
  moreover have "strlen (boot_image v @ NUL # r) 0 = Inr (length (boot_image v))"
    using strlen_string [OF boot_image_chars, of 0 "[]" v r] by simp
  moreover have "strcat extra 0 (boot_image v @ NUL # r) 0 = Inr (t @ boot_image v @ NUL # z)"
    using strcat_string [OF boot_image_chars t(2,3), of z "[]" r] t(1) by simp
  moreover have "length t + length (boot_image v) < 896" using t(4) boot_image_length [OF v] by simp
  ultimately have "v' = v \<and> h' = h \<and> extra' = t @ boot_image v @ NUL # z"
    using assms(2) r ok by (auto simp: boot_config_def rbind_Inr)
  then show ?thesis using ok t(2,4) by blast
qed

lemma extra_ok_zero: "extra_ok (replicate 1024 NUL)"
  by (auto simp: extra_ok_def intro: exI [of _ "[]"])

lemma extra_ok_copy:
  assumes "memcpy (replicate 1024 NUL) 0 temp e n = Inr extra'" and "n \<le> LINE_LENGTH"
  shows "extra_ok extra'"
proof (cases "n = 0")
  case False
  then have "extra' = take n (drop e temp) @ replicate (1024 - length (take n (drop e temp))) NUL"
    using assms by (auto simp: memcpy_eq buf_write_def split: if_splits)
  moreover have "length (take n (drop e temp)) \<le> LINE_LENGTH" using assms(2) by simp
  ultimately show ?thesis unfolding extra_ok_def by blast
qed (use assms extra_ok_zero in simp)

text \<open>What the loop returns: a configuration that exists, or the default after an error of the console.\<close>

lemma read_loop_Some:
  "read_loop sp con rs timeout temp (replicate 1024 NUL) lines = Inr (Some (v, extra', lines')) \<Longrightarrow>
   (valid_config sp v \<or> v = 0) \<and> extra_ok extra'"
proof (induction "length rs" arbitrary: rs timeout temp lines rule: less_induct)
  case less
  obtain lines1 r where p: "menu_prompt con timeout lines = Inr lines1" "wait_input rs temp = Inr (Some r)"
    using less.prems by (subst (asm) read_loop.simps) (auto simp: rbind_Inr split: option.splits)
  obtain ok temp1 cnt rs' where r: "r = (ok, temp1, cnt, rs')" by (cases r)
  note run = less.prems [unfolded read_loop.simps [of sp con rs] p r rbind_simps option.case prod.case]
  show ?case
  proof (cases ok)
    case False
    then show ?thesis using run extra_ok_zero by simp
  next
    case True
    obtain temp2 val endptr where t: "(if con_zvm con then lower_loop temp1 0 (min cnt LINE_LENGTH) else Inr temp1) = Inr temp2"
      "ebcdic_strtoul temp2 0 10 = Inr (val, endptr)"
      using run True by (auto simp: Let_def rbind_Inr)
    note run2 = run [unfolded Let_def t rbind_simps prod.case]
    show ?thesis
    proof (cases "endptr \<noteq> Some 0 \<and> valid_config sp val")
      case found: True
      then show ?thesis
        using run2 True extra_ok_zero by (auto simp: rbind_Inr intro: extra_ok_copy split: option.splits if_splits)
    next
      case False
      then obtain lines2 temp3 where "read_loop sp con rs' 0 temp3 (replicate 1024 NUL) lines2 = Inr (Some (v, extra', lines'))"
        using run2 True by (auto simp: rbind_Inr)
      moreover have "length rs' < length rs" using wait_input_shorter p(2) r by blast
      ultimately show ?thesis using less.hyps by blast
    qed
  qed
qed

lemma menu_read_Some:
  assumes "heap_ok h" and "menu_read sp con h (replicate 1024 NUL) lines = Inr (Some (v, extra', h', lines'))"
  shows "extra_ok extra' \<and> pages_used h' = pages_used h"
proof -
  obtain page hp where p: "get_zeroed_page h = Inr (page, hp)" "free_page hp page = Inr h'"
    and r: "read_loop sp con (con_reads con) (sp_timeout sp) (replicate PAGE_SIZE NUL) (replicate 1024 NUL) lines = Inr (Some (v, extra', lines'))"
    using assms(2) by (auto simp: menu_read_def rbind_Inr split: option.splits)
  have "pages_used h' = pages_used h"
    using boot_pages.page_returned [OF assms(1) p(1) _ refl] boot_pages.get_fresh [OF assms(1) p(1)] p(2) by auto
  then show ?thesis using read_loop_Some [OF r] by blast
qed

lemma menu_dialog_Some:
  assumes "heap_ok h" and "menu_dialog sp con (replicate 1024 NUL) h = Inr (Some r)"
  obtains w e h2 ls where "boot_config sp con w e h2 ls = Inr (Some r)" "extra_ok e" "pages_used h2 = pages_used h"
proof (cases "con_setup con")
  case True
  then obtain ls w e h2 ls' where "menu_read sp con h (replicate 1024 NUL) ls = Inr (Some (w, e, h2, ls'))"
    "boot_config sp con w e h2 ls' = Inr (Some r)"
    using assms(2) by (auto simp: menu_dialog_def rbind_Inr split: option.splits)
  then show thesis using menu_read_Some [OF assms(1)] that by blast
next
  case False
  then show thesis using assms(2) that extra_ok_zero by (auto simp: menu_dialog_def)
qed

section \<open>Properties\<close>

text \<open>
  C15. Whatever the load parameter and the console say, a menu that returns has chosen a configuration that
  exists; the area of extra parameters holds at most a line of input followed by the number of the
  configuration and a NUL, and every page is returned.
\<close>

theorem menu_safe:
  assumes "heap_ok h" and "length extra = 1024" and "menu sp con extra h = Inr (Some (v, extra', h', lines))"
  shows "valid_config sp v \<and> pages_used h' = pages_used h \<and>
    (\<exists>t z. extra' = t @ ebc '' BOOT_IMAGE='' @ digits 10 (unat v) @ NUL # z \<and> NUL \<notin> set t \<and> length t \<le> LINE_LENGTH)"
proof -
  have ms: "memset extra 0 NUL 1024 = Inr (replicate 1024 NUL)"
    using assms(2) by (simp add: memset_eq buf_memset_def buf_write_def)
  obtain e h2 w ls where b: "boot_config sp con w e h2 ls = Inr (Some (v, extra', h', lines))"
    and e: "extra_ok e" "pages_used h2 = pages_used h"
  proof -
    obtain r where r: "menu_param con = Inr r" using assms(3) by (auto simp: menu_def rbind_Inr)
    note run = assms(3) [unfolded menu_def ms r rbind_simps]
    note goal = that
    have dialog: thesis if "menu_dialog sp con (replicate 1024 NUL) h = Inr (Some (v, extra', h', lines))"
      by (rule menu_dialog_Some [OF assms(1) that]) (rule goal)
    show thesis
      by (cases r) (use run goal extra_ok_zero dialog in \<open>auto simp: rbind_Inr split: if_splits\<close>)
  qed
  show ?thesis using boot_config_Some [OF e(1) b] e(2) by (auto simp: boot_image_def)
qed

text \<open>A configuration with two entries, selected by the load parameter.\<close>

definition sample_params :: boot_stage2_params where
  "sample_params = \<lparr>sp_flag = 0, sp_timeout = 0, sp_banner = 0, sp_config = 1 # 1 # replicate 61 0, sp_mem = replicate 8 NUL\<rparr>"

definition sample_console :: console where
  "sample_console = \<lparr>con_zvm = False, con_setup = True, con_loadparm = Some (CHR 0xF1 # replicate 7 (CHR 0x40)),
     con_reads = [], con_stack = replicate 81 NUL\<rparr>"

text \<open>Printing a format with a text and one string never fails.\<close>

lemma say_string:
  assumes "fmt_render fmt spec0 args = Inr t" and "NUL \<notin> set t" and "length (con_stack con) = 81"
  shows "\<exists>ls. say con fmt args lines = Inr ls"
  using printf_line [OF assms(1,2)] assms(3) by (simp add: say_def)

lemma fmt_render_text:
  assumes "s \<noteq> []" and "CHR 0x6C \<notin> set s" and "NUL \<notin> set s" and "f = [] \<or> f ! 0 = CHR 0x6C"
  shows "fmt_render (s @ f) (spec\<lparr>ps_type := FORMAT_TYPE_NONE\<rparr>) args =
    rbind (fmt_render f (spec\<lparr>ps_type := FORMAT_TYPE_NONE\<rparr>) args) (\<lambda>t. Inr (s @ t))"
proof -
  have "takeWhile (\<lambda>c. c \<noteq> NUL \<and> c \<noteq> CHR 0x6C) (s @ f) = s"
    using assms(2-4) by (induction s) (cases f; auto)+
  then have d: "format_decode (s @ f) (spec\<lparr>ps_type := FORMAT_TYPE_NONE\<rparr>) = Inr (length s, spec\<lparr>ps_type := FORMAT_TYPE_NONE\<rparr>)"
    using assms(1) by (simp add: format_decode_def Let_def)
  have "deref (s @ f) \<noteq> NUL" using assms(1,3) by (cases s) (auto simp: char_at_def)
  then show ?thesis using d by (subst fmt_render.simps) simp
qed

lemma spec0_none: "spec0 = spec0\<lparr>ps_type := FORMAT_TYPE_NONE\<rparr>"
  by (simp add: spec0_def)

lemma fmt_render_string_line:
  "fmt_render [CHR 0x6C, CHR 0xA2, CHR 0x15] spec0 [VStr x] = Inr (cstr x @ [CHR 0x15])"
proof -
  let ?sp = "\<lparr>ps_type = FORMAT_TYPE_STR, field_width = - 1, zeropad = False, ps_base = 0, precision = - 1\<rparr>"
  have d: "format_decode [CHR 0x6C, CHR 0xA2, CHR 0x15] spec0 = Inr (2, ?sp)"
    by (simp add: format_decode_def spec0_def char_at_def ebcdic_isdigit_def bitfield_def)
  have "format_decode [CHR 0x15] ?sp = Inr (1, ?sp\<lparr>ps_type := FORMAT_TYPE_NONE\<rparr>)"
    by (simp add: format_decode_def)
  then have "fmt_render [CHR 0x15] ?sp [] = Inr [CHR 0x15]"
    by (subst fmt_render.simps) (simp add: char_at_def fmt_render.simps [of "[]"])
  then show ?thesis
    using d by (subst fmt_render.simps) (simp add: char_at_def va_str_def limited_def)
qed

lemma booting_line: "length (con_stack con) = 81 \<Longrightarrow> \<exists>ls. say con (ebc ''Booting %s'' @ [CHR 0x15]) [VStr x] lines = Inr ls"
proof (rule say_string)
  have f: "ebc ''Booting %s'' @ [CHR 0x15] = ebc ''Booting '' @ [CHR 0x6C, CHR 0xA2, CHR 0x15]"
    by (simp add: ebc_def exec_char_def char_of_def bit_0)
  show "fmt_render (ebc ''Booting %s'' @ [CHR 0x15]) spec0 [VStr x] = Inr (ebc ''Booting '' @ cstr x @ [CHR 0x15])"
    unfolding f using fmt_render_text [of "ebc ''Booting ''" "[CHR 0x6C, CHR 0xA2, CHR 0x15]" spec0 "[VStr x]"]
    by (simp add: fmt_render_string_line spec0_none [symmetric]) (simp add: ebc_def exec_char_def char_of_def bit_0)
  show "NUL \<notin> set (ebc ''Booting '' @ cstr x @ [CHR 0x15])"
    by (simp add: ebc_def exec_char_def char_of_def bit_0)
qed

lemma boot_config_number:
  assumes "valid_config sp v" and "length (con_stack con) = 81"
  shows "\<exists>ls. boot_config sp con v (replicate 1024 NUL) h [] =
    Inr (Some (v, boot_image v @ replicate (1024 - length (boot_image v)) NUL, h, ls))"
proof -
  have v: "unat v < BOOT_MENU_ENTRIES" using assms(1) by (simp add: valid_config_def)
  note k = boot_image_length [OF v]
  obtain r where r: "snprintf (replicate 15 NUL) 15 (ebc '' BOOT_IMAGE=%u'') [VNum v] = Inr (boot_image v @ NUL # r)"
    using endstring_eq [OF v] by blast
  obtain ls where ls: "say con (ebc ''Booting %s'' @ [CHR 0x15]) [VStr (drop (sp_config sp ! unat v + TEXT_OFFSET) (sp_mem sp))] [] = Inr ls"
    using booting_line [OF assms(2)] by blast
  let ?u = "replicate (length (boot_image v)) NUL" and ?z = "replicate (1023 - length (boot_image v)) NUL"
  have e: "replicate 1024 NUL = [] @ NUL # ?u @ ?z" "NUL # ?z = replicate (1024 - length (boot_image v)) NUL"
  proof -
    have "1024 = Suc (length (boot_image v) + (1023 - length (boot_image v)))" using k by simp
    then show "replicate 1024 NUL = [] @ NUL # ?u @ ?z" by (metis append_Nil replicate_Suc replicate_add)
    have "1024 - length (boot_image v) = Suc (1023 - length (boot_image v))" using k by simp
    then show "NUL # ?z = replicate (1024 - length (boot_image v)) NUL" by simp
  qed
  have "strcat (replicate 1024 NUL) 0 (boot_image v @ NUL # r) 0 = Inr (boot_image v @ NUL # ?z)"
    unfolding e(1) using strcat_string [OF boot_image_chars, of "[]" ?u v ?z "[]" r] by simp
  moreover have "strlen (replicate 1024 NUL) 0 = Inr 0"
    unfolding e(1) using strlen_string [of "[]" 0 "[]" "?u @ ?z"] by simp
  moreover have "strlen (boot_image v @ NUL # r) 0 = Inr (length (boot_image v))"
    using strlen_string [OF boot_image_chars, of 0 "[]" v r] by simp
  ultimately show ?thesis using assms(1) r ls k by (simp add: boot_config_def e(2))
qed

lemma menu_direct:
  assumes "menu_param con = Inr (NUMBER_FOUND v)" and "valid_config sp v"
    and "length (con_stack con) = 81" and "length extra = 1024"
  shows "\<exists>ls. menu sp con extra h = Inr (Some (v, boot_image v @ replicate (1024 - length (boot_image v)) NUL, h, ls))"
proof -
  have "memset extra 0 NUL 1024 = Inr (replicate 1024 NUL)"
    using assms(4) by (simp add: memset_eq buf_memset_def buf_write_def)
  then show ?thesis using boot_config_number [OF assms(2,3), of h] assms(1) by (simp add: menu_def)
qed

lemma menu_param_number:
  assumes "con_loadparm con = Some (ds @ c # r)" and "ds \<noteq> []" and "\<forall>x \<in> set ds. ebcdic_isdigit x" and "\<not> ebcdic_isdigit c"
    and "ebc_value 0 ds < 2 ^ 64"
  shows "menu_param con = Inr (NUMBER_FOUND (of_nat (ebc_value 0 ds)))"
proof -
  have "ebcdic_strtoul (ds @ c # r) 0 10 = Inr (of_nat (ebc_value 0 ds), Some (length ds))"
    using ebcdic_strtoul_digits [OF assms(3,4), of "[]" r] assms(5) by simp
  then show ?thesis using assms(1,2) by (simp add: menu_param_def)
qed

lemma sample_menu:
  "\<exists>ls. menu sample_params sample_console (replicate 1024 NUL) stage2_heap =
    Inr (Some (1, boot_image 1 @ replicate (1024 - length (boot_image 1)) NUL, stage2_heap, ls))"
proof (rule menu_direct)
  have "con_loadparm sample_console = Some ([CHR 0xF1] @ CHR 0x40 # replicate 6 (CHR 0x40))"
    by (simp add: sample_console_def numeral_eq_Suc)
  from menu_param_number [OF this] show "menu_param sample_console = Inr (NUMBER_FOUND 1)"
    by (simp add: ebcdic_isdigit_def)
qed (simp_all add: sample_console_def sample_params_def valid_config_def)

text \<open>
  A load parameter that begins with the number of a configuration boots it without a dialog, and the
  extra parameters are just the number of the configuration.
\<close>

theorem menu_number:
  assumes "con_loadparm con = Some (ds @ c # r)" and "ds \<noteq> []" and "\<forall>x \<in> set ds. ebcdic_isdigit x" and "\<not> ebcdic_isdigit c"
    and "ebc_value 0 ds < BOOT_MENU_ENTRIES" and "sp_config sp ! ebc_value 0 ds \<noteq> 0"
    and "length (con_stack con) = 81" and "length extra = 1024" and "v = of_nat (ebc_value 0 ds)"
  shows "\<exists>ls. menu sp con extra h = Inr (Some (v, boot_image v @ replicate (1024 - length (boot_image v)) NUL, h, ls))"
proof -
  have "unat v = ebc_value 0 ds" using assms(5,9) by (simp add: unat_of_nat)
  then have "valid_config sp v" using assms(5,6) by (simp add: valid_config_def)
  then show ?thesis using menu_direct [OF menu_param_number [OF assms(1-4)]] assms(5,7-9) by simp
qed

theorem menu_number_witness:
  "\<exists>ls. menu sample_params sample_console (replicate 1024 NUL) stage2_heap =
    Inr (Some (1, boot_image 1 @ replicate (1024 - length (boot_image 1)) NUL, stage2_heap, ls))"
  using menu_number [of sample_console "[CHR 0xF1]" "CHR 0x40" "replicate 6 (CHR 0x40)" sample_params "replicate 1024 NUL" 1 stage2_heap]
  by (simp add: sample_console_def sample_params_def ebcdic_isdigit_def numeral_eq_Suc)

theorem menu_safe_witness:
  "\<exists>v extra' h' ls. menu sample_params sample_console (replicate 1024 NUL) stage2_heap = Inr (Some (v, extra', h', ls)) \<and>
     valid_config sample_params v \<and> pages_used h' = pages_used stage2_heap"
proof -
  have ok: "heap_ok stage2_heap" by (simp add: heap_ok_def stage2_heap_def)
  obtain extra' ls where m: "menu sample_params sample_console (replicate 1024 NUL) stage2_heap = Inr (Some (1, extra', stage2_heap, ls))"
    using sample_menu by blast
  from menu_safe [OF ok _ m] show ?thesis using m by auto
qed

lemma strtoul_digits_overread:
  assumes "\<forall>x \<in> set ds. ebcdic_isdigit x" and "ebc_value 0 ds < 2 ^ 64"
  shows "ebcdic_strtoul ds 0 10 = Inl BufferOverrun"
proof -
  have "ebcdic_strtoul ds 0 10 = strtoul_loop ds (length ds) 10 (of_nat (ebc_value 0 ds))"
    using strtoul_loop_digits [of ds 0 0 "[]" "[]"] assms by (simp add: ebcdic_strtoul_def)
  then show ?thesis by (simp add: strtoul_loop.simps [of ds "length ds"] buf_get_def)
qed

lemma skip_blanks_all: "i \<le> PARAM_SIZE \<Longrightarrow> skip_blanks (replicate PARAM_SIZE (CHR 0x40)) i = Inr PARAM_SIZE"
proof (induction "PARAM_SIZE - i" arbitrary: i)
  case 0
  then have "i = PARAM_SIZE" by simp
  then show ?case by (subst skip_blanks.simps) simp
next
  case (Suc n)
  then have "skip_blanks (replicate PARAM_SIZE (CHR 0x40)) (i + 1) = Inr PARAM_SIZE" by simp
  then show ?case using Suc by (subst skip_blanks.simps) (simp add: buf_get_def ecbdic_isspace_def)
qed

text \<open>
  C35. The load parameter is copied into an array without a terminating NUL: for eight digits, and for the
  eight blanks of an empty load parameter, \<^verbatim>\<open>menu_param\<close> reads behind the array.
\<close>

theorem menu_param_overread:
  assumes "con_loadparm con = Some lp" and "length lp = PARAM_SIZE"
    and "(\<forall>x \<in> set lp. ebcdic_isdigit x) \<or> lp = replicate PARAM_SIZE (CHR 0x40)"
  shows "menu_param con = Inl BufferOverrun"
  using assms(3)
proof
  assume d: "\<forall>x \<in> set lp. ebcdic_isdigit x"
  have "ebc_value 0 lp < 10 ^ PARAM_SIZE" using ebc_value_bound [OF d, of 0] assms(2) by simp
  then have "ebc_value 0 lp < 2 ^ 64" by simp
  then show ?thesis using assms(1) strtoul_digits_overread [OF d] by (simp add: menu_param_def)
next
  assume b: "lp = replicate PARAM_SIZE (CHR 0x40)"
  have n: "\<not> ebcdic_isdigit (CHR 0x40)" by (simp add: ebcdic_isdigit_def)
  have "ebcdic_strtoul lp 0 10 = Inr (0, Some 0)"
    by (simp add: b ebcdic_strtoul_def strtoul_loop.simps buf_get_def n)
  moreover have "strncmp lp PARAM_SIZE (ebc ''PROMPT'' @ [NUL]) 0 6 = Inl BufferOverrun"
    by (simp add: b eval_nat_numeral buf_get_def)
  ultimately show ?thesis using assms(1) skip_blanks_all [of 0] b by (simp add: menu_param_def)
qed

theorem menu_param_overread_witness:
  "menu_param (sample_console\<lparr>con_loadparm := Some (replicate 8 (CHR 0x40))\<rparr>) = Inl BufferOverrun \<and>
   menu_param (sample_console\<lparr>con_loadparm := Some (replicate 8 (CHR 0xF1))\<rparr>) = Inl BufferOverrun"
  using menu_param_overread [of "sample_console\<lparr>con_loadparm := Some (replicate 8 (CHR 0x40))\<rparr>"]
    menu_param_overread [of "sample_console\<lparr>con_loadparm := Some (replicate 8 (CHR 0xF1))\<rparr>"]
  by (simp add: ebcdic_isdigit_def)

end
