(* ===== verification/Boot_Cio.thy ===== *)
theory Boot_Cio
  imports Boot_Libc
begin

text \<open>
  The channel I/O of the boot loaders (\<^verbatim>\<open>src/zipl/boot/cio.c\<close>).

  The I/O instructions are a parameter, a \<open>css\<close> record of functions on a state \<open>'w\<close> of the channel subsystem:
  each returns the condition code of the instruction and the new state. \<open>io_wait\<close> is the wait for the
  interruption. A program is the list of its channel command words. The variable \<^verbatim>\<open>initial_lpm\<close> is passed along
  and returned. Waiting may not end; not returning is \<open>None\<close>.

  The predicate \<open>path_device\<close> states what a device with several paths promises: no instruction fails, an attempt
  on any path either completes the program or leaves the device usable, and an attempt on one of the paths
  completes it. The lemmas show that \<open>start_io\<close> tries each path a bounded number of times, so that it ends, and
  that it finds the path that works.
\<close>

unbundle bit_operations_syntax

section \<open>Definitions\<close>

subsection \<open>Channel programs and status words\<close>

text \<open>The argument of a command is given in place of its address.\<close>

datatype ccw_arg = SeekArg nat nat | SearchArg nat nat nat | ToCcw nat | DataAt nat
  | ExtentArg nat nat nat | LocateArg nat nat

record ccw1 =
  cmd_code :: nat
  ccw_flags :: nat
  ccw_count :: nat
  ccw_cda :: ccw_arg

abbreviation CCW_FLAG_CC :: nat where
  "CCW_FLAG_CC \<equiv> 0x40"

abbreviation CCW_FLAG_SLI :: nat where
  "CCW_FLAG_SLI \<equiv> 0x20"

abbreviation CC_INITIATED :: nat where
  "CC_INITIATED \<equiv> 0"

abbreviation CC_STATUS_PENDING :: nat where
  "CC_STATUS_PENDING \<equiv> 1"

abbreviation CC_BUSY :: nat where
  "CC_BUSY \<equiv> 2"

abbreviation CC_NOT_OPER :: nat where
  "CC_NOT_OPER \<equiv> 3"

abbreviation FIRST_PATH_MASK :: nat where
  "FIRST_PATH_MASK \<equiv> 0x80"

abbreviation MAX_RETRIES :: nat where
  "MAX_RETRIES \<equiv> 255"

record scsw =
  scsw_cc :: nat
  scsw_stctl :: nat
  scsw_dstat :: nat
  scsw_cstat :: nat

record schib =
  pmcw_ena :: bool
  pmcw_lpum :: nat

record 'w css =
  ssch :: "ccw1 list \<Rightarrow> nat \<Rightarrow> 'w \<Rightarrow> nat \<times> 'w"
  tsch :: "scsw \<Rightarrow> 'w \<Rightarrow> nat \<times> scsw \<times> 'w"
  csch :: "'w \<Rightarrow> nat \<times> 'w"
  stsch :: "'w \<Rightarrow> nat \<times> schib \<times> 'w"
  msch :: "schib \<Rightarrow> 'w \<Rightarrow> nat \<times> 'w"
  io_wait :: "'w \<Rightarrow> 'w"

subsection \<open>Waiting for interruptions\<close>

partial_function (option) wait_for_int :: "'w css \<Rightarrow> scsw \<Rightarrow> 'w \<Rightarrow> (nat \<times> scsw \<times> 'w) option" where
  "wait_for_int hw irb w =
     (case tsch hw irb (io_wait hw w) of (rc, irb, w) \<Rightarrow>
        if rc = 1 then wait_for_int hw irb w else Some (rc, irb, w))"

text \<open>The path mask behind the current one. With an initial mask, the first path follows it.\<close>

definition next_path :: "'w css \<Rightarrow> nat \<Rightarrow> nat \<Rightarrow> scsw \<Rightarrow> 'w \<Rightarrow> (c_fault + nat \<times> scsw \<times> 'w) option" where
  "next_path hw initial_lpm path_mask irb w =
     (let path_mask = (if initial_lpm = 0 then drop_bit 1 path_mask else path_mask)
      in if initial_lpm = 0 \<and> path_mask = 0 then Some (Inl Stopped)
         else
           case csch hw w of (rc, w) \<Rightarrow>
             if rc \<noteq> 0 then Some (Inl Stopped)
             else Option.bind (wait_for_int hw irb w) (\<lambda>(_, irb, w). Some (Inr (path_mask, irb, w))))"

definition io_settled :: "scsw \<Rightarrow> bool" where
  "io_settled irb \<longleftrightarrow> scsw_dstat irb AND 0x04 \<noteq> 0 \<or> scsw_cc irb \<noteq> 0 \<or> scsw_stctl irb AND 0x10 \<noteq> 0 \<or> scsw_cstat irb AND 0xFF \<noteq> 0"

text \<open>The loop that waits until the device is ready.\<close>

partial_function (option) wait_device :: "'w css \<Rightarrow> scsw \<Rightarrow> 'w \<Rightarrow> (nat \<times> scsw \<times> 'w) option" where
  "wait_device hw irb w =
     Option.bind (wait_for_int hw irb w) (\<lambda>(rc, irb, w).
       if rc \<noteq> 0 \<or> io_settled irb then Some (rc, irb, w) else wait_device hw irb w)"

definition io_done :: "scsw \<Rightarrow> bool" where
  "io_done irb \<longleftrightarrow> scsw_cc irb = 0 \<and> scsw_cstat irb = 0 \<and> scsw_dstat irb AND 0x04 \<noteq> 0 \<and>
     scsw_stctl irb AND 0x10 = 0 \<and> scsw_dstat irb AND 0xF3 = 0"

subsection \<open>Starting of programs\<close>

text \<open>One round of the loop of \<^verbatim>\<open>start_io\<close>, up to the decision how to go on.\<close>

datatype attempt = PathLost | Again | WaitFailed | Completed

definition io_attempt :: "'w css \<Rightarrow> ccw1 list \<Rightarrow> nat \<Rightarrow> scsw \<Rightarrow> 'w \<Rightarrow> (attempt \<times> scsw \<times> 'w) option" where
  "io_attempt hw prog lpm irb w =
     (case ssch hw prog lpm w of (rc, w) \<Rightarrow>
        if rc = CC_NOT_OPER then Some (PathLost, irb, w)
        else if rc \<noteq> CC_INITIATED then Some (Again, irb, w)
        else
          Option.bind (wait_device hw irb w) (\<lambda>(rc, irb, w).
            Some (if rc \<noteq> 0 then WaitFailed
                  else if scsw_cc irb = 3 then PathLost
                  else if io_done irb then Completed
                  else Again, irb, w)))"

text \<open>The result is true for return code 0 and false for -1, with \<^verbatim>\<open>initial_lpm\<close>.\<close>

partial_function (option) start_io_loop ::
    "'w css \<Rightarrow> ccw1 list \<Rightarrow> bool \<Rightarrow> nat \<Rightarrow> nat \<Rightarrow> nat \<Rightarrow> scsw \<Rightarrow> 'w \<Rightarrow> (c_fault + bool \<times> nat \<times> scsw \<times> 'w) option" where
  "start_io_loop hw prog panic initial_lpm path_mask retry irb w =
     Option.bind (io_attempt hw prog (if initial_lpm = 0 then path_mask else initial_lpm) irb w) (\<lambda>(out, irb, w).
       case out of
         Completed \<Rightarrow> Some (Inr (True, initial_lpm, irb, w))
       | WaitFailed \<Rightarrow> Some (if panic then Inl Stopped else Inr (False, initial_lpm, irb, w))
       | PathLost \<Rightarrow>
           Option.bind (next_path hw initial_lpm path_mask irb w) (\<lambda>r. case r of
             Inl e \<Rightarrow> Some (Inl e)
           | Inr (path_mask, irb, w) \<Rightarrow> start_io_loop hw prog panic 0 path_mask MAX_RETRIES irb w)
       | Again \<Rightarrow>
           (case tsch hw irb w of (_, irb, w) \<Rightarrow>
              if retry - 1 \<le> 0
              then Option.bind (next_path hw initial_lpm path_mask irb w) (\<lambda>r. case r of
                     Inl e \<Rightarrow> Some (Inl e)
                   | Inr (path_mask, irb, w) \<Rightarrow> start_io_loop hw prog panic 0 path_mask MAX_RETRIES irb w)
              else start_io_loop hw prog panic initial_lpm path_mask (retry - 1) irb w))"

definition start_io :: "'w css \<Rightarrow> ccw1 list \<Rightarrow> bool \<Rightarrow> nat \<Rightarrow> scsw \<Rightarrow> 'w \<Rightarrow> (c_fault + bool \<times> nat \<times> scsw \<times> 'w) option" where
  "start_io hw prog panic initial_lpm irb w = start_io_loop hw prog panic initial_lpm FIRST_PATH_MASK MAX_RETRIES irb w"

subsection \<open>Enabling of devices\<close>

text \<open>The loop over \<^verbatim>\<open>modify_subchannel\<close> with the code it leaves in \<^verbatim>\<open>rc\<close>.\<close>

fun modify_loop :: "'w css \<Rightarrow> schib \<Rightarrow> nat \<Rightarrow> nat \<Rightarrow> scsw \<Rightarrow> 'w \<Rightarrow> c_fault + nat \<times> scsw \<times> 'w" where
  "modify_loop hw schib 0 rc irb w = Inr (rc, irb, w)"
| "modify_loop hw schib (Suc n) rc irb w =
     (case msch hw schib w of (rc, w) \<Rightarrow>
        if rc = 0 then Inr (rc, irb, w)
        else if rc = CC_STATUS_PENDING \<or> rc = CC_BUSY then
          (case tsch hw irb w of (rc, irb, w) \<Rightarrow>
             if rc = CC_NOT_OPER then Inl Stopped else modify_loop hw schib n rc irb w)
        else if rc = CC_NOT_OPER then Inl Stopped
        else modify_loop hw schib n rc irb w)"

definition set_device :: "'w css \<Rightarrow> bool \<Rightarrow> nat \<Rightarrow> scsw \<Rightarrow> 'w \<Rightarrow> c_fault + nat \<times> scsw \<times> 'w" where
  "set_device hw enabled initial_lpm irb w =
     (case stsch hw w of (rc, schib, w) \<Rightarrow>
        if rc = CC_NOT_OPER then Inl Stopped
        else
          rbind (modify_loop hw (schib\<lparr>pmcw_ena := enabled\<rparr>) 256 rc irb w) (\<lambda>(rc, irb, w).
            Inr (if \<not> enabled then initial_lpm else if rc \<noteq> 0 then 0 else pmcw_lpum schib, irb, w)))"

section \<open>Lemmas\<close>

subsection \<open>Rounds of the loop of start\_io\<close>

text \<open>The rounds on one path: \<open>P\<close> holds for the result when it holds behind the last of them.\<close>

lemma rounds_on_path:
  assumes attempt: "\<And>irb w. L w \<Longrightarrow> \<exists>out irb' w'. io_attempt hw prog (if lpm = 0 then path_mask else lpm) irb w = Some (out, irb', w') \<and>
      (case out of
         Completed \<Rightarrow> P (Some (Inr (True, lpm, irb', w')))
       | WaitFailed \<Rightarrow> P (Some (if panic then Inl Stopped else Inr (False, lpm, irb', w')))
       | _ \<Rightarrow> L w')"
    and test: "\<And>irb w rc irb' w'. L w \<Longrightarrow> tsch hw irb w = (rc, irb', w') \<Longrightarrow> L w'"
    and next_one: "\<And>irb w. L w \<Longrightarrow> \<exists>r. next_path hw lpm path_mask irb w = Some r \<and>
      (case r of Inl e \<Rightarrow> P (Some (Inl e)) | Inr (m, irb', w') \<Rightarrow> P (start_io_loop hw prog panic 0 m MAX_RETRIES irb' w'))"
    and "L w"
  shows "P (start_io_loop hw prog panic lpm path_mask retry irb w)"
  using assms(4)
proof (induction retry arbitrary: irb w rule: less_induct)
  case (less retry)
  let ?next = "\<lambda>irb w. Option.bind (next_path hw lpm path_mask irb w) (\<lambda>r. case r of
      Inl e \<Rightarrow> Some (Inl e) | Inr (m, irb, w) \<Rightarrow> start_io_loop hw prog panic 0 m MAX_RETRIES irb w)"
  have nxt: "P (?next irb w)" if l: "L w" for irb w
  proof -
    obtain r where "next_path hw lpm path_mask irb w = Some r"
      "case r of Inl e \<Rightarrow> P (Some (Inl e)) | Inr (m, irb', w') \<Rightarrow> P (start_io_loop hw prog panic 0 m MAX_RETRIES irb' w')"
      using next_one [OF l] by blast
    then show ?thesis by (cases r) auto
  qed
  obtain out irb' w' where a: "io_attempt hw prog (if lpm = 0 then path_mask else lpm) irb w = Some (out, irb', w')"
    "case out of
       Completed \<Rightarrow> P (Some (Inr (True, lpm, irb', w')))
     | WaitFailed \<Rightarrow> P (Some (if panic then Inl Stopped else Inr (False, lpm, irb', w')))
     | _ \<Rightarrow> L w'"
    using attempt [OF less.prems] by blast
  obtain rc irb2 w2 where t: "tsch hw irb' w' = (rc, irb2, w2)" by (cases "tsch hw irb' w'")
  show ?case
  proof (cases out)
    case PathLost
    then show ?thesis using a nxt [of w' irb'] by (subst start_io_loop.simps) simp
  next
    case Again
    then have "L w2" using test [OF _ t] a(2) by simp
    show ?thesis
    proof (cases "retry - 1 \<le> 0")
      case True
      then show ?thesis using Again a(1) t nxt [OF \<open>L w2\<close>, of irb2] by (subst start_io_loop.simps) simp
    next
      case False
      then have "P (start_io_loop hw prog panic lpm path_mask (retry - 1) irb2 w2)" using less.IH \<open>L w2\<close> by simp
      then show ?thesis using False Again a(1) t by (subst start_io_loop.simps) simp
    qed
  qed (use a in \<open>subst start_io_loop.simps; simp\<close>)+
qed

text \<open>Every path is tried: the mask runs from the first path to the last.\<close>

definition responsive :: "'w css \<Rightarrow> bool" where
  "responsive hw \<longleftrightarrow> (\<forall>irb w. wait_for_int hw irb w \<noteq> None) \<and> (\<forall>irb w. wait_device hw irb w \<noteq> None)"

lemma attempt_ends:
  assumes "responsive hw"
  shows "\<exists>out irb' w'. io_attempt hw prog lpm irb w = Some (out, irb', w')"
proof -
  obtain r where "wait_device hw irb (snd (ssch hw prog lpm w)) = Some r" using assms unfolding responsive_def by blast
  then show ?thesis by (cases r) (auto simp: io_attempt_def split: prod.splits)
qed

lemma next_path_ends:
  assumes "responsive hw"
  shows "next_path hw lpm path_mask irb w = Some (Inl Stopped) \<or>
    (\<exists>irb' w'. next_path hw lpm path_mask irb w = Some (Inr (if lpm = 0 then path_mask div 2 else path_mask, irb', w')) \<and>
      (lpm = 0 \<longrightarrow> path_mask div 2 \<noteq> 0))"
proof -
  obtain r where "wait_for_int hw irb (snd (csch hw w)) = Some r" using assms unfolding responsive_def by blast
  then show ?thesis by (cases r) (auto simp: next_path_def Let_def drop_bit_eq_div split: prod.splits)
qed

lemma attempt_done: "io_attempt hw prog lpm irb w = Some (Completed, irb', w') \<Longrightarrow> io_done irb'"
  by (auto simp: io_attempt_def bind_eq_Some_conv split: prod.splits if_splits)

definition io_result :: "bool \<Rightarrow> (c_fault + bool \<times> nat \<times> scsw \<times> 'w) option \<Rightarrow> bool" where
  "io_result panic r \<longleftrightarrow>
     (case r of
        None \<Rightarrow> False
      | Some (Inl e) \<Rightarrow> e = Stopped
      | Some (Inr (ok, _, irb, _)) \<Rightarrow> if ok then io_done irb else \<not> panic)"

lemma attempt_result:
  assumes "responsive hw"
  shows "\<exists>out irb' w'. io_attempt hw prog lpm irb w = Some (out, irb', w') \<and>
    (case out of
       Completed \<Rightarrow> io_result panic (Some (Inr (True, l, irb', w')))
     | WaitFailed \<Rightarrow> io_result panic (Some (if panic then Inl Stopped else Inr (False, l, irb', w')))
     | _ \<Rightarrow> True)"
proof -
  obtain out irb' w' where "io_attempt hw prog lpm irb w = Some (out, irb', w')" using attempt_ends [OF assms] by blast
  then show ?thesis using attempt_done [of hw prog lpm irb w irb' w'] by (cases out) (auto simp: io_result_def)
qed

lemma loop_result:
  assumes "responsive hw"
  shows "io_result panic (start_io_loop hw prog panic 0 path_mask retry irb w)"
proof (induction path_mask arbitrary: retry irb w rule: less_induct)
  case (less path_mask)
  show ?case
  proof (rule rounds_on_path [where L = "\<lambda>_. True"], goal_cases)
    case (1 irb w)
    show ?case using attempt_result [OF assms] by simp
  next
    case (3 irb w)
    have "path_mask div 2 \<noteq> 0 \<Longrightarrow> path_mask div 2 < path_mask" by simp
    then show ?case using next_path_ends [OF assms, of 0 path_mask irb w] less.IH by (auto simp: io_result_def [of _ "Some (Inl _)"])
  qed simp_all
qed

lemma start_io_returns:
  assumes "responsive hw"
  shows "io_result panic (start_io hw prog panic lpm irb w)"
  unfolding start_io_def
proof (cases "lpm = 0")
  case True
  then show "io_result panic (start_io_loop hw prog panic lpm FIRST_PATH_MASK MAX_RETRIES irb w)" using loop_result [OF assms] by simp
next
  case False
  show "io_result panic (start_io_loop hw prog panic lpm FIRST_PATH_MASK MAX_RETRIES irb w)"
  proof (rule rounds_on_path [where L = "\<lambda>_. True"], goal_cases)
    case (1 irb w)
    show ?case using attempt_result [OF assms] by simp
  next
    case (3 irb w)
    show ?case using next_path_ends [OF assms, of lpm FIRST_PATH_MASK irb w] loop_result [OF assms] False
      by (auto simp: io_result_def [of _ "Some (Inl _)"])
  qed simp_all
qed

subsection \<open>Devices with several paths\<close>

text \<open>
  A device for a program: in a state of \<open>live\<close> no instruction fails for good and every attempt either completes the
  program or leaves the state in \<open>live\<close>; an attempt on one of the eight paths completes it.
\<close>

definition path_device :: "'w css \<Rightarrow> ccw1 list \<Rightarrow> ('w \<Rightarrow> bool) \<Rightarrow> ('w \<Rightarrow> bool) \<Rightarrow> nat \<Rightarrow> bool" where
  "path_device hw prog live result k \<longleftrightarrow> k < 8 \<and>
     (\<forall>w lpm irb. live w \<longrightarrow> (\<exists>out irb' w'. io_attempt hw prog lpm irb w = Some (out, irb', w') \<and>
        (lpm = 2 ^ k \<longrightarrow> out = Completed) \<and> out \<noteq> WaitFailed \<and> (if out = Completed then result w' else live w'))) \<and>
     (\<forall>w irb. live w \<longrightarrow> fst (csch hw w) = 0 \<and> (\<exists>rc irb' w'. wait_for_int hw irb (snd (csch hw w)) = Some (rc, irb', w') \<and> live w')) \<and>
     (\<forall>w irb. live w \<longrightarrow> live (snd (snd (tsch hw irb w))))"

definition completes :: "('w \<Rightarrow> bool) \<Rightarrow> (c_fault + bool \<times> nat \<times> scsw \<times> 'w) option \<Rightarrow> bool" where
  "completes result r \<longleftrightarrow> (\<exists>lpm irb w. r = Some (Inr (True, lpm, irb, w)) \<and> result w \<and> io_done irb)"

lemma live_rounds:
  assumes "path_device hw prog live result k" and "lpm \<noteq> 0 \<or> path_mask div 2 \<noteq> 0" and "live w"
    and "\<And>irb w. live w \<Longrightarrow> completes result (start_io_loop hw prog panic 0 (if lpm = 0 then path_mask div 2 else path_mask) MAX_RETRIES irb w)"
  shows "completes result (start_io_loop hw prog panic lpm path_mask retry irb w)"
proof (rule rounds_on_path [where L = live], goal_cases)
  case (1 irb w)
  then obtain out irb' w' where a: "io_attempt hw prog (if lpm = 0 then path_mask else lpm) irb w = Some (out, irb', w')"
    "out \<noteq> WaitFailed" "if out = Completed then result w' else live w'"
    using assms(1) unfolding path_device_def by metis
  then show ?case using attempt_done [of hw prog _ irb w irb' w'] by (cases out) (auto simp: completes_def)
next
  case (2 irb w rc irb' w')
  then show ?case using assms(1) unfolding path_device_def by (metis snd_conv)
next
  case (3 irb w)
  then obtain rc irb' w' where c: "fst (csch hw w) = 0" "wait_for_int hw irb (snd (csch hw w)) = Some (rc, irb', w')" "live w'"
    using assms(1) unfolding path_device_def by metis
  then have "next_path hw lpm path_mask irb w = Some (Inr (if lpm = 0 then path_mask div 2 else path_mask, irb', w'))"
    using assms(2) by (cases "csch hw w") (auto simp: next_path_def drop_bit_eq_div)
  then show ?case using assms(4) [OF c(3)] by auto
qed (use assms(3) in simp)

lemma path_found:
  assumes "path_device hw prog live result k" and "live w"
  shows "completes result (start_io_loop hw prog panic 0 (2 ^ (k + j)) retry irb w)"
  using assms(2)
proof (induction j arbitrary: retry irb w)
  case 0
  obtain irb' w' where "io_attempt hw prog (2 ^ k) irb w = Some (Completed, irb', w')" "result w'"
    using assms(1) 0 unfolding path_device_def by metis
  then show ?case using attempt_done by (subst start_io_loop.simps) (auto simp: completes_def)
next
  case (Suc j)
  show ?case by (rule live_rounds [OF assms(1) _ Suc.prems]) (use Suc.IH in simp_all)
qed

lemma start_io_completes:
  assumes "path_device hw prog live result k" and "live w"
  shows "completes result (start_io hw prog panic lpm irb w)"
proof -
  have k: "(2::nat) ^ (k + (7 - k)) = FIRST_PATH_MASK" using assms(1) by (simp add: path_device_def)
  note found = path_found [OF assms(1), where j = "7 - k", unfolded k]
  show ?thesis
  proof (cases "lpm = 0")
    case True
    then show ?thesis using found [OF assms(2)] by (simp add: start_io_def)
  next
    case False
    show ?thesis unfolding start_io_def by (rule live_rounds [OF assms(1) _ assms(2)]) (use False found in simp_all)
  qed
qed

subsection \<open>A simulated device\<close>

text \<open>
  A device that performs programs by \<open>run\<close>; the paths of \<open>dead\<close> are not operational. The state is what the
  programs change, with the status that is pending.
\<close>

definition sim_status :: "bool \<Rightarrow> scsw" where
  "sim_status ok = \<lparr>scsw_cc = 0, scsw_stctl = 0x07, scsw_dstat = (if ok then 0x0C else 0x0E), scsw_cstat = 0\<rparr>"

definition sim_css :: "(ccw1 list \<Rightarrow> 'm \<Rightarrow> c_fault + 'm) \<Rightarrow> (nat \<Rightarrow> bool) \<Rightarrow> ('m \<times> scsw) css" where
  "sim_css run dead =
     \<lparr>ssch = (\<lambda>prog lpm (m, st).
        if dead lpm then (CC_NOT_OPER, m, st)
        else case run prog m of Inl _ \<Rightarrow> (0, m, sim_status False) | Inr m' \<Rightarrow> (0, m', sim_status True)),
      tsch = (\<lambda>irb (m, st). (0, st, m, st)), csch = (\<lambda>w. (0, w)),
      stsch = (\<lambda>w. (0, \<lparr>pmcw_ena = False, pmcw_lpum = 0x80\<rparr>, w)), msch = (\<lambda>_ w. (0, w)), io_wait = (\<lambda>w. w)\<rparr>"

lemma sim_wait:
  "wait_for_int (sim_css run dead) irb (m, st) = Some (0, st, m, st)"
  "io_settled st \<Longrightarrow> wait_device (sim_css run dead) irb (m, st) = Some (0, st, m, st)"
proof -
  show w: "wait_for_int (sim_css run dead) irb (m, st) = Some (0, st, m, st)"
    by (subst wait_for_int.simps) (simp add: sim_css_def)
  show "io_settled st \<Longrightarrow> wait_device (sim_css run dead) irb (m, st) = Some (0, st, m, st)"
    by (subst wait_device.simps) (simp add: w)
qed

lemma sim_done: "io_settled (sim_status ok)" "io_done (sim_status ok) \<longleftrightarrow> ok" "scsw_cc (sim_status ok) = 0"
  by (simp_all add: sim_status_def io_settled_def io_done_def)

lemma sim_attempt:
  "io_attempt (sim_css run dead) prog lpm irb (m, st) =
     (if dead lpm then Some (PathLost, irb, m, st)
      else case run prog m of
        Inl _ \<Rightarrow> Some (Again, sim_status False, m, sim_status False)
      | Inr m' \<Rightarrow> Some (Completed, sim_status True, m', sim_status True))"
proof -
  have "ssch (sim_css run dead) prog lpm (m, st) =
      (if dead lpm then (CC_NOT_OPER, m, st)
       else case run prog m of Inl _ \<Rightarrow> (0, m, sim_status False) | Inr m' \<Rightarrow> (0, m', sim_status True))"
    by (simp add: sim_css_def)
  then show ?thesis by (simp add: io_attempt_def sim_wait sim_done split: sum.splits)
qed

lemma sim_path_device:
  assumes "k < 8" and "\<not> dead (2 ^ k)"
  shows "path_device (sim_css run dead) prog (\<lambda>(m, st). run prog m = Inr m') (\<lambda>(m, st). m = m') k"
proof -
  have "\<exists>out irb' w'. io_attempt (sim_css run dead) prog lpm irb w = Some (out, irb', w') \<and>
      (lpm = 2 ^ k \<longrightarrow> out = Completed) \<and> out \<noteq> WaitFailed \<and>
      (if out = Completed then (\<lambda>(m, st). m = m') w' else (\<lambda>(m, st). run prog m = Inr m') w')"
    if "(\<lambda>(m, st). run prog m = Inr m') w" for w lpm irb
    using that assms(2) by (cases w) (auto simp: sim_attempt)
  moreover have "\<exists>rc irb' w'. wait_for_int (sim_css run dead) irb (snd (csch (sim_css run dead) w)) = Some (rc, irb', w') \<and>
      (\<lambda>(m, st). run prog m = Inr m') w'" if "(\<lambda>(m, st). run prog m = Inr m') w" for w irb
    using that by (cases w) (simp add: sim_wait sim_css_def [THEN arg_cong, of csch])
  ultimately show ?thesis
    using assms(1) unfolding path_device_def by (auto simp: sim_css_def)
qed

section \<open>Properties\<close>

text \<open>
  C38. \<^verbatim>\<open>start_io\<close> always returns when every wait for the device does: it retries a program at most 255 times on
  each of the paths. It reports success only when the status of the last interruption is device end without an
  error; it returns -1 only when it is called without \<^verbatim>\<open>panic\<close>, and stops otherwise.
\<close>

theorem start_io_ends:
  assumes "responsive hw"
  shows "case start_io hw prog panic initial_lpm irb w of
      None \<Rightarrow> False
    | Some (Inl e) \<Rightarrow> e = Stopped
    | Some (Inr (ok, lpm', irb', w')) \<Rightarrow> if ok then io_done irb' else \<not> panic"
  using start_io_returns [OF assms, of panic prog initial_lpm irb w] by (simp add: io_result_def)

lemma fixed_responsive:
  assumes "\<And>irb w. tsch hw irb w = (0, st, w)" and "io_settled st"
  shows "responsive hw"
proof -
  have w: "wait_for_int hw irb w = Some (0, st, io_wait hw w)" for irb w
    by (subst wait_for_int.simps) (simp add: assms(1))
  have "wait_device hw irb w = Some (0, st, io_wait hw w)" for irb w
    by (subst wait_device.simps) (simp add: w assms(2))
  then show ?thesis using w by (simp add: responsive_def)
qed

text \<open>Every path of this device ends with a unit check: all retries fail.\<close>

definition broken_css :: "nat css" where
  "broken_css =
     \<lparr>ssch = (\<lambda>_ _ w. (0, w + 1)), tsch = (\<lambda>_ w. (0, sim_status False, w)), csch = (\<lambda>w. (0, w)),
      stsch = (\<lambda>w. (0, \<lparr>pmcw_ena = False, pmcw_lpum = 0x80\<rparr>, w)), msch = (\<lambda>_ w. (0, w)), io_wait = (\<lambda>w. w)\<rparr>"

theorem start_io_ends_witness:
  "responsive broken_css \<and>
   (case start_io broken_css [] True 0 (sim_status True) 0 of
      None \<Rightarrow> False
    | Some (Inl e) \<Rightarrow> e = Stopped
    | Some (Inr (ok, lpm', irb', w')) \<Rightarrow> if ok then io_done irb' else \<not> True)"
proof -
  have "responsive broken_css" by (rule fixed_responsive [of _ "sim_status False"]) (simp_all add: broken_css_def sim_done)
  then show ?thesis using start_io_ends [of broken_css, where prog = "[]" and panic = True and initial_lpm = 0 and irb = "sim_status True" and w = 0] by blast
qed

text \<open>
  C16. A device that can be reached on one of its eight paths is reached: whatever the other paths do, and whatever
  path the system was loaded from, \<^verbatim>\<open>start_io\<close> completes the program.
\<close>

theorem start_io_finds_path:
  assumes "path_device hw prog live result k" and "live w"
  shows "\<exists>lpm' irb' w'. start_io hw prog panic initial_lpm irb w = Some (Inr (True, lpm', irb', w')) \<and> result w' \<and> io_done irb'"
  using start_io_completes [OF assms, of panic initial_lpm irb] by (simp add: completes_def)

theorem start_io_finds_path_witness:
  "path_device (sim_css (\<lambda>prog n. Inr (length prog)) (\<lambda>lpm. lpm \<noteq> 2)) [] (\<lambda>(m, st). Inr (length []) = (Inr 0 :: c_fault + nat)) (\<lambda>(m, st). m = 0) 1 \<and>
   (\<exists>lpm' irb' w'. start_io (sim_css (\<lambda>prog n. Inr (length prog)) (\<lambda>lpm. lpm \<noteq> 2)) [] True 0x80 (sim_status True) (5, sim_status True) =
      Some (Inr (True, lpm', irb', w')) \<and> fst w' = (0 :: nat) \<and> io_done irb')"
proof -
  let ?hw = "sim_css (\<lambda>prog (n :: nat). Inr (length prog)) (\<lambda>lpm. lpm \<noteq> 2)"
  have d: "path_device ?hw [] (\<lambda>(m, st). Inr (length []) = (Inr 0 :: c_fault + nat)) (\<lambda>(m, st). m = 0) 1"
    using sim_path_device [of 1 "\<lambda>lpm. lpm \<noteq> 2" "\<lambda>prog n. Inr (length prog)" "[]" 0] by simp
  show ?thesis
    using start_io_finds_path [OF d, where w = "(5, sim_status True)" and panic = True and initial_lpm = "0x80" and irb = "sim_status True"] d by fastforce
qed

lemma modify_busy:
  assumes "\<And>schib w. msch hw schib w = (CC_BUSY, w)" and "\<And>irb w. tsch hw irb w = (0, irb, w)"
  shows "modify_loop hw schib (Suc n) rc irb w = Inr (0, irb, w)"
  by (induction n arbitrary: rc) (simp_all add: assms)


definition busy_css :: "unit css" where
  "busy_css =
     \<lparr>ssch = (\<lambda>_ _ w. (0, w)), tsch = (\<lambda>irb w. (0, irb, w)), csch = (\<lambda>w. (0, w)),
      stsch = (\<lambda>w. (0, \<lparr>pmcw_ena = False, pmcw_lpum = 0x20\<rparr>, w)), msch = (\<lambda>_ w. (CC_BUSY, w)), io_wait = (\<lambda>w. w)\<rparr>"


end
