(* ===== verification/Zipl_Disk.thy ===== *)
theory Zipl_Disk
  imports C_Strings
begin

text \<open>
  The block functions of the installer (\<^verbatim>\<open>src/zipl/src/disk.c\<close>) and the mapping of file offsets to blocks
  (\<^verbatim>\<open>src/zipl/src/fs-map.c\<close>).

  Numbers are natural numbers with the wrap-around of \<^verbatim>\<open>int\<close> and \<^verbatim>\<open>uint64_t\<close> written out where a value can
  leave the type. A file that is written is its bytes with the position and the number of bytes that fit
  on the device. What the file system answers to \<^verbatim>\<open>FS_IOC_FIEMAP\<close> and \<^verbatim>\<open>FIBMAP\<close> is a parameter.

  The lemmas show that the addresses of blocks on cylinders, heads and sectors are unique, that the compaction
  of a block list keeps the sequence of blocks, and that a buffer is found in the blocks of its list.
\<close>

section \<open>Definitions\<close>

datatype zipl_error = WriteError | MapError | ReadError | NotOnDevice | NoSignature | EntryTooHigh | AssertFailed

subsection \<open>Disks and block pointers\<close>

datatype disk_type = disk_type_scsi | disk_type_fba | disk_type_diag | disk_type_eckd_ldl | disk_type_eckd_cdl

record disk_info =
  di_type :: disk_type
  phy_block_size :: nat
  geo_heads :: nat
  geo_sectors :: nat
  geo_start :: nat

text \<open>
  A pointer in memory is a union; a disk uses either the cylinder, head and sector or the block number. Size
  and count are in both views.
\<close>

record disk_blockptr =
  bp_cyl :: nat
  bp_head :: nat
  bp_sec :: nat
  bp_block :: nat
  bp_size :: nat
  bp_blockct :: nat

definition zero_blockptr :: disk_blockptr where
  "zero_blockptr = \<lparr>bp_cyl = 0, bp_head = 0, bp_sec = 0, bp_block = 0, bp_size = 0, bp_blockct = 0\<rparr>"

definition disk_type_is_eckd :: "disk_type \<Rightarrow> bool" where
  "disk_type_is_eckd t \<longleftrightarrow> t = disk_type_eckd_ldl \<or> t = disk_type_eckd_cdl"

definition disk_cyl_from_blocknum :: "nat \<Rightarrow> disk_info \<Rightarrow> nat" where
  "disk_cyl_from_blocknum blocknum info = (blocknum div (geo_heads info * geo_sectors info)) mod 2 ^ 32"

definition disk_head_from_blocknum :: "nat \<Rightarrow> disk_info \<Rightarrow> nat" where
  "disk_head_from_blocknum blocknum info = (blocknum div geo_sectors info) mod geo_heads info"

definition disk_sec_from_blocknum :: "nat \<Rightarrow> disk_info \<Rightarrow> nat" where
  "disk_sec_from_blocknum blocknum info = blocknum mod geo_sectors info + 1"

definition disk_blockptr_from_blocknum :: "nat \<Rightarrow> disk_info \<Rightarrow> disk_blockptr" where
  "disk_blockptr_from_blocknum blocknum info =
     (if disk_type_is_eckd (di_type info) then
        (if blocknum = 0 then zero_blockptr
         else zero_blockptr\<lparr>bp_cyl := disk_cyl_from_blocknum blocknum info,
                            bp_head := disk_head_from_blocknum blocknum info,
                            bp_sec := disk_sec_from_blocknum blocknum info\<rparr>)
        \<lparr>bp_size := phy_block_size info, bp_blockct := 0\<rparr>
      else zero_blockptr\<lparr>bp_block := blocknum, bp_size := phy_block_size info, bp_blockct := 0\<rparr>)"

subsection \<open>Mapping of files\<close>

datatype fiemap_reply = FiemapFailed | NoExtent | Extent nat nat bool

record fs_ioctl =
  premap_ok :: bool
  fiemap_at :: "nat \<Rightarrow> fiemap_reply"
  fibmap_at :: "int \<Rightarrow> int option"

text \<open>The value of the low 32 bits of a number as an \<^verbatim>\<open>int\<close>.\<close>

definition to_int32 :: "int \<Rightarrow> int" where
  "to_int32 x = (let y = x mod 2 ^ 32 in if y < 2 ^ 31 then y else y - 2 ^ 32)"

definition fs_map :: "fs_ioctl \<Rightarrow> nat \<Rightarrow> nat \<Rightarrow> zipl_error + nat" where
  "fs_map io offset fs_block_size =
     (if \<not> premap_ok io then Inl MapError
      else
        case fiemap_at io offset of
          FiemapFailed \<Rightarrow>
            (case fibmap_at io (to_int32 (int (offset div fs_block_size))) of
               None \<Rightarrow> Inl MapError
             | Some block \<Rightarrow> Inr (nat (block mod 2 ^ 64)))
        | NoExtent \<Rightarrow> Inr 0
        | Extent fe_logical fe_physical encoded \<Rightarrow>
            if encoded then Inl MapError
            else Inr (nat ((int fe_physical + to_int32 (int offset - int fe_logical)) mod 2 ^ 64) div fs_block_size))"

text \<open>The size of the blocks of the file system is \<open>None\<close> for a partition or raw disk.\<close>

definition disk_get_blocknum :: "fs_ioctl \<Rightarrow> bool \<Rightarrow> nat \<Rightarrow> nat option \<Rightarrow> disk_info \<Rightarrow> zipl_error + nat" where
  "disk_get_blocknum io fd_is_basedisk logical fs_block_size info =
     (case fs_block_size of
        None \<Rightarrow> Inr (if fd_is_basedisk then logical else (logical + geo_start info) mod 2 ^ 64)
      | Some fs_bs \<Rightarrow>
          (let phy_per_fs = fs_bs div phy_block_size info;
               subblock = logical mod phy_per_fs
           in rbind (fs_map io (logical * phy_block_size info) fs_bs) (\<lambda>mapped.
                Inr (if mapped = 0 then 0 else (mapped * phy_per_fs + subblock + geo_start info) mod 2 ^ 64))))"

subsection \<open>Writing\<close>

record misc_fd =
  fd_data :: "u8 list"
  fd_pos :: nat
  fd_room :: nat
  simulate_write :: bool

definition file_put :: "u8 list \<Rightarrow> nat \<Rightarrow> u8 list \<Rightarrow> u8 list" where
  "file_put d pos bs = take pos (d @ replicate (pos - length d) 0) @ bs @ drop (pos + length bs) d"

definition misc_write_or_simulate :: "misc_fd \<Rightarrow> u8 list \<Rightarrow> zipl_error + misc_fd" where
  "misc_write_or_simulate mfd bs =
     (if simulate_write mfd then Inr (mfd\<lparr>fd_pos := fd_pos mfd + length bs\<rparr>)
      else if fd_room mfd < fd_pos mfd + length bs then Inl WriteError
      else Inr (mfd\<lparr>fd_data := file_put (fd_data mfd) (fd_pos mfd) bs, fd_pos := fd_pos mfd + length bs\<rparr>))"

definition align_up :: "nat \<Rightarrow> nat \<Rightarrow> nat" where
  "align_up pos align = (if pos mod align \<noteq> 0 then pos + (align - pos mod align) else pos)"

text \<open>The result has the pointer to the block and the offset of the first byte.\<close>

definition disk_write_block_aligned_base ::
    "fs_ioctl \<Rightarrow> misc_fd \<Rightarrow> bool \<Rightarrow> u8 list \<Rightarrow> nat option \<Rightarrow> disk_info \<Rightarrow> nat \<Rightarrow>
     zipl_error + misc_fd \<times> disk_blockptr \<times> nat" where
  "disk_write_block_aligned_base io mfd is_base_disk bytes fs_block_size info align =
     (let align = (if align = 0 then phy_block_size info else align);
          current_pos = align_up (fd_pos mfd) align;
          current_block = current_pos div phy_block_size info
      in rbind (misc_write_or_simulate (mfd\<lparr>fd_pos := current_pos\<rparr>) (take (phy_block_size info) bytes)) (\<lambda>mfd.
         rbind (disk_get_blocknum io is_base_disk current_block fs_block_size info) (\<lambda>blocknum.
           Inr (mfd, disk_blockptr_from_blocknum blocknum info, current_pos))))"

definition disk_write_block_aligned ::
    "fs_ioctl \<Rightarrow> misc_fd \<Rightarrow> u8 list \<Rightarrow> nat option \<Rightarrow> disk_info \<Rightarrow> zipl_error + misc_fd \<times> disk_blockptr" where
  "disk_write_block_aligned io mfd bytes fs_block_size info =
     rbind (disk_write_block_aligned_base io mfd False bytes fs_block_size info (phy_block_size info)) (\<lambda>(mfd, block, offset).
       Inr (mfd, block))"

text \<open>The loop over the blocks of a buffer; the first one is aligned as requested.\<close>

fun write_blocks ::
    "fs_ioctl \<Rightarrow> misc_fd \<Rightarrow> bool \<Rightarrow> u8 list \<Rightarrow> nat option \<Rightarrow> disk_info \<Rightarrow> nat \<Rightarrow> nat \<Rightarrow>
     zipl_error + misc_fd \<times> disk_blockptr list \<times> nat" where
  "write_blocks io mfd base buffer fs_block_size info align 0 = Inr (mfd, [], 0)"
| "write_blocks io mfd base buffer fs_block_size info align (Suc n) =
     rbind (disk_write_block_aligned_base io mfd base buffer fs_block_size info align) (\<lambda>(mfd, block, offset).
     rbind (write_blocks io mfd base (drop (phy_block_size info) buffer) fs_block_size info (phy_block_size info) n) (\<lambda>(mfd, list, pos).
       Inr (mfd, block # list, offset)))"

definition disk_write_block_buffer_align ::
    "fs_ioctl \<Rightarrow> misc_fd \<Rightarrow> bool \<Rightarrow> u8 list \<Rightarrow> nat option \<Rightarrow> nat \<Rightarrow> disk_info \<Rightarrow>
     zipl_error + misc_fd \<times> disk_blockptr list \<times> nat" where
  "disk_write_block_buffer_align io mfd fd_is_basedisk buffer fs_block_size align info =
     write_blocks io mfd fd_is_basedisk buffer fs_block_size info align
       ((length buffer + phy_block_size info - 1) div phy_block_size info)"

subsection \<open>Block lists\<close>

definition disk_is_zero_block :: "disk_blockptr \<Rightarrow> disk_info \<Rightarrow> bool" where
  "disk_is_zero_block block info =
     (case di_type info of
        disk_type_scsi \<Rightarrow> bp_block block = 0
      | disk_type_fba \<Rightarrow> bp_block block = 0
      | disk_type_eckd_ldl \<Rightarrow> bp_cyl block = 0 \<and> bp_head block = 0 \<and> bp_sec block = 0
      | disk_type_eckd_cdl \<Rightarrow> bp_cyl block = 0 \<and> bp_head block = 0 \<and> bp_sec block = 0
      | disk_type_diag \<Rightarrow> False)"

definition max_link_count :: "disk_info \<Rightarrow> nat" where
  "max_link_count info = (if di_type info = disk_type_scsi then 65535 else 255)"

definition can_merge_blocks :: "disk_blockptr \<Rightarrow> disk_blockptr \<Rightarrow> disk_info \<Rightarrow> bool" where
  "can_merge_blocks p q info =
     (if disk_is_zero_block p info \<or> disk_is_zero_block q info then False
      else if di_type info = disk_type_scsi \<or> di_type info = disk_type_fba then
        (if bp_blockct p + bp_blockct q + 1 > max_link_count info then False
         else (bp_block p + bp_blockct p + 1) mod 2 ^ 64 = bp_block q)
      else if disk_type_is_eckd (di_type info) then
        (if bp_blockct p + bp_blockct q + 1 > max_link_count info then False
         else bp_cyl p = bp_cyl q \<and> bp_head p = bp_head q \<and> bp_sec p + bp_blockct p + 1 = bp_sec q)
      else False)"

definition merge_blocks :: "disk_blockptr \<Rightarrow> disk_blockptr \<Rightarrow> disk_info \<Rightarrow> disk_blockptr" where
  "merge_blocks p q info =
     (if di_type info = disk_type_diag then p
      else p\<lparr>bp_blockct := bp_blockct p + bp_blockct q + 1\<rparr>)"

function compact_loop :: "disk_info \<Rightarrow> disk_blockptr list \<Rightarrow> nat \<Rightarrow> nat \<Rightarrow> nat \<Rightarrow> disk_blockptr list \<times> nat" where
  "compact_loop info list n i k =
     (if i < n then
        if can_merge_blocks (list ! k) (list ! i) info
        then compact_loop info (list[k := merge_blocks (list ! k) (list ! i) info]) n (i + 1) k
        else compact_loop info (list[k + 1 := list ! i]) n (i + 1) (k + 1)
      else (list, k + 1))"
  by pat_completeness auto
termination by (relation "measure (\<lambda>(info, list, n, i, k). n - i)") auto

declare compact_loop.simps [simp del]

definition disk_compact_blocklist :: "disk_blockptr list \<Rightarrow> nat \<Rightarrow> disk_info \<Rightarrow> disk_blockptr list \<times> nat" where
  "disk_compact_blocklist list n info = (if n < 2 then (list, n) else compact_loop info list n 1 0)"

text \<open>A file by its size; the range is an offset and a length.\<close>

fun get_blocks :: "fs_ioctl \<Rightarrow> nat \<Rightarrow> nat \<Rightarrow> nat option \<Rightarrow> disk_info \<Rightarrow> zipl_error + disk_blockptr list" where
  "get_blocks io blk 0 fs_block_size info = Inr []"
| "get_blocks io blk (Suc n) fs_block_size info =
     rbind (disk_get_blocknum io False blk fs_block_size info) (\<lambda>blocknum.
     rbind (get_blocks io (blk + 1) n fs_block_size info) (\<lambda>list.
       Inr (disk_blockptr_from_blocknum blocknum info # list)))"

definition disk_get_blocklist_from_file ::
    "fs_ioctl \<Rightarrow> nat \<Rightarrow> (nat \<times> nat) option \<Rightarrow> nat option \<Rightarrow> disk_info \<Rightarrow> zipl_error + disk_blockptr list" where
  "disk_get_blocklist_from_file io st_size reg fs_block_size info =
     (case reg of
        Some (off, len) \<Rightarrow>
          if off mod phy_block_size info \<noteq> 0 \<or> st_size \<le> off then Inl AssertFailed
          else
            (let n = (if off + len > st_size then st_size - off else len)
             in get_blocks io (off div phy_block_size info) ((n + phy_block_size info - 1) div phy_block_size info) fs_block_size info)
      | None \<Rightarrow>
          if st_size \<le> 0 then Inl AssertFailed
          else get_blocks io 0 ((st_size + phy_block_size info - 1) div phy_block_size info) fs_block_size info)"


section \<open>Lemmas on addresses\<close>

definition chs_block :: "disk_info \<Rightarrow> nat \<Rightarrow> nat \<Rightarrow> nat \<Rightarrow> nat" where
  "chs_block info c h s = (c * geo_heads info + h) * geo_sectors info + s - 1"

text \<open>The blocks that a pointer stands for; block 0 is a hole.\<close>

definition ptr_first :: "disk_info \<Rightarrow> disk_blockptr \<Rightarrow> nat" where
  "ptr_first info p =
     (if disk_type_is_eckd (di_type info) then chs_block info (bp_cyl p) (bp_head p) (bp_sec p) else bp_block p)"

definition ptr_blocks :: "disk_info \<Rightarrow> disk_blockptr \<Rightarrow> nat list" where
  "ptr_blocks info p =
     (if disk_is_zero_block p info then [0] else [ptr_first info p..<ptr_first info p + bp_blockct p + 1])"

definition disk_ok :: "disk_info \<Rightarrow> bool" where
  "disk_ok info \<longleftrightarrow> di_type info \<noteq> disk_type_diag \<and> 0 < phy_block_size info \<and> phy_block_size info < 2 ^ 16 \<and>
     (disk_type_is_eckd (di_type info) \<longrightarrow>
       0 < geo_heads info \<and> geo_heads info \<le> 16 \<and> 0 < geo_sectors info \<and> geo_sectors info < 2 ^ 8)"

text \<open>Block numbers of FBA disks have 32 bits.\<close>

definition block_limit :: "disk_info \<Rightarrow> nat" where
  "block_limit info = (if di_type info = disk_type_fba then 2 ^ 32 else 2 ^ 64)"

definition blocknum_ok :: "disk_info \<Rightarrow> nat \<Rightarrow> bool" where
  "blocknum_ok info n \<longleftrightarrow>
     (if disk_type_is_eckd (di_type info) then n < 2 ^ 28 * (geo_heads info * geo_sectors info) else n < block_limit info)"

text \<open>A pointer that has a form on the disk; on an ECKD disk its blocks are on one track.\<close>

definition ptr_ok :: "disk_info \<Rightarrow> disk_blockptr \<Rightarrow> bool" where
  "ptr_ok info p \<longleftrightarrow> bp_size p = phy_block_size info \<and> bp_blockct p \<le> max_link_count info \<and>
     (if disk_is_zero_block p info then bp_blockct p = 0 else 0 < ptr_first info p) \<and>
     (if disk_type_is_eckd (di_type info)
      then bp_cyl p < 2 ^ 28 \<and> bp_head p < geo_heads info \<and> bp_sec p + bp_blockct p \<le> geo_sectors info \<and>
        (\<not> disk_is_zero_block p info \<longrightarrow> 0 < bp_sec p)
      else bp_block p + bp_blockct p < block_limit info)"

lemma block_limit_le: "block_limit info \<le> 2 ^ 64"
  by (simp add: block_limit_def)

lemma zero_block_iff:
  assumes "disk_ok info"
  shows "disk_is_zero_block p info \<longleftrightarrow>
    (if disk_type_is_eckd (di_type info) then bp_cyl p = 0 \<and> bp_head p = 0 \<and> bp_sec p = 0 else bp_block p = 0)"
  using assms by (cases "di_type info") (auto simp: disk_is_zero_block_def disk_type_is_eckd_def disk_ok_def)

lemma chs_block_of:
  assumes "0 < geo_heads info" and "0 < geo_sectors info" and "n div (geo_heads info * geo_sectors info) < 2 ^ 32"
  shows "chs_block info (disk_cyl_from_blocknum n info) (disk_head_from_blocknum n info) (disk_sec_from_blocknum n info) = n"
proof -
  have "n div (geo_heads info * geo_sectors info) = n div geo_sectors info div geo_heads info"
    by (metis div_mult2_eq mult.commute)
  then have "n div (geo_heads info * geo_sectors info) * geo_heads info + n div geo_sectors info mod geo_heads info = n div geo_sectors info"
    by simp
  then show ?thesis
    using assms(3) by (simp add: chs_block_def disk_cyl_from_blocknum_def disk_head_from_blocknum_def disk_sec_from_blocknum_def)
qed

lemma blockptr_from_blocknum:
  assumes "disk_ok info" and "blocknum_ok info n"
  shows "ptr_ok info (disk_blockptr_from_blocknum n info)" (is "ptr_ok info ?p")
    and "ptr_blocks info (disk_blockptr_from_blocknum n info) = [n]"
    and "disk_is_zero_block (disk_blockptr_from_blocknum n info) info \<longleftrightarrow> n = 0"
proof -
  let ?hs = "geo_heads info * geo_sectors info"
  have z: "disk_is_zero_block ?p info \<longleftrightarrow> n = 0"
    by (auto simp: zero_block_iff [OF assms(1)] disk_blockptr_from_blocknum_def zero_blockptr_def disk_sec_from_blocknum_def)
  have c: "n div ?hs < 2 ^ 28" if "disk_type_is_eckd (di_type info)"
    using that assms by (simp add: blocknum_ok_def disk_ok_def div_less_iff_less_mult mult.commute)
  have f: "ptr_first info ?p = n" if "n \<noteq> 0"
  proof (cases "disk_type_is_eckd (di_type info)")
    case True
    then show ?thesis
      using chs_block_of [of info n] c that assms(1)
      by (simp add: ptr_first_def disk_blockptr_from_blocknum_def disk_ok_def)
  qed (simp add: ptr_first_def disk_blockptr_from_blocknum_def)
  show "ptr_blocks info ?p = [n]"
    using z f by (simp add: ptr_blocks_def, simp add: disk_blockptr_from_blocknum_def)
  show "disk_is_zero_block ?p info \<longleftrightarrow> n = 0" by (rule z)
  show "ptr_ok info ?p"
  proof (cases "disk_type_is_eckd (di_type info)")
    case True
    then have g: "0 < geo_heads info" "0 < geo_sectors info" using assms(1) by (simp_all add: disk_ok_def)
    have "n mod geo_sectors info + 1 \<le> geo_sectors info" using g by (simp add: Suc_leI)
    then show ?thesis
      using True g z f c [OF True] by (auto simp: ptr_ok_def disk_blockptr_from_blocknum_def zero_blockptr_def
          disk_cyl_from_blocknum_def disk_head_from_blocknum_def disk_sec_from_blocknum_def)
  next
    case False
    then show ?thesis
      using assms(2) z f by (auto simp: ptr_ok_def disk_blockptr_from_blocknum_def blocknum_ok_def)
  qed
qed

section \<open>Lemmas on compaction\<close>

definition blocks :: "disk_info \<Rightarrow> disk_blockptr list \<Rightarrow> nat list" where
  "blocks info ps = concat (map (ptr_blocks info) ps)"

lemma blocks_simps [simp]:
  "blocks info [] = []" "blocks info (p # ps) = ptr_blocks info p @ blocks info ps"
  "blocks info (ps @ qs) = blocks info ps @ blocks info qs"
  by (simp_all add: blocks_def)

lemma merge_blocks_ok:
  assumes "disk_ok info" and "ptr_ok info p" and "ptr_ok info q" and "can_merge_blocks p q info"
  shows "ptr_ok info (merge_blocks p q info)"
    and "ptr_blocks info (merge_blocks p q info) = ptr_blocks info p @ ptr_blocks info q"
proof -
  let ?m = "merge_blocks p q info"
  have z: "\<not> disk_is_zero_block p info" "\<not> disk_is_zero_block q info"
    and l: "bp_blockct p + bp_blockct q + 1 \<le> max_link_count info"
    using assms(4) by (auto simp: can_merge_blocks_def split: if_splits)
  have t: "disk_type_is_eckd (di_type info) \<or> di_type info = disk_type_scsi \<or> di_type info = disk_type_fba"
    using assms(4) by (auto simp: can_merge_blocks_def split: if_splits)
  have m: "?m = p\<lparr>bp_blockct := bp_blockct p + bp_blockct q + 1\<rparr>"
    using assms(1) by (simp add: merge_blocks_def disk_ok_def)
  have zm: "\<not> disk_is_zero_block ?m info" using z(1) by (auto simp: m zero_block_iff [OF assms(1)] split: if_splits)
  have q: "ptr_first info q = ptr_first info p + bp_blockct p + 1"
    and b: "if disk_type_is_eckd (di_type info) then bp_sec q = bp_sec p + bp_blockct p + 1 else bp_block q = bp_block p + bp_blockct p + 1"
  proof -
    have "bp_sec p > 0" if "disk_type_is_eckd (di_type info)" using that assms(2) z(1) by (simp add: ptr_ok_def)
    moreover have "bp_block q = bp_block p + bp_blockct p + 1" if "\<not> disk_type_is_eckd (di_type info)"
    proof -
      have e: "(bp_block p + bp_blockct p + 1) mod 2 ^ 64 = bp_block q" "bp_block p + bp_blockct p + 1 \<le> 2 ^ 64" "bp_block q \<noteq> 0"
        using that t assms(2,4) z(2) block_limit_le [of info] by (auto simp: can_merge_blocks_def ptr_ok_def zero_block_iff [OF assms(1)] split: if_splits)
      then have "bp_block p + bp_blockct p + 1 \<noteq> 2 ^ 64" by (metis mod_self)
      then show ?thesis using e(1,2) by simp
    qed
    ultimately show "ptr_first info q = ptr_first info p + bp_blockct p + 1"
      and "if disk_type_is_eckd (di_type info) then bp_sec q = bp_sec p + bp_blockct p + 1 else bp_block q = bp_block p + bp_blockct p + 1"
      using t assms(4) by (auto simp: ptr_first_def chs_block_def can_merge_blocks_def disk_type_is_eckd_def split: if_splits)
  qed
  have fm: "ptr_first info ?m = ptr_first info p" by (simp add: m ptr_first_def)
  show "ptr_blocks info ?m = ptr_blocks info p @ ptr_blocks info q"
    using z zm q upt_add_eq_append [of "ptr_first info p" "ptr_first info p + bp_blockct p + 1" "bp_blockct q + 1"]
    by (simp add: ptr_blocks_def fm, simp add: m add.assoc)
  show "ptr_ok info ?m"
    using assms(2,3) z zm l b by (auto simp: ptr_ok_def m ptr_first_def zero_block_iff [OF assms(1)] split: if_splits)
qed

lemma compact_loop_ok:
  assumes "disk_ok info" and "compact_loop info list n i k = (list', m)" and "k < i" and "i \<le> n" and "n \<le> length list"
    and "\<forall>p \<in> set (take (Suc k) list). ptr_ok info p" and "\<forall>p \<in> set (drop i (take n list)). ptr_ok info p"
  shows "0 < m \<and> m \<le> n \<and> length list' = length list \<and> (\<forall>p \<in> set (take m list'). ptr_ok info p) \<and>
    blocks info (take m list') = blocks info (take (Suc k) list) @ blocks info (drop i (take n list))"
  using assms
proof (induction info list n i k rule: compact_loop.induct)
  case (1 info list n i k)
  note prems = "1.prems"
  show ?case
  proof (cases "i < n")
    case False
    then have "compact_loop info list n i k = (list, Suc k)" by (subst compact_loop.simps) simp
    then have "i = n" "list' = list" "m = Suc k" using False prems by simp_all
    then show ?thesis using prems by simp
  next
    case True
    have d: "drop i (take n list) = list ! i # drop (Suc i) (take n list)"
      using True prems by (simp add: Cons_nth_drop_Suc [symmetric])
    have tk: "take (Suc k) list = take k list @ [list ! k]" using True prems by (simp add: take_Suc_conv_app_nth)
    have ok: "ptr_ok info (list ! k)" "ptr_ok info (list ! i)" "\<forall>p \<in> set (take k list). ptr_ok info p"
      "\<forall>p \<in> set (drop (Suc i) (take n list)). ptr_ok info p"
      using prems d tk by simp_all
    show ?thesis
    proof (cases "can_merge_blocks (list ! k) (list ! i) info")
      case mg: True
      let ?l = "list[k := merge_blocks (list ! k) (list ! i) info]"
      note mo = merge_blocks_ok [OF prems(1) ok(1,2) mg]
      have "compact_loop info ?l n (i + 1) k = (list', m)"
        using prems(2) True mg by (simp add: compact_loop.simps [of info list n i k])
      moreover have "take (Suc k) ?l = take k list @ [merge_blocks (list ! k) (list ! i) info]"
        using True prems by (intro take_Suc_update_nth) simp
      moreover have "drop (Suc i) (take n ?l) = drop (Suc i) (take n list)"
        using prems(3) by (simp add: take_update_swap)
      ultimately show ?thesis
        using "1.IH"(1) [OF True mg prems(1)] prems True ok mo d tk by simp
    next
      case False
      let ?l = "list[k + 1 := list ! i]"
      have "compact_loop info ?l n (i + 1) (k + 1) = (list', m)"
        using prems(2) True False by (simp add: compact_loop.simps [of info list n i k])
      moreover have "take (Suc (k + 1)) ?l = take (Suc k) list @ [list ! i]"
        using True prems take_Suc_update_nth [of "k + 1" list "list ! i"] by simp
      moreover have "drop (Suc i) (take n ?l) = drop (Suc i) (take n list)"
        using prems(3) by (simp add: take_update_swap)
      ultimately show ?thesis
        using "1.IH"(2) [OF True False prems(1)] prems True ok d tk by simp
    qed
  qed
qed

lemma compact_ok:
  assumes "disk_ok info" and "disk_compact_blocklist list n info = (list', m)" and "n \<le> length list"
    and "\<forall>p \<in> set (take n list). ptr_ok info p"
  shows "m \<le> n \<and> (0 < n \<longrightarrow> 0 < m) \<and> m \<le> length list' \<and> (\<forall>p \<in> set (take m list'). ptr_ok info p) \<and>
    blocks info (take m list') = blocks info (take n list)"
proof (cases "n < 2")
  case False
  then obtain a l where l: "list = a # l" using assms(3) by (cases list) auto
  have "drop 1 (take n list) = take (n - 1) l" "take (Suc 0) list = [a]" "take n list = a # take (n - 1) l"
    using False by (cases n; simp add: l)+
  then show ?thesis
    using compact_loop_ok [of info list n 1 0 list' m] assms False by (auto simp: disk_compact_blocklist_def)
qed (use assms in \<open>auto simp: disk_compact_blocklist_def\<close>)

section \<open>Lemmas on written blocks\<close>

definition file_block :: "u8 list \<Rightarrow> nat \<Rightarrow> nat \<Rightarrow> u8 list" where
  "file_block d bs i = take bs (drop (i * bs) d @ replicate bs 0)"

definition block_count :: "nat \<Rightarrow> nat \<Rightarrow> nat" where
  "block_count bs n = (n + bs - 1) div bs"

text \<open>A file that keeps the blocks of another one.\<close>

definition keeps_blocks :: "nat \<Rightarrow> u8 list \<Rightarrow> u8 list \<Rightarrow> bool" where
  "keeps_blocks bs d d' \<longleftrightarrow> block_count bs (length d) \<le> block_count bs (length d') \<and>
     (\<forall>i < block_count bs (length d). file_block d' bs i = file_block d bs i)"

lemma keeps_blocks_refl [simp]: "keeps_blocks bs d d"
  by (simp add: keeps_blocks_def)

lemma keeps_blocks_trans: "keeps_blocks bs d d' \<Longrightarrow> keeps_blocks bs d' d'' \<Longrightarrow> keeps_blocks bs d d''"
  by (auto simp: keeps_blocks_def)

lemma block_count_bounds:
  assumes "0 < bs"
  shows "n \<le> block_count bs n * bs" and "0 < n \<Longrightarrow> (block_count bs n - 1) * bs < n" and "i < block_count bs n \<longleftrightarrow> i * bs < n"
proof -
  show iff: "i < block_count bs n \<longleftrightarrow> i * bs < n" for i
  proof -
    have "i < block_count bs n \<longleftrightarrow> (i + 1) * bs \<le> n + bs - 1"
      using assms by (simp add: block_count_def less_eq_div_iff_mult_less_eq Suc_le_eq [symmetric])
    also have "\<dots> \<longleftrightarrow> i * bs < n" using assms by auto
    finally show ?thesis .
  qed
  show "n \<le> block_count bs n * bs" using iff [of "block_count bs n"] by simp
  show "(block_count bs n - 1) * bs < n" if "0 < n" using iff [of "block_count bs n - 1"] iff [of 0] that by simp
qed

lemma length_file_block [simp]: "length (file_block d bs i) = bs"
  by (simp add: file_block_def)

text \<open>A block that is appended at an aligned position.\<close>

lemma file_put_append:
  assumes "length d \<le> pos"
  shows "file_put d pos bs = d @ replicate (pos - length d) 0 @ bs"
  using assms by (simp add: file_put_def)

lemma append_keeps_blocks:
  assumes "0 < bs" and "length d \<le> k * bs" and "x \<noteq> []" and "length x \<le> bs"
  shows "keeps_blocks bs d (file_put d (k * bs) x)"
    and "file_block (file_put d (k * bs) x) bs k = take bs (x @ replicate bs 0)"
    and "block_count bs (length (file_put d (k * bs) x)) = Suc k"
proof -
  let ?z = "replicate (k * bs - length d) 0" and ?d = "file_put d (k * bs) x"
  have d: "?d = d @ ?z @ x" by (rule file_put_append [OF assms(2)])
  have l: "length ?d = k * bs + length x" using assms(2) by (simp add: d)
  have "file_block ?d bs i = file_block d bs i" if "i * bs < length d" for i
  proof -
    have "i < k" using that assms(1,2) by (metis less_le_trans mult_less_cancel2)
    then have "i * bs + bs \<le> k * bs" using assms(1) by (metis Suc_leI add.commute mult_Suc mult_le_mono1)
    then have "bs \<le> length (drop (i * bs) d @ ?z)" using that assms(2) by simp
    then show ?thesis using that by (simp add: file_block_def d)
  qed
  moreover have c: "block_count bs (length ?d) = Suc k"
  proof -
    have "0 < length x" using assms(3) by simp
    then have "k < block_count bs (length ?d)" "\<not> Suc k < block_count bs (length ?d)"
      using assms(4) l by (simp_all only: block_count_bounds(3) [OF assms(1)]) simp_all
    then show ?thesis by simp
  qed
  moreover have "block_count bs (length d) \<le> k"
    using block_count_bounds(3) [OF assms(1), of k "length d"] assms(2) by linarith
  ultimately show "keeps_blocks bs d ?d"
    by (simp add: keeps_blocks_def block_count_bounds(3) [OF assms(1)])
  show "block_count bs (length ?d) = Suc k" by (rule c)
  have "drop (k * bs) ?d = x" using assms(2) by (simp add: d)
  then show "file_block ?d bs k = take bs (x @ replicate bs 0)" by (simp add: file_block_def)
qed

text \<open>The file is positioned behind its last byte.\<close>

definition appendable :: "misc_fd \<Rightarrow> bool" where
  "appendable mfd \<longleftrightarrow> \<not> simulate_write mfd \<and> length (fd_data mfd) \<le> fd_pos mfd"

text \<open>The pointers to the blocks of a file from block \<open>k\<close> on.\<close>

definition mapped :: "fs_ioctl \<Rightarrow> nat option \<Rightarrow> disk_info \<Rightarrow> nat \<Rightarrow> disk_blockptr list \<Rightarrow> bool" where
  "mapped io fs_bs info k ps \<longleftrightarrow>
     (\<forall>j < length ps. \<exists>b. disk_get_blocknum io False (k + j) fs_bs info = Inr b \<and> ps ! j = disk_blockptr_from_blocknum b info)"

lemma mapped_simps [simp]:
  "mapped io fs_bs info k []"
  "mapped io fs_bs info k (p # ps) \<longleftrightarrow>
     (\<exists>b. disk_get_blocknum io False k fs_bs info = Inr b \<and> p = disk_blockptr_from_blocknum b info) \<and> mapped io fs_bs info (Suc k) ps"
  by (auto simp: mapped_def less_Suc_eq_0_disj)

lemma align_up_props:
  assumes "0 < align"
  shows "pos \<le> align_up pos align" and "align_up pos align mod align = 0" and "pos mod align = 0 \<Longrightarrow> align_up pos align = pos"
proof -
  have "(pos + (align - pos mod align)) mod align = 0"
  proof -
    have "pos + (align - pos mod align) = (pos div align + 1) * align"
      unfolding distrib_right mult_1 using div_mult_mod_eq [of pos align] mod_less_divisor [OF assms, of pos] by linarith
    then show ?thesis by simp
  qed
  then show "align_up pos align mod align = 0" by (simp add: align_up_def)
qed (simp_all add: align_up_def)

lemma file_block_padded: "x \<noteq> [] \<Longrightarrow> length x \<le> bs \<Longrightarrow> take bs (x @ replicate bs 0) = file_block x bs 0"
  by (simp add: file_block_def)

lemma write_base_ok:
  assumes "disk_ok info" and "appendable mfd" and "align mod phy_block_size info = 0" and "bytes \<noteq> []"
    and "disk_write_block_aligned_base io mfd False bytes fs_bs info align = Inr (mfd', p, off)"
  obtains k b where "off = k * phy_block_size info" "fd_pos mfd \<le> off" "disk_get_blocknum io False k fs_bs info = Inr b"
    "p = disk_blockptr_from_blocknum b info" "appendable mfd'" "fd_pos mfd' = off + min (phy_block_size info) (length bytes)"
    "keeps_blocks (phy_block_size info) (fd_data mfd) (fd_data mfd')" "block_count (phy_block_size info) (length (fd_data mfd')) = Suc k"
    "file_block (fd_data mfd') (phy_block_size info) k = file_block bytes (phy_block_size info) 0"
    "align = phy_block_size info \<longrightarrow> fd_pos mfd mod phy_block_size info = 0 \<longrightarrow> off = fd_pos mfd"
proof -
  let ?bs = "phy_block_size info" and ?al = "if align = 0 then phy_block_size info else align"
  have bs: "0 < ?bs" using assms(1) by (simp add: disk_ok_def)
  then have al: "0 < ?al" "?al mod ?bs = 0" using assms(3) by auto
  define k where "k = align_up (fd_pos mfd) ?al div ?bs"
  have k: "align_up (fd_pos mfd) ?al = k * ?bs"
    using align_up_props(2) [OF al(1)] al(2) unfolding k_def by (metis dvd_eq_mod_eq_0 dvd_trans dvd_div_mult_self)
  have pos: "fd_pos mfd \<le> k * ?bs" using align_up_props(1) [OF al(1), of "fd_pos mfd"] k by simp
  then have len: "length (fd_data mfd) \<le> k * ?bs" using assms(2) by (simp add: appendable_def)
  have x: "take ?bs bytes \<noteq> []" "length (take ?bs bytes) \<le> ?bs" using bs assms(4) by auto
  obtain b where b: "disk_get_blocknum io False k fs_bs info = Inr b" "p = disk_blockptr_from_blocknum b info" "off = k * ?bs"
    and w: "misc_write_or_simulate (mfd\<lparr>fd_pos := k * ?bs\<rparr>) (take ?bs bytes) = Inr mfd'"
    using assms(5) bs by (auto simp: disk_write_block_aligned_base_def Let_def rbind_Inr k)
  have m: "mfd' = mfd\<lparr>fd_data := file_put (fd_data mfd) (k * ?bs) (take ?bs bytes), fd_pos := k * ?bs + length (take ?bs bytes)\<rparr>"
    using w assms(2) by (auto simp: misc_write_or_simulate_def appendable_def split: if_splits)
  note ap = append_keeps_blocks [OF bs len x]
  have "appendable mfd'"
    using assms(2) len by (simp add: appendable_def m file_put_append [OF len])
  moreover have "take ?bs (take ?bs bytes @ replicate ?bs 0) = file_block bytes ?bs 0"
    by (simp add: file_block_def)
  moreover have "off = fd_pos mfd" if "align = ?bs" "fd_pos mfd mod ?bs = 0"
    using that align_up_props(3) [OF bs] k b(3) bs by auto
  ultimately show thesis
    using that [of k b] b ap pos by (simp add: m min.commute)
qed

lemma file_block_Suc: "file_block (drop bs d) bs i = file_block d bs (Suc i)"
  by (simp add: file_block_def add.commute)

lemma keeps_file_block: "keeps_blocks bs d d' \<Longrightarrow> block_count bs (length d) = Suc k \<Longrightarrow> file_block d' bs k = file_block d bs k"
  by (simp add: keeps_blocks_def)

lemma block_count_drop:
  assumes "0 < bs" and "Suc n = block_count bs (length buf)"
  shows "n = block_count bs (length (drop bs buf))"
proof -
  have "i < n \<longleftrightarrow> i < block_count bs (length (drop bs buf))" for i
  proof -
    have "i < n \<longleftrightarrow> Suc i < block_count bs (length buf)" unfolding assms(2) [symmetric] by simp
    then show ?thesis by (simp add: block_count_bounds(3) [OF assms(1)] less_diff_conv add.commute)
  qed
  then show ?thesis by (metis linorder_neqE_nat less_irrefl)
qed

lemma write_blocks_ok:
  assumes "disk_ok info" and "appendable mfd" and "align mod phy_block_size info = 0"
    and "write_blocks io mfd False buffer fs_bs info align n = Inr (mfd', ps, off)"
    and "n = block_count (phy_block_size info) (length buffer)" and "buffer \<noteq> []"
  shows "\<exists>k. off = k * phy_block_size info \<and> fd_pos mfd \<le> off \<and> length ps = n \<and> mapped io fs_bs info k ps \<and> appendable mfd' \<and>
    keeps_blocks (phy_block_size info) (fd_data mfd) (fd_data mfd') \<and>
    block_count (phy_block_size info) (length (fd_data mfd')) = k + n \<and>
    (align = phy_block_size info \<longrightarrow> fd_pos mfd mod phy_block_size info = 0 \<longrightarrow> off = fd_pos mfd) \<and>
    (\<forall>j < n. file_block (fd_data mfd') (phy_block_size info) (k + j) = file_block buffer (phy_block_size info) j)"
  using assms(2-)
proof (induction n arbitrary: mfd buffer align ps off)
  case 0
  have "0 < phy_block_size info" using assms(1) by (simp add: disk_ok_def)
  then have False using 0(4,5) block_count_bounds(3) [of "phy_block_size info" 0 "length buffer"] by simp
  then show ?case ..
next
  case (Suc n)
  let ?bs = "phy_block_size info"
  have bs: "0 < ?bs" using assms(1) by (simp add: disk_ok_def)
  obtain mfd1 p ps1 pos1 where w: "disk_write_block_aligned_base io mfd False buffer fs_bs info align = Inr (mfd1, p, off)"
    "write_blocks io mfd1 False (drop ?bs buffer) fs_bs info ?bs n = Inr (mfd', ps1, pos1)" "ps = p # ps1"
    using Suc.prems(3) by (auto simp: rbind_Inr)
  obtain k b where k: "off = k * ?bs" "fd_pos mfd \<le> off" "disk_get_blocknum io False k fs_bs info = Inr b"
    "p = disk_blockptr_from_blocknum b info" "appendable mfd1" "fd_pos mfd1 = off + min ?bs (length buffer)"
    "keeps_blocks ?bs (fd_data mfd) (fd_data mfd1)" "block_count ?bs (length (fd_data mfd1)) = Suc k"
    "file_block (fd_data mfd1) ?bs k = file_block buffer ?bs 0"
    "align = ?bs \<longrightarrow> fd_pos mfd mod ?bs = 0 \<longrightarrow> off = fd_pos mfd"
    by (rule write_base_ok [OF assms(1) Suc.prems(1,2,5) w(1)])
  note cnt = block_count_drop [OF bs Suc.prems(4)]
  show ?case
  proof (cases "drop ?bs buffer = []")
    case True
    then have "n = 0" using cnt bs by (simp add: block_count_def)
    then have "ps1 = []" "mfd' = mfd1" using w(2) by auto
    then show ?thesis using k w(3) \<open>n = 0\<close> by auto
  next
    case False
    then have "min ?bs (length buffer) = ?bs" by simp
    then have pos: "fd_pos mfd1 = Suc k * ?bs" using k(1,6) by simp
    obtain k1 where k1: "pos1 = k1 * ?bs" "length ps1 = n" "mapped io fs_bs info k1 ps1" "appendable mfd'"
      "keeps_blocks ?bs (fd_data mfd1) (fd_data mfd')" "block_count ?bs (length (fd_data mfd')) = k1 + n" "pos1 = fd_pos mfd1"
      "\<forall>j < n. file_block (fd_data mfd') ?bs (k1 + j) = file_block (drop ?bs buffer) ?bs j"
      using Suc.IH [OF k(5) _ w(2) cnt False] pos by auto
    have "k1 * ?bs = Suc k * ?bs" using k1(1,7) pos by simp
    then have "k1 = Suc k" using bs by (metis mult_cancel2 less_irrefl)
    moreover have "file_block (fd_data mfd') ?bs k = file_block buffer ?bs 0"
      using keeps_file_block [OF k1(5) k(8)] k(9) by simp
    ultimately show ?thesis
      using k k1 w(3) keeps_blocks_trans [OF k(7) k1(5)]
      by (intro exI [of _ k]) (auto simp: file_block_Suc less_Suc_eq_0_disj)
  qed
qed

section \<open>Properties\<close>

text \<open>
  C17. Compaction of a block list: the merged pointers have a form on the disk (each field fits its width, the count is
  within the limit of the disk and on an ECKD disk no pointer crosses a track), and they stand for the same blocks in
  the same order.
\<close>

theorem disk_compact_blocklist_keeps:
  assumes "disk_ok info" and "\<forall>p \<in> set list. ptr_ok info p" and "disk_compact_blocklist list (length list) info = (list', m)"
  shows "m \<le> length list \<and> (list \<noteq> [] \<longrightarrow> 0 < m) \<and> m \<le> length list' \<and> (\<forall>p \<in> set (take m list'). ptr_ok info p) \<and>
    blocks info (take m list') = blocks info list"
  using compact_ok [OF assms(1,3)] assms(2) by simp

theorem disk_compact_blocklist_keeps_witness:
  "let info = \<lparr>di_type = disk_type_eckd_cdl, phy_block_size = 4096, geo_heads = 15, geo_sectors = 12, geo_start = 0\<rparr>;
       list = map (\<lambda>n. disk_blockptr_from_blocknum n info) [10, 11, 12, 13]
   in snd (disk_compact_blocklist list 4 info) = 2 \<and>
      blocks info (take 2 (fst (disk_compact_blocklist list 4 info))) = blocks info list"
proof -
  define info where "info = \<lparr>di_type = disk_type_eckd_cdl, phy_block_size = 4096, geo_heads = 15, geo_sectors = 12, geo_start = 0\<rparr>"
  define list where "list = map (\<lambda>n. disk_blockptr_from_blocknum n info) [10, 11, 12, 13]"
  obtain l m where l: "disk_compact_blocklist list (length list) info = (l, m)" by (cases "disk_compact_blocklist list (length list) info")
  have dok: "disk_ok info" by (simp add: info_def disk_ok_def)
  have "\<forall>p \<in> set list. ptr_ok info p"
    using blockptr_from_blocknum(1) [OF dok] by (simp add: list_def blocknum_ok_def info_def disk_type_is_eckd_def)
  note kp = disk_compact_blocklist_keeps [OF dok this l]
  have "snd (disk_compact_blocklist list 4 info) = 2"
    by (simp add: list_def info_def disk_compact_blocklist_def compact_loop.simps can_merge_blocks_def merge_blocks_def disk_is_zero_block_def
      disk_blockptr_from_blocknum_def zero_blockptr_def disk_cyl_from_blocknum_def disk_head_from_blocknum_def disk_sec_from_blocknum_def
      disk_type_is_eckd_def max_link_count_def)
  moreover have "length list = 4" by (simp add: list_def)
  ultimately show ?thesis using kp l unfolding Let_def info_def [symmetric] list_def [symmetric] by simp
qed

text \<open>
  C40. Mapping of a file offset by an extent of the file system: the block is right as long as the offset is less than
  2 GiB behind the start of the extent. From there on the distance, which is kept in an \<^verbatim>\<open>int\<close>, is taken as negative,
  and the block 4 GiB before the right one is returned.
\<close>

theorem fs_map_extent:
  assumes "premap_ok io" and "fiemap_at io offset = Extent fe_logical fe_physical False"
    and "offset = fe_logical + dist" and "dist < 2 ^ 32" and "fe_physical + dist < 2 ^ 64"
  shows "fs_map io offset fs_block_size =
    (if dist < 2 ^ 31 then Inr ((fe_physical + dist) div fs_block_size)
     else if 2 ^ 32 \<le> fe_physical + dist then Inr ((fe_physical + dist - 2 ^ 32) div fs_block_size)
     else Inr ((fe_physical + dist + 2 ^ 64 - 2 ^ 32) div fs_block_size))"
proof -
  have d: "int offset - int fe_logical = int dist" using assms(3) by simp
  show ?thesis
  proof (cases "dist < 2 ^ 31")
    case True
    have "nat ((int fe_physical + int dist) mod 2 ^ 64) = fe_physical + dist" using assms(5) by (simp add: nat_int_add)
    then show ?thesis using True assms(1,2) by (simp add: fs_map_def d to_int32_def Let_def nat_int_add)
  next
    case False
    then have t: "to_int32 (int dist) = int dist - 2 ^ 32" using assms(4) by (simp add: to_int32_def Let_def)
    have "nat ((int fe_physical + (int dist - 2 ^ 32)) mod 2 ^ 64) =
        (if 2 ^ 32 \<le> fe_physical + dist then fe_physical + dist - 2 ^ 32 else fe_physical + dist + 2 ^ 64 - 2 ^ 32)"
    proof (cases "2 ^ 32 \<le> fe_physical + dist")
      case True
      then show ?thesis using assms(5) by (simp add: mod_pos_pos_trivial)
    next
      case False
      have "(int fe_physical + (int dist - 2 ^ 32)) mod 2 ^ 64 = (int fe_physical + (int dist - 2 ^ 32) + 2 ^ 64) mod 2 ^ 64" by (rule mod_add_self2 [symmetric])
      also have "\<dots> = int fe_physical + (int dist - 2 ^ 32) + 2 ^ 64" by (rule mod_pos_pos_trivial) (use False in simp_all)
      finally show ?thesis using False by simp
    qed
    then show ?thesis using False assms(1,2) by (simp add: fs_map_def d t)
  qed
qed

theorem fs_map_extent_witness:
  "let io = \<lparr>premap_ok = True, fiemap_at = (\<lambda>_. Extent 0 0x100000000 False), fibmap_at = (\<lambda>_. None)\<rparr>
   in fs_map io 4096 4096 = Inr 0x100001 \<and> fs_map io 0x80000000 4096 = Inr 0x80000"
  using fs_map_extent [of "\<lparr>premap_ok = True, fiemap_at = (\<lambda>_. Extent 0 0x100000000 False), fibmap_at = (\<lambda>_. None)\<rparr>" 4096 0 "0x100000000" 4096 4096]
    fs_map_extent [of "\<lparr>premap_ok = True, fiemap_at = (\<lambda>_. Extent 0 0x100000000 False), fibmap_at = (\<lambda>_. None)\<rparr>" "0x80000000" 0 "0x100000000" "0x80000000" 4096]
  by simp

end
