(* ===== verification/Zipl_Bootmap.thy ===== *)
theory Zipl_Bootmap
  imports Zipl_Disk Boot_Memory
begin

text \<open>
  The bootmap that the installer writes for the loader (\<^verbatim>\<open>src/zipl/src/bootmap.c\<close>, with
  \<^verbatim>\<open>src/zipl/src/bootmap_header.c\<close>, the component table of \<^verbatim>\<open>src/zipl/src/zipl.c\<close> and
  \<^verbatim>\<open>boot_get_stage3_parms\<close> of \<^verbatim>\<open>src/zipl/src/boot.c\<close>).

  A program is a table of components. The data of a component are blocks of the disk; pointers to them are
  written to a chain of segment tables, from the last table to the first, and the entry of the component
  points to the first table. The program table has a pointer to each program. All structures are packed and
  big-endian.

  The installation set is a record with the bootmap file, the components that are known so far and their
  regions in the bootmap. The files and what is known about the device are parameters.
\<close>

unbundle bit_operations_syntax

section \<open>Definitions\<close>

datatype blkptr_format = LEGACY_BLKPTR_FORMAT_ID | BLKPTR_FORMAT_ID

definition get_blockptr_size :: "disk_info \<Rightarrow> nat" where
  "get_blockptr_size info = (if di_type info = disk_type_diag then 0 else 16)"

text \<open>The bytes of a block pointer on the disk.\<close>

definition blockptr_bytes :: "disk_blockptr \<Rightarrow> disk_info \<Rightarrow> blkptr_format \<Rightarrow> u8 list" where
  "blockptr_bytes p info fid =
     (if di_type info = disk_type_diag then []
      else if disk_type_is_eckd (di_type info) then
        (case fid of
           LEGACY_BLKPTR_FORMAT_ID \<Rightarrow>
             be 2 (bp_cyl p) @ be 2 (bp_head p OR (drop_bit 12 (bp_cyl p) AND 0xFFF0)) @ be 1 (bp_sec p) @
             be 2 (bp_size p) @ be 1 (bp_blockct p) @ replicate 8 0
         | BLKPTR_FORMAT_ID \<Rightarrow>
             be 4 (bp_cyl p) @ be 1 (bp_head p) @ be 1 (bp_sec p) @ replicate 4 0 @ be 2 (bp_blockct p) @ replicate 4 0)
      else be 8 (bp_block p) @ be 2 (bp_size p) @ be 2 (bp_blockct p) @ replicate 4 0)"

definition put_bytes :: "u8 list \<Rightarrow> nat \<Rightarrow> u8 list \<Rightarrow> u8 list" where
  "put_bytes buf off bs = take off buf @ bs @ drop (off + length bs) buf"

definition bootmap_store_blockptr :: "u8 list \<Rightarrow> nat \<Rightarrow> disk_blockptr \<Rightarrow> disk_info \<Rightarrow> blkptr_format \<Rightarrow> u8 list" where
  "bootmap_store_blockptr buf off p info fid = put_bytes buf off (blockptr_bytes p info fid)"

abbreviation PROGRAM_TABLE_BLOCK_SIZE :: nat where
  "PROGRAM_TABLE_BLOCK_SIZE \<equiv> 512"

definition get_program_table_size :: "disk_info \<Rightarrow> nat" where
  "get_program_table_size info = PROGRAM_TABLE_BLOCK_SIZE div get_blockptr_size info - 1"

definition check_menu_positions :: "nat list \<Rightarrow> disk_info \<Rightarrow> bool" where
  "check_menu_positions positions info \<longleftrightarrow> list_all (\<lambda>pos. pos < get_program_table_size info) positions"

subsection \<open>Segment tables\<close>

fun segment_loop ::
    "fs_ioctl \<Rightarrow> misc_fd \<Rightarrow> disk_blockptr list \<Rightarrow> disk_blockptr \<Rightarrow> nat option \<Rightarrow> disk_info \<Rightarrow> blkptr_format \<Rightarrow> nat \<Rightarrow>
     u8 list \<Rightarrow> disk_blockptr \<Rightarrow> nat \<Rightarrow> nat \<Rightarrow> zipl_error + misc_fd \<times> disk_blockptr" where
  "segment_loop io mfd list hole fs_block_size info fid max_offset buffer nxt offset 0 = Inr (mfd, nxt)"
| "segment_loop io mfd list hole fs_block_size info fid max_offset buffer nxt offset (Suc n) =
     (let p = (if disk_is_zero_block (list ! n) info then hole else list ! n);
          buffer = bootmap_store_blockptr buffer (offset * get_blockptr_size info) p info fid
      in if offset > 0 then segment_loop io mfd list hole fs_block_size info fid max_offset buffer nxt (offset - 1) n
         else
           (let buffer = bootmap_store_blockptr buffer (max_offset * get_blockptr_size info) nxt info fid
            in rbind (disk_write_block_aligned io mfd buffer fs_block_size info) (\<lambda>(mfd, nxt).
                 segment_loop io mfd list hole fs_block_size info fid max_offset buffer nxt (max_offset - 1) n)))"

definition add_segment_table ::
    "fs_ioctl \<Rightarrow> misc_fd \<Rightarrow> disk_blockptr list \<Rightarrow> nat \<Rightarrow> disk_blockptr \<Rightarrow> nat option \<Rightarrow> disk_info \<Rightarrow> blkptr_format \<Rightarrow>
     zipl_error + misc_fd \<times> disk_blockptr" where
  "add_segment_table io mfd list n hole fs_block_size info fid =
     (let max_offset = phy_block_size info div get_blockptr_size info - 1
      in segment_loop io mfd list hole fs_block_size info fid max_offset (replicate (phy_block_size info) 0) zero_blockptr
           ((n - 1) mod max_offset) n)"

text \<open>\<^verbatim>\<open>ZIPL_MAGIC\<close> is \<^verbatim>\<open>zIPL\<close> in ASCII.\<close>

definition ZIPL_MAGIC :: "u8 list" where
  "ZIPL_MAGIC = [0x7A, 0x49, 0x50, 0x4C]"

fun store_table :: "u8 list \<Rightarrow> nat \<Rightarrow> disk_blockptr list \<Rightarrow> disk_info \<Rightarrow> blkptr_format \<Rightarrow> u8 list" where
  "store_table block off [] info fid = block"
| "store_table block off (p # ps) info fid =
     store_table (bootmap_store_blockptr block off p info fid) (off + get_blockptr_size info) ps info fid"

definition add_program_table ::
    "fs_ioctl \<Rightarrow> misc_fd \<Rightarrow> disk_blockptr list \<Rightarrow> nat option \<Rightarrow> disk_info \<Rightarrow> blkptr_format \<Rightarrow>
     zipl_error + misc_fd \<times> disk_blockptr" where
  "add_program_table io mfd table fs_block_size info fid =
     disk_write_block_aligned io mfd
       (store_table (put_bytes (replicate PROGRAM_TABLE_BLOCK_SIZE 0) 0 ZIPL_MAGIC) (get_blockptr_size info) table info fid)
       fs_block_size info"

subsection \<open>Components\<close>

datatype component_type = COMPONENT_TYPE_EXECUTE | COMPONENT_TYPE_LOAD | COMPONENT_TYPE_SIGNATURE

fun component_type_code :: "component_type \<Rightarrow> u8" where
  "component_type_code COMPONENT_TYPE_EXECUTE = 1"
| "component_type_code COMPONENT_TYPE_LOAD = 2"
| "component_type_code COMPONENT_TYPE_SIGNATURE = 3"

text \<open>The union \<^verbatim>\<open>component_data\<close> is the number that its eight bytes stand for.\<close>

definition create_component_entry ::
    "disk_blockptr \<Rightarrow> component_type \<Rightarrow> nat \<Rightarrow> disk_info \<Rightarrow> blkptr_format \<Rightarrow> u8 list" where
  "create_component_entry p typ compdat info fid =
     (let block = (case typ of COMPONENT_TYPE_EXECUTE \<Rightarrow> [] | _ \<Rightarrow> blockptr_bytes p info fid)
      in block @ replicate (23 - length block) 0 @ [component_type_code typ] @ be 8 compdat)"

datatype component_header_type = COMPONENT_HEADER_IPL | COMPONENT_HEADER_DUMP

definition create_component_header :: "component_header_type \<Rightarrow> u8 list" where
  "create_component_header typ =
     ZIPL_MAGIC @ [case typ of COMPONENT_HEADER_IPL \<Rightarrow> 0 | COMPONENT_HEADER_DUMP \<Rightarrow> 1] @ replicate 27 0"

datatype component_id =
  COMPONENT_ID_HEAP_AREA | COMPONENT_ID_STACK_AREA | COMPONENT_ID_LOADER_SIGNATURE | COMPONENT_ID_LOADER
| COMPONENT_ID_PARAMETERS | COMPONENT_ID_IMAGE_SIGNATURE | COMPONENT_ID_KERNEL_IMAGE | COMPONENT_ID_PARMLINE
| COMPONENT_ID_RAMDISK_SIGNATURE | COMPONENT_ID_RAMDISK | COMPONENT_ID_ENVBLK | COMPONENT_ID_SEGMENT_FILE

fun component_type_by_id :: "component_id \<Rightarrow> component_type" where
  "component_type_by_id COMPONENT_ID_LOADER_SIGNATURE = COMPONENT_TYPE_SIGNATURE"
| "component_type_by_id COMPONENT_ID_IMAGE_SIGNATURE = COMPONENT_TYPE_SIGNATURE"
| "component_type_by_id COMPONENT_ID_RAMDISK_SIGNATURE = COMPONENT_TYPE_SIGNATURE"
| "component_type_by_id COMPONENT_ID_SEGMENT_FILE = COMPONENT_TYPE_EXECUTE"
| "component_type_by_id _ = COMPONENT_TYPE_LOAD"

definition fs_block_aligned_by_id :: "component_id \<Rightarrow> bool" where
  "fs_block_aligned_by_id c \<longleftrightarrow> c = COMPONENT_ID_ENVBLK"

record program_component =
  pc_loc_addr :: nat
  pc_loc_size :: nat
  pc_list :: "disk_blockptr list"
  pc_count :: nat

definition set_location :: "component_id \<Rightarrow> program_component \<Rightarrow> nat \<Rightarrow> nat \<Rightarrow> nat \<Rightarrow> program_component" where
  "set_location c pc load_address n block_size =
     (if component_type_by_id c = COMPONENT_TYPE_LOAD
      then pc\<lparr>pc_loc_addr := load_address, pc_loc_size := n * block_size\<rparr>
      else pc\<lparr>pc_loc_addr := 0, pc_loc_size := 0\<rparr>)"

record install_set =
  bs_mfd :: misc_fd
  skip_prepare_device :: bool
  skip_prepare_blocklist :: "nat \<Rightarrow> bool"
  bs_components :: "nat \<Rightarrow> component_id \<Rightarrow> nat \<Rightarrow> program_component"
  bs_comp_reg :: "component_id \<Rightarrow> nat \<Rightarrow> nat \<times> nat"
  bs_tables :: "nat \<Rightarrow> blkptr_format \<Rightarrow> disk_blockptr"

record device_info =
  dev_fs_block_size :: "nat option"
  dev_align :: nat
  dev_base :: "nat \<Rightarrow> disk_info"

text \<open>A file of the system: its bytes, its mapping, and whether it is on the target device.\<close>

record file_state =
  file_bytes :: "u8 list"
  file_map :: fs_ioctl
  file_on_device :: bool

record zipl_env =
  env_file :: "string \<Rightarrow> file_state option"
  env_bootmap_map :: fs_ioctl
  env_bootmap_on_device :: bool
  env_empty_blocks :: "nat \<Rightarrow> disk_blockptr"
  env_secure_boot_supported :: bool
  env_stage3_path :: string

datatype comp_source = BootmapFile | OtherFile string

definition set_component :: "nat \<Rightarrow> component_id \<Rightarrow> nat \<Rightarrow> program_component \<Rightarrow> install_set \<Rightarrow> install_set" where
  "set_component mirror_id c menu_idx pc bis =
     bis\<lparr>bs_components := (bs_components bis)(mirror_id := (bs_components bis mirror_id)(c := (bs_components bis mirror_id c)(menu_idx := pc)))\<rparr>"

definition set_comp_reg :: "component_id \<Rightarrow> nat \<Rightarrow> nat \<times> nat \<Rightarrow> install_set \<Rightarrow> install_set" where
  "set_comp_reg c menu_idx reg bis =
     bis\<lparr>bs_comp_reg := (bs_comp_reg bis)(c := (bs_comp_reg bis c)(menu_idx := reg))\<rparr>"

text \<open>The last steps of both ways to add a component: the segment tables and the entry.\<close>

definition write_segment_table ::
    "zipl_env \<Rightarrow> device_info \<Rightarrow> install_set \<Rightarrow> nat \<Rightarrow> component_id \<Rightarrow> nat \<Rightarrow> nat \<Rightarrow> blkptr_format \<Rightarrow>
     zipl_error + install_set \<times> u8 list" where
  "write_segment_table env dev bis compdat c menu_idx mirror_id fid =
     (let pc = bs_components bis mirror_id c menu_idx; info = dev_base dev mirror_id
      in if pc_list pc = [] \<or> pc_count pc = 0 then Inl AssertFailed
         else
           rbind (add_segment_table (env_bootmap_map env) (bs_mfd bis) (pc_list pc) (pc_count pc)
                   (env_empty_blocks env mirror_id) (dev_fs_block_size dev) info fid) (\<lambda>(mfd, segment).
             Inr (bis\<lparr>bs_mfd := mfd\<rparr>, create_component_entry segment (component_type_by_id c) compdat info fid)))"

text \<open>Location and compaction of a new block list.\<close>

definition register_list ::
    "device_info \<Rightarrow> install_set \<Rightarrow> disk_blockptr list \<Rightarrow> nat \<Rightarrow> nat \<Rightarrow> component_id \<Rightarrow> nat \<Rightarrow> nat \<Rightarrow> install_set" where
  "register_list dev bis list n load_address c menu_idx mirror_id =
     (let info = dev_base dev mirror_id;
          pc = set_location c (bs_components bis mirror_id c menu_idx) load_address n (phy_block_size info);
          (list, m) = disk_compact_blocklist list n info
      in set_component mirror_id c menu_idx (pc\<lparr>pc_list := list, pc_count := m\<rparr>) bis)"

definition add_component_file_range ::
    "zipl_env \<Rightarrow> device_info \<Rightarrow> install_set \<Rightarrow> comp_source \<Rightarrow> (nat \<times> nat) option \<Rightarrow> nat \<Rightarrow> nat \<Rightarrow> bool \<Rightarrow>
     component_id \<Rightarrow> nat \<Rightarrow> nat \<Rightarrow> blkptr_format \<Rightarrow> zipl_error + install_set \<times> u8 list" where
  "add_component_file_range env dev bis src reg load_address trailer add_files c menu_idx mirror_id fid =
     (let info = dev_base dev mirror_id;
          file = (case src of
                    BootmapFile \<Rightarrow> Some \<lparr>file_bytes = fd_data (bs_mfd bis), file_map = env_bootmap_map env,
                                      file_on_device = env_bootmap_on_device env\<rparr>
                  | OtherFile f \<Rightarrow> env_file env f)
      in rbind
           (if skip_prepare_device bis \<and> skip_prepare_blocklist bis mirror_id then Inr bis
            else if add_files then
              (if reg \<noteq> None then Inl AssertFailed
               else
                 case file of
                   None \<Rightarrow> Inl ReadError
                 | Some f \<Rightarrow>
                     rbind (disk_write_block_buffer_align (env_bootmap_map env) (bs_mfd bis) False
                             (take (length (file_bytes f) - trailer) (file_bytes f)) (dev_fs_block_size dev) (dev_align dev) info) (\<lambda>(mfd, list, offset).
                       if list = [] then Inl WriteError
                       else if offset = 0 then Inl AssertFailed
                       else Inr (register_list dev
                              (set_comp_reg c menu_idx (offset, length (file_bytes f) - trailer) (bis\<lparr>bs_mfd := mfd\<rparr>))
                              list (length list) load_address c menu_idx mirror_id)))
            else
              case file of
                None \<Rightarrow> Inl ReadError
              | Some f \<Rightarrow>
                  if \<not> file_on_device f then Inl NotOnDevice
                  else
                    rbind (disk_get_blocklist_from_file (file_map f) (length (file_bytes f)) reg (dev_fs_block_size dev) info) (\<lambda>list.
                      if list = [] then Inl ReadError
                      else Inr (register_list dev bis list
                             (length list - (trailer + phy_block_size info - 1) div phy_block_size info)
                             load_address c menu_idx mirror_id)))
           (\<lambda>bis. write_segment_table env dev bis load_address c menu_idx mirror_id fid))"

definition add_component_file ::
    "zipl_env \<Rightarrow> device_info \<Rightarrow> install_set \<Rightarrow> string \<Rightarrow> nat \<Rightarrow> nat \<Rightarrow> bool \<Rightarrow>
     component_id \<Rightarrow> nat \<Rightarrow> nat \<Rightarrow> blkptr_format \<Rightarrow> zipl_error + install_set \<times> u8 list" where
  "add_component_file env dev bis filename load_address trailer add_files c menu_idx mirror_id fid =
     (let reg = bs_comp_reg bis c menu_idx
      in if add_files \<and> fst reg > 0
         then add_component_file_range env dev bis BootmapFile (Some reg) load_address 0 False c menu_idx mirror_id fid
         else add_component_file_range env dev bis (OtherFile filename) None load_address trailer add_files c menu_idx mirror_id fid)"

definition add_component_buffer_base ::
    "zipl_env \<Rightarrow> device_info \<Rightarrow> install_set \<Rightarrow> u8 list \<Rightarrow> nat \<Rightarrow> component_id \<Rightarrow> nat \<Rightarrow> nat \<Rightarrow> blkptr_format \<Rightarrow>
     zipl_error + install_set \<times> u8 list" where
  "add_component_buffer_base env dev bis buffer compdat c menu_idx mirror_id fid =
     (let info = dev_base dev mirror_id;
          align = (if fs_block_aligned_by_id c then (case dev_fs_block_size dev of Some n \<Rightarrow> n | None \<Rightarrow> 1) else dev_align dev)
      in rbind
           (if skip_prepare_device bis \<and> skip_prepare_blocklist bis mirror_id then Inr bis
            else
              rbind (disk_write_block_buffer_align (env_bootmap_map env) (bs_mfd bis) False buffer (dev_fs_block_size dev) align info) (\<lambda>(mfd, list, offset).
                if list = [] then Inl WriteError
                else if fst (bs_comp_reg bis c menu_idx) = 0 \<and> offset = 0 then Inl AssertFailed
                else
                  (let bis = bis\<lparr>bs_mfd := mfd\<rparr>;
                       bis = (if fst (bs_comp_reg bis c menu_idx) = 0 then set_comp_reg c menu_idx (offset, length buffer) bis else bis)
                   in Inr (register_list dev bis list (length list) compdat c menu_idx mirror_id))))
           (\<lambda>bis. write_segment_table env dev bis compdat c menu_idx mirror_id fid))"

definition add_component_buffer ::
    "zipl_env \<Rightarrow> device_info \<Rightarrow> install_set \<Rightarrow> u8 list \<Rightarrow> nat \<Rightarrow> component_id \<Rightarrow> nat \<Rightarrow> nat \<Rightarrow> blkptr_format \<Rightarrow>
     zipl_error + install_set \<times> u8 list" where
  "add_component_buffer env dev bis buffer compdat c menu_idx mirror_id fid =
     (let reg = bs_comp_reg bis c menu_idx
      in if fst reg > 0
         then add_component_file_range env dev bis BootmapFile (Some reg) compdat 0 False c menu_idx mirror_id fid
         else add_component_buffer_base env dev bis buffer compdat c menu_idx mirror_id fid)"

definition add_dummy_buffer ::
    "zipl_env \<Rightarrow> device_info \<Rightarrow> install_set \<Rightarrow> nat \<Rightarrow> nat \<Rightarrow> component_id \<Rightarrow> nat \<Rightarrow> nat \<Rightarrow> blkptr_format \<Rightarrow>
     zipl_error + install_set \<times> u8 list" where
  "add_dummy_buffer env dev bis sz addr c menu_idx mirror_id fid =
     add_component_buffer env dev bis (replicate sz 0) addr c menu_idx mirror_id fid"

subsection \<open>Signatures, headers and parameters\<close>

text \<open>\<^verbatim>\<open>SIGNATURE_MAGIC\<close>: \<^verbatim>\<open>~Module signature appended~\<close> and a newline.\<close>

definition SIGNATURE_MAGIC :: "u8 list" where
  "SIGNATURE_MAGIC = map of_char (''~Module signature appended~'' @ [NL])"

text \<open>The signature of a file with the size of the trailer, if the file has a supported one.\<close>

definition extract_signature :: "u8 list option \<Rightarrow> (u8 list \<times> nat) option" where
  "extract_signature file =
     (case file of
        None \<Rightarrow> None
      | Some buffer \<Rightarrow>
          (let sz = length buffer; file_sig = drop (sz - 40) buffer; sig_len = be_value (take 4 (drop 8 file_sig))
           in if sz < 40 then None
              else if drop 12 file_sig \<noteq> SIGNATURE_MAGIC then None
              else if sig_len > sz - 40 then None
              else if file_sig ! 2 \<noteq> 2 then None
              else Some (take sig_len (drop (sz - sig_len - 40) buffer), sig_len + 40)))"

text \<open>The signature header as component data: the format in the first byte, the length in the last four.\<close>

definition sig_head :: "u8 list \<Rightarrow> nat" where
  "sig_head signature = 2 ^ 56 + length signature"

definition bootmap_header_init :: "misc_fd \<Rightarrow> zipl_error + misc_fd" where
  "bootmap_header_init mfd =
     (let txt = map of_char (''zSeries bootmap file'' @ [NL] @ ''created by zIPL'' @ [NL])
      in misc_write_or_simulate mfd (txt @ replicate (48 - length txt) 0 @ be 8 1 @ be 8 0 @ replicate 448 0))"

definition bootmap_header_read :: "misc_fd \<Rightarrow> zipl_error + u8 list" where
  "bootmap_header_read mfd = (if length (fd_data mfd) < 512 then Inl ReadError else Inr (take 512 (fd_data mfd)))"

definition bootmap_header_write :: "misc_fd \<Rightarrow> u8 list \<Rightarrow> zipl_error + misc_fd" where
  "bootmap_header_write mfd bh =
     rbind (misc_write_or_simulate (mfd\<lparr>fd_pos := 0\<rparr>) bh) (\<lambda>m. Inr (m\<lparr>fd_pos := fd_pos mfd\<rparr>))"

definition envblk_offset_set :: "misc_fd \<Rightarrow> nat \<Rightarrow> zipl_error + misc_fd" where
  "envblk_offset_set mfd off =
     rbind (bootmap_header_read mfd) (\<lambda>bh. bootmap_header_write mfd (put_bytes bh 56 (be 8 off)))"

definition write_empty_block :: "fs_ioctl \<Rightarrow> misc_fd \<Rightarrow> nat option \<Rightarrow> disk_info \<Rightarrow> zipl_error + misc_fd \<times> disk_blockptr" where
  "write_empty_block io mfd fs_block_size info =
     disk_write_block_aligned io mfd (replicate (phy_block_size info) 0) fs_block_size info"

definition boot_get_stage3_parms ::
    "nat \<Rightarrow> nat \<Rightarrow> nat \<Rightarrow> nat \<Rightarrow> nat \<Rightarrow> nat \<Rightarrow> nat \<Rightarrow> nat \<Rightarrow> nat \<Rightarrow> nat \<Rightarrow> zipl_error + u8 list" where
  "boot_get_stage3_parms parm_addr initrd_addr initrd_len entry extra_parm flags image_addr image_len envblk_addr envblk_len =
     (if entry \<noteq> entry AND 0x7FFFFFFF then Inl EntryTooHigh
      else Inr (be 8 parm_addr @ be 8 initrd_addr @ be 8 initrd_len @ be 8 (entry OR 0x0008000080000000) @ be 8 extra_parm @
                be 8 flags @ be 8 image_len @ be 8 image_addr @ be 8 envblk_addr @ be 8 envblk_len))"

subsection \<open>Programs\<close>

record job_ipl_data =
  ipl_image :: string
  ipl_parmline :: "u8 list option"
  ipl_ramdisk :: "string option"
  ipl_image_addr :: nat
  ipl_parm_addr :: nat
  ipl_ramdisk_addr :: nat
  ipl_ignore :: bool
  ipl_envblk_addr :: nat
  ipl_is_kdump :: bool

datatype secure_boot = SECURE_BOOT_UNDEFINED | SECURE_BOOT_DISABLED | SECURE_BOOT_ENABLED | SECURE_BOOT_AUTO

abbreviation STAGE3_ENTRY :: nat where
  "STAGE3_ENTRY \<equiv> 0xA000"

text \<open>A component table that is being built: the table and the offset of the next entry.\<close>

type_synonym building = "install_set \<times> u8 list \<times> nat"

definition add_entry :: "(install_set \<Rightarrow> zipl_error + install_set \<times> u8 list) \<Rightarrow> building \<Rightarrow> zipl_error + building" where
  "add_entry f b =
     (case b of (bis, table, offset) \<Rightarrow>
        rbind (f bis) (\<lambda>(bis, entry). Inr (bis, put_bytes table offset entry, offset + 32)))"

definition wants_signature :: "zipl_env \<Rightarrow> secure_boot \<Rightarrow> bool" where
  "wants_signature env is_secure \<longleftrightarrow>
     is_secure = SECURE_BOOT_ENABLED \<or> is_secure = SECURE_BOOT_AUTO \<and> env_secure_boot_supported env"

text \<open>The signature component of a file; a missing one is an error when \<open>required\<close>.\<close>

definition add_signature ::
    "zipl_env \<Rightarrow> device_info \<Rightarrow> (u8 list \<times> nat) option \<Rightarrow> secure_boot \<Rightarrow> bool \<Rightarrow> component_id \<Rightarrow> nat \<Rightarrow> nat \<Rightarrow> blkptr_format \<Rightarrow>
     building \<Rightarrow> zipl_error + building" where
  "add_signature env dev signature is_secure required c menu_idx mirror_id fid b =
     (case signature of
        Some (sig, signature_size) \<Rightarrow>
          if wants_signature env is_secure
          then add_entry (\<lambda>bis. add_component_buffer env dev bis sig (sig_head sig) c menu_idx mirror_id fid) b
          else if required \<and> is_secure = SECURE_BOOT_ENABLED then Inl NoSignature else Inr b
      | None \<Rightarrow> if required \<and> is_secure = SECURE_BOOT_ENABLED then Inl NoSignature else Inr b)"

definition signature_trailer :: "(u8 list \<times> nat) option \<Rightarrow> nat" where
  "signature_trailer signature = (case signature of None \<Rightarrow> 0 | Some (sig, n) \<Rightarrow> n)"

definition add_ipl_program ::
    "zipl_env \<Rightarrow> device_info \<Rightarrow> install_set \<Rightarrow> u8 list option \<Rightarrow> job_ipl_data \<Rightarrow> bool \<Rightarrow> component_header_type \<Rightarrow> secure_boot \<Rightarrow>
     nat \<Rightarrow> nat \<Rightarrow> blkptr_format \<Rightarrow> zipl_error + install_set \<times> disk_blockptr" where
  "add_ipl_program env dev bis envblk ipl add_files typ is_secure menu_idx mirror_id fid =
     (let info = dev_base dev mirror_id;
          bytes_of = (\<lambda>f. map_option file_bytes (env_file env f));
          scsi = (di_type info = disk_type_scsi);
          table = put_bytes (replicate (phy_block_size info) 0) 0 (create_component_header typ);
          flags = (if scsi then 0x0001000000000000 else 0) + (if ipl_is_kdump ipl then 0x0002000000000000 else 0);
          loader_sig = extract_signature (bytes_of (env_stage3_path env));
          image_sig = extract_signature (bytes_of (ipl_image ipl))
      in rbind (case ipl_ramdisk ipl of
                  None \<Rightarrow> Inr 0
                | Some f \<Rightarrow> (case bytes_of f of None \<Rightarrow> Inl ReadError | Some bs \<Rightarrow> Inr (length bs))) (\<lambda>ramdisk_size.
         rbind (if scsi then add_entry (\<lambda>bis. add_dummy_buffer env dev bis 0x4000 0x2000 COMPONENT_ID_HEAP_AREA menu_idx mirror_id fid) (bis, table, 32)
                else Inr (bis, table, 32)) (\<lambda>b.
         rbind (if scsi then add_entry (\<lambda>bis. add_dummy_buffer env dev bis 0x1000 0xF000 COMPONENT_ID_STACK_AREA menu_idx mirror_id fid) b
                else Inr b) (\<lambda>b.
         rbind (case bytes_of (ipl_image ipl) of None \<Rightarrow> Inl ReadError | Some bs \<Rightarrow> Inr (length bs)) (\<lambda>image_size.
         rbind (add_signature env dev loader_sig is_secure True COMPONENT_ID_LOADER_SIGNATURE menu_idx mirror_id fid b) (\<lambda>b.
         rbind (add_entry (\<lambda>bis. add_component_file env dev bis (env_stage3_path env) STAGE3_ENTRY (signature_trailer loader_sig) True
                  COMPONENT_ID_LOADER menu_idx mirror_id fid) b) (\<lambda>b.
         rbind (boot_get_stage3_parms (ipl_parm_addr ipl) (ipl_ramdisk_addr ipl) ramdisk_size
                  (if ipl_is_kdump ipl then 0x10010 else 0x10000) (if scsi then 0 else 1) flags (ipl_image_addr ipl) image_size
                  (ipl_envblk_addr ipl) (case envblk of Some blk \<Rightarrow> length blk | None \<Rightarrow> 0)) (\<lambda>parms.
         rbind (add_entry (\<lambda>bis. add_component_buffer env dev bis parms 0x9000 COMPONENT_ID_PARAMETERS menu_idx mirror_id fid) b) (\<lambda>b.
         rbind (add_signature env dev image_sig is_secure True COMPONENT_ID_IMAGE_SIGNATURE menu_idx mirror_id fid b) (\<lambda>b.
         rbind (add_entry (\<lambda>bis. add_component_file env dev bis (ipl_image ipl) (ipl_image_addr ipl) (signature_trailer image_sig) add_files
                  COMPONENT_ID_KERNEL_IMAGE menu_idx mirror_id fid) b) (\<lambda>b.
         rbind (case ipl_parmline ipl of
                  None \<Rightarrow> Inr b
                | Some line \<Rightarrow> add_entry (\<lambda>bis. add_component_buffer env dev bis (line @ [0]) (ipl_parm_addr ipl)
                    COMPONENT_ID_PARMLINE menu_idx mirror_id fid) b) (\<lambda>b.
         rbind (case ipl_ramdisk ipl of
                  None \<Rightarrow> Inr b
                | Some f \<Rightarrow>
                    (let ramdisk_sig = extract_signature (bytes_of f)
                     in rbind (add_signature env dev ramdisk_sig is_secure False COMPONENT_ID_RAMDISK_SIGNATURE menu_idx mirror_id fid b) (\<lambda>b.
                        add_entry (\<lambda>bis. add_component_file env dev bis f (ipl_ramdisk_addr ipl) (signature_trailer ramdisk_sig) add_files
                          COMPONENT_ID_RAMDISK menu_idx mirror_id fid) b))) (\<lambda>b.
         rbind (case envblk of
                  None \<Rightarrow> Inr b
                | Some blk \<Rightarrow>
                    (let save_location = (fst (bs_comp_reg (fst b) COMPONENT_ID_ENVBLK 0) = 0)
                     in rbind (add_entry (\<lambda>bis. add_component_buffer env dev bis blk (ipl_envblk_addr ipl) COMPONENT_ID_ENVBLK 0 mirror_id fid) b) (\<lambda>(bis, table, offset).
                        if \<not> save_location then Inr (bis, table, offset)
                        else if fst (bs_comp_reg bis COMPONENT_ID_ENVBLK 0) = 0 then Inl AssertFailed
                        else if (case dev_fs_block_size dev of Some n \<Rightarrow> fst (bs_comp_reg bis COMPONENT_ID_ENVBLK 0) mod n \<noteq> 0 | None \<Rightarrow> False) then Inl AssertFailed
                        else rbind (envblk_offset_set (bs_mfd bis) (fst (bs_comp_reg bis COMPONENT_ID_ENVBLK 0))) (\<lambda>mfd.
                               Inr (bis\<lparr>bs_mfd := mfd\<rparr>, table, offset))))) (\<lambda>(bis, table, offset).
         rbind (disk_write_block_aligned (env_bootmap_map env) (bs_mfd bis)
                  (put_bytes table offset (create_component_entry zero_blockptr COMPONENT_TYPE_EXECUTE (STAGE3_ENTRY OR 0x0008000080000000) info fid))
                  (dev_fs_block_size dev) info) (\<lambda>(mfd, program).
           Inr (bis\<lparr>bs_mfd := mfd\<rparr>, program))))))))))))))))"

definition add_segment_program ::
    "zipl_env \<Rightarrow> device_info \<Rightarrow> install_set \<Rightarrow> string \<Rightarrow> nat \<Rightarrow> bool \<Rightarrow> component_header_type \<Rightarrow> nat \<Rightarrow> blkptr_format \<Rightarrow>
     zipl_error + install_set \<times> disk_blockptr" where
  "add_segment_program env dev bis segment segment_addr add_files typ mirror_id fid =
     (let info = dev_base dev mirror_id;
          table = put_bytes (replicate (phy_block_size info) 0) 0 (create_component_header typ)
      in rbind (add_entry (\<lambda>bis. add_component_file env dev bis segment segment_addr 0 add_files COMPONENT_ID_SEGMENT_FILE 0 mirror_id fid)
                  (bis, table, 32)) (\<lambda>(bis, table, offset).
         rbind (disk_write_block_aligned (env_bootmap_map env) (bs_mfd bis)
                  (put_bytes table offset (create_component_entry zero_blockptr COMPONENT_TYPE_EXECUTE 0x000A000000000000 info fid))
                  (dev_fs_block_size dev) info) (\<lambda>(mfd, program).
           Inr (bis\<lparr>bs_mfd := mfd\<rparr>, program))))"

definition add_dump_program ::
    "zipl_env \<Rightarrow> device_info \<Rightarrow> install_set \<Rightarrow> job_ipl_data \<Rightarrow> component_header_type \<Rightarrow> secure_boot \<Rightarrow> blkptr_format \<Rightarrow>
     zipl_error + install_set \<times> disk_blockptr" where
  "add_dump_program env dev bis dump typ is_secure fid =
     add_ipl_program env dev bis None (dump\<lparr>ipl_envblk_addr := 0, ipl_is_kdump := False\<rparr>) True typ is_secure 0 0 fid"

record menu_entry =
  me_pos :: nat
  me_ipl :: job_ipl_data
  me_is_secure :: secure_boot

datatype job = JobIpl job_ipl_data | JobSegment string nat | JobDump job_ipl_data | JobMenu "menu_entry list" nat

definition ipl_header :: "job_ipl_data \<Rightarrow> component_header_type" where
  "ipl_header ipl = (if ipl_is_kdump ipl then COMPONENT_HEADER_DUMP else COMPONENT_HEADER_IPL)"

fun menu_programs ::
    "zipl_env \<Rightarrow> device_info \<Rightarrow> install_set \<Rightarrow> u8 list \<Rightarrow> bool \<Rightarrow> secure_boot \<Rightarrow> bool \<Rightarrow> nat \<Rightarrow> blkptr_format \<Rightarrow>
     menu_entry list \<Rightarrow> nat \<Rightarrow> disk_blockptr list \<Rightarrow> zipl_error + install_set \<times> disk_blockptr list" where
  "menu_programs env dev bis envblk add_files is_secure print_details mirror_id fid [] i table = Inr (bis, table)"
| "menu_programs env dev bis envblk add_files is_secure print_details mirror_id fid (e # es) i table =
     (if print_details \<and> ipl_ignore (me_ipl e)
      then menu_programs env dev bis envblk add_files is_secure print_details mirror_id fid es (i + 1) table
      else
        rbind (add_ipl_program env dev bis (Some envblk) (me_ipl e) add_files (ipl_header (me_ipl e))
                (if is_secure \<noteq> SECURE_BOOT_UNDEFINED then is_secure else me_is_secure e) i mirror_id fid) (\<lambda>(bis, program).
          menu_programs env dev bis envblk add_files is_secure print_details mirror_id fid es (i + 1) (table[me_pos e := program])))"

definition build_program_table ::
    "zipl_env \<Rightarrow> device_info \<Rightarrow> install_set \<Rightarrow> job \<Rightarrow> u8 list \<Rightarrow> bool \<Rightarrow> secure_boot \<Rightarrow> bool \<Rightarrow> nat \<Rightarrow> blkptr_format \<Rightarrow>
     zipl_error + install_set" where
  "build_program_table env dev bis job envblk add_files is_secure print_details mirror_id fid =
     (let info = dev_base dev mirror_id;
          table = replicate (get_program_table_size info) zero_blockptr
      in rbind
           (case job of
              JobIpl ipl \<Rightarrow>
                rbind (add_ipl_program env dev bis (Some envblk) ipl add_files (ipl_header ipl) is_secure 0 mirror_id fid) (\<lambda>(bis, program).
                  Inr (bis, table[0 := program]))
            | JobSegment segment addr \<Rightarrow>
                rbind (add_segment_program env dev bis segment addr add_files COMPONENT_HEADER_IPL mirror_id fid) (\<lambda>(bis, program).
                  Inr (bis, table[0 := program]))
            | JobDump dump \<Rightarrow>
                rbind (add_dump_program env dev bis dump COMPONENT_HEADER_DUMP is_secure fid) (\<lambda>(bis, program).
                  Inr (bis, table[0 := program]))
            | JobMenu entries default_pos \<Rightarrow>
                rbind (menu_programs env dev bis envblk add_files is_secure print_details mirror_id fid entries 0 table) (\<lambda>(bis, table).
                  Inr (bis, table[0 := table ! default_pos])))
           (\<lambda>(bis, table).
             rbind (add_program_table (env_bootmap_map env) (bs_mfd bis) table (dev_fs_block_size dev) info fid) (\<lambda>(mfd, pointer).
               Inr (bis\<lparr>bs_mfd := mfd,
                        bs_tables := (bs_tables bis)(mirror_id := (bs_tables bis mirror_id)(fid := pointer))\<rparr>))))"

section \<open>Lemmas on segment tables\<close>

text \<open>The contents of the disk by block number; a file is found in its blocks, and holes read as zeros.\<close>

type_synonym platter = "nat \<Rightarrow> u8 list"

definition on_platter :: "platter \<Rightarrow> fs_ioctl \<Rightarrow> nat option \<Rightarrow> disk_info \<Rightarrow> u8 list \<Rightarrow> bool" where
  "on_platter platter io fs_bs info d \<longleftrightarrow>
     (\<forall>i < block_count (phy_block_size info) (length d). \<forall>b. disk_get_blocknum io False i fs_bs info = Inr b \<longrightarrow>
        blocknum_ok info b \<and>
        file_block d (phy_block_size info) i = (if b = 0 then replicate (phy_block_size info) 0 else platter b))"

text \<open>A disk whose blocks hold segment tables.\<close>

definition table_disk :: "disk_info \<Rightarrow> bool" where
  "table_disk info \<longleftrightarrow> disk_ok info \<and> 16 dvd phy_block_size info \<and> 32 \<le> phy_block_size info"

definition seg_slots :: "disk_info \<Rightarrow> nat" where
  "seg_slots info = phy_block_size info div 16 - 1"

inductive seg_chain :: "platter \<Rightarrow> disk_info \<Rightarrow> blkptr_format \<Rightarrow> nat \<Rightarrow> disk_blockptr list \<Rightarrow> bool" for platter info fid where
  seg_last: "platter b = concat (map (\<lambda>p. blockptr_bytes p info fid) ps) @ replicate (phy_block_size info - 16 * length ps) 0 \<Longrightarrow>
    length ps \<le> seg_slots info \<Longrightarrow> seg_chain platter info fid b ps"
| seg_more: "platter b = concat (map (\<lambda>p. blockptr_bytes p info fid) qs) @ blockptr_bytes (disk_blockptr_from_blocknum b' info) info fid \<Longrightarrow>
    length qs = seg_slots info \<Longrightarrow> b' \<noteq> 0 \<Longrightarrow> blocknum_ok info b' \<Longrightarrow> seg_chain platter info fid b' ps \<Longrightarrow>
    seg_chain platter info fid b (qs @ ps)"

lemma length_blockptr_bytes: "disk_ok info \<Longrightarrow> length (blockptr_bytes p info fid) = 16"
  by (cases fid) (auto simp: blockptr_bytes_def disk_ok_def)

lemma be_zero: "be n 0 = replicate n 0"
  by (induction n) auto

lemma zero_blockptr_bytes: "disk_ok info \<Longrightarrow> blockptr_bytes zero_blockptr info fid = replicate 16 0"
  using length_blockptr_bytes [of info zero_blockptr fid]
  by (intro replicate_eqI) (auto simp: blockptr_bytes_def zero_blockptr_def be_zero split: if_splits blkptr_format.splits)

lemma table_disk_size:
  assumes "table_disk info"
  shows "phy_block_size info = 16 * seg_slots info + 16" and "0 < seg_slots info" and "get_blockptr_size info = 16"
    and "disk_ok info"
  using assms by (auto simp: seg_slots_def table_disk_def get_blockptr_size_def disk_ok_def elim!: dvdE)

lemma put_bytes_middle: "length a = off \<Longrightarrow> length b = length x \<Longrightarrow> put_bytes (a @ b @ c) off x = a @ x @ c"
  by (simp add: put_bytes_def)

lemma length_enc: "disk_ok info \<Longrightarrow> length (concat (map (\<lambda>p. blockptr_bytes p info fid) ps)) = 16 * length ps"
  by (induction ps) (simp_all add: length_blockptr_bytes)

lemma write_aligned_ok:
  assumes "disk_ok info" and "appendable mfd" and "length bytes = phy_block_size info"
    and "disk_write_block_aligned io mfd bytes fs_bs info = Inr (mfd', p)"
  obtains k b where "disk_get_blocknum io False k fs_bs info = Inr b" "p = disk_blockptr_from_blocknum b info" "appendable mfd'"
    "keeps_blocks (phy_block_size info) (fd_data mfd) (fd_data mfd')" "k < block_count (phy_block_size info) (length (fd_data mfd'))"
    "file_block (fd_data mfd') (phy_block_size info) k = bytes"
proof -
  have bs: "0 < phy_block_size info" using assms(1) by (simp add: disk_ok_def)
  then have ne: "bytes \<noteq> []" using assms(3) by auto
  obtain off where w: "disk_write_block_aligned_base io mfd False bytes fs_bs info (phy_block_size info) = Inr (mfd', p, off)"
    using assms(4) by (auto simp: disk_write_block_aligned_def rbind_Inr)
  have "file_block bytes (phy_block_size info) 0 = bytes" using assms(3) by (simp add: file_block_def)
  then show thesis
    using write_base_ok [OF assms(1,2) _ ne w] that by (metis lessI mod_self)
qed

lemma platter_block:
  assumes "on_platter platter io fs_bs info d'" and "keeps_blocks (phy_block_size info) d d'"
    and "k < block_count (phy_block_size info) (length d)" and "disk_get_blocknum io False k fs_bs info = Inr b"
  shows "blocknum_ok info b" and "file_block d (phy_block_size info) k = (if b = 0 then replicate (phy_block_size info) 0 else platter b)"
  using assms unfolding on_platter_def keeps_blocks_def by (metis order_less_le_trans)+

text \<open>A pointer to a block has bytes other than zero.\<close>

lemma be_not_zero: "0 < v \<Longrightarrow> v < 256 ^ n \<Longrightarrow> be n v \<noteq> replicate n 0"
  using be_value_be [of n v] be_value_be [of n 0] be_zero [of n] by auto

lemma enc_not_zero:
  assumes "disk_ok info" and "ptr_ok info p" and "\<not> disk_is_zero_block p info"
  shows "blockptr_bytes p info fid \<noteq> replicate 16 0"
proof
  assume z: "blockptr_bytes p info fid = replicate 16 0"
  show False
  proof (cases "disk_type_is_eckd (di_type info)")
    case True
    then have "be 1 (bp_sec p) \<noteq> replicate 1 0"
      using assms by (intro be_not_zero) (auto simp: ptr_ok_def disk_ok_def)
    moreover have "take 1 (drop (if fid = BLKPTR_FORMAT_ID then 5 else 4) (blockptr_bytes p info fid)) = be 1 (bp_sec p)"
      using True assms(1) by (cases fid) (simp_all add: blockptr_bytes_def disk_ok_def)
    ultimately show ?thesis by (simp add: z)
  next
    case False
    then have "be 8 (bp_block p) \<noteq> replicate 8 0"
      using assms block_limit_le [of info] by (intro be_not_zero) (auto simp: ptr_ok_def zero_block_iff)
    moreover have "take 8 (blockptr_bytes p info fid) = be 8 (bp_block p)"
      using False assms(1) by (simp add: blockptr_bytes_def disk_ok_def)
    ultimately show ?thesis by (simp add: z)
  qed
qed

lemma length_store_blockptr:
  "disk_ok info \<Longrightarrow> off + 16 \<le> length buf \<Longrightarrow> length (bootmap_store_blockptr buf off p info fid) = length buf"
  by (simp add: bootmap_store_blockptr_def put_bytes_def length_blockptr_bytes)

lemma segment_loop_keeps:
  assumes "table_disk info" and "appendable mfd" and "length buffer = phy_block_size info" and "offset < seg_slots info"
    and "segment_loop io mfd list hole fs_bs info fid (seg_slots info) buffer nxt offset n = Inr (mfd', p)"
  shows "keeps_blocks (phy_block_size info) (fd_data mfd) (fd_data mfd') \<and> appendable mfd'"
  using assms(2-)
proof (induction n arbitrary: mfd buffer nxt offset)
  case (Suc n)
  note td = table_disk_size [OF assms(1)]
  define q where "q = (if disk_is_zero_block (list ! n) info then hole else list ! n)"
  define b1 where "b1 = bootmap_store_blockptr buffer (offset * 16) q info fid"
  define b2 where "b2 = bootmap_store_blockptr b1 (seg_slots info * 16) nxt info fid"
  have len: "length b1 = phy_block_size info"
    using Suc.prems(2,3) td(1) unfolding b1_def by (subst length_store_blockptr [OF td(4)]) auto
  then have len2: "length b2 = phy_block_size info"
    using td(1) unfolding b2_def by (subst length_store_blockptr [OF td(4)]) auto
  show ?case
  proof (cases "offset > 0")
    case True
    then have "segment_loop io mfd list hole fs_bs info fid (seg_slots info) b1 nxt (offset - 1) n = Inr (mfd', p)"
      using Suc.prems(4) by (simp only: segment_loop.simps Let_def q_def b1_def td(3) if_True)
    from Suc.IH [OF Suc.prems(1) len _ this] show ?thesis using Suc.prems(3) by simp
  next
    case False
    then obtain mfd1 nxt1 where w: "disk_write_block_aligned io mfd b2 fs_bs info = Inr (mfd1, nxt1)"
      and r: "segment_loop io mfd1 list hole fs_bs info fid (seg_slots info) b2 nxt1 (seg_slots info - 1) n = Inr (mfd', p)"
      using Suc.prems(4) by (auto simp: Let_def rbind_Inr q_def b1_def b2_def td(3))
    have "appendable mfd1" "keeps_blocks (phy_block_size info) (fd_data mfd) (fd_data mfd1)"
      by (rule write_aligned_ok [OF td(4) Suc.prems(1) len2 w], assumption)+
    moreover have "seg_slots info - 1 < seg_slots info" using td(2) by simp
    ultimately show ?thesis using Suc.IH [OF _ len2 _ r] keeps_blocks_trans by blast
  qed
qed simp

lemma store_step:
  assumes "disk_ok info" and "length pre = (offset + 1) * 16"
  shows "bootmap_store_blockptr (pre @ suf) (offset * 16) q info fid = take (offset * 16) pre @ blockptr_bytes q info fid @ suf"
proof -
  have "put_bytes (take (offset * 16) pre @ drop (offset * 16) pre @ suf) (offset * 16) (blockptr_bytes q info fid) =
      take (offset * 16) pre @ blockptr_bytes q info fid @ suf"
    using assms by (intro put_bytes_middle) (simp_all add: length_blockptr_bytes)
  then show ?thesis unfolding bootmap_store_blockptr_def by (metis append_assoc append_take_drop_id)
qed

text \<open>Where a chain goes on: nowhere, or at a block with the next table.\<close>

definition chain_next :: "platter \<Rightarrow> disk_info \<Rightarrow> blkptr_format \<Rightarrow> disk_blockptr \<Rightarrow> disk_blockptr list \<Rightarrow> bool" where
  "chain_next platter info fid nxt rest \<longleftrightarrow>
     nxt = zero_blockptr \<and> rest = [] \<or>
     (\<exists>b. nxt = disk_blockptr_from_blocknum b info \<and> b \<noteq> 0 \<and> blocknum_ok info b \<and> seg_chain platter info fid b rest)"

lemma table_written:
  assumes "table_disk info" and "appendable mfd" and "on_platter platter io fs_bs info d"
    and "disk_write_block_aligned io mfd (concat (map (\<lambda>p. blockptr_bytes p info fid) (q # qs)) @ replicate z 0 @ blockptr_bytes nxt info fid)
      fs_bs info = Inr (mfd', p)"
    and "keeps_blocks (phy_block_size info) (fd_data mfd') d" and "ptr_ok info q" and "\<not> disk_is_zero_block q info"
    and "16 * Suc (length qs) + z = 16 * seg_slots info" and "chain_next platter info fid nxt rest" and "nxt = zero_blockptr \<or> z = 0"
  shows "\<exists>b. p = disk_blockptr_from_blocknum b info \<and> b \<noteq> 0 \<and> blocknum_ok info b \<and> seg_chain platter info fid b (q # qs @ rest)"
proof -
  let ?enc = "\<lambda>p. blockptr_bytes p info fid"
  let ?t = "concat (map ?enc (q # qs)) @ replicate z 0 @ ?enc nxt"
  note td = table_disk_size [OF assms(1)]
  have l: "length (concat (map ?enc (q # qs))) = 16 * Suc (length qs)" by (subst length_enc [OF td(4)]) simp
  have len: "length ?t = phy_block_size info" using assms(8) td(1) l by (simp add: length_blockptr_bytes [OF td(4)])
  obtain k b where k: "disk_get_blocknum io False k fs_bs info = Inr b" "p = disk_blockptr_from_blocknum b info" "appendable mfd'"
    "keeps_blocks (phy_block_size info) (fd_data mfd) (fd_data mfd')" "k < block_count (phy_block_size info) (length (fd_data mfd'))"
    "file_block (fd_data mfd') (phy_block_size info) k = ?t"
    by (rule write_aligned_ok [OF td(4) assms(2) len assms(4)])
  note pb = platter_block [OF assms(3,5) k(5,1)]
  have "take 16 ?t = ?enc q" by (simp add: length_blockptr_bytes [OF td(4)])
  then have "?t \<noteq> replicate (phy_block_size info) 0"
    using enc_not_zero [OF td(4) assms(6,7), of fid] td(1) by (metis le_add2 min_def take_replicate)
  then have b: "b \<noteq> 0" "platter b = ?t" using pb(2) k(6) by (auto split: if_splits)
  have "seg_chain platter info fid b ((q # qs) @ rest)"
  proof (cases "nxt = zero_blockptr \<and> rest = []")
    case True
    then have "?t = concat (map ?enc (q # qs)) @ replicate (phy_block_size info - 16 * length (q # qs)) 0"
      using assms(8) td(1) by (simp add: zero_blockptr_bytes [OF td(4)] replicate_add [symmetric])
    then have "platter b = concat (map ?enc (q # qs)) @ replicate (phy_block_size info - 16 * length (q # qs)) 0" using b(2) by simp
    then have "seg_chain platter info fid b (q # qs)" by (rule seg_last) (use assms(8) in simp)
    then show ?thesis using True by simp
  next
    case False
    then obtain b' where n: "nxt = disk_blockptr_from_blocknum b' info" "b' \<noteq> 0" "blocknum_ok info b'" "seg_chain platter info fid b' rest"
      using assms(9) by (auto simp: chain_next_def)
    have "nxt \<noteq> zero_blockptr"
      using n td(1) by (auto simp: disk_blockptr_from_blocknum_def zero_blockptr_def split: if_splits)
    then have "z = 0" using assms(10) by simp
    then show ?thesis
      using b(2) n assms(8) by (intro seg_more [where b' = b']) simp_all
  qed
  then show ?thesis using k(2) b(1) pb(1) by auto
qed

lemma segment_loop_ok:
  assumes "table_disk info" and "appendable mfd" and "on_platter platter io fs_bs info d"
    and "segment_loop io mfd list hole fs_bs info fid (seg_slots info) buffer nxt offset n = Inr (mfd', p)"
    and "keeps_blocks (phy_block_size info) (fd_data mfd') d" and "n \<le> length list"
    and "ptr_ok info hole" and "\<not> disk_is_zero_block hole info" and "\<forall>q \<in> set (take n list). ptr_ok info q"
    and "buffer = pre @ concat (map (\<lambda>p. blockptr_bytes p info fid) qs) @ replicate z 0 @ tail"
    and "length pre = (offset + 1) * 16" and "length tail = 16" and "16 * (offset + 1 + length qs) + z = 16 * seg_slots info"
    and "0 < n \<Longrightarrow> offset = (n - 1) mod seg_slots info" and "n = 0 \<Longrightarrow> qs = []"
    and "chain_next platter info fid nxt rest" and "nxt = zero_blockptr \<or> z = 0"
  shows "chain_next platter info fid p (map (\<lambda>q. if disk_is_zero_block q info then hole else q) (take n list) @ qs @ rest)"
  using assms(2-)
proof (induction n arbitrary: mfd buffer nxt offset pre qs z tail rest)
  case 0
  then show ?case by auto
next
  case (Suc n)
  define q where "q = (if disk_is_zero_block (list ! n) info then hole else list ! n)"
  let ?m = "seg_slots info" and ?enc = "\<lambda>p. blockptr_bytes p info fid"
  note td = table_disk_size [OF assms(1)]
  have tk: "take (Suc n) list = take n list @ [list ! n]" using Suc.prems(5) by (simp add: take_Suc_conv_app_nth)
  have ok: "ptr_ok info q" "\<not> disk_is_zero_block q info" using Suc.prems(6-8) tk by (auto simp: q_def)
  let ?b1 = "take (offset * 16) pre @ concat (map ?enc (q # qs)) @ replicate z 0 @ tail"
  have b1: "bootmap_store_blockptr buffer (offset * get_blockptr_size info) q info fid = ?b1"
    unfolding Suc.prems(9) td(3) by (subst store_step [OF td(4) Suc.prems(10)]) simp
  show ?case
  proof (cases "offset > 0")
    case True
    have "n mod ?m = offset" using Suc.prems(13) by simp
    then have n0: "0 < n" and o: "offset - 1 = (n - 1) mod ?m"
      using True by (cases n; auto simp: mod_Suc split: if_splits)+
    have "segment_loop io mfd list hole fs_bs info fid ?m ?b1 nxt (offset - 1) n = Inr (mfd', p)"
      using Suc.prems(3) True by (simp only: segment_loop.simps Let_def q_def [symmetric] b1 if_True)
    then have "chain_next platter info fid p (map (\<lambda>q. if disk_is_zero_block q info then hole else q) (take n list) @ (q # qs) @ rest)"
      by (rule Suc.IH [OF Suc.prems(1,2) _ Suc.prems(4) _ Suc.prems(6,7) _ refl _ Suc.prems(11)])
        (use Suc.prems True n0 o tk in simp_all)
    then show ?thesis using tk by (simp add: q_def)
  next
    case False
    then have o: "offset = 0" by simp
    let ?t = "concat (map ?enc (q # qs)) @ replicate z 0 @ ?enc nxt"
    have lb: "length (concat (map ?enc (q # qs)) @ replicate z 0) = ?m * 16"
      using Suc.prems(12) by (auto simp: o length_enc [OF td(4)] length_blockptr_bytes [OF td(4)])
    have b2: "bootmap_store_blockptr ?b1 (?m * get_blockptr_size info) nxt info fid = ?t"
      using put_bytes_middle [of "concat (map ?enc (q # qs)) @ replicate z 0" "?m * 16" tail "?enc nxt" "[]"] lb Suc.prems(11)
      by (simp add: o bootmap_store_blockptr_def td(3) length_blockptr_bytes [OF td(4)])
    obtain mfd1 nxt1 where w: "disk_write_block_aligned io mfd ?t fs_bs info = Inr (mfd1, nxt1)"
      and r: "segment_loop io mfd1 list hole fs_bs info fid ?m ?t nxt1 (?m - 1) n = Inr (mfd', p)"
      using Suc.prems(3) False unfolding segment_loop.simps Let_def q_def [symmetric] b1 b2 by (auto simp: rbind_Inr)
    have len: "length ?t = phy_block_size info" using lb td(1) by (simp add: length_blockptr_bytes [OF td(4)])
    have ap: "appendable mfd1" by (rule write_aligned_ok [OF td(4) Suc.prems(1) len w])
    have kp: "keeps_blocks (phy_block_size info) (fd_data mfd1) d"
      using segment_loop_keeps [OF assms(1) ap len _ r] td(2) Suc.prems(4) keeps_blocks_trans by auto
    have "chain_next platter info fid nxt1 (q # qs @ rest)"
      using table_written [OF assms(1) Suc.prems(1,2) w kp ok _ Suc.prems(15,16)] Suc.prems(12) o by (auto simp: chain_next_def)
    moreover have "nxt1 = zero_blockptr \<or> (0 :: nat) = 0" by simp
    moreover have "n \<noteq> 0 \<Longrightarrow> ?m - 1 = (n - 1) mod ?m"
    proof -
      assume "n \<noteq> 0"
      moreover have "n mod ?m = 0" using Suc.prems(13) o by simp
      ultimately show ?thesis using td(2) by (cases n) (auto simp: mod_Suc split: if_splits)
    qed
    ultimately have "chain_next platter info fid p (map (\<lambda>q. if disk_is_zero_block q info then hole else q) (take n list) @ [] @ (q # qs @ rest))"
      by (intro Suc.IH [OF ap Suc.prems(2) r Suc.prems(4) _ Suc.prems(6,7), of "concat (map ?enc (q # qs)) @ replicate z 0" "[]" 0 "?enc nxt" "q # qs @ rest"])
        (use Suc.prems(5,8) tk lb td(2) in \<open>simp_all add: length_blockptr_bytes [OF td(4)]\<close>)
    then show ?thesis using tk by (simp add: q_def)
  qed
qed

lemma add_segment_table_keeps:
  assumes "table_disk info" and "appendable mfd" and "add_segment_table io mfd list n hole fs_bs info fid = Inr (mfd', p)"
  shows "keeps_blocks (phy_block_size info) (fd_data mfd) (fd_data mfd')" and "appendable mfd'"
proof -
  note td = table_disk_size [OF assms(1)]
  have o: "(n - 1) mod seg_slots info < seg_slots info" using td(2) by simp
  have "segment_loop io mfd list hole fs_bs info fid (seg_slots info) (replicate (phy_block_size info) 0) zero_blockptr
      ((n - 1) mod seg_slots info) n = Inr (mfd', p)"
    using assms(3) by (simp add: add_segment_table_def td(3) Let_def seg_slots_def)
  from segment_loop_keeps [OF assms(1,2) _ o this]
  show "keeps_blocks (phy_block_size info) (fd_data mfd) (fd_data mfd')" and "appendable mfd'" by simp_all
qed

lemma add_segment_table_ok:
  assumes "table_disk info" and "appendable mfd" and "on_platter platter io fs_bs info d"
    and "add_segment_table io mfd list n hole fs_bs info fid = Inr (mfd', p)"
    and "keeps_blocks (phy_block_size info) (fd_data mfd') d" and "0 < n" and "n \<le> length list"
    and "ptr_ok info hole" and "\<not> disk_is_zero_block hole info" and "\<forall>q \<in> set (take n list). ptr_ok info q"
  shows "\<exists>b. p = disk_blockptr_from_blocknum b info \<and> b \<noteq> 0 \<and> blocknum_ok info b \<and>
    seg_chain platter info fid b (map (\<lambda>q. if disk_is_zero_block q info then hole else q) (take n list))"
proof -
  let ?m = "seg_slots info" and ?o = "(n - 1) mod seg_slots info"
  note td = table_disk_size [OF assms(1)]
  have o: "?o < ?m" using td(2) by simp
  have run: "segment_loop io mfd list hole fs_bs info fid ?m (replicate (phy_block_size info) 0) zero_blockptr ?o n = Inr (mfd', p)"
    using assms(4) by (simp add: add_segment_table_def td(3) Let_def seg_slots_def)
  have buf: "replicate (phy_block_size info) 0 = replicate ((?o + 1) * 16) 0 @ concat (map (\<lambda>p. blockptr_bytes p info fid) []) @
      replicate (16 * (?m - ?o - 1)) 0 @ replicate 16 (0 :: u8)"
    using o td(1) by (simp add: replicate_add [symmetric])
  have "chain_next platter info fid p (map (\<lambda>q. if disk_is_zero_block q info then hole else q) (take n list) @ [] @ [])"
    by (rule segment_loop_ok [OF assms(1-3) run assms(5,7-10) buf]) (use o assms(6) in \<open>simp_all add: chain_next_def\<close>)
  then show "\<exists>b. p = disk_blockptr_from_blocknum b info \<and> b \<noteq> 0 \<and> blocknum_ok info b \<and>
    seg_chain platter info fid b (map (\<lambda>q. if disk_is_zero_block q info then hole else q) (take n list))"
    using assms(6,7) by (auto simp: chain_next_def)
qed

section \<open>Lemmas on components\<close>

text \<open>The data behind a list of block numbers; a hole reads as zeros.\<close>

definition block_data :: "platter \<Rightarrow> disk_info \<Rightarrow> nat list \<Rightarrow> u8 list" where
  "block_data platter info bs = concat (map (\<lambda>b. if b = 0 then replicate (phy_block_size info) 0 else platter b) bs)"

definition padded :: "nat \<Rightarrow> u8 list \<Rightarrow> u8 list" where
  "padded bs buf = buf @ replicate (block_count bs (length buf) * bs - length buf) 0"

definition hole_ok :: "platter \<Rightarrow> disk_info \<Rightarrow> disk_blockptr \<Rightarrow> bool" where
  "hole_ok platter info hole \<longleftrightarrow>
     (\<exists>h. hole = disk_blockptr_from_blocknum h info \<and> h \<noteq> 0 \<and> blocknum_ok info h \<and> platter h = replicate (phy_block_size info) 0)"

text \<open>What an entry of the component table stands for: a chain of segment tables with the data.\<close>

definition component_on_disk :: "platter \<Rightarrow> disk_info \<Rightarrow> blkptr_format \<Rightarrow> nat \<Rightarrow> u8 list \<Rightarrow> bool" where
  "component_on_disk platter info fid b bytes \<longleftrightarrow>
     b \<noteq> 0 \<and> blocknum_ok info b \<and>
     (\<exists>ps. seg_chain platter info fid b ps \<and> (\<forall>p \<in> set ps. ptr_ok info p \<and> \<not> disk_is_zero_block p info) \<and>
        concat (map platter (blocks info ps)) = bytes)"

lemma block_data_simps [simp]:
  "block_data platter info [] = []" "block_data platter info (xs @ ys) = block_data platter info xs @ block_data platter info ys"
  "block_data platter info (b # xs) = (if b = 0 then replicate (phy_block_size info) 0 else platter b) @ block_data platter info xs"
  by (simp_all add: block_data_def)

lemma file_blocks_padded:
  assumes "0 < bs"
  shows "n = block_count bs (length buf) \<Longrightarrow> concat (map (file_block buf bs) [0..<n]) = padded bs buf"
proof (induction n arbitrary: buf)
  case 0
  then have "length buf = 0" using block_count_bounds(1) [OF assms, of "length buf"] by simp
  then show ?case using 0 by (simp add: padded_def)
next
  case (Suc n)
  note n = block_count_drop [OF assms Suc.prems]
  have fs: "file_block (drop bs buf) bs = (\<lambda>i. file_block buf bs (Suc i))" by (simp add: fun_eq_iff file_block_Suc)
  have "concat (map (file_block buf bs) [0..<Suc n]) = file_block buf bs 0 @ concat (map (file_block (drop bs buf) bs) [0..<n])"
    by (simp only: upt_conv_Cons [of 0 "Suc n"] zero_less_Suc list.map concat.simps map_Suc_upt [symmetric] map_map comp_def fs)
  also have "\<dots> = file_block buf bs 0 @ padded bs (drop bs buf)" using Suc.IH [OF n] by simp
  also have "\<dots> = padded bs buf"
  proof (cases "bs \<le> length buf")
    case True
    then show ?thesis
      using n Suc.prems by (simp add: padded_def file_block_def flip: Suc.prems append_assoc)
  next
    case False
    then have "n = 0" using n by (simp add: block_count_def)
    then have "block_count bs (length buf) = 1" using Suc.prems by simp
    then show ?thesis using False by (simp add: padded_def file_block_def block_count_def [of bs 0])
  qed
  finally show ?case .
qed

lemma blocks_not_zero: "ptr_ok info p \<Longrightarrow> \<not> disk_is_zero_block p info \<Longrightarrow> 0 \<notin> set (ptr_blocks info p)"
  by (auto simp: ptr_ok_def ptr_blocks_def)

lemma block_data_platter: "0 \<notin> set bs \<Longrightarrow> block_data platter info bs = concat (map platter bs)"
  by (induction bs) auto

lemma fill_holes:
  assumes "disk_ok info" and "hole_ok platter info hole" and "\<forall>p \<in> set ps. ptr_ok info p"
  shows "\<forall>p \<in> set (map (\<lambda>p. if disk_is_zero_block p info then hole else p) ps). ptr_ok info p \<and> \<not> disk_is_zero_block p info"
    and "concat (map platter (blocks info (map (\<lambda>p. if disk_is_zero_block p info then hole else p) ps))) = block_data platter info (blocks info ps)"
proof -
  obtain h where h: "hole = disk_blockptr_from_blocknum h info" "h \<noteq> 0" "blocknum_ok info h" "platter h = replicate (phy_block_size info) 0"
    using assms(2) by (auto simp: hole_ok_def)
  note hp = blockptr_from_blocknum [OF assms(1) h(3), folded h(1)]
  show "\<forall>p \<in> set (map (\<lambda>p. if disk_is_zero_block p info then hole else p) ps). ptr_ok info p \<and> \<not> disk_is_zero_block p info"
    using assms(3) hp h(2) by auto
  have one: "concat (map platter (ptr_blocks info (if disk_is_zero_block p info then hole else p))) = block_data platter info (ptr_blocks info p)"
    if "p \<in> set ps" for p
  proof (cases "disk_is_zero_block p info")
    case True
    then have "ptr_blocks info p = [0]" by (simp add: ptr_blocks_def)
    then show ?thesis using True hp(2) h(4) by simp
  next
    case False
    then show ?thesis using that assms(3) blocks_not_zero by (simp add: block_data_platter)
  qed
  then show "concat (map platter (blocks info (map (\<lambda>p. if disk_is_zero_block p info then hole else p) ps))) = block_data platter info (blocks info ps)"
    by (induction ps) simp_all
qed

lemma mapped_blocks:
  assumes "disk_ok info" and "on_platter platter io fs_bs info d" and "mapped io fs_bs info k ps"
    and "k + length ps \<le> block_count (phy_block_size info) (length d)"
  shows "(\<forall>p \<in> set ps. ptr_ok info p) \<and>
    block_data platter info (blocks info ps) = concat (map (file_block d (phy_block_size info)) [k..<k + length ps])"
  using assms(3,4)
proof (induction ps arbitrary: k)
  case (Cons p ps)
  obtain b where b: "disk_get_blocknum io False k fs_bs info = Inr b" "p = disk_blockptr_from_blocknum b info"
    and m: "mapped io fs_bs info (Suc k) ps"
    using Cons.prems(1) by auto
  have "k < block_count (phy_block_size info) (length d)" using Cons.prems(2) by simp
  then have pb: "blocknum_ok info b" "file_block d (phy_block_size info) k = (if b = 0 then replicate (phy_block_size info) 0 else platter b)"
    using assms(2) b(1) by (auto simp: on_platter_def)
  note bp = blockptr_from_blocknum [OF assms(1) pb(1), folded b(2)]
  have "[k..<k + length (p # ps)] = k # [Suc k..<Suc k + length ps]"
    using upt_conv_Cons [of k "k + length (p # ps)"] by (simp del: upt_Suc)
  then show ?case using Cons.IH [OF m] Cons.prems(2) bp pb(2) by simp
qed simp

text \<open>
  A buffer that is written to the bootmap is found again through its segment tables, whatever is appended to
  the bootmap afterwards.
\<close>

lemma write_segment_table_keeps:
  assumes "table_disk (dev_base dev mirror_id)" and "appendable (bs_mfd bis)"
    and "write_segment_table env dev bis compdat c menu_idx mirror_id fid = Inr (bis', entry)"
  shows "keeps_blocks (phy_block_size (dev_base dev mirror_id)) (fd_data (bs_mfd bis)) (fd_data (bs_mfd bis'))" and "appendable (bs_mfd bis')"
  using assms(3) add_segment_table_keeps [OF assms(1,2)]
  by (auto simp: write_segment_table_def Let_def rbind_Inr split: if_splits)

lemma register_list_mfd [simp]: "bs_mfd (register_list dev bis list n addr c menu_idx mirror_id) = bs_mfd bis"
  by (simp add: register_list_def set_component_def Let_def split: prod.split)

lemma set_comp_reg_mfd [simp]: "bs_mfd (set_comp_reg c menu_idx reg bis) = bs_mfd bis"
  by (simp add: set_comp_reg_def)

lemma register_on_disk:
  assumes "table_disk info" and "info = dev_base dev mirror_id" and "appendable (bs_mfd bis)"
    and "on_platter platter (env_bootmap_map env) (dev_fs_block_size dev) info d"
    and "hole_ok platter info (env_empty_blocks env mirror_id)"
    and "list \<noteq> []" and "\<forall>p \<in> set list. ptr_ok info p"
    and "write_segment_table env dev (register_list dev bis list (length list) addr c menu_idx mirror_id) compdat c menu_idx mirror_id fid = Inr (bis', entry)"
    and "keeps_blocks (phy_block_size info) (fd_data (bs_mfd bis')) d"
  shows "\<exists>b. entry = create_component_entry (disk_blockptr_from_blocknum b info) (component_type_by_id c) compdat info fid \<and>
      component_on_disk platter info fid b (block_data platter info (blocks info list))"
proof -
  note td = table_disk_size [OF assms(1)]
  obtain l m where lm: "disk_compact_blocklist list (length list) info = (l, m)" by fastforce
  have co: "0 < m" "m \<le> length l" "\<forall>p \<in> set (take m l). ptr_ok info p" "blocks info (take m l) = blocks info list"
    using compact_ok [OF td(4) lm] assms(6,7) by auto
  obtain h where h: "env_empty_blocks env mirror_id = disk_blockptr_from_blocknum h info" "h \<noteq> 0" "blocknum_ok info h"
    using assms(5) by (auto simp: hole_ok_def)
  note hp = blockptr_from_blocknum [OF td(4) h(3), folded h(1)]
  obtain mfd segment where s: "add_segment_table (env_bootmap_map env) (bs_mfd bis) l m (env_empty_blocks env mirror_id) (dev_fs_block_size dev) info fid = Inr (mfd, segment)"
    and e: "entry = create_component_entry segment (component_type_by_id c) compdat info fid" "bs_mfd bis' = mfd"
    using assms(8) co(1,2) by (auto simp: write_segment_table_def register_list_def set_component_def Let_def rbind_Inr lm assms(2) [symmetric] split: if_splits)
  note kd = assms(9) [unfolded e(2)]
  have nz: "\<not> disk_is_zero_block (env_empty_blocks env mirror_id) info" using hp(3) h(2) by simp
  note st = add_segment_table_ok [OF assms(1,3,4) s kd co(1,2) hp(1) nz co(3)]
  show ?thesis
    using st e(1) fill_holes [OF td(4) assms(5) co(3)] unfolding component_on_disk_def co(4) by blast
qed

lemma component_buffer_ok:
  assumes "table_disk info" and "info = dev_base dev mirror_id" and "appendable (bs_mfd bis)"
    and "on_platter platter (env_bootmap_map env) (dev_fs_block_size dev) info d"
    and "hole_ok platter info (env_empty_blocks env mirror_id)"
    and "dev_align dev mod phy_block_size info = 0" and "\<And>n. dev_fs_block_size dev = Some n \<Longrightarrow> n mod phy_block_size info = 0"
    and "fs_block_aligned_by_id c \<Longrightarrow> dev_fs_block_size dev \<noteq> None"
    and "\<not> (skip_prepare_device bis \<and> skip_prepare_blocklist bis mirror_id)" and "fst (bs_comp_reg bis c menu_idx) = 0" and "buffer \<noteq> []"
    and "add_component_buffer env dev bis buffer compdat c menu_idx mirror_id fid = Inr (bis', entry)"
    and "keeps_blocks (phy_block_size info) (fd_data (bs_mfd bis')) d"
  shows "\<exists>b. entry = create_component_entry (disk_blockptr_from_blocknum b info) (component_type_by_id c) compdat info fid \<and>
      component_on_disk platter info fid b (padded (phy_block_size info) buffer)"
    and "keeps_blocks (phy_block_size info) (fd_data (bs_mfd bis)) (fd_data (bs_mfd bis'))" and "appendable (bs_mfd bis')"
proof -
  let ?bs = "phy_block_size info" and ?io = "env_bootmap_map env" and ?fs = "dev_fs_block_size dev"
  note td = table_disk_size [OF assms(1)]
  have bs: "0 < ?bs" using td(4) by (simp add: disk_ok_def)
  define al where "al = (if fs_block_aligned_by_id c then (case ?fs of Some n \<Rightarrow> n | None \<Rightarrow> 1) else dev_align dev)"
  have al: "al mod ?bs = 0" using assms(6-8) by (auto simp: al_def split: option.splits)
  obtain mfd list off where w: "disk_write_block_buffer_align ?io (bs_mfd bis) False buffer ?fs al info = Inr (mfd, list, off)"
    "list \<noteq> []" and r: "write_segment_table env dev
      (register_list dev (set_comp_reg c menu_idx (off, length buffer) (bis\<lparr>bs_mfd := mfd\<rparr>)) list (length list) compdat c menu_idx mirror_id)
      compdat c menu_idx mirror_id fid = Inr (bis', entry)"
    using assms(9,10,12) by (auto simp: add_component_buffer_def add_component_buffer_base_def Let_def rbind_Inr al_def assms(2) [symmetric] split: if_splits)
  let ?b1 = "set_comp_reg c menu_idx (off, length buffer) (bis\<lparr>bs_mfd := mfd\<rparr>)"
  obtain k where k: "length list = block_count ?bs (length buffer)" "mapped ?io ?fs info k list" "appendable mfd"
    "keeps_blocks ?bs (fd_data (bs_mfd bis)) (fd_data mfd)" "block_count ?bs (length (fd_data mfd)) = k + length list"
    "\<forall>j < length list. file_block (fd_data mfd) ?bs (k + j) = file_block buffer ?bs j"
    using write_blocks_ok [OF td(4) assms(3) al, of ?io buffer ?fs _ mfd list off] w(1) assms(11)
    by (auto simp: disk_write_block_buffer_align_def block_count_def)
  have kp: "keeps_blocks ?bs (fd_data mfd) (fd_data (bs_mfd bis'))" and "appendable (bs_mfd bis')"
    using write_segment_table_keeps [OF _ _ r] assms(1,2) k(3) by simp_all
  then show "keeps_blocks ?bs (fd_data (bs_mfd bis)) (fd_data (bs_mfd bis'))" and "appendable (bs_mfd bis')"
    using keeps_blocks_trans [OF k(4)] by simp_all
  have kd: "keeps_blocks ?bs (fd_data mfd) d" by (rule keeps_blocks_trans [OF kp assms(13)])
  then have "k + length list \<le> block_count ?bs (length d)" using k(5) by (simp add: keeps_blocks_def)
  note mb = mapped_blocks [OF td(4) assms(4) k(2) this]
  have "map (file_block d ?bs) [k..<k + length list] = map (file_block buffer ?bs) [0..<length list]"
    using kd k(5,6) by (intro nth_equalityI) (auto simp: keeps_blocks_def)
  then have "block_data platter info (blocks info list) = padded ?bs buffer"
    using mb file_blocks_padded [OF bs k(1)] by simp
  then show "\<exists>b. entry = create_component_entry (disk_blockptr_from_blocknum b info) (component_type_by_id c) compdat info fid \<and>
      component_on_disk platter info fid b (padded ?bs buffer)"
    using register_on_disk [OF assms(1,2) _ assms(4,5) w(2) _ r assms(13)] mb k(3) by simp
qed

section \<open>Properties\<close>

text \<open>
  Menu entries whose files are missing: the first program table, which is built with details printed, leaves such an
  entry out, but the second one does not, and building it fails.
\<close>

theorem menu_programs_ignored:
  assumes "ipl_ignore (me_ipl e)" and "env_file env (ipl_image (me_ipl e)) = None" and "ipl_ramdisk (me_ipl e) = None"
    and "di_type (dev_base dev mirror_id) \<noteq> disk_type_scsi"
  shows "menu_programs env dev bis envblk add_files is_secure True mirror_id fid (e # es) i table =
      menu_programs env dev bis envblk add_files is_secure True mirror_id fid es (i + 1) table \<and>
    menu_programs env dev bis envblk add_files is_secure False mirror_id fid (e # es) i table = Inl ReadError"
  using assms by (simp_all add: add_ipl_program_def Let_def)

definition missing_entry :: menu_entry where
  "missing_entry = \<lparr>me_pos = 1, me_ipl = \<lparr>ipl_image = ''gone'', ipl_parmline = None, ipl_ramdisk = None, ipl_image_addr = 0x10000,
     ipl_parm_addr = 0, ipl_ramdisk_addr = 0, ipl_ignore = True, ipl_envblk_addr = 0, ipl_is_kdump = False\<rparr>, me_is_secure = SECURE_BOOT_AUTO\<rparr>"

theorem menu_programs_ignored_witness:
  "let env = \<lparr>env_file = (\<lambda>_. None), env_bootmap_map = \<lparr>premap_ok = True, fiemap_at = (\<lambda>_. NoExtent), fibmap_at = (\<lambda>_. None)\<rparr>,
         env_bootmap_on_device = True, env_empty_blocks = (\<lambda>_. zero_blockptr), env_secure_boot_supported = False, env_stage3_path = []\<rparr>;
       dev = \<lparr>dev_fs_block_size = Some 4096, dev_align = 4096,
         dev_base = (\<lambda>_. \<lparr>di_type = disk_type_eckd_cdl, phy_block_size = 4096, geo_heads = 15, geo_sectors = 12, geo_start = 2\<rparr>)\<rparr>;
       bis = \<lparr>bs_mfd = \<lparr>fd_data = [], fd_pos = 0, fd_room = 0, simulate_write = False\<rparr>, skip_prepare_device = False, skip_prepare_blocklist = (\<lambda>_. False),
         bs_components = (\<lambda>_ _ _. \<lparr>pc_loc_addr = 0, pc_loc_size = 0, pc_list = [], pc_count = 0\<rparr>), bs_comp_reg = (\<lambda>_ _. (0, 0)), bs_tables = (\<lambda>_ _. zero_blockptr)\<rparr>
   in menu_programs env dev bis [] False SECURE_BOOT_AUTO True 0 BLKPTR_FORMAT_ID [missing_entry] 0 [] = Inr (bis, []) \<and>
      menu_programs env dev bis [] False SECURE_BOOT_AUTO False 0 LEGACY_BLKPTR_FORMAT_ID [missing_entry] 0 [] = Inl ReadError"
  unfolding Let_def
  by (intro conjI; subst menu_programs_ignored [THEN conjunct1] menu_programs_ignored [THEN conjunct2]) (simp_all add: missing_entry_def)

end
