(* ===== verification/Boot_Stage2.thy ===== *)
theory Boot_Stage2
  imports Boot_Cio Zipl_Bootmap
begin

text \<open>
  The loader of stage 2: reading of blocks with channel programs (\<^verbatim>\<open>src/zipl/boot/eckd2.c\<close> and
  \<^verbatim>\<open>src/zipl/boot/fba2.c\<close>) and loading of the components of a program (\<^verbatim>\<open>src/zipl/boot/stage2.c\<close>).

  The state is a \<open>loader\<close>: the memory, a function from addresses to bytes, the heap of \<open>Boot_Libc\<close>, the initial path mask
  of \<open>Boot_Cio\<close> and the state of the device. Block pointers and component entries are read from the memory; the low core
  and the stack are not part of it. Programs are started by \<open>start_io\<close>, with the instructions of the channel subsystem as
  parameter. Loops that depend on the contents of the disk may not end; not returning is \<open>None\<close>.

  Stage 2 is linked with one of two disk modules. The locale \<open>block_loader\<close> has the laws of a module: which pointers it
  loads, what it changes in memory, and that it returns its page. Inside the locale, chains of segment tables, components
  and whole programs are shown to be loaded completely. The theory \<open>Boot_Disks\<close> proves the laws for both modules.
\<close>

unbundle bit_operations_syntax

section \<open>Definitions\<close>

record 'x loader =
  ld_mem :: memory
  ld_heap :: heap
  ld_lpm :: nat
  ld_dev :: 'x

definition obind :: "('e + 'a) option \<Rightarrow> ('a \<Rightarrow> ('e + 'b) option) \<Rightarrow> ('e + 'b) option" where
  "obind r f = Option.bind r (\<lambda>x. case x of Inl e \<Rightarrow> Some (Inl e) | Inr y \<Rightarrow> f y)"

definition stage2_page :: "'x loader \<Rightarrow> c_fault + nat \<times> 'x loader" where
  "stage2_page s =
     rbind (get_zeroed_page (ld_heap s)) (\<lambda>(page, h).
       Inr (page, s\<lparr>ld_mem := mem_write (ld_mem s) page (replicate PAGE_SIZE 0), ld_heap := h\<rparr>))"

definition stage2_free :: "'x loader \<Rightarrow> nat \<Rightarrow> c_fault + 'x loader" where
  "stage2_free s page = rbind (free_page (ld_heap s) page) (\<lambda>h. Inr (s\<lparr>ld_heap := h\<rparr>))"

text \<open>
  A program is started with the cleared interruption response block. The functions of the modules are called with
  \<^verbatim>\<open>panic\<close> set, so that the result is always success.
\<close>

definition stage2_io :: "(memory \<times> 'x) css \<Rightarrow> ccw1 list \<Rightarrow> 'x loader \<Rightarrow> (c_fault + 'x loader) option" where
  "stage2_io hw prog s =
     obind (start_io hw prog True (ld_lpm s) \<lparr>scsw_cc = 0, scsw_stctl = 0, scsw_dstat = 0, scsw_cstat = 0\<rparr> (ld_mem s, ld_dev s))
       (\<lambda>(ok, lpm, irb, mem, x). Some (Inr (s\<lparr>ld_mem := mem, ld_lpm := lpm, ld_dev := x\<rparr>)))"

definition stage2_device :: "(memory \<times> 'x) css \<Rightarrow> bool \<Rightarrow> 'x loader \<Rightarrow> c_fault + 'x loader" where
  "stage2_device hw enabled s =
     rbind (set_device hw enabled (ld_lpm s) \<lparr>scsw_cc = 0, scsw_stctl = 0, scsw_dstat = 0, scsw_cstat = 0\<rparr> (ld_mem s, ld_dev s))
       (\<lambda>(lpm, irb, mem, x). Inr (s\<lparr>ld_mem := mem, ld_lpm := lpm, ld_dev := x\<rparr>))"

subsection \<open>ECKD disks\<close>

definition eckd_extract_length :: "memory \<Rightarrow> nat \<Rightarrow> nat" where
  "eckd_extract_length mem a = read_be mem (a + 5) 2 * (read_be mem (a + 7) 1 + 1)"

definition eckd_is_zero_block :: "memory \<Rightarrow> nat \<Rightarrow> bool" where
  "eckd_is_zero_block mem a \<longleftrightarrow> read_be mem a 2 \<noteq> 0 \<or> read_be mem (a + 2) 2 \<noteq> 0 \<or> read_be mem (a + 4) 1 \<noteq> 0"

text \<open>The loop that appends the read CCWs; \<open>record_number\<close> more ones follow the next.\<close>

fun read_ccws :: "nat \<Rightarrow> nat \<Rightarrow> nat \<Rightarrow> ccw1 list" where
  "read_ccws record_size load_addr 0 =
     [\<lparr>cmd_code = 0x86, ccw_flags = CCW_FLAG_SLI, ccw_count = record_size, ccw_cda = DataAt (load_addr mod 2 ^ 32)\<rparr>]"
| "read_ccws record_size load_addr (Suc record_number) =
     \<lparr>cmd_code = 0x86, ccw_flags = CCW_FLAG_SLI OR CCW_FLAG_CC, ccw_count = record_size, ccw_cda = DataAt (load_addr mod 2 ^ 32)\<rparr> #
     read_ccws record_size (load_addr + record_size) record_number"

definition eckd_program :: "nat \<Rightarrow> nat \<Rightarrow> nat \<Rightarrow> nat \<Rightarrow> nat \<Rightarrow> nat \<Rightarrow> ccw1 list" where
  "eckd_program cyl head sec record_size load_addr record_number =
     [\<lparr>cmd_code = 0x07, ccw_flags = CCW_FLAG_CC OR CCW_FLAG_SLI, ccw_count = 6, ccw_cda = SeekArg cyl head\<rparr>,
      \<lparr>cmd_code = 0x31, ccw_flags = CCW_FLAG_CC OR CCW_FLAG_SLI, ccw_count = 5, ccw_cda = SearchArg cyl head sec\<rparr>,
      \<lparr>cmd_code = 0x08, ccw_flags = 0, ccw_count = 0, ccw_cda = ToCcw 1\<rparr>] @
     read_ccws record_size load_addr record_number"

definition eckd_load_direct :: "(memory \<times> 'x) css \<Rightarrow> 'x loader \<Rightarrow> nat \<Rightarrow> nat \<Rightarrow> (c_fault + nat \<times> 'x loader) option" where
  "eckd_load_direct hw s blockptr load_addr =
     obind (Some (stage2_page s)) (\<lambda>(ccws, s).
       let mem = ld_mem s;
           record_number = read_be mem (blockptr + 7) 1;
           record_size = read_be mem (blockptr + 5) 2;
           prog = eckd_program (read_be mem blockptr 2) (read_be mem (blockptr + 2) 2) (read_be mem (blockptr + 4) 1)
                    record_size load_addr record_number
       in if PAGE_SIZE < 8 * length prog then Some (Inl BufferOverrun)
          else
            obind (stage2_io hw prog s) (\<lambda>s.
            obind (Some (stage2_free s ccws)) (\<lambda>s.
              Some (Inr (load_addr + record_size * (record_number + 1), s)))))"

subsection \<open>FBA disks\<close>

text \<open>The length fits an \<^verbatim>\<open>int\<close> because blocks have at most 4096 bytes.\<close>

definition fba_extract_length :: "memory \<Rightarrow> nat \<Rightarrow> nat" where
  "fba_extract_length mem a = read_be mem (a + 8) 2 * (read_be mem (a + 10) 2 + 1)"

definition fba_is_zero_block :: "memory \<Rightarrow> nat \<Rightarrow> bool" where
  "fba_is_zero_block mem a \<longleftrightarrow> read_be mem a 8 mod 2 ^ 32 \<noteq> 0"

abbreviation MAX_BLOCKCT :: nat where
  "MAX_BLOCKCT \<equiv> 128"

text \<open>One locate and one read CCW for each block.\<close>

fun fba_ccws :: "nat \<Rightarrow> nat \<Rightarrow> nat \<Rightarrow> nat \<Rightarrow> ccw1 list" where
  "fba_ccws record_size load_addr lo_counter 0 =
     [\<lparr>cmd_code = 0x43, ccw_flags = CCW_FLAG_CC, ccw_count = 8, ccw_cda = LocateArg lo_counter 1\<rparr>,
      \<lparr>cmd_code = 0x42, ccw_flags = 0, ccw_count = record_size, ccw_cda = DataAt (load_addr mod 2 ^ 32)\<rparr>]"
| "fba_ccws record_size load_addr lo_counter (Suc record_number) =
     [\<lparr>cmd_code = 0x43, ccw_flags = CCW_FLAG_CC, ccw_count = 8, ccw_cda = LocateArg lo_counter 1\<rparr>,
      \<lparr>cmd_code = 0x42, ccw_flags = CCW_FLAG_CC, ccw_count = record_size, ccw_cda = DataAt (load_addr mod 2 ^ 32)\<rparr>] @
     fba_ccws record_size (load_addr + record_size) (lo_counter + 1) record_number"

definition fba_program :: "nat \<Rightarrow> nat \<Rightarrow> nat \<Rightarrow> nat \<Rightarrow> ccw1 list" where
  "fba_program blockno record_size load_addr record_number =
     \<lparr>cmd_code = 0x63, ccw_flags = CCW_FLAG_CC, ccw_count = 16,
      ccw_cda = ExtentArg record_size (blockno mod 2 ^ 32) record_number\<rparr> #
     fba_ccws record_size load_addr 0 record_number"

text \<open>
  One pass: the count and the number in the block pointer are updated before the program is started. The page
  has 16 bytes for the extent, 128 locate arguments of 8 bytes and the CCWs.
\<close>

definition fba_pass :: "(memory \<times> 'x) css \<Rightarrow> 'x loader \<Rightarrow> nat \<Rightarrow> nat \<Rightarrow> (c_fault + nat \<times> 'x loader) option" where
  "fba_pass hw s blockptr load_addr =
     obind (Some (stage2_page s)) (\<lambda>(page, s).
       let mem = ld_mem s;
           blockno = read_be mem blockptr 8;
           record_size = read_be mem (blockptr + 8) 2;
           blockct = read_be mem (blockptr + 10) 2;
           record_number = (if blockct \<ge> MAX_BLOCKCT then MAX_BLOCKCT - 1 else blockct);
           rest = (if blockct \<ge> MAX_BLOCKCT then blockct - MAX_BLOCKCT else blockct - record_number);
           mem = mem_write mem (blockptr + 10) (be 2 rest);
           mem = mem_write mem blockptr (be 8 (blockno + record_number + 1));
           prog = fba_program blockno record_size load_addr record_number
       in if PAGE_SIZE < 16 + 128 * 8 + 8 * length prog then Some (Inl BufferOverrun)
          else
            obind (stage2_io hw prog (s\<lparr>ld_mem := mem\<rparr>)) (\<lambda>s.
            obind (Some (stage2_free s page)) (\<lambda>s.
              Some (Inr (load_addr + record_size * (record_number + 1), s)))))"

partial_function (option) fba_load_direct ::
    "(memory \<times> 'x) css \<Rightarrow> 'x loader \<Rightarrow> nat \<Rightarrow> nat \<Rightarrow> (c_fault + nat \<times> 'x loader) option" where
  "fba_load_direct hw s blockptr load_addr =
     Option.bind (fba_pass hw s blockptr load_addr) (\<lambda>r. case r of
        Inl e \<Rightarrow> Some (Inl e)
      | Inr (load_addr, s) \<Rightarrow>
          if read_be (ld_mem s) (blockptr + 10) 2 > 0 then fba_load_direct hw s blockptr load_addr
          else Some (Inr (load_addr, s)))"

subsection \<open>Block lists and programs\<close>

record 'x disk_module =
  extract_length :: "memory \<Rightarrow> nat \<Rightarrow> nat"
  is_zero_block :: "memory \<Rightarrow> nat \<Rightarrow> bool"
  load_direct :: "'x loader \<Rightarrow> nat \<Rightarrow> nat \<Rightarrow> (c_fault + nat \<times> 'x loader) option"

definition eckd2 :: "(memory \<times> 'x) css \<Rightarrow> 'x disk_module" where
  "eckd2 hw = \<lparr>extract_length = eckd_extract_length, is_zero_block = eckd_is_zero_block, load_direct = eckd_load_direct hw\<rparr>"

definition fba2 :: "(memory \<times> 'x) css \<Rightarrow> 'x disk_module" where
  "fba2 hw = \<lparr>extract_length = fba_extract_length, is_zero_block = fba_is_zero_block, load_direct = fba_load_direct hw\<rparr>"

definition is_null_descriptor :: "memory \<Rightarrow> nat \<Rightarrow> bool" where
  "is_null_descriptor mem a \<longleftrightarrow> read_be mem a 8 = 0"

text \<open>
  The inner loop over the descriptors of a table. The flag is true when a null descriptor ended it; despite
  its name, \<^verbatim>\<open>is_zero_block\<close> is true for blocks other than zero.
\<close>

fun process_descr ::
    "'x disk_module \<Rightarrow> 'x loader \<Rightarrow> nat \<Rightarrow> nat \<Rightarrow> nat \<Rightarrow> (c_fault + bool \<times> nat \<times> nat \<times> 'x loader) option" where
  "process_descr m s indirect_blocks load_address 0 = Some (Inr (False, indirect_blocks, load_address, s))"
| "process_descr m s indirect_blocks load_address (Suc nr_descr) =
     (if is_null_descriptor (ld_mem s) indirect_blocks then Some (Inr (True, indirect_blocks, load_address, s))
      else if \<not> is_zero_block m (ld_mem s) indirect_blocks then
        (let len = extract_length m (ld_mem s) indirect_blocks
         in process_descr m (s\<lparr>ld_mem := mem_write (ld_mem s) load_address (replicate len 0)\<rparr>)
              (indirect_blocks + 16) (load_address + len) nr_descr)
      else
        obind (load_direct m s indirect_blocks load_address) (\<lambda>(load_address, s).
          process_descr m s (indirect_blocks + 16) load_address nr_descr))"

partial_function (option) blocklist_loop ::
    "'x disk_module \<Rightarrow> 'x loader \<Rightarrow> nat \<Rightarrow> nat \<Rightarrow> nat \<Rightarrow> (c_fault + nat \<times> 'x loader) option" where
  "blocklist_loop m s indirect_blockspace start_addr load_address =
     Option.bind
       (obind (load_direct m s start_addr indirect_blockspace) (\<lambda>(_, s').
          process_descr m s' indirect_blockspace load_address (extract_length m (ld_mem s) start_addr div 16 - 1)))
       (\<lambda>r. case r of
          Inl e \<Rightarrow> Some (Inl e)
        | Inr (stop, indirect_blocks, load_address, s) \<Rightarrow>
            if stop \<or> is_null_descriptor (ld_mem s) indirect_blocks then Some (Inr (load_address, s))
            else blocklist_loop m s indirect_blockspace indirect_blocks load_address)"

definition load_blocklist :: "'x disk_module \<Rightarrow> 'x loader \<Rightarrow> nat \<Rightarrow> nat \<Rightarrow> (c_fault + nat \<times> 'x loader) option" where
  "load_blocklist m s descriptor load_address =
     obind (Some (stage2_page s)) (\<lambda>(indirect_blockspace, s).
     obind (blocklist_loop m s indirect_blockspace descriptor load_address) (\<lambda>(load_address, s).
     obind (Some (stage2_free s indirect_blockspace)) (\<lambda>s.
       Some (Inr (load_address, s)))))"

definition entry_type :: "memory \<Rightarrow> nat \<Rightarrow> u8" where
  "entry_type mem entry = mem (entry + 23)"

definition entry_compdat :: "memory \<Rightarrow> nat \<Rightarrow> nat" where
  "entry_compdat mem entry = read_be mem (entry + 24) 8"

partial_function (option) load_components :: "'x disk_module \<Rightarrow> 'x loader \<Rightarrow> nat \<Rightarrow> (c_fault + nat \<times> 'x loader) option" where
  "load_components m s entry =
     (if entry_type (ld_mem s) entry = component_type_code COMPONENT_TYPE_SIGNATURE then load_components m s (entry + 32)
      else if entry_type (ld_mem s) entry = component_type_code COMPONENT_TYPE_LOAD then
        Option.bind (load_blocklist m s entry (entry_compdat (ld_mem s) entry AND 0xFFFFFFFF)) (\<lambda>r. case r of
          Inl e \<Rightarrow> Some (Inl e)
        | Inr (_, s) \<Rightarrow> load_components m s (entry + 32))
      else if entry_type (ld_mem s) entry \<noteq> component_type_code COMPONENT_TYPE_EXECUTE then Some (Inl Stopped)
      else Some (Inr (entry, s)))"

text \<open>The part of \<^verbatim>\<open>start\<close> behind the menu, with the PSW that is executed.\<close>

definition stage2_load :: "'x disk_module \<Rightarrow> 'x loader \<Rightarrow> nat \<Rightarrow> nat \<Rightarrow> (c_fault + nat \<times> 'x loader) option" where
  "stage2_load m s stage2_desc config_nr =
     obind (Some (stage2_page s)) (\<lambda>(load_page, s).
     obind (load_direct m s stage2_desc load_page) (\<lambda>(_, s).
     obind (load_direct m s (load_page + 16 + 16 * config_nr) load_page) (\<lambda>(_, s).
     obind (load_components m s (load_page + 32)) (\<lambda>(entry, s).
       let load_psw = entry_compdat (ld_mem s) entry
       in obind (Some (stage2_free s load_page)) (\<lambda>s. Some (Inr (load_psw, s)))))))"

definition stage2_start ::
    "(memory \<times> 'x) css \<Rightarrow> 'x disk_module \<Rightarrow> 'x loader \<Rightarrow> nat \<Rightarrow> nat \<Rightarrow> (c_fault + nat \<times> 'x loader) option" where
  "stage2_start hw m s stage2_desc config_nr =
     obind (Some (stage2_device hw True s)) (\<lambda>s.
     obind (stage2_load m s stage2_desc config_nr) (\<lambda>(load_psw, s).
     obind (Some (stage2_device hw False s)) (\<lambda>s.
       Some (Inr (load_psw, s)))))"

section \<open>Lemmas on pages\<close>

definition all_pages :: "heap \<Rightarrow> nat set" where
  "all_pages h = {heap_start h + i * PAGE_SIZE | i. i < page_count h}"

definition free_pages :: "heap \<Rightarrow> nat set" where
  "free_pages h = all_pages h - pages_used h"

definition page_area :: "nat set \<Rightarrow> nat set" where
  "page_area P = (\<Union>a\<in>P. {a..<a + PAGE_SIZE})"

definition same_heap :: "heap \<Rightarrow> heap \<Rightarrow> bool" where
  "same_heap h h' \<longleftrightarrow> heap_ok h' \<and> all_pages h' = all_pages h \<and> pages_used h' = pages_used h"

lemma same_heap_free: "same_heap h h' \<Longrightarrow> free_pages h' = free_pages h"
  by (simp add: same_heap_def free_pages_def)

lemma same_heap_trans: "same_heap h h' \<Longrightarrow> same_heap h' h'' \<Longrightarrow> same_heap h h''"
  by (simp add: same_heap_def)

lemma page_area_simps [simp]:
  "page_area (insert a P) = {a..<a + PAGE_SIZE} \<union> page_area P" "page_area {} = {}"
  by (simp_all add: page_area_def)

lemma page_area_mono: "P \<subseteq> Q \<Longrightarrow> page_area P \<subseteq> page_area Q"
  by (auto simp: page_area_def)

lemma pages_disjoint:
  assumes "a \<in> all_pages h" and "b \<in> all_pages h" and "a \<noteq> b"
  shows "{a..<a + PAGE_SIZE} \<inter> {b..<b + PAGE_SIZE} = {}"
proof -
  obtain i j where ij: "a = heap_start h + i * PAGE_SIZE" "b = heap_start h + j * PAGE_SIZE"
    using assms by (auto simp: all_pages_def)
  then have "i < j \<or> j < i" using assms(3) by (metis linorder_neqE_nat)
  then show ?thesis using ij by auto
qed

lemma page_not_free_area: "a \<in> all_pages h \<Longrightarrow> P \<subseteq> all_pages h \<Longrightarrow> a \<notin> P \<Longrightarrow> {a..<a + PAGE_SIZE} \<inter> page_area P = {}"
  using pages_disjoint [of a h] by (fastforce simp: page_area_def)

lemma stage2_page_ok:
  assumes "heap_ok (ld_heap s)" and "free_pages (ld_heap s) \<noteq> {}"
  obtains page h where "stage2_page s = Inr (page, s\<lparr>ld_mem := mem_write (ld_mem s) page (replicate PAGE_SIZE 0), ld_heap := h\<rparr>)"
    "page \<in> free_pages (ld_heap s)" "heap_ok h" "all_pages h = all_pages (ld_heap s)" "pages_used h = insert page (pages_used (ld_heap s))"
  using assms(1)
proof (cases rule: get_zeroed_page_cases)
  case full
  then have "free_pages (ld_heap s) = {}" by (auto simp: free_pages_def all_pages_def pages_used_def)
  then show thesis using assms(2) by simp
next
  case (page j)
  note fr = boot_pages.get_fresh [OF assms(1) page(3)]
  have "all_pages ((ld_heap s)\<lparr>heap_mem := (heap_mem (ld_heap s))[j := replicate PAGE_SIZE NUL],
      mem_page_alloc_vec := (mem_page_alloc_vec (ld_heap s))[j := True]\<rparr>) = all_pages (ld_heap s)"
    by (simp add: all_pages_def page_count_def)
  moreover have "heap_start (ld_heap s) + j * PAGE_SIZE \<in> all_pages (ld_heap s)" using page(1) by (auto simp: all_pages_def)
  ultimately show thesis
    using that [OF _ _ fr [THEN conjunct1]] fr page(3) by (simp add: stage2_page_def free_pages_def)
qed

lemma free_page_bounds: "free_page h a = Inr h' \<Longrightarrow> all_pages h' = all_pages h"
  by (auto simp: free_page_def all_pages_def page_count_def Let_def split: if_splits)

lemma stage2_free_ok:
  assumes "heap_ok (ld_heap s)" and "page \<in> pages_used (ld_heap s)"
  obtains h where "stage2_free s page = Inr (s\<lparr>ld_heap := h\<rparr>)" "heap_ok h" "all_pages h = all_pages (ld_heap s)"
    "pages_used h = pages_used (ld_heap s) - {page}"
proof -
  obtain h where h: "free_page (ld_heap s) page = Inr h" "heap_ok h" "pages_used h = pages_used (ld_heap s) - {page}"
    using boot_pages.free_used [OF assms] by blast
  then show thesis using that [of h] free_page_bounds [OF h(1)] by (simp add: stage2_free_def)
qed

text \<open>A page that is allocated for the time of an operation.\<close>

lemma page_around:
  assumes "heap_ok h" and "page \<in> free_pages h" and "heap_ok h1" and "all_pages h1 = all_pages h"
    and "pages_used h1 = insert page (pages_used h)" and "same_heap h1 (ld_heap s)"
  obtains h2 where "stage2_free s page = Inr (s\<lparr>ld_heap := h2\<rparr>)" "same_heap h h2"
proof -
  have "heap_ok (ld_heap s)" "page \<in> pages_used (ld_heap s)" using assms(5,6) by (auto simp: same_heap_def)
  then obtain h2 where "stage2_free s page = Inr (s\<lparr>ld_heap := h2\<rparr>)" "heap_ok h2" "all_pages h2 = all_pages (ld_heap s)"
    "pages_used h2 = pages_used (ld_heap s) - {page}"
    by (rule stage2_free_ok)
  moreover have "page \<notin> pages_used h" using assms(2) by (simp add: free_pages_def)
  ultimately show thesis using that [of h2] assms(4-6) by (auto simp: same_heap_def)
qed

section \<open>Loading of segment tables\<close>

abbreviation enc :: "disk_info \<Rightarrow> disk_blockptr \<Rightarrow> u8 list" where
  "enc info p \<equiv> blockptr_bytes p info LEGACY_BLKPTR_FORMAT_ID"

definition ptr_data :: "platter \<Rightarrow> disk_info \<Rightarrow> disk_blockptr \<Rightarrow> u8 list" where
  "ptr_data platter info p = concat (map platter (ptr_blocks info p))"

definition ptrs_data :: "platter \<Rightarrow> disk_info \<Rightarrow> disk_blockptr list \<Rightarrow> u8 list" where
  "ptrs_data platter info ps = concat (map platter (blocks info ps))"

lemma ptrs_data_simps [simp]:
  "ptrs_data platter info [] = []" "ptrs_data platter info (p # ps) = ptr_data platter info p @ ptrs_data platter info ps"
  "ptrs_data platter info (ps @ qs) = ptrs_data platter info ps @ ptrs_data platter info qs"
  by (simp_all add: ptrs_data_def ptr_data_def)

text \<open>The areas of a load: the block pointer at \<open>a\<close> and \<open>n\<close> bytes from \<open>addr\<close>, both outside of free pages.\<close>

definition apart :: "'x loader \<Rightarrow> nat \<Rightarrow> nat \<Rightarrow> bool" where
  "apart s addr n \<longleftrightarrow> {addr..<addr + n} \<inter> page_area (free_pages (ld_heap s)) = {} \<and> addr + n \<le> 2 ^ 31"

definition loaded :: "('x \<Rightarrow> bool) \<Rightarrow> 'x loader \<Rightarrow> 'x loader \<Rightarrow> nat set \<Rightarrow> nat \<Rightarrow> u8 list \<Rightarrow> bool" where
  "loaded dev_ok s s' A addr bytes \<longleftrightarrow> same_heap (ld_heap s) (ld_heap s') \<and> dev_ok (ld_dev s') \<and>
     (\<forall>x. x \<notin> page_area (free_pages (ld_heap s)) \<longrightarrow> x \<in> {addr..<addr + length bytes} \<or> x \<notin> A \<longrightarrow>
       ld_mem s' x = mem_write (ld_mem s) addr bytes x)"

lemma loaded_at:
  assumes "loaded dev_ok s s' A addr bytes" and "x \<notin> page_area (free_pages (ld_heap s))"
    and "x \<in> {addr..<addr + length bytes} \<or> x \<notin> A"
  shows "ld_mem s' x = mem_write (ld_mem s) addr bytes x"
  using assms unfolding loaded_def by blast

lemma disjoint_part: "A \<inter> P = {} \<Longrightarrow> B \<subseteq> A \<Longrightarrow> B \<inter> P = {}"
  by blast

lemma mem_bytes_write_disjoint:
  assumes "{b..<b + n} \<inter> {a..<a + length bs} = {}"
  shows "mem_bytes (mem_write mem a bs) b n = mem_bytes mem b n"
proof (rule mem_bytes_cong)
  fix x assume "b \<le> x" "x < b + n"
  then have "x \<notin> {a..<a + length bs}" using assms by (metis IntI atLeastLessThan_iff empty_iff)
  then show "mem_write mem a bs x = mem x" by (auto simp: mem_write_def)
qed

lemma loaded_frame:
  assumes "loaded dev_ok s s' A addr bytes" and "{b..<b + n} \<inter> page_area (free_pages (ld_heap s)) = {}"
    and "{b..<b + n} \<inter> {addr..<addr + length bytes} = {}" and "{b..<b + n} \<inter> A = {}"
  shows "mem_bytes (ld_mem s') b n = mem_bytes (ld_mem s) b n"
proof (rule mem_bytes_cong)
  fix x assume "b \<le> x" "x < b + n"
  then have x: "x \<in> {b..<b + n}" by simp
  then have "ld_mem s' x = mem_write (ld_mem s) addr bytes x" using assms(2,4) by (intro loaded_at [OF assms(1)]) blast+
  moreover have "x < addr \<or> addr + length bytes \<le> x" using x assms(3) by auto
  ultimately show "ld_mem s' x = ld_mem s x" by (simp add: mem_write_outside)
qed

lemma loaded_data:
  assumes "loaded dev_ok s s' A addr bytes" and "{addr..<addr + length bytes} \<inter> page_area (free_pages (ld_heap s)) = {}"
  shows "mem_bytes (ld_mem s') addr (length bytes) = bytes"
proof (rule mem_bytes_eq)
  fix i assume i: "i < length bytes"
  then have "addr + i \<in> {addr..<addr + length bytes}" by simp
  then have "ld_mem s' (addr + i) = mem_write (ld_mem s) addr bytes (addr + i)"
    using assms(2) by (intro loaded_at [OF assms(1)]) blast+
  then show "ld_mem s' (addr + i) = bytes ! i" using i by (simp add: mem_write_def)
qed simp

definition loader_ok :: "('x \<Rightarrow> bool) \<Rightarrow> 'x loader \<Rightarrow> bool" where
  "loader_ok dev_ok s \<longleftrightarrow> heap_ok (ld_heap s) \<and> dev_ok (ld_dev s)"

lemma loaded_refl: "loader_ok dev_ok s \<Longrightarrow> loaded dev_ok s s A addr []"
  by (simp add: loaded_def same_heap_def loader_ok_def)

lemma loaded_trans:
  assumes "loaded dev_ok s s1 A addr xs" and "loaded dev_ok s1 s2 B (addr + length xs) ys" and "B \<inter> {addr..<addr + length xs} = {}"
  shows "loaded dev_ok s s2 (A \<union> B) addr (xs @ ys)"
proof -
  have fr: "free_pages (ld_heap s1) = free_pages (ld_heap s)" using assms(1) by (simp add: loaded_def same_heap_free)
  have "ld_mem s2 x = mem_write (ld_mem s) addr (xs @ ys) x"
    if x: "x \<notin> page_area (free_pages (ld_heap s))" "x \<in> {addr..<addr + length (xs @ ys)} \<or> x \<notin> A \<union> B" for x
  proof -
    have 2: "ld_mem s2 x = mem_write (ld_mem s1) (addr + length xs) ys x"
      using assms(2,3) x fr unfolding loaded_def by (metis IntI UnI2 add.assoc atLeastLessThan_iff empty_iff length_append linorder_not_less)
    show ?thesis
    proof (cases "x \<in> {addr + length xs..<addr + length xs + length ys}")
      case True
      then show ?thesis using 2 by (auto simp: mem_write_def nth_append)
    next
      case False
      then have "ld_mem s2 x = ld_mem s1 x" using 2 by (auto simp: mem_write_def)
      moreover have "x \<in> {addr..<addr + length xs} \<or> x \<notin> A" using x(2) False by auto
      then have "ld_mem s1 x = mem_write (ld_mem s) addr xs x" by (rule loaded_at [OF assms(1) x(1)])
      ultimately show ?thesis using False by (auto simp: mem_write_def nth_append)
    qed
  qed
  then show ?thesis using assms(1,2) same_heap_trans by (auto simp: loaded_def)
qed

lemma loaded_mono: "loaded dev_ok s s' A addr bytes \<Longrightarrow> A \<subseteq> B \<Longrightarrow> loaded dev_ok s s' B addr bytes"
  by (auto simp: loaded_def)

lemma loaded_inside:
  assumes "loaded dev_ok s s' A addr bytes" and "A \<subseteq> B" and "{addr..<addr + length bytes} \<subseteq> B"
  shows "loaded dev_ok s s' B a []"
proof -
  have "ld_mem s' x = ld_mem s x" if "x \<notin> page_area (free_pages (ld_heap s))" "x \<notin> B" for x
  proof -
    have "x \<notin> A" "x \<notin> {addr..<addr + length bytes}" using assms(2,3) that(2) by blast+
    moreover have "ld_mem s' x = mem_write (ld_mem s) addr bytes x" using loaded_at [OF assms(1) that(1)] \<open>x \<notin> A\<close> by simp
    ultimately show ?thesis by (auto simp: mem_write_def)
  qed
  then show ?thesis using assms(1) by (simp add: loaded_def mem_write_Nil)
qed

definition low_heap :: "heap \<Rightarrow> bool" where
  "low_heap h \<longleftrightarrow> (\<forall>page \<in> all_pages h. page + PAGE_SIZE \<le> 2 ^ 31)"

lemma used_page_apart: "page \<in> all_pages h \<Longrightarrow> page \<in> pages_used h \<Longrightarrow> {page..<page + PAGE_SIZE} \<inter> page_area (free_pages h) = {}"
  by (rule page_not_free_area) (auto simp: free_pages_def)

lemma loaded_keeps:
  assumes "loaded dev_ok s s' A addr bytes"
  shows "loader_ok dev_ok s'" and "all_pages (ld_heap s') = all_pages (ld_heap s)" and "pages_used (ld_heap s') = pages_used (ld_heap s)"
    and "free_pages (ld_heap s') = free_pages (ld_heap s)" and "low_heap (ld_heap s') = low_heap (ld_heap s)"
  using assms by (simp_all add: loaded_def same_heap_def free_pages_def low_heap_def loader_ok_def)

lemma apart_split:
  assumes "apart s a (m + n)"
  shows "apart s a m" and "apart s (a + m) n"
  using assms by (auto simp: apart_def elim!: disjoint_part)

lemma apart_cong: "free_pages (ld_heap s') = free_pages (ld_heap s) \<Longrightarrow> apart s' a n = apart s a n"
  by (simp add: apart_def)

lemma disjoint_split:
  fixes a m n :: nat
  assumes "A \<inter> {a..<a + (m + n)} = {}"
  shows "A \<inter> {a..<a + m} = {}" and "A \<inter> {a + m..<a + m + n} = {}"
proof -
  have "{a..<a + m} \<subseteq> {a..<a + (m + n)}" "{a + m..<a + m + n} \<subseteq> {a..<a + (m + n)}" by auto
  then show "A \<inter> {a..<a + m} = {}" "A \<inter> {a + m..<a + m + n} = {}" using assms by blast+
qed

lemma be_value_zero: "be_value bs = 0 \<longleftrightarrow> bs = replicate (length bs) 0"
  by (induction bs) (auto simp: unat_eq_0)

lemma not_null:
  assumes "disk_ok info" and "ptr_ok info p" and "\<not> disk_is_zero_block p info" and "mem_bytes mem a 16 = enc info p"
  shows "\<not> is_null_descriptor mem a"
proof
  assume "is_null_descriptor mem a"
  then have z: "take 8 (enc info p) = replicate 8 0"
    using mem_bytes_sub [OF assms(4), of 0 8] be_value_zero [of "mem_bytes mem a 8"] by (simp add: is_null_descriptor_def read_be_value)
  show False
  proof (cases "disk_type_is_eckd (di_type info)")
    case True
    then have "take 1 (drop 4 (take 8 (enc info p))) = be 1 (bp_sec p)"
      using assms(1) by (simp add: blockptr_bytes_def disk_ok_def)
    moreover have "be 1 (bp_sec p) \<noteq> replicate 1 0"
      using True assms by (intro be_not_zero) (auto simp: ptr_ok_def disk_ok_def)
    ultimately show ?thesis unfolding z by simp
  next
    case False
    then have "take 8 (enc info p) = be 8 (bp_block p)" using assms(1) by (simp add: blockptr_bytes_def disk_ok_def)
    moreover have "be 8 (bp_block p) \<noteq> replicate 8 0"
      using False assms block_limit_le [of info] by (intro be_not_zero) (auto simp: ptr_ok_def zero_block_iff)
    ultimately show ?thesis using z by simp
  qed
qed

lemma null_zeros: "mem_bytes mem a 16 = replicate 16 0 \<Longrightarrow> is_null_descriptor mem a"
  using mem_bytes_sub [of mem a 16 "replicate 16 0" 0 8] be_value_zero [of "mem_bytes mem a 8"]
  by (simp add: is_null_descriptor_def read_be_value)

text \<open>A page is taken for the time of an operation: what the operation can rely on, and what holds behind it.\<close>

definition takes_page :: "'x loader \<Rightarrow> nat \<Rightarrow> 'x loader \<Rightarrow> bool" where
  "takes_page s page s0 \<longleftrightarrow> stage2_page s = Inr (page, s0) \<and> page \<in> free_pages (ld_heap s) \<and> heap_ok (ld_heap s0) \<and>
     s0 = s\<lparr>ld_mem := mem_write (ld_mem s) page (replicate PAGE_SIZE 0), ld_heap := ld_heap s0\<rparr> \<and>
     all_pages (ld_heap s0) = all_pages (ld_heap s) \<and> pages_used (ld_heap s0) = insert page (pages_used (ld_heap s))"

lemma page_taken:
  assumes "loader_ok dev_ok s" and "0 < card (free_pages (ld_heap s))"
  obtains page s0 where "takes_page s page s0"
proof -
  have ne: "heap_ok (ld_heap s)" "free_pages (ld_heap s) \<noteq> {}" using assms by (auto simp: loader_ok_def)
  show thesis
    by (rule stage2_page_ok [OF ne], rule that [of _ "s\<lparr>ld_mem := _, ld_heap := _\<rparr>"]) (simp add: takes_page_def)
qed

lemma takes_page_state:
  assumes "takes_page s page s0"
  shows "ld_mem s0 = mem_write (ld_mem s) page (replicate PAGE_SIZE 0)" and "ld_dev s0 = ld_dev s"
proof -
  have s0: "s0 = s\<lparr>ld_mem := mem_write (ld_mem s) page (replicate PAGE_SIZE 0), ld_heap := ld_heap s0\<rparr>"
    using assms by (simp add: takes_page_def)
  show "ld_mem s0 = mem_write (ld_mem s) page (replicate PAGE_SIZE 0)" by (subst s0) simp
  show "ld_dev s0 = ld_dev s" by (subst s0) simp
qed

lemma takes_page_facts:
  assumes "loader_ok dev_ok s" and "takes_page s page s0"
  shows "stage2_page s = Inr (page, s0)" and "loader_ok dev_ok s0" and "low_heap (ld_heap s0) = low_heap (ld_heap s)"
    and "page \<in> all_pages (ld_heap s0)" and "page \<in> pages_used (ld_heap s0)" and "card (free_pages (ld_heap s0)) = card (free_pages (ld_heap s)) - 1"
    and "page_area (free_pages (ld_heap s0)) \<subseteq> page_area (free_pages (ld_heap s))"
    and "{page..<page + PAGE_SIZE} \<subseteq> page_area (free_pages (ld_heap s))"
proof -
  have fr: "free_pages (ld_heap s0) = free_pages (ld_heap s) - {page}" using assms(2) by (auto simp: takes_page_def free_pages_def)
  have pg: "page \<in> free_pages (ld_heap s)" "all_pages (ld_heap s0) = all_pages (ld_heap s)"
    "pages_used (ld_heap s0) = insert page (pages_used (ld_heap s))" "heap_ok (ld_heap s0)"
    using assms(2) by (simp_all add: takes_page_def)
  show "stage2_page s = Inr (page, s0)" using assms(2) by (simp add: takes_page_def)
  show "loader_ok dev_ok s0" using assms(1) pg(4) takes_page_state [OF assms(2)] by (simp add: loader_ok_def)
  show "page_area (free_pages (ld_heap s0)) \<subseteq> page_area (free_pages (ld_heap s))" unfolding fr by (rule page_area_mono) auto
  show "card (free_pages (ld_heap s0)) = card (free_pages (ld_heap s)) - 1" unfolding fr using pg(1) by (simp add: card_Diff_singleton)
  show "{page..<page + PAGE_SIZE} \<subseteq> page_area (free_pages (ld_heap s))" using pg(1) by (auto simp: page_area_def)
  show "low_heap (ld_heap s0) = low_heap (ld_heap s)" using pg(2) by (simp add: low_heap_def)
  show "page \<in> all_pages (ld_heap s0)" "page \<in> pages_used (ld_heap s0)" using pg by (simp_all add: free_pages_def)
qed

lemma takes_page_keeps:
  assumes "takes_page s page s0" and "{b..<b + k} \<inter> page_area (free_pages (ld_heap s)) = {}"
  shows "mem_bytes (ld_mem s0) b k = mem_bytes (ld_mem s) b k"
proof -
  have "{page..<page + PAGE_SIZE} \<subseteq> page_area (free_pages (ld_heap s))" using assms(1) by (auto simp: takes_page_def page_area_def)
  then have "{b..<b + k} \<inter> {page..<page + PAGE_SIZE} = {}" using assms(2) by blast
  then show ?thesis unfolding takes_page_state(1) [OF assms(1)] by (intro mem_bytes_write_disjoint) simp
qed

lemma takes_page_freed:
  assumes "loader_ok dev_ok s" and "takes_page s page s0" and "same_heap (ld_heap s0) (ld_heap s1)"
  obtains h where "stage2_free s1 page = Inr (s1\<lparr>ld_heap := h\<rparr>)" "same_heap (ld_heap s) h"
  using page_around [of "ld_heap s" page "ld_heap s0" s1] assms by (auto simp: takes_page_def loader_ok_def)

lemma takes_page_loaded:
  assumes "loader_ok dev_ok s" and "takes_page s page s0" and "loaded dev_ok s0 s1 (A \<union> {page..<page + PAGE_SIZE}) addr bytes"
  obtains h where "stage2_free s1 page = Inr (s1\<lparr>ld_heap := h\<rparr>)" "loaded dev_ok s (s1\<lparr>ld_heap := h\<rparr>) A addr bytes"
proof -
  have "same_heap (ld_heap s0) (ld_heap s1)" using assms(3) by (simp add: loaded_def)
  then obtain h where h: "stage2_free s1 page = Inr (s1\<lparr>ld_heap := h\<rparr>)" "same_heap (ld_heap s) h"
    by (rule takes_page_freed [OF assms(1,2)])
  have "ld_mem s1 x = mem_write (ld_mem s) addr bytes x"
    if x: "x \<notin> page_area (free_pages (ld_heap s))" "x \<in> {addr..<addr + length bytes} \<or> x \<notin> A" for x
  proof -
    note pg = takes_page_facts(7,8) [OF assms(1,2)]
    have "x \<notin> {page..<page + PAGE_SIZE}" "x \<notin> page_area (free_pages (ld_heap s0))" using x(1) pg by blast+
    then show ?thesis using loaded_at [OF assms(3)] x(2) by (auto simp: mem_write_def takes_page_state [OF assms(2)])
  qed
  then have "loaded dev_ok s (s1\<lparr>ld_heap := h\<rparr>) A addr bytes" using h(2) assms(3) by (simp add: loaded_def)
  then show thesis by (rule that [OF h(1)])
qed

text \<open>
  A block may be loaded over the pointer to it. The module for FBA disks reads the count of the pointer once more
  when it has loaded the block, so that the bytes in its place have to be zero.
\<close>

definition overlay_ok :: "nat \<Rightarrow> nat \<Rightarrow> u8 list \<Rightarrow> bool" where
  "overlay_ok a addr bytes \<longleftrightarrow> {a..<a + 16} \<inter> {addr..<addr + length bytes} = {} \<or>
     addr \<le> a \<and> a + 16 \<le> addr + length bytes \<and> take 2 (drop (a - addr + 10) bytes) = [0, 0]"

text \<open>A component that stage 2 can load: the chain of its segment tables and the bytes it stands for.\<close>

definition stage2_component :: "platter \<Rightarrow> disk_info \<Rightarrow> (disk_blockptr \<Rightarrow> bool) \<Rightarrow> nat \<Rightarrow> u8 list \<Rightarrow> bool" where
  "stage2_component platter info loadable b bytes \<longleftrightarrow>
     b \<noteq> 0 \<and> blocknum_ok info b \<and>
     (\<exists>ps. seg_chain platter info LEGACY_BLKPTR_FORMAT_ID b ps \<and>
        (\<forall>p \<in> set ps. ptr_ok info p \<and> \<not> disk_is_zero_block p info \<and> loadable p) \<and> ptrs_data platter info ps = bytes)"

text \<open>An entry of a program: its type, the block of its first segment table, its bytes and its address.\<close>

type_synonym stage2_entry = "component_type \<times> nat \<times> u8 list \<times> nat"

fun entry_bytes :: "disk_info \<Rightarrow> stage2_entry \<Rightarrow> u8 list" where
  "entry_bytes info (t, b, bytes, a) = create_component_entry (disk_blockptr_from_blocknum b info) t a info LEGACY_BLKPTR_FORMAT_ID"

fun entry_area :: "stage2_entry \<Rightarrow> nat set" where
  "entry_area (t, b, bytes, a) = (if t = COMPONENT_TYPE_LOAD then {a..<a + length bytes} else {})"

fun entry_ok :: "platter \<Rightarrow> disk_info \<Rightarrow> (disk_blockptr \<Rightarrow> bool) \<Rightarrow> stage2_entry \<Rightarrow> bool" where
  "entry_ok platter info loadable (t, b, bytes, a) \<longleftrightarrow>
     t = COMPONENT_TYPE_SIGNATURE \<or> t = COMPONENT_TYPE_LOAD \<and> a + length bytes \<le> 2 ^ 31 \<and> stage2_component platter info loadable b bytes"

fun areas_apart :: "stage2_entry list \<Rightarrow> bool" where
  "areas_apart [] \<longleftrightarrow> True"
| "areas_apart (e # es) \<longleftrightarrow> entry_area e \<inter> (\<Union>e' \<in> set es. entry_area e') = {} \<and> areas_apart es"

fun entry_loaded :: "memory \<Rightarrow> stage2_entry \<Rightarrow> bool" where
  "entry_loaded mem (t, b, bytes, a) \<longleftrightarrow> (t = COMPONENT_TYPE_LOAD \<longrightarrow> mem_bytes mem a (length bytes) = bytes)"

lemma finite_free_pages: "finite (free_pages h)"
  by (simp add: free_pages_def all_pages_def)

lemma entry_type_of:
  assumes "disk_ok info" and "mem_bytes mem e 32 = create_component_entry p t a info LEGACY_BLKPTR_FORMAT_ID"
  shows "entry_type mem e = component_type_code t"
proof -
  have "take 1 (drop 23 (create_component_entry p t a info LEGACY_BLKPTR_FORMAT_ID)) = [component_type_code t]"
    by (cases t) (simp_all add: create_component_entry_def Let_def length_blockptr_bytes [OF assms(1)])
  then show ?thesis using mem_bytes_sub [OF assms(2), of 23 1] by (simp add: entry_type_def mem_bytes_def)
qed

lemma entry_compdat_of:
  assumes "disk_ok info" and "mem_bytes mem e 32 = create_component_entry p t a info LEGACY_BLKPTR_FORMAT_ID" and "a < 2 ^ 64"
  shows "entry_compdat mem e = a"
proof -
  have "take 8 (drop 24 (create_component_entry p t a info LEGACY_BLKPTR_FORMAT_ID)) = be 8 a"
    by (cases t) (simp_all add: create_component_entry_def Let_def length_blockptr_bytes [OF assms(1)])
  then show ?thesis using mem_bytes_sub [OF assms(2), of 24 8] assms(3) by (simp add: entry_compdat_def read_be_value be_value_be)
qed

lemma entry_pointer_of:
  assumes "disk_ok info" and "mem_bytes mem e 32 = create_component_entry p t a info LEGACY_BLKPTR_FORMAT_ID"
    and "t \<noteq> COMPONENT_TYPE_EXECUTE"
  shows "mem_bytes mem e 16 = enc info p"
proof -
  have "take 16 (create_component_entry p t a info LEGACY_BLKPTR_FORMAT_ID) = enc info p"
    using assms(3) by (cases t) (simp_all add: create_component_entry_def Let_def length_blockptr_bytes [OF assms(1)])
  then show ?thesis using mem_bytes_sub [OF assms(2), of 0 16] by simp
qed

lemma length_entry: "disk_ok info \<Longrightarrow> length (create_component_entry p t a info LEGACY_BLKPTR_FORMAT_ID) = 32"
  by (cases t) (simp_all add: create_component_entry_def Let_def length_blockptr_bytes)

lemma length_entries: "disk_ok info \<Longrightarrow> length (concat (map (entry_bytes info) es)) = 32 * length es"
  by (induction es) (auto simp: length_entry split: prod.splits)

lemma entry_loaded_cong:
  assumes "entry_loaded mem c" and "\<And>x. x \<in> entry_area c \<Longrightarrow> mem' x = mem x"
  shows "entry_loaded mem' c"
proof (cases c)
  case (fields t b bytes a)
  show ?thesis
  proof (cases "t = COMPONENT_TYPE_LOAD")
    case True
    have "mem_bytes mem' a (length bytes) = mem_bytes mem a (length bytes)"
      by (rule mem_bytes_cong, rule assms(2)) (use True fields in simp)
    then show ?thesis using assms(1) fields by simp
  qed (use fields in simp)
qed

text \<open>A program that stage 2 starts: its entry in the program table, its component table and its components.\<close>

definition stage2_program ::
    "platter \<Rightarrow> disk_info \<Rightarrow> (disk_blockptr \<Rightarrow> bool) \<Rightarrow> nat \<Rightarrow> nat \<Rightarrow> stage2_entry list \<Rightarrow> nat \<Rightarrow> bool" where
  "stage2_program platter info loadable t config_nr es psw \<longleftrightarrow>
     t \<noteq> 0 \<and> blocknum_ok info t \<and> 32 + 16 * config_nr \<le> phy_block_size info \<and> 32 * length es + 64 \<le> phy_block_size info \<and>
     psw < 2 ^ 64 \<and> (\<forall>c \<in> set es. entry_ok platter info loadable c) \<and> areas_apart es \<and>
     (\<exists>pr. pr \<noteq> 0 \<and> blocknum_ok info pr \<and>
        take 16 (drop (16 + 16 * config_nr) (platter t)) = enc info (disk_blockptr_from_blocknum pr info) \<and>
        take 2 (drop (26 + 16 * config_nr) (platter pr)) = [0, 0] \<and>
        take (32 * length es + 32) (drop 32 (platter pr)) =
          concat (map (entry_bytes info) es) @ create_component_entry zero_blockptr COMPONENT_TYPE_EXECUTE psw info LEGACY_BLKPTR_FORMAT_ID)"

locale block_loader =
  fixes m :: "'x disk_module" and dev_ok :: "'x \<Rightarrow> bool" and info :: disk_info and platter :: platter and loadable :: "disk_blockptr \<Rightarrow> bool"
  assumes disk: "table_disk info" and fits: "phy_block_size info \<le> PAGE_SIZE"
    and platter_length: "length (platter b) = phy_block_size info"
    and single: "bp_blockct p = 0 \<Longrightarrow> loadable p"
    and len_law: "ptr_ok info p \<Longrightarrow> \<not> disk_is_zero_block p info \<Longrightarrow> mem_bytes mem a 16 = enc info p \<Longrightarrow>
      extract_length m mem a = phy_block_size info * (bp_blockct p + 1)"
    and zero_law: "ptr_ok info p \<Longrightarrow> \<not> disk_is_zero_block p info \<Longrightarrow> mem_bytes mem a 16 = enc info p \<Longrightarrow> is_zero_block m mem a"
    and load_law: "loader_ok dev_ok s \<Longrightarrow> free_pages (ld_heap s) \<noteq> {} \<Longrightarrow> ptr_ok info p \<Longrightarrow> \<not> disk_is_zero_block p info \<Longrightarrow>
      loadable p \<Longrightarrow> mem_bytes (ld_mem s) a 16 = enc info p \<Longrightarrow> {a..<a + 16} \<inter> page_area (free_pages (ld_heap s)) = {} \<Longrightarrow>
      n = phy_block_size info * (bp_blockct p + 1) \<Longrightarrow> apart s addr n \<Longrightarrow> {a..<a + 16} \<inter> {addr..<addr + n} = {} \<or> bp_blockct p = 0 \<and> overlay_ok a addr (ptr_data platter info p) \<Longrightarrow>
      \<exists>s'. load_direct m s a addr = Some (Inr (addr + n, s')) \<and> loaded dev_ok s s' {a..<a + 16} addr (ptr_data platter info p)"
begin

lemma ptr_data_length: "ptr_ok info p \<Longrightarrow> \<not> disk_is_zero_block p info \<Longrightarrow> length (ptr_data platter info p) = phy_block_size info * (bp_blockct p + 1)"
proof -
  assume "\<not> disk_is_zero_block p info"
  have "length (concat (map platter bs)) = phy_block_size info * length bs" for bs
    by (induction bs) (simp_all add: platter_length)
  then show ?thesis using \<open>\<not> disk_is_zero_block p info\<close> by (simp add: ptr_data_def ptr_blocks_def del: upt_Suc)
qed

lemma process_descr_ok:
  assumes "loader_ok dev_ok s" and "free_pages (ld_heap s) \<noteq> {}"
    and "\<forall>p \<in> set ps. ptr_ok info p \<and> \<not> disk_is_zero_block p info \<and> loadable p"
    and "mem_bytes (ld_mem s) ib (16 * length ps) = concat (map (enc info) ps)"
    and "{ib..<ib + 16 * length ps} \<inter> page_area (free_pages (ld_heap s)) = {}"
    and "apart s load (length (ptrs_data platter info ps))"
    and "{ib..<ib + 16 * length ps} \<inter> {load..<load + length (ptrs_data platter info ps)} = {}"
  shows "\<exists>s'. process_descr m s ib load (length ps + k) =
      process_descr m s' (ib + 16 * length ps) (load + length (ptrs_data platter info ps)) k \<and>
    loaded dev_ok s s' {ib..<ib + 16 * length ps} load (ptrs_data platter info ps)"
  using assms
proof (induction ps arbitrary: s ib load)
  case Nil
  then show ?case by (auto intro: loaded_refl)
next
  case (Cons p ps)
  let ?d = "ptr_data platter info p" and ?ds = "ptrs_data platter info ps"
  have dok: "disk_ok info" using disk by (simp add: table_disk_def)
  have ok: "ptr_ok info p" "\<not> disk_is_zero_block p info" "loadable p" using Cons.prems(3) by simp_all
  have b: "mem_bytes (ld_mem s) ib 16 = enc info p"
    using mem_bytes_sub [OF Cons.prems(4), of 0 16] by (simp add: length_blockptr_bytes [OF dok])
  have bs: "mem_bytes (ld_mem s) (ib + 16) (16 * length ps) = concat (map (enc info) ps)"
    using mem_bytes_sub [OF Cons.prems(4), of 16 "16 * length ps"] by (simp add: length_blockptr_bytes [OF dok] length_enc [OF dok])
  note dl = ptr_data_length [OF ok(1,2)]
  have ar: "apart s load (length ?d)" "apart s (load + length ?d) (length ?ds)"
    using Cons.prems(6) by (auto simp: apart_def elim!: disjoint_part)
  have "{ib..<ib + 16} \<inter> page_area (free_pages (ld_heap s)) = {}" "{ib..<ib + 16} \<inter> {load..<load + length ?d} = {}"
    using Cons.prems(5,7) by (auto elim!: disjoint_part)
  then obtain s1 where s1: "load_direct m s ib load = Some (Inr (load + length ?d, s1))" "loaded dev_ok s s1 {ib..<ib + 16} load ?d"
    using load_law [OF Cons.prems(1,2) ok b _ dl _ ] ar(1) by auto
  have fr: "free_pages (ld_heap s1) = free_pages (ld_heap s)" "loader_ok dev_ok s1"
    using loaded_keeps [OF s1(2)] by simp_all
  have "mem_bytes (ld_mem s1) (ib + 16) (16 * length ps) = concat (map (enc info) ps)"
    unfolding bs [symmetric] by (rule loaded_frame [OF s1(2)]) (use Cons.prems(5,7) in \<open>auto elim!: disjoint_part\<close>)
  moreover have "apart s1 (load + length ?d) (length ?ds)" using ar(2) fr by (simp add: apart_def)
  moreover have "{ib + 16..<ib + 16 + 16 * length ps} \<inter> page_area (free_pages (ld_heap s1)) = {}"
    "{ib + 16..<ib + 16 + 16 * length ps} \<inter> {load + length ?d..<load + length ?d + length ?ds} = {}"
    using Cons.prems(5,7) fr by (auto elim!: disjoint_part)
  ultimately obtain s2 where s2: "process_descr m s1 (ib + 16) (load + length ?d) (length ps + k) =
      process_descr m s2 (ib + 16 + 16 * length ps) (load + length ?d + length ?ds) k"
    "loaded dev_ok s1 s2 {ib + 16..<ib + 16 + 16 * length ps} (load + length ?d) ?ds"
    using Cons.IH [OF fr(2), of "ib + 16" "load + length ?d"] Cons.prems(2,3) fr(1) by auto
  have "process_descr m s ib load (length (p # ps) + k) = process_descr m s1 (ib + 16) (load + length ?d) (length ps + k)"
    using not_null [OF dok ok(1,2) b] zero_law [OF ok(1,2) b] s1(1) by (simp add: obind_def)
  moreover have "loaded dev_ok s s2 ({ib..<ib + 16} \<union> {ib + 16..<ib + 16 + 16 * length ps}) load (?d @ ?ds)"
    by (rule loaded_trans [OF s1(2) s2(2)]) (use Cons.prems(7) in auto)
  moreover have "{ib..<ib + 16} \<union> {ib + 16..<ib + 16 + 16 * length ps} = {ib..<ib + 16 * length (p # ps)}" by auto
  ultimately show ?case using s2(1) by (auto simp: add.assoc intro!: exI [of _ s2])
qed

lemma table_loaded:
  assumes "loader_ok dev_ok s" and "free_pages (ld_heap s) \<noteq> {}" and "low_heap (ld_heap s)"
    and "page \<in> all_pages (ld_heap s)" and "page \<in> pages_used (ld_heap s)" and "b \<noteq> 0" and "blocknum_ok info b"
    and "mem_bytes (ld_mem s) e 16 = enc info (disk_blockptr_from_blocknum b info)"
    and "{e..<e + 16} \<inter> page_area (free_pages (ld_heap s)) = {}" and "overlay_ok e page (platter b)"
  obtains s1 where "load_direct m s e page = Some (Inr (page + phy_block_size info, s1))"
    "mem_bytes (ld_mem s1) page (phy_block_size info) = platter b" "loaded dev_ok s s1 ({e..<e + 16} \<union> {page..<page + PAGE_SIZE}) a []"
    "extract_length m (ld_mem s) e div 16 - 1 = seg_slots info"
proof -
  let ?p = "disk_blockptr_from_blocknum b info"
  have dok: "disk_ok info" using disk by (simp add: table_disk_def)
  note p = blockptr_from_blocknum [OF dok assms(7)]
  have nz: "\<not> disk_is_zero_block ?p info" using p assms(6) by simp
  have ct: "bp_blockct ?p = 0" by (simp add: disk_blockptr_from_blocknum_def)
  have d: "ptr_data platter info ?p = platter b" using p nz ct assms(6) by (simp add: ptr_data_def)
  have "{page..<page + phy_block_size info} \<inter> page_area (free_pages (ld_heap s)) = {}"
    by (rule disjoint_part [OF used_page_apart [OF assms(4,5)]]) (use fits in auto)
  then have ap: "apart s page (phy_block_size info)" using assms(3,4) fits by (auto simp: apart_def low_heap_def)
  obtain s1 where s1: "load_direct m s e page = Some (Inr (page + phy_block_size info, s1))" "loaded dev_ok s s1 {e..<e + 16} page (platter b)"
    using load_law [OF assms(1,2) p(1) nz single [OF ct] assms(8,9), of "phy_block_size info" page] ap ct d assms(10) by auto
  have "mem_bytes (ld_mem s1) page (phy_block_size info) = platter b"
    using loaded_data [OF s1(2)] ap by (simp add: platter_length apart_def)
  moreover have "loaded dev_ok s s1 ({e..<e + 16} \<union> {page..<page + PAGE_SIZE}) a []"
    by (rule loaded_inside [OF s1(2)]) (use fits in \<open>auto simp: platter_length\<close>)
  moreover have "extract_length m (ld_mem s) e div 16 - 1 = seg_slots info"
    using len_law [OF p(1) nz assms(8)] ct by (simp add: seg_slots_def)
  ultimately show thesis using that s1(1) by blast
qed

lemma ptrs_data_append: "ptrs_data platter info (xs @ ys) = ptrs_data platter info xs @ ptrs_data platter info ys"
  by (simp add: ptrs_data_def)

text \<open>One table in the page: its pointers are followed, and the state of the page behind them is kept.\<close>

lemma table_processed:
  assumes "loader_ok dev_ok s" and "free_pages (ld_heap s) \<noteq> {}" and "page \<in> all_pages (ld_heap s)" and "page \<in> pages_used (ld_heap s)"
    and "mem_bytes (ld_mem s) page (phy_block_size info) = concat (map (enc info) ps) @ tail" and "length ps \<le> seg_slots info"
    and "\<forall>p \<in> set ps. ptr_ok info p \<and> \<not> disk_is_zero_block p info \<and> loadable p"
    and "apart s load (length (ptrs_data platter info ps))"
    and "{page..<page + PAGE_SIZE} \<inter> {load..<load + length (ptrs_data platter info ps)} = {}"
  obtains s' where "process_descr m s page load (length ps + k) =
      process_descr m s' (page + 16 * length ps) (load + length (ptrs_data platter info ps)) k"
    "mem_bytes (ld_mem s') (page + 16 * length ps) (length tail) = tail"
    "loaded dev_ok s s' {page..<page + PAGE_SIZE} load (ptrs_data platter info ps)"
proof -
  have dok: "disk_ok info" using disk by (simp add: table_disk_def)
  have len: "length (concat (map (enc info) ps)) = 16 * length ps" by (rule length_enc [OF dok])
  then have tot: "16 * length ps + length tail = phy_block_size info" using arg_cong [OF assms(5), of length] by simp
  have sub: "{page..<page + 16 * length ps} \<subseteq> {page..<page + PAGE_SIZE}"
    "{page + 16 * length ps..<page + 16 * length ps + length tail} \<subseteq> {page..<page + PAGE_SIZE}"
    using tot fits by auto
  note fr = used_page_apart [OF assms(3,4)]
  have "mem_bytes (ld_mem s) page (16 * length ps) = concat (map (enc info) ps)"
    using mem_bytes_sub [OF assms(5), of 0 "16 * length ps"] len tot by simp
  then obtain s' where s': "process_descr m s page load (length ps + k) =
      process_descr m s' (page + 16 * length ps) (load + length (ptrs_data platter info ps)) k"
    "loaded dev_ok s s' {page..<page + 16 * length ps} load (ptrs_data platter info ps)"
    using process_descr_ok [OF assms(1,2,7) _ disjoint_part [OF fr sub(1)] assms(8) disjoint_part [OF assms(9) sub(1)]] by blast
  have "mem_bytes (ld_mem s') (page + 16 * length ps) (length tail) = mem_bytes (ld_mem s) (page + 16 * length ps) (length tail)"
    by (rule loaded_frame [OF s'(2) disjoint_part [OF fr sub(2)] disjoint_part [OF assms(9) sub(2)]]) auto
  also have "\<dots> = tail" using mem_bytes_sub [OF assms(5), of "16 * length ps" "length tail"] len tot by simp
  finally show thesis using that s' loaded_mono [OF s'(2) sub(1)] by blast
qed

text \<open>The last pointer of a table is to one block, or zero.\<close>

lemma table_overlay:
  assumes "seg_chain platter info LEGACY_BLKPTR_FORMAT_ID b ps"
    and "{e..<e + 16} \<inter> {page..<page + PAGE_SIZE} = {} \<or> e = page + 16 * seg_slots info"
  shows "overlay_ok e page (platter b)"
proof (cases "e = page + 16 * seg_slots info")
  case True
  have dok: "disk_ok info" using disk by (simp add: table_disk_def)
  have sz: "phy_block_size info = 16 * seg_slots info + 16" using disk by (auto simp: table_disk_def seg_slots_def elim!: dvdE)
  have "take 2 (drop (16 * seg_slots info + 10) (platter b)) = [0, 0]"
    using assms(1)
  proof cases
    case seg_last
    then show ?thesis using sz by (simp add: length_enc [OF dok] numeral_2_eq_2)
  next
    case (seg_more qs b' ps')
    have "take 2 (drop 10 (enc info (disk_blockptr_from_blocknum b' info))) = [0, 0]"
      using dok by (simp add: blockptr_bytes_def disk_ok_def disk_blockptr_from_blocknum_def zero_blockptr_def be_zero numeral_2_eq_2)
    then show ?thesis using seg_more sz by (simp add: length_enc [OF dok])
  qed
  then show ?thesis using True sz by (simp add: overlay_ok_def platter_length)
next
  case False
  have "{page..<page + length (platter b)} \<subseteq> {page..<page + PAGE_SIZE}" using fits by (auto simp: platter_length)
  then show ?thesis using assms(2) False unfolding overlay_ok_def by blast
qed

lemma blocklist_loop_ok:
  assumes "seg_chain platter info LEGACY_BLKPTR_FORMAT_ID b ps" and "b \<noteq> 0" and "blocknum_ok info b"
    and "\<forall>p \<in> set ps. ptr_ok info p \<and> \<not> disk_is_zero_block p info \<and> loadable p"
    and "loader_ok dev_ok s" and "free_pages (ld_heap s) \<noteq> {}" and "low_heap (ld_heap s)"
    and "page \<in> all_pages (ld_heap s)" and "page \<in> pages_used (ld_heap s)"
    and "mem_bytes (ld_mem s) e 16 = enc info (disk_blockptr_from_blocknum b info)"
    and "{e..<e + 16} \<inter> page_area (free_pages (ld_heap s)) = {}"
    and "apart s load (length (ptrs_data platter info ps))"
    and "{page..<page + PAGE_SIZE} \<inter> {load..<load + length (ptrs_data platter info ps)} = {}"
    and "{e..<e + 16} \<inter> {page..<page + PAGE_SIZE} = {} \<or> e = page + 16 * seg_slots info"
  shows "\<exists>s'. blocklist_loop m s page e load = Some (Inr (load + length (ptrs_data platter info ps), s')) \<and>
    loaded dev_ok s s' ({e..<e + 16} \<union> {page..<page + PAGE_SIZE}) load (ptrs_data platter info ps)"
  using assms
proof (induction arbitrary: s e load rule: seg_chain.induct)
  case (seg_last b ps)
  let ?k = "seg_slots info - length ps" and ?n = "length (ptrs_data platter info ps)"
  let ?tl = "replicate (phy_block_size info - 16 * length ps) (0 :: u8)"
  have ch: "seg_chain platter info LEGACY_BLKPTR_FORMAT_ID b ps" using seg_last.hyps by (rule seg_chain.seg_last)
  obtain s1 where s1: "load_direct m s e page = Some (Inr (page + phy_block_size info, s1))"
    "mem_bytes (ld_mem s1) page (phy_block_size info) = platter b" "loaded dev_ok s s1 ({e..<e + 16} \<union> {page..<page + PAGE_SIZE}) load []"
    "extract_length m (ld_mem s) e div 16 - 1 = seg_slots info"
    by (rule table_loaded [OF seg_last.prems(4-8,1,2,9,10) table_overlay [OF ch seg_last.prems(13)], where a = load])
  note k1 = loaded_keeps [OF s1(3)]
  obtain s2 where s2: "process_descr m s1 page load (length ps + ?k) = process_descr m s2 (page + 16 * length ps) (load + ?n) ?k"
    "mem_bytes (ld_mem s2) (page + 16 * length ps) (length ?tl) = ?tl" "loaded dev_ok s1 s2 {page..<page + PAGE_SIZE} load (ptrs_data platter info ps)"
    using table_processed [of s1 page ps ?tl load ?k] seg_last s1(2) k1 by (auto simp: apart_def)
  have "16 \<le> phy_block_size info - 16 * length ps" using seg_last.hyps(2) disk by (auto simp: table_disk_def seg_slots_def)
  then have "mem_bytes (ld_mem s2) (page + 16 * length ps) 16 = replicate 16 0"
    using mem_bytes_sub [OF s2(2), of 0 16] by simp
  then have "is_null_descriptor (ld_mem s2) (page + 16 * length ps)" by (rule null_zeros)
  then have "process_descr m s2 (page + 16 * length ps) (load + ?n) ?k = Some (Inr (?k \<noteq> 0, page + 16 * length ps, load + ?n, s2))"
    by (cases ?k) simp_all
  then have "process_descr m s1 page load (seg_slots info) = Some (Inr (?k \<noteq> 0, page + 16 * length ps, load + ?n, s2))"
    using s2(1) seg_last.hyps(2) by simp
  then have "blocklist_loop m s page e load = Some (Inr (load + ?n, s2))"
    using s1(1,4) \<open>is_null_descriptor (ld_mem s2) (page + 16 * length ps)\<close> by (subst blocklist_loop.simps) (simp add: obind_def)
  moreover have "loaded dev_ok s s2 (({e..<e + 16} \<union> {page..<page + PAGE_SIZE}) \<union> {page..<page + PAGE_SIZE}) load ([] @ ptrs_data platter info ps)"
    by (rule loaded_trans [OF s1(3)]) (use s2(3) in simp_all)
  ultimately show ?case by (auto simp: Un_assoc)
next
  case (seg_more b qs b' ps)
  let ?n = "length (ptrs_data platter info qs)" and ?nxt = "page + 16 * seg_slots info"
  let ?tl = "enc info (disk_blockptr_from_blocknum b' info)"
  note ar = apart_split [OF seg_more.prems(11) [unfolded ptrs_data_append length_append]]
  note dj = disjoint_split [OF seg_more.prems(12) [unfolded ptrs_data_append length_append]]
  have dok: "disk_ok info" using disk by (simp add: table_disk_def)
  have ch: "seg_chain platter info LEGACY_BLKPTR_FORMAT_ID b (qs @ ps)" using seg_more.hyps by (rule seg_chain.seg_more)
  obtain s1 where s1: "load_direct m s e page = Some (Inr (page + phy_block_size info, s1))"
    "mem_bytes (ld_mem s1) page (phy_block_size info) = platter b" "loaded dev_ok s s1 ({e..<e + 16} \<union> {page..<page + PAGE_SIZE}) load []"
    "extract_length m (ld_mem s) e div 16 - 1 = seg_slots info"
    by (rule table_loaded [OF seg_more.prems(4-8,1,2,9,10) table_overlay [OF ch seg_more.prems(13)], where a = load])
  note k1 = loaded_keeps [OF s1(3)]
  obtain s2 where s2: "process_descr m s1 page load (length qs + 0) = process_descr m s2 (page + 16 * length qs) (load + ?n) 0"
    "mem_bytes (ld_mem s2) (page + 16 * length qs) (length ?tl) = ?tl" "loaded dev_ok s1 s2 {page..<page + PAGE_SIZE} load (ptrs_data platter info qs)"
    using table_processed [of s1 page qs ?tl load 0] seg_more.hyps(1,2) seg_more.prems(3,5,7,8) s1(2) k1 apart_cong [OF k1(4)] ar(1) dj(1)
    by auto
  note k2 = loaded_keeps [OF s2(3)]
  note p = blockptr_from_blocknum [OF dok seg_more.hyps(4)]
  have nx: "mem_bytes (ld_mem s2) ?nxt 16 = ?tl" using s2(2) seg_more.hyps(2) by (simp add: length_blockptr_bytes [OF dok])
  have "\<not> is_null_descriptor (ld_mem s2) ?nxt" by (rule not_null [OF dok p(1) _ nx]) (use p(3) seg_more.hyps(3) in simp)
  then have l: "blocklist_loop m s page e load = blocklist_loop m s2 page ?nxt (load + ?n)"
    using s1(1,4) s2(1) seg_more.hyps(2) by (subst blocklist_loop.simps) (simp add: obind_def)
  have inp: "{?nxt..<?nxt + 16} \<subseteq> {page..<page + PAGE_SIZE}" using disk fits by (auto simp: table_disk_def seg_slots_def)
  have "{?nxt..<?nxt + 16} \<inter> page_area (free_pages (ld_heap s2)) = {}"
    by (rule disjoint_part [OF used_page_apart inp]) (use seg_more.prems(7,8) k1 k2 in simp_all)
  then obtain s3 where s3: "blocklist_loop m s2 page ?nxt (load + ?n) = Some (Inr (load + ?n + length (ptrs_data platter info ps), s3))"
    "loaded dev_ok s2 s3 ({?nxt..<?nxt + 16} \<union> {page..<page + PAGE_SIZE}) (load + ?n) (ptrs_data platter info ps)"
    using seg_more.IH [of s2 ?nxt "load + ?n"] seg_more.hyps(3,4) seg_more.prems(3,5-8) k1 k2 nx apart_cong [of s2 s] ar(2) dj(2)
    by auto
  have s3': "loaded dev_ok s2 s3 {page..<page + PAGE_SIZE} (load + ?n) (ptrs_data platter info ps)"
    by (rule loaded_mono [OF s3(2)]) (use inp in simp)
  have "loaded dev_ok s1 s3 ({page..<page + PAGE_SIZE} \<union> {page..<page + PAGE_SIZE}) load (ptrs_data platter info (qs @ ps))"
    unfolding ptrs_data_append by (rule loaded_trans [OF s2(3) s3']) (rule dj(1))
  then have "loaded dev_ok s s3 (({e..<e + 16} \<union> {page..<page + PAGE_SIZE}) \<union> {page..<page + PAGE_SIZE}) load ([] @ ptrs_data platter info (qs @ ps))"
    by (intro loaded_trans [OF s1(3)]) simp_all
  then show ?case using l s3(1) by (auto simp: Un_assoc ptrs_data_append add.assoc)
qed

lemma load_blocklist_ok:
  assumes "stage2_component platter info loadable b bytes"
    and "loader_ok dev_ok s" and "2 \<le> card (free_pages (ld_heap s))" and "low_heap (ld_heap s)"
    and "mem_bytes (ld_mem s) e 16 = enc info (disk_blockptr_from_blocknum b info)"
    and "{e..<e + 16} \<inter> page_area (free_pages (ld_heap s)) = {}" and "apart s load (length bytes)"
  shows "\<exists>s'. load_blocklist m s e load = Some (Inr (load + length bytes, s')) \<and> loaded dev_ok s s' {e..<e + 16} load bytes"
proof -
  obtain page s0 where tk: "takes_page s page s0" by (rule page_taken [OF assms(2)]) (use assms(3) in simp)
  note pg = takes_page_facts [OF assms(2) tk] and low = assms(4) [folded takes_page_facts(3) [OF assms(2) tk]]
  have ne: "free_pages (ld_heap s0) \<noteq> {}" using pg(6) assms(3) by auto
  obtain ps where ps: "seg_chain platter info LEGACY_BLKPTR_FORMAT_ID b ps" "b \<noteq> 0" "blocknum_ok info b"
    "\<forall>p \<in> set ps. ptr_ok info p \<and> \<not> disk_is_zero_block p info \<and> loadable p" "bytes = ptrs_data platter info ps"
    using assms(1) by (auto simp: stage2_component_def)
  have ar: "{e..<e + 16} \<inter> page_area (free_pages (ld_heap s0)) = {}" "apart s0 load (length bytes)"
    "{page..<page + PAGE_SIZE} \<inter> {load..<load + length bytes} = {}"
    "{e..<e + 16} \<inter> {page..<page + PAGE_SIZE} = {} \<or> e = page + 16 * seg_slots info"
    using assms(6,7) pg(7,8) unfolding apart_def by blast+
  have e: "mem_bytes (ld_mem s0) e 16 = enc info (disk_blockptr_from_blocknum b info)" using assms(5) takes_page_keeps [OF tk assms(6)] by simp
  obtain s1 where s1: "blocklist_loop m s0 page e load = Some (Inr (load + length bytes, s1))"
    "loaded dev_ok s0 s1 ({e..<e + 16} \<union> {page..<page + PAGE_SIZE}) load bytes"
    using blocklist_loop_ok [OF ps(1-4) pg(2) ne low pg(4,5) e ar [unfolded ps(5)]] unfolding ps(5) by blast
  obtain h where "stage2_free s1 page = Inr (s1\<lparr>ld_heap := h\<rparr>)" "loaded dev_ok s (s1\<lparr>ld_heap := h\<rparr>) {e..<e + 16} load bytes"
    by (rule takes_page_loaded [OF assms(2) tk s1(2)])
  then show ?thesis using pg(1) s1(1) by (auto simp: load_blocklist_def obind_def)
qed

lemma component_step:
  assumes "entry_ok platter info loadable c" and "loader_ok dev_ok s" and "2 \<le> card (free_pages (ld_heap s))" and "low_heap (ld_heap s)"
    and "mem_bytes (ld_mem s) e 32 = entry_bytes info c" and "{e..<e + 32} \<inter> page_area (free_pages (ld_heap s)) = {}"
    and "entry_area c \<inter> page_area (free_pages (ld_heap s)) = {}"
  obtains s1 a bs where "load_components m s e = load_components m s1 (e + 32)" "loaded dev_ok s s1 {e..<e + 16} a bs"
    "{a..<a + length bs} = entry_area c" "entry_loaded (ld_mem s1) c"
proof -
  have dok: "disk_ok info" using disk by (simp add: table_disk_def)
  obtain t b bytes a where c: "c = (t, b, bytes, a)" by (cases c)
  have m: "mem_bytes (ld_mem s) e 32 = create_component_entry (disk_blockptr_from_blocknum b info) t a info LEGACY_BLKPTR_FORMAT_ID"
    using assms(5) by (simp add: c)
  consider "t = COMPONENT_TYPE_SIGNATURE" | "t = COMPONENT_TYPE_LOAD" "a + length bytes \<le> 2 ^ 31" "stage2_component platter info loadable b bytes"
    using assms(1) by (auto simp: c)
  then show thesis
  proof cases
    case 1
    have "entry_type (ld_mem s) e = component_type_code t" by (rule entry_type_of [OF dok m])
    then have "load_components m s e = load_components m s (e + 32)" using 1 by (subst load_components.simps) simp
    then show thesis by (rule that [OF _ loaded_refl [OF assms(2)]]) (use 1 in \<open>simp_all add: c\<close>)
  next
    case 2
    have a: "a < 2 ^ 64" "a AND 0xFFFFFFFF = a"
      using 2(2) take_bit_nat_eq_self [of a 32] by (simp_all add: take_bit_eq_mask mask_eq_exp_minus_1)
    have p: "entry_type (ld_mem s) e = component_type_code t" "entry_compdat (ld_mem s) e = a"
      "mem_bytes (ld_mem s) e 16 = enc info (disk_blockptr_from_blocknum b info)"
      using entry_type_of [OF dok m] entry_compdat_of [OF dok m a(1)] entry_pointer_of [OF dok m] 2(1) by simp_all
    have "apart s a (length bytes)" using assms(7) 2 by (simp add: c apart_def)
    then obtain s1 where s1: "load_blocklist m s e a = Some (Inr (a + length bytes, s1))" "loaded dev_ok s s1 {e..<e + 16} a bytes"
      using load_blocklist_ok [OF 2(3) assms(2-4) p(3) disjoint_part [OF assms(6)], of a] by auto
    have "load_components m s e = load_components m s1 (e + 32)"
      using s1(1) p(1,2) 2(1) a(2) by (subst load_components.simps) simp
    then show thesis
      by (rule that [OF _ s1(2)]) (use 2(1) assms(7) loaded_data [OF s1(2)] in \<open>simp_all add: c\<close>)
  qed
qed

lemma load_components_ok:
  assumes "\<forall>c \<in> set es. entry_ok platter info loadable c" and "areas_apart es"
    and "loader_ok dev_ok s" and "2 \<le> card (free_pages (ld_heap s))" and "low_heap (ld_heap s)"
    and "mem_bytes (ld_mem s) e (32 * length es + 32) =
      concat (map (entry_bytes info) es) @ create_component_entry zero_blockptr COMPONENT_TYPE_EXECUTE psw info LEGACY_BLKPTR_FORMAT_ID"
    and "psw < 2 ^ 64" and "{e..<e + (32 * length es + 32)} \<inter> page_area (free_pages (ld_heap s)) = {}"
    and "(\<Union>c \<in> set es. entry_area c) \<inter> page_area (free_pages (ld_heap s)) = {}"
    and "{e..<e + (32 * length es + 32)} \<inter> (\<Union>c \<in> set es. entry_area c) = {}"
  shows "\<exists>s'. load_components m s e = Some (Inr (e + 32 * length es, s')) \<and> same_heap (ld_heap s) (ld_heap s') \<and> dev_ok (ld_dev s') \<and>
    entry_compdat (ld_mem s') (e + 32 * length es) = psw \<and> (\<forall>c \<in> set es. entry_loaded (ld_mem s') c) \<and>
    (\<forall>x. x \<notin> page_area (free_pages (ld_heap s)) \<and> x \<notin> {e..<e + 32 * length es} \<and> x \<notin> (\<Union>c \<in> set es. entry_area c) \<longrightarrow>
      ld_mem s' x = ld_mem s x)"
  using assms
proof (induction es arbitrary: s e)
  case Nil
  have dok: "disk_ok info" using disk by (simp add: table_disk_def)
  have m: "mem_bytes (ld_mem s) e 32 = create_component_entry zero_blockptr COMPONENT_TYPE_EXECUTE psw info LEGACY_BLKPTR_FORMAT_ID"
    using Nil.prems(6) by simp
  note p = entry_type_of [OF dok m] entry_compdat_of [OF dok m Nil.prems(7)]
  have "load_components m s e = Some (Inr (e, s))"
    using p Nil.prems(6,7) by (subst load_components.simps) (simp)
  then show ?case using p Nil.prems(3) by (simp add: same_heap_def loader_ok_def)
next
  case (Cons c es)
  have dok: "disk_ok info" using disk by (simp add: table_disk_def)
  obtain t b bytes a where c: "c = (t, b, bytes, a)" by (cases c)
  let ?exec = "create_component_entry zero_blockptr COMPONENT_TYPE_EXECUTE psw info LEGACY_BLKPTR_FORMAT_ID"
  let ?U = "\<Union>c \<in> set es. entry_area c" and ?F = "page_area (free_pages (ld_heap s))" and ?n = "32 * length es + 32"
  have len: "length (entry_bytes info c) = 32" by (cases c) (simp add: length_entry [OF dok])
  have sub: "{e..<e + 32} \<subseteq> {e..<e + (32 * length (c # es) + 32)}" "{e + 32..<e + 32 + ?n} \<subseteq> {e..<e + (32 * length (c # es) + 32)}" by auto
  have m: "mem_bytes (ld_mem s) e 32 = entry_bytes info c" "mem_bytes (ld_mem s) (e + 32) ?n = concat (map (entry_bytes info) es) @ ?exec"
    using mem_bytes_sub [OF Cons.prems(6), of 0 32] mem_bytes_sub [OF Cons.prems(6), of 32 ?n] len
    by (simp_all add: length_entries [OF dok] length_entry [OF dok])
  have ok: "entry_ok platter info loadable c" using Cons.prems(1) by simp
  have U: "entry_area c \<inter> ?F = {}" "?U \<inter> ?F = {}" using Cons.prems(9) by auto
  obtain s1 a bs where s1: "load_components m s e = load_components m s1 (e + 32)" "loaded dev_ok s s1 {e..<e + 16} a bs"
    "{a..<a + length bs} = entry_area c" "entry_loaded (ld_mem s1) c"
    by (rule component_step [OF ok Cons.prems(3-5) m(1) disjoint_part [OF Cons.prems(8) sub(1)] U(1)])
  note k = loaded_keeps [OF s1(2)]
  have d: "{e + 32..<e + 32 + ?n} \<inter> ?F = {}" "{e + 32..<e + 32 + ?n} \<inter> entry_area c = {}" "{e + 32..<e + 32 + ?n} \<inter> ?U = {}"
    "{e..<e + 32} \<inter> entry_area c = {}" "{e..<e + 32} \<inter> ?U = {}"
    using Cons.prems(8) Cons.prems(10) [unfolded list.set UN_insert] sub by blast+
  have cU: "entry_area c \<inter> ?U = {}" using Cons.prems(2) by simp
  have "mem_bytes (ld_mem s1) (e + 32) ?n = mem_bytes (ld_mem s) (e + 32) ?n"
    by (rule loaded_frame [OF s1(2) d(1)]) (use s1(3) d(2) in auto)
  then obtain s2 where s2: "load_components m s1 (e + 32) = Some (Inr (e + 32 + 32 * length es, s2))" "same_heap (ld_heap s1) (ld_heap s2) \<and> dev_ok (ld_dev s2)"
    "entry_compdat (ld_mem s2) (e + 32 + 32 * length es) = psw" "\<forall>c \<in> set es. entry_loaded (ld_mem s2) c"
    "\<And>x. x \<notin> ?F \<Longrightarrow> x \<notin> {e + 32..<e + 32 + 32 * length es} \<Longrightarrow> x \<notin> ?U \<Longrightarrow> ld_mem s2 x = ld_mem s1 x"
    using Cons.IH [of s1 "e + 32"] Cons.prems(1-5,7) U(2) d m(2) k by auto
  have "entry_loaded (ld_mem s2) c"
    by (rule entry_loaded_cong [OF s1(4) s2(5)]) (use U(1) disjoint_part [OF d(2), of "{e + 32..<e + 32 + 32 * length es}"] cU in auto)
  then have "\<forall>c \<in> set (c # es). entry_loaded (ld_mem s2) c" using s2(4) by simp
  moreover have "ld_mem s2 x = ld_mem s x" if "x \<notin> ?F" "x \<notin> {e..<e + 32 * length (c # es)}" "x \<notin> (\<Union>c \<in> set (c # es). entry_area c)" for x
  proof -
    have "x \<notin> {e..<e + 16}" "x \<notin> {a..<a + length bs}" using that(2,3) s1(3) by auto
    then have "ld_mem s1 x = ld_mem s x" using loaded_at [OF s1(2) that(1)] by (auto simp: mem_write_def)
    moreover have "x \<notin> ?U" "x \<notin> {e + 32..<e + 32 + 32 * length es}" using that(2,3) by auto
    ultimately show ?thesis using s2(5) [OF that(1)] by simp
  qed
  moreover have "same_heap (ld_heap s) (ld_heap s2)" "dev_ok (ld_dev s2)" using same_heap_trans s1(2) s2(2) unfolding loaded_def by blast+
  moreover have "e + 32 + 32 * length es = e + 32 * length (c # es)" by simp
  ultimately show ?case using s1(1) s2(1,3) by (intro exI [of _ s2]) metis
qed

lemma stage2_load_ok:
  assumes "stage2_program platter info loadable t config_nr es psw"
    and "loader_ok dev_ok s" and "3 \<le> card (free_pages (ld_heap s))" and "low_heap (ld_heap s)"
    and "mem_bytes (ld_mem s) desc 16 = enc info (disk_blockptr_from_blocknum t info)"
    and "{desc..<desc + 16} \<inter> page_area (free_pages (ld_heap s)) = {}"
    and "(\<Union>c \<in> set es. entry_area c) \<inter> page_area (free_pages (ld_heap s)) = {}"
  shows "\<exists>s'. stage2_load m s desc config_nr = Some (Inr (psw, s')) \<and> same_heap (ld_heap s) (ld_heap s') \<and> dev_ok (ld_dev s') \<and>
    (\<forall>c \<in> set es. entry_loaded (ld_mem s') c)"
proof -
  obtain pr where pr: "t \<noteq> 0" "blocknum_ok info t" "32 + 16 * config_nr \<le> phy_block_size info" "32 * length es + 64 \<le> phy_block_size info"
    "psw < 2 ^ 64" "\<forall>c \<in> set es. entry_ok platter info loadable c" "areas_apart es" "pr \<noteq> 0" "blocknum_ok info pr"
    "take 16 (drop (16 + 16 * config_nr) (platter t)) = enc info (disk_blockptr_from_blocknum pr info)"
    "take 2 (drop (26 + 16 * config_nr) (platter pr)) = [0, 0]"
    "take (32 * length es + 32) (drop 32 (platter pr)) =
      concat (map (entry_bytes info) es) @ create_component_entry zero_blockptr COMPONENT_TYPE_EXECUTE psw info LEGACY_BLKPTR_FORMAT_ID"
    using assms(1) unfolding stage2_program_def by blast
  obtain page s0 where tk: "takes_page s page s0" by (rule page_taken [OF assms(2)]) (use assms(3) in simp)
  note pg = takes_page_facts [OF assms(2) tk] and low = assms(4) [folded takes_page_facts(3) [OF assms(2) tk]]
  have ne: "free_pages (ld_heap s0) \<noteq> {}" using pg(6) assms(3) by auto
  have "{desc..<desc + 16} \<inter> page_area (free_pages (ld_heap s0)) = {}" using assms(6) pg(7) by blast
  moreover have "{page..<page + length (platter t)} \<subseteq> {page..<page + PAGE_SIZE}" using fits by (auto simp: platter_length)
  then have "overlay_ok desc page (platter t)" using assms(6) pg(8) unfolding overlay_ok_def by blast
  ultimately obtain s1 where s1: "load_direct m s0 desc page = Some (Inr (page + phy_block_size info, s1))"
    "mem_bytes (ld_mem s1) page (phy_block_size info) = platter t" "loaded dev_ok s0 s1 ({desc..<desc + 16} \<union> {page..<page + PAGE_SIZE}) 0 []"
    using table_loaded [OF pg(2) ne low pg(4,5) pr(1,2), where a = 0] takes_page_keeps [OF tk assms(6)] assms(5) by metis
  note k1 = loaded_keeps [OF s1(3)]
  let ?b = "page + 16 + 16 * config_nr"
  have inp: "{?b..<?b + 16} \<subseteq> {page..<page + PAGE_SIZE}" "{page + 32..<page + 32 + (32 * length es + 32)} \<subseteq> {page..<page + PAGE_SIZE}"
    using pr(3,4) fits by auto
  note pf = used_page_apart [OF pg(4,5)]
  have b: "mem_bytes (ld_mem s1) ?b 16 = enc info (disk_blockptr_from_blocknum pr info)"
    using mem_bytes_sub [OF s1(2), of "16 + 16 * config_nr" 16] pr(3,10) by (simp add: add.assoc)
  have ov: "overlay_ok ?b page (platter pr)" using pr(3,11) by (simp add: overlay_ok_def platter_length add.commute)
  obtain s2 where s2: "load_direct m s1 ?b page = Some (Inr (page + phy_block_size info, s2))"
    "mem_bytes (ld_mem s2) page (phy_block_size info) = platter pr" "loaded dev_ok s1 s2 ({?b..<?b + 16} \<union> {page..<page + PAGE_SIZE}) 0 []"
    using table_loaded [OF k1(1) _ _ _ _ pr(8,9) b, where page = page and a = 0] low pg(4,5) ne k1(2-5) disjoint_part [OF pf inp(1)] ov by metis
  note k2 = loaded_keeps [OF s2(3)]
  have U: "(\<Union>c \<in> set es. entry_area c) \<inter> page_area (free_pages (ld_heap s0)) = {}"
    "{page + 32..<page + 32 + (32 * length es + 32)} \<inter> (\<Union>c \<in> set es. entry_area c) = {}"
    using assms(7) pg(7,8) inp(2) by blast+
  have "mem_bytes (ld_mem s2) (page + 32) (32 * length es + 32) =
      concat (map (entry_bytes info) es) @ create_component_entry zero_blockptr COMPONENT_TYPE_EXECUTE psw info LEGACY_BLKPTR_FORMAT_ID"
    using mem_bytes_sub [OF s2(2), of 32 "32 * length es + 32"] pr(4,12) by simp
  moreover have cd: "2 \<le> card (free_pages (ld_heap s)) - Suc 0" using assms(3) by simp
  ultimately obtain s3 where s3: "load_components m s2 (page + 32) = Some (Inr (page + 32 + 32 * length es, s3))" "same_heap (ld_heap s2) (ld_heap s3) \<and> dev_ok (ld_dev s3)"
    "entry_compdat (ld_mem s3) (page + 32 + 32 * length es) = psw" "\<forall>c \<in> set es. entry_loaded (ld_mem s3) c"
    using load_components_ok [OF pr(6,7) k2(1) _ _ _ pr(5), of "page + 32"] low pg(6) assms(3) k1(4,5) k2(4,5) U disjoint_part [OF pf inp(2)] cd by auto
  have "same_heap (ld_heap s0) (ld_heap s3)" using s3(2) k1 k2 by (simp add: same_heap_def)
  then obtain h2 where h2: "stage2_free s3 page = Inr (s3\<lparr>ld_heap := h2\<rparr>)" "same_heap (ld_heap s) h2"
    by (rule takes_page_freed [OF assms(2) tk])
  have "stage2_load m s desc config_nr = Some (Inr (psw, s3\<lparr>ld_heap := h2\<rparr>))"
    using pg(1) s1(1) s2(1) s3(1,3) h2(1) by (simp add: stage2_load_def obind_def)
  then show ?thesis using h2(2) s3(2,4) by auto
qed

end

end
