(* ===== verification/Boot_Disks.thy ===== *)
theory Boot_Disks
  imports Boot_Stage2
begin

text \<open>
  The two disk modules of stage 2 on their devices. A device is described by what its channel programs do
  (\<open>eckd_run\<close>, \<open>fba_run\<close>) and by the blocks it has (\<open>eckd_device\<close>, \<open>fba_device\<close>); \<open>runs_programs\<close> is the promise of the
  channel subsystem to perform them on at least one path. These are hypotheses on the hardware, which simulated disks
  satisfy.

  Both modules implement \<open>block_loader\<close>; the one for FBA disks does so for pointers to any number of blocks but 129. The
  properties follow the boot from the installer of \<open>Zipl_Bootmap\<close> to the PSW that stage 2 executes.
\<close>

unbundle bit_operations_syntax

section \<open>Devices\<close>

text \<open>
  What the loader relies on: a program that \<open>run\<close> performs is completed on one of the paths, from each memory from
  which it has the same effect, and the subchannel can be enabled. \<open>dev_ok\<close> is kept in between.
\<close>

definition runs_programs :: "(memory \<times> 'x) css \<Rightarrow> ('x \<Rightarrow> bool) \<Rightarrow> (ccw1 list \<Rightarrow> memory \<Rightarrow> c_fault + memory) \<Rightarrow> bool" where
  "runs_programs hw dev_ok run \<longleftrightarrow>
     (\<forall>prog mem mem'. run prog mem = Inr mem' \<longrightarrow>
        (\<exists>k. path_device hw prog (\<lambda>(m, x). dev_ok x \<and> run prog m = Inr mem') (\<lambda>(m, x). dev_ok x \<and> m = mem') k)) \<and>
     (\<forall>mem x. dev_ok x \<longrightarrow> (\<exists>schib x'. stsch hw (mem, x) = (0, schib, mem, x') \<and> dev_ok x')) \<and>
     (\<forall>schib mem x. dev_ok x \<longrightarrow> (\<exists>x'. msch hw schib (mem, x) = (0, mem, x') \<and> dev_ok x'))"

lemma stage2_io_runs:
  assumes "runs_programs hw dev_ok run" and "dev_ok (ld_dev s)" and "run prog (ld_mem s) = Inr mem'"
  obtains lpm x where "stage2_io hw prog s = Some (Inr (s\<lparr>ld_mem := mem', ld_lpm := lpm, ld_dev := x\<rparr>))" "dev_ok x"
proof -
  obtain k where "path_device hw prog (\<lambda>(m, x). dev_ok x \<and> run prog m = Inr mem') (\<lambda>(m, x). dev_ok x \<and> m = mem') k"
    using assms(1,3) unfolding runs_programs_def by blast
  then have "completes (\<lambda>(m, x). dev_ok x \<and> m = mem')
      (start_io hw prog True (ld_lpm s) \<lparr>scsw_cc = 0, scsw_stctl = 0, scsw_dstat = 0, scsw_cstat = 0\<rparr> (ld_mem s, ld_dev s))"
    by (rule start_io_completes) (use assms(2,3) in simp)
  then show thesis using that by (auto simp: completes_def stage2_io_def obind_def)
qed

lemma stage2_device_ok:
  assumes "runs_programs hw dev_ok run" and "dev_ok (ld_dev s)"
  obtains lpm x where "stage2_device hw enabled s = Inr (s\<lparr>ld_lpm := lpm, ld_dev := x\<rparr>)" "dev_ok x"
proof -
  obtain schib x1 where s1: "stsch hw (ld_mem s, ld_dev s) = (0, schib, ld_mem s, x1)" "dev_ok x1"
    using assms unfolding runs_programs_def by blast
  obtain x2 where s2: "msch hw (schib\<lparr>pmcw_ena := enabled\<rparr>) (ld_mem s, x1) = (0, ld_mem s, x2)" "dev_ok x2"
    using assms(1) s1(2) unfolding runs_programs_def by blast
  have "modify_loop hw (schib\<lparr>pmcw_ena := enabled\<rparr>) (Suc n) 0 irb (ld_mem s, x1) = Inr (0, irb, ld_mem s, x2)" for n irb
    using s2(1) by simp
  from this [of 255] have "modify_loop hw (schib\<lparr>pmcw_ena := enabled\<rparr>) 256 0 irb (ld_mem s, x1) = Inr (0, irb, ld_mem s, x2)" for irb
    by simp
  then have "stage2_device hw enabled s = Inr (s\<lparr>ld_lpm := if enabled then pmcw_lpum schib else ld_lpm s, ld_dev := x2\<rparr>)"
    using s1(1) by (simp add: stage2_device_def set_device_def)
  then show thesis using that s2(2) by blast
qed

lemma stage2_start_ok:
  assumes "block_loader m dev_ok info platter loadable" and "runs_programs hw dev_ok run"
    and "stage2_program platter info loadable t config_nr es psw"
    and "loader_ok dev_ok s" and "3 \<le> card (free_pages (ld_heap s))" and "low_heap (ld_heap s)"
    and "mem_bytes (ld_mem s) desc 16 = enc info (disk_blockptr_from_blocknum t info)"
    and "{desc..<desc + 16} \<inter> page_area (free_pages (ld_heap s)) = {}"
    and "(\<Union>c \<in> set es. entry_area c) \<inter> page_area (free_pages (ld_heap s)) = {}"
  shows "\<exists>s'. stage2_start hw m s desc config_nr = Some (Inr (psw, s')) \<and> same_heap (ld_heap s) (ld_heap s') \<and>
    (\<forall>c \<in> set es. entry_loaded (ld_mem s') c)"
proof -
  obtain lpm x where s1: "stage2_device hw True s = Inr (s\<lparr>ld_lpm := lpm, ld_dev := x\<rparr>)" "dev_ok x"
    using stage2_device_ok [OF assms(2)] assms(4) by (metis loader_ok_def)
  then have "loader_ok dev_ok (s\<lparr>ld_lpm := lpm, ld_dev := x\<rparr>)" using assms(4) by (simp add: loader_ok_def)
  then obtain s2 where s2: "stage2_load m (s\<lparr>ld_lpm := lpm, ld_dev := x\<rparr>) desc config_nr = Some (Inr (psw, s2))"
    "same_heap (ld_heap s) (ld_heap s2)" "dev_ok (ld_dev s2)" "\<forall>c \<in> set es. entry_loaded (ld_mem s2) c"
    using block_loader.stage2_load_ok [OF assms(1,3), of "s\<lparr>ld_lpm := lpm, ld_dev := x\<rparr>" desc] assms(5-9) by auto
  obtain lpm' x' where s3: "stage2_device hw False s2 = Inr (s2\<lparr>ld_lpm := lpm', ld_dev := x'\<rparr>)"
    using stage2_device_ok [OF assms(2) s2(3)] by metis
  then show ?thesis using s1(1) s2 by (simp add: stage2_start_def obind_def)
qed

subsection \<open>ECKD disks\<close>

text \<open>
  The channel programs of ECKD disks: a seek, a search that is repeated until it finds the record, and read
  commands that go on with the next record while they are chained. A program that is not of this form is not
  described.
\<close>

fun eckd_read :: "(nat \<Rightarrow> u8 list option) \<Rightarrow> nat \<Rightarrow> ccw1 list \<Rightarrow> memory \<Rightarrow> c_fault + memory" where
  "eckd_read track r [] mem = Inl Stopped"
| "eckd_read track r (c # cs) mem =
     (case (ccw_cda c, track r) of
        (DataAt a, Some bytes) \<Rightarrow>
          if cmd_code c \<noteq> 0x86 then Inl Stopped
          else
            (let mem = mem_write mem a (take (ccw_count c) bytes)
             in if ccw_flags c AND CCW_FLAG_CC = 0 then Inr mem else eckd_read track (r + 1) cs mem)
      | _ \<Rightarrow> Inl Stopped)"

fun eckd_run :: "(nat \<Rightarrow> nat \<Rightarrow> nat \<Rightarrow> u8 list option) \<Rightarrow> ccw1 list \<Rightarrow> memory \<Rightarrow> c_fault + memory" where
  "eckd_run dev (k # f # t # cs) mem =
     (case (ccw_cda k, ccw_cda f, ccw_cda t) of
        (SeekArg c h, SearchArg c' h' r, ToCcw n) \<Rightarrow>
          if cmd_code k = 0x07 \<and> ccw_flags k AND CCW_FLAG_CC \<noteq> 0 \<and> cmd_code f = 0x31 \<and> ccw_flags f AND CCW_FLAG_CC \<noteq> 0 \<and>
            cmd_code t = 0x08 \<and> n = 1 \<and> c' = c \<and> h' = h
          then eckd_read (dev c h) r cs mem
          else Inl Stopped
      | _ \<Rightarrow> Inl Stopped)"
| "eckd_run dev _ mem = Inl Stopped"

text \<open>The records of a disk: the high bits of the cylinder are in the head field.\<close>

definition eckd_device :: "disk_info \<Rightarrow> platter \<Rightarrow> (nat \<Rightarrow> nat \<Rightarrow> nat \<Rightarrow> u8 list option) \<Rightarrow> bool" where
  "eckd_device info platter dev \<longleftrightarrow>
     (\<forall>c h r. c < 2 ^ 28 \<and> h < geo_heads info \<and> 0 < r \<and> r \<le> geo_sectors info \<longrightarrow>
        dev (c mod 65536) ((h OR (drop_bit 12 c AND 0xFFF0)) mod 65536) r = Some (platter (chs_block info c h r)))"

lemma eckd_read_ccws:
  assumes "\<And>i. i \<le> n \<Longrightarrow> track (r + i) = Some (recs i) \<and> length (recs i) = sz" and "load + sz * (n + 1) \<le> 2 ^ 32" and "0 < sz"
  shows "eckd_read track r (read_ccws sz load n) mem = Inr (mem_write mem load (concat (map recs [0..<n + 1])))"
  using assms(1,2)
proof (induction n arbitrary: r load recs mem)
  case 0
  then have "load < 2 ^ 32" "track r = Some (recs 0)" "length (recs 0) = sz" using assms(3) by auto
  then show ?case by simp
next
  case (Suc n)
  have r0: "track r = Some (recs 0)" "length (recs 0) = sz" "load < 2 ^ 32" using Suc.prems(1) [of 0] Suc.prems(2) assms(3) by auto
  have "eckd_read track (r + 1) (read_ccws sz (load + sz) n) (mem_write mem load (recs 0)) =
      Inr (mem_write (mem_write mem load (recs 0)) (load + sz) (concat (map (\<lambda>i. recs (i + 1)) [0..<n + 1])))"
    by (rule Suc.IH) (use Suc.prems(1) [of "Suc _"] Suc.prems(2) in \<open>auto simp: algebra_simps\<close>)
  moreover have "concat (map recs [0..<Suc n + 1]) = recs 0 @ concat (map (\<lambda>i. recs (i + 1)) [0..<n + 1])"
    by (simp add: upt_conv_Cons map_Suc_upt [symmetric] del: upt_Suc) (simp add: comp_def)
  moreover have "mem_write (mem_write mem load (recs 0)) (load + sz) bs = mem_write mem load (recs 0 @ bs)" for bs
    using mem_write_append [of mem load "recs 0" bs] r0(2) by simp
  ultimately show ?case using r0 by (simp del: upt_Suc)
qed

lemma eckd_run_program:
  assumes "\<And>i. i \<le> n \<Longrightarrow> dev c h (r + i) = Some (recs i) \<and> length (recs i) = sz" and "load + sz * (n + 1) \<le> 2 ^ 32" and "0 < sz"
  shows "eckd_run dev (eckd_program c h r sz load n) mem = Inr (mem_write mem load (concat (map recs [0..<n + 1])))"
  using eckd_read_ccws [of n "dev c h" r recs sz load mem] assms by (simp add: eckd_program_def del: upt_Suc)

lemma length_read_ccws: "length (read_ccws sz load n) = n + 1"
  by (induction n arbitrary: load) simp_all

lemma eckd_fields:
  assumes "disk_ok info" and "disk_type_is_eckd (di_type info)" and "ptr_ok info p" and "mem_bytes mem a 16 = enc info p"
  shows "read_be mem a 2 = bp_cyl p mod 65536"
    and "read_be mem (a + 2) 2 = (bp_head p OR (drop_bit 12 (bp_cyl p) AND 0xFFF0)) mod 65536"
    and "read_be mem (a + 4) 1 = bp_sec p" and "read_be mem (a + 5) 2 = phy_block_size info" and "read_be mem (a + 7) 1 = bp_blockct p"
proof -
  have e: "enc info p = be 2 (bp_cyl p) @ be 2 (bp_head p OR (drop_bit 12 (bp_cyl p) AND 0xFFF0)) @ be 1 (bp_sec p) @
      be 2 (bp_size p) @ be 1 (bp_blockct p) @ replicate 8 0"
    using assms(1,2) by (simp add: blockptr_bytes_def disk_ok_def)
  have b: "bp_sec p < 256" "bp_blockct p < 256" "bp_size p = phy_block_size info" "phy_block_size info < 65536"
    using assms(1-3) by (auto simp: ptr_ok_def disk_ok_def)
  note sub = mem_bytes_sub [OF assms(4) [unfolded e]]
  show "read_be mem a 2 = bp_cyl p mod 65536" using sub [of 0 2] by (simp add: read_be_value be_value_be)
  show "read_be mem (a + 2) 2 = (bp_head p OR (drop_bit 12 (bp_cyl p) AND 0xFFF0)) mod 65536"
    using sub [of 2 2] by (simp add: read_be_value be_value_be)
  show "read_be mem (a + 4) 1 = bp_sec p" by (rule read_be_bytes) (use sub [of 4 1] b in simp_all)
  show "read_be mem (a + 5) 2 = phy_block_size info" by (rule read_be_bytes) (use sub [of 5 2] b in simp_all)
  show "read_be mem (a + 7) 1 = bp_blockct p" by (rule read_be_bytes) (use sub [of 7 1] b in simp_all)
qed

lemma ptr_data_map:
  assumes "\<not> disk_is_zero_block p info"
  shows "ptr_data platter info p = concat (map (\<lambda>i. platter (ptr_first info p + i)) [0..<bp_blockct p + 1])"
proof -
  have "[ptr_first info p..<ptr_first info p + bp_blockct p + 1] = map (\<lambda>i. ptr_first info p + i) [0..<bp_blockct p + 1]"
    by (rule nth_equalityI) (simp_all del: upt_Suc)
  then show ?thesis using assms by (simp add: ptr_data_def ptr_blocks_def comp_def del: upt_Suc)
qed

lemma eckd_run_pointer:
  assumes "disk_ok info" and "disk_type_is_eckd (di_type info)" and "eckd_device info platter dev" and "\<And>b. length (platter b) = phy_block_size info"
    and "ptr_ok info p" and "\<not> disk_is_zero_block p info" and "load + phy_block_size info * (bp_blockct p + 1) \<le> 2 ^ 32"
  shows "eckd_run dev (eckd_program (bp_cyl p mod 65536) ((bp_head p OR (drop_bit 12 (bp_cyl p) AND 0xFFF0)) mod 65536) (bp_sec p)
      (phy_block_size info) load (bp_blockct p)) mem = Inr (mem_write mem load (ptr_data platter info p))"
  unfolding ptr_data_map [OF assms(6)]
proof (rule eckd_run_program)
  fix i assume "i \<le> bp_blockct p"
  moreover have "0 < bp_sec p" "bp_cyl p < 2 ^ 28" "bp_head p < geo_heads info" "bp_sec p + bp_blockct p \<le> geo_sectors info"
    using assms(2,5,6) by (auto simp: ptr_ok_def)
  moreover have "ptr_first info p + i = chs_block info (bp_cyl p) (bp_head p) (bp_sec p + i)"
    using assms(2) \<open>0 < bp_sec p\<close> by (simp add: ptr_first_def chs_block_def)
  ultimately show "dev (bp_cyl p mod 65536) ((bp_head p OR (drop_bit 12 (bp_cyl p) AND 0xFFF0)) mod 65536) (bp_sec p + i) =
      Some (platter (ptr_first info p + i)) \<and> length (platter (ptr_first info p + i)) = phy_block_size info"
    using assms(3,4) by (simp add: eckd_device_def)
qed (use assms(1,7) in \<open>simp_all add: disk_ok_def\<close>)

text \<open>A program that only writes to the area of the load.\<close>

lemma loaded_write:
  assumes "heap_ok (ld_heap s)" and "dev_ok x"
  shows "loaded dev_ok s (s\<lparr>ld_mem := mem_write (ld_mem s) addr bytes, ld_lpm := lpm, ld_dev := x\<rparr>) A addr bytes"
  using assms by (simp add: loaded_def same_heap_def)

lemma eckd_load_ok:
  assumes "runs_programs hw dev_ok (eckd_run dev)" and "eckd_device info platter dev" and "disk_type_is_eckd (di_type info)" and "disk_ok info"
    and "\<And>b. length (platter b) = phy_block_size info"
    and "loader_ok dev_ok s" and "free_pages (ld_heap s) \<noteq> {}" and "ptr_ok info p" and "\<not> disk_is_zero_block p info"
    and "mem_bytes (ld_mem s) a 16 = enc info p" and "{a..<a + 16} \<inter> page_area (free_pages (ld_heap s)) = {}"
    and "n = phy_block_size info * (bp_blockct p + 1)" and "apart s addr n"
  shows "\<exists>s'. eckd_load_direct hw s a addr = Some (Inr (addr + n, s')) \<and> loaded dev_ok s s' {a..<a + 16} addr (ptr_data platter info p)"
proof -
  have "0 < card (free_pages (ld_heap s))" using assms(7) finite_free_pages by (simp add: card_gt_0_iff)
  then obtain page s0 where tk: "takes_page s page s0" by (rule page_taken [OF assms(6)])
  note pg = takes_page_facts [OF assms(6) tk]
  have m: "mem_bytes (ld_mem s0) a 16 = enc info p" using takes_page_keeps [OF tk assms(11)] assms(10) by simp
  note f = eckd_fields [OF assms(4,3,8) m]
  define prog where "prog = eckd_program (bp_cyl p mod 65536) ((bp_head p OR (drop_bit 12 (bp_cyl p) AND 0xFFF0)) mod 65536) (bp_sec p)
      (phy_block_size info) addr (bp_blockct p)"
  have ct: "bp_blockct p < 256" using assms(3,4,8) by (auto simp: ptr_ok_def disk_ok_def)
  have fit: "\<not> PAGE_SIZE < 8 * length prog" using ct by (simp add: prog_def eckd_program_def length_read_ccws)
  have run: "eckd_run dev prog (ld_mem s0) = Inr (mem_write (ld_mem s0) addr (ptr_data platter info p))"
    unfolding prog_def by (rule eckd_run_pointer [OF assms(4,3,2,5,8,9)]) (use assms(12,13) in \<open>simp add: apart_def\<close>)
  have h0: "heap_ok (ld_heap s0)" "dev_ok (ld_dev s0)" using pg(2) by (simp_all add: loader_ok_def)
  obtain lpm x where io: "stage2_io hw prog s0 =
      Some (Inr (s0\<lparr>ld_mem := mem_write (ld_mem s0) addr (ptr_data platter info p), ld_lpm := lpm, ld_dev := x\<rparr>))" "dev_ok x"
    by (rule stage2_io_runs [OF assms(1) h0(2) run])
  define s1 where "s1 = s0\<lparr>ld_mem := mem_write (ld_mem s0) addr (ptr_data platter info p), ld_lpm := lpm, ld_dev := x\<rparr>"
  have "loaded dev_ok s0 s1 ({a..<a + 16} \<union> {page..<page + PAGE_SIZE}) addr (ptr_data platter info p)"
    unfolding s1_def by (rule loaded_write) (use h0(1) io(2) in simp_all)
  then obtain h where h: "stage2_free s1 page = Inr (s1\<lparr>ld_heap := h\<rparr>)" "loaded dev_ok s (s1\<lparr>ld_heap := h\<rparr>) {a..<a + 16} addr (ptr_data platter info p)"
    by (rule takes_page_loaded [OF assms(6) tk])
  have "eckd_load_direct hw s a addr = Some (Inr (addr + n, s1\<lparr>ld_heap := h\<rparr>))"
    unfolding eckd_load_direct_def pg(1) obind_def using fit io(1) h(1) by (simp add: Let_def f [simplified] prog_def [symmetric] s1_def [symmetric] assms(12))
  then show ?thesis using h(2) by blast
qed

lemma eckd_block_loader:
  assumes "runs_programs hw dev_ok (eckd_run dev)" and "eckd_device info platter dev" and "disk_type_is_eckd (di_type info)"
    and "table_disk info" and "phy_block_size info \<le> PAGE_SIZE" and "\<And>b. length (platter b) = phy_block_size info"
  shows "block_loader (eckd2 hw) dev_ok info platter (\<lambda>_. True)"
proof
  have dok: "disk_ok info" using assms(4) by (simp add: table_disk_def)
  fix p mem a
  assume p: "ptr_ok info p" "\<not> disk_is_zero_block p info" "mem_bytes mem a 16 = enc info p"
  note f = eckd_fields [OF dok assms(3) p(1,3)]
  show "extract_length (eckd2 hw) mem a = phy_block_size info * (bp_blockct p + 1)"
    unfolding eckd2_def disk_module.simps eckd_extract_length_def f by simp
  have "0 < bp_sec p" using p(1,2) assms(3) by (simp add: ptr_ok_def)
  then show "is_zero_block (eckd2 hw) mem a" unfolding eckd2_def disk_module.simps eckd_is_zero_block_def f by simp
next
  fix s p a n addr
  have dok: "disk_ok info" using assms(4) by (simp add: table_disk_def)
  assume "loader_ok dev_ok s" "free_pages (ld_heap s) \<noteq> {}" "ptr_ok info p" "\<not> disk_is_zero_block p info"
    "mem_bytes (ld_mem s) a 16 = enc info p" "{a..<a + 16} \<inter> page_area (free_pages (ld_heap s)) = {}"
    "n = phy_block_size info * (bp_blockct p + 1)" "apart s addr n"
  from eckd_load_ok [OF assms(1-3) dok assms(6) this]
  show "\<exists>s'. load_direct (eckd2 hw) s a addr = Some (Inr (addr + n, s')) \<and> loaded dev_ok s s' {a..<a + 16} addr (ptr_data platter info p)"
    by (simp add: eckd2_def)
qed (use assms(4-6) in simp_all)

subsection \<open>FBA disks\<close>

text \<open>
  The channel programs of FBA disks: the definition of an extent, and pairs of commands that locate a block of it
  and read it, while they are chained.
\<close>

fun fba_read :: "(nat \<Rightarrow> u8 list option) \<Rightarrow> nat \<Rightarrow> nat \<Rightarrow> nat \<Rightarrow> ccw1 list \<Rightarrow> memory \<Rightarrow> c_fault + memory" where
  "fba_read dev blk_size ext_loc ext_end (l # r # cs) mem =
     (case (ccw_cda l, ccw_cda r) of
        (LocateArg blk_nr blk_ct, DataAt a) \<Rightarrow>
          (case dev (ext_loc + blk_nr) of
             None \<Rightarrow> Inl Stopped
           | Some bytes \<Rightarrow>
               if cmd_code l = 0x43 \<and> ccw_flags l AND CCW_FLAG_CC \<noteq> 0 \<and> blk_ct = 1 \<and> blk_nr \<le> ext_end \<and>
                 cmd_code r = 0x42 \<and> ccw_count r = blk_size
               then
                 (let mem = mem_write mem a bytes
                  in if ccw_flags r AND CCW_FLAG_CC = 0 then Inr mem else fba_read dev blk_size ext_loc ext_end cs mem)
               else Inl Stopped)
      | _ \<Rightarrow> Inl Stopped)"
| "fba_read dev blk_size ext_loc ext_end _ mem = Inl Stopped"

fun fba_run :: "(nat \<Rightarrow> u8 list option) \<Rightarrow> ccw1 list \<Rightarrow> memory \<Rightarrow> c_fault + memory" where
  "fba_run dev (d # cs) mem =
     (case ccw_cda d of
        ExtentArg blk_size ext_loc ext_end \<Rightarrow>
          if cmd_code d = 0x63 \<and> ccw_flags d AND CCW_FLAG_CC \<noteq> 0 then fba_read dev blk_size ext_loc ext_end cs mem else Inl Stopped
      | _ \<Rightarrow> Inl Stopped)"
| "fba_run dev [] mem = Inl Stopped"

definition fba_device :: "platter \<Rightarrow> (nat \<Rightarrow> u8 list option) \<Rightarrow> bool" where
  "fba_device platter dev \<longleftrightarrow> (\<forall>b. 0 < b \<and> b < 2 ^ 32 \<longrightarrow> dev b = Some (platter b))"

lemma fba_read_ccws:
  assumes "\<And>i. i \<le> n \<Longrightarrow> dev (loc + k + i) = Some (recs i) \<and> length (recs i) = sz" and "load + sz * (n + 1) \<le> 2 ^ 32" and "0 < sz"
    and "k + n \<le> ext_end"
  shows "fba_read dev sz loc ext_end (fba_ccws sz load k n) mem = Inr (mem_write mem load (concat (map recs [0..<n + 1])))"
  using assms(1,2,4)
proof (induction n arbitrary: k load recs mem)
  case 0
  then have "load < 2 ^ 32" "dev (loc + k) = Some (recs 0)" using assms(3) by auto
  then show ?case using 0 by simp
next
  case (Suc n)
  have r0: "dev (loc + k) = Some (recs 0)" "length (recs 0) = sz" "load < 2 ^ 32" "k \<le> ext_end"
    using Suc.prems(1) [of 0] Suc.prems(2,3) assms(3) by auto
  have "fba_read dev sz loc ext_end (fba_ccws sz (load + sz) (k + 1) n) (mem_write mem load (recs 0)) =
      Inr (mem_write (mem_write mem load (recs 0)) (load + sz) (concat (map (\<lambda>i. recs (i + 1)) [0..<n + 1])))"
    by (rule Suc.IH) (use Suc.prems(1) [of "Suc _"] Suc.prems(2,3) in \<open>auto simp: algebra_simps\<close>)
  moreover have "concat (map recs [0..<Suc n + 1]) = recs 0 @ concat (map (\<lambda>i. recs (i + 1)) [0..<n + 1])"
    by (simp add: upt_conv_Cons map_Suc_upt [symmetric] del: upt_Suc) (simp add: comp_def)
  moreover have "mem_write (mem_write mem load (recs 0)) (load + sz) bs = mem_write mem load (recs 0 @ bs)" for bs
    using mem_write_append [of mem load "recs 0" bs] r0(2) by simp
  ultimately show ?case using r0 by (simp del: upt_Suc)
qed

lemma length_fba_ccws: "length (fba_ccws sz load k n) = 2 * (n + 1)"
  by (induction n arbitrary: load k) simp_all

lemma fba_run_blocks:
  assumes "fba_device platter dev" and "\<And>b. length (platter b) = sz" and "0 < sz" and "0 < b" and "b + n < 2 ^ 32" and "load + sz * (n + 1) \<le> 2 ^ 32"
  shows "fba_run dev (fba_program b sz load n) mem = Inr (mem_write mem load (concat (map (\<lambda>i. platter (b + i)) [0..<n + 1])))"
proof -
  have "fba_read dev sz b n (fba_ccws sz load 0 n) mem = Inr (mem_write mem load (concat (map (\<lambda>i. platter (b + i)) [0..<n + 1])))"
    by (rule fba_read_ccws) (use assms in \<open>auto simp: fba_device_def\<close>)
  then show ?thesis using assms(5) by (simp add: fba_program_def del: upt_Suc)
qed

lemma fba_fields:
  assumes "disk_ok info" and "di_type info = disk_type_fba" and "ptr_ok info p" and "mem_bytes mem a 16 = enc info p"
  shows "read_be mem a 8 = bp_block p" and "read_be mem (a + 8) 2 = phy_block_size info" and "read_be mem (a + 10) 2 = bp_blockct p"
proof -
  have e: "enc info p = be 8 (bp_block p) @ be 2 (bp_size p) @ be 2 (bp_blockct p) @ replicate 4 0"
    using assms(2) by (simp add: blockptr_bytes_def disk_type_is_eckd_def)
  have b: "bp_block p < 2 ^ 32" "bp_blockct p < 65536" "bp_size p = phy_block_size info" "phy_block_size info < 65536"
    using assms(1-3) by (auto simp: ptr_ok_def disk_ok_def disk_type_is_eckd_def block_limit_def max_link_count_def split: if_splits)
  note sub = mem_bytes_sub [OF assms(4) [unfolded e]]
  show "read_be mem a 8 = bp_block p" by (rule read_be_bytes) (use sub [of 0 8] b in simp_all)
  show "read_be mem (a + 8) 2 = phy_block_size info" by (rule read_be_bytes) (use sub [of 8 2] b in simp_all)
  show "read_be mem (a + 10) 2 = bp_blockct p" by (rule read_be_bytes) (use sub [of 10 2] b in simp_all)
qed

text \<open>The update of a pointer in memory.\<close>

lemma fba_pointer_update:
  assumes "di_type info = disk_type_fba" and "mem_bytes mem a 16 = enc info p"
  shows "mem_bytes (mem_write (mem_write mem (a + 10) (be 2 ct)) a (be 8 b)) a 16 = enc info (p\<lparr>bp_block := b, bp_blockct := ct\<rparr>)"
    (is "mem_bytes ?m a 16 = _")
proof -
  have e: "enc info q = be 8 (bp_block q) @ be 2 (bp_size q) @ be 2 (bp_blockct q) @ replicate 4 0" for q
    using assms(1) by (simp add: blockptr_bytes_def disk_type_is_eckd_def)
  note sub = mem_bytes_sub [OF assms(2) [unfolded e]]
  have split: "mem_bytes ?m a 16 = mem_bytes ?m a 8 @ mem_bytes ?m (a + 8) 2 @ mem_bytes ?m (a + 10) 2 @ mem_bytes ?m (a + 12) 4"
  proof -
    have "mem_bytes m a 16 = mem_bytes m a 8 @ mem_bytes m (a + 8) 8" "mem_bytes m (a + 8) 8 = mem_bytes m (a + 8) 2 @ mem_bytes m (a + 10) 6"
      "mem_bytes m (a + 10) 6 = mem_bytes m (a + 10) 2 @ mem_bytes m (a + 12) 4" for m
      using mem_bytes_append [of m a 8 8] mem_bytes_append [of m "a + 8" 2 6] mem_bytes_append [of m "a + 10" 2 4]
      by (simp_all add: add.commute)
    then show ?thesis by simp
  qed
  have "mem_bytes ?m (a + 8) 2 = be 2 (bp_size p)" "mem_bytes ?m (a + 12) 4 = replicate 4 0"
    using sub [of 8 2] sub [of 12 4] by (simp_all add: mem_bytes_write_outside)
  moreover have "mem_bytes ?m (a + 10) 2 = be 2 ct" by (simp add: mem_bytes_write_outside)
  ultimately show ?thesis unfolding split e by simp
qed

abbreviation fba_blocks :: "platter \<Rightarrow> nat \<Rightarrow> nat \<Rightarrow> u8 list" where
  "fba_blocks platter b n \<equiv> concat (map (\<lambda>i. platter (b + i)) [0..<n])"

lemma length_fba_blocks: "(\<And>b. length (platter b) = sz) \<Longrightarrow> length (fba_blocks platter b n) = sz * n"
  by (induction n) simp_all

lemma loaded_pointer:
  assumes "loader_ok dev_ok s"
  shows "loaded dev_ok s (s\<lparr>ld_mem := mem_write (mem_write (ld_mem s) (a + 10) (be 2 ct)) a (be 8 b)\<rparr>) {a..<a + 16} addr []"
  using assms by (auto simp: loaded_def loader_ok_def same_heap_def mem_write_def)

text \<open>One pass: what it loads, and the pointer to the rest that it leaves in place of the pointer.\<close>

lemma fba_pass_ok:
  assumes hw: "runs_programs hw dev_ok (fba_run dev)" "fba_device platter dev" "\<And>b. length (platter b) = phy_block_size info"
    and disk: "di_type info = disk_type_fba" "disk_ok info"
    and ld: "loader_ok dev_ok s" "free_pages (ld_heap s) \<noteq> {}"
    and p: "ptr_ok info p" "\<not> disk_is_zero_block p info" "mem_bytes (ld_mem s) a 16 = enc info p"
      "{a..<a + 16} \<inter> page_area (free_pages (ld_heap s)) = {}"
    and r: "r = (if bp_blockct p \<ge> MAX_BLOCKCT then MAX_BLOCKCT - 1 else bp_blockct p)" "apart s addr (phy_block_size info * (r + 1))"
    and q: "q = p\<lparr>bp_block := bp_block p + r + 1, bp_blockct := if bp_blockct p \<ge> MAX_BLOCKCT then bp_blockct p - MAX_BLOCKCT else 0\<rparr>"
  shows "\<exists>s'. fba_pass hw s a addr = Some (Inr (addr + phy_block_size info * (r + 1), s')) \<and>
    loaded dev_ok s s' {a..<a + 16} addr (fba_blocks platter (bp_block p) (r + 1)) \<and>
    ({a..<a + 16} \<inter> {addr..<addr + phy_block_size info * (r + 1)} = {} \<longrightarrow> mem_bytes (ld_mem s') a 16 = enc info q)"
proof -
  define data where "data = fba_blocks platter (bp_block p) (r + 1)"
  have "0 < card (free_pages (ld_heap s))" using ld(2) finite_free_pages by (simp add: card_gt_0_iff)
  then obtain page s0 where tk: "takes_page s page s0" by (rule page_taken [OF ld(1)])
  note pg = takes_page_facts [OF ld(1) tk]
  have m: "mem_bytes (ld_mem s0) a 16 = enc info p" using takes_page_keeps [OF tk p(4)] p(3) by simp
  note f = fba_fields [OF disk(2,1) p(1) m]
  define m1 where "m1 = mem_write (mem_write (ld_mem s0) (a + 10) (be 2 (bp_blockct q))) a (be 8 (bp_block q))"
  have q1: "mem_bytes m1 a 16 = enc info q" unfolding m1_def using fba_pointer_update [OF disk(1) m] by (simp add: q)
  define prog where "prog = fba_program (bp_block p) (phy_block_size info) addr r"
  have b: "0 < bp_block p" "bp_block p + r < 2 ^ 32" "0 < phy_block_size info"
    using p(1,2) disk r(1) by (auto simp: ptr_ok_def disk_ok_def disk_type_is_eckd_def block_limit_def ptr_first_def)
  have fit: "\<not> PAGE_SIZE < 16 + 128 * 8 + 8 * length prog" using r(1) by (simp add: prog_def fba_program_def length_fba_ccws)
  have run: "fba_run dev prog m1 = Inr (mem_write m1 addr data)"
    unfolding prog_def data_def by (rule fba_run_blocks [OF hw(2,3) b(3,1,2)]) (use r(2) in \<open>simp add: apart_def\<close>)
  define s1 where "s1 = s0\<lparr>ld_mem := m1\<rparr>"
  have l1: "loaded dev_ok s0 s1 {a..<a + 16} addr []" unfolding s1_def m1_def by (rule loaded_pointer [OF pg(2)])
  have h1: "heap_ok (ld_heap s1)" "dev_ok (ld_dev s1)" using loaded_keeps(1) [OF l1] by (simp_all add: loader_ok_def)
  obtain lpm x where io: "stage2_io hw prog s1 = Some (Inr (s1\<lparr>ld_mem := mem_write m1 addr data, ld_lpm := lpm, ld_dev := x\<rparr>))" "dev_ok x"
    by (rule stage2_io_runs [OF hw(1) h1(2)]) (use run in \<open>simp_all add: s1_def\<close>)
  define s2 where "s2 = s1\<lparr>ld_mem := mem_write m1 addr data, ld_lpm := lpm, ld_dev := x\<rparr>"
  have io': "stage2_io hw prog s1 = Some (Inr s2)" using io(1) by (simp add: s2_def)
  have "loaded dev_ok s1 s2 {page..<page + PAGE_SIZE} addr data"
    using loaded_write [OF h1(1), where dev_ok = dev_ok and x = x and addr = addr and bytes = data] io(2) by (simp add: s2_def s1_def)
  then have "loaded dev_ok s0 s2 ({a..<a + 16} \<union> {page..<page + PAGE_SIZE}) addr ([] @ data)"
    by (intro loaded_trans [OF l1]) simp_all
  then have "loaded dev_ok s0 s2 ({a..<a + 16} \<union> {page..<page + PAGE_SIZE}) addr data" by simp
  then obtain h where h: "stage2_free s2 page = Inr (s2\<lparr>ld_heap := h\<rparr>)" "loaded dev_ok s (s2\<lparr>ld_heap := h\<rparr>) {a..<a + 16} addr data"
    by (rule takes_page_loaded [OF ld(1) tk])
  have "fba_pass hw s a addr = Some (Inr (addr + phy_block_size info * (r + 1), s2\<lparr>ld_heap := h\<rparr>))"
  proof (cases "bp_blockct p \<ge> MAX_BLOCKCT")
    case True
    then have "r = 127" using r(1) by simp
    then have "s0\<lparr>ld_mem := mem_write (mem_write (ld_mem s0) (a + 10) (be 2 (bp_blockct p - MAX_BLOCKCT))) a (be 8 (bp_block p + 127 + 1))\<rparr> = s1"
      using True by (simp add: s1_def m1_def q)
    then show ?thesis
      unfolding fba_pass_def pg(1) obind_def using True \<open>r = 127\<close> fit io' h(1) by (simp add: Let_def f prog_def)
  next
    case False
    then have "r = bp_blockct p" using r(1) by simp
    then have "s0\<lparr>ld_mem := mem_write (mem_write (ld_mem s0) (a + 10) (be 2 0)) a (be 8 (bp_block p + bp_blockct p + 1))\<rparr> = s1"
      using False by (simp add: s1_def m1_def q)
    then show ?thesis
      unfolding fba_pass_def pg(1) obind_def using False \<open>r = bp_blockct p\<close> fit io' h(1) by (simp add: Let_def f prog_def)
  qed
  moreover have "mem_bytes (ld_mem (s2\<lparr>ld_heap := h\<rparr>)) a 16 = enc info q"
    if "{a..<a + 16} \<inter> {addr..<addr + phy_block_size info * (r + 1)} = {}"
  proof -
    have dl: "length data = phy_block_size info * (r + 1)" unfolding data_def by (rule length_fba_blocks [OF hw(3)])
    have "mem_bytes (mem_write m1 addr data) a 16 = mem_bytes m1 a 16" by (rule mem_bytes_write_disjoint, unfold dl, rule that)
    then show ?thesis using q1 by (simp add: s2_def)
  qed
  ultimately show ?thesis using h(2) unfolding data_def by blast
qed

lemma ptr_data_fba:
  assumes "di_type info = disk_type_fba" and "\<not> disk_is_zero_block p info"
  shows "ptr_data platter info p = fba_blocks platter (bp_block p) (bp_blockct p + 1)"
  using ptr_data_map [OF assms(2)] assms(1) by (simp add: ptr_first_def disk_type_is_eckd_def del: upt_Suc)

lemma fba_blocks_split: "fba_blocks platter b (m + n) = fba_blocks platter b m @ fba_blocks platter (b + m) n"
  by (induction n) (simp_all add: add.assoc)

text \<open>A pointer to at most 128 blocks is loaded in one pass.\<close>

lemma fba_load_small:
  assumes hw: "runs_programs hw dev_ok (fba_run dev)" "fba_device platter dev" "\<And>b. length (platter b) = phy_block_size info"
    and disk: "di_type info = disk_type_fba" "disk_ok info"
    and ld: "loader_ok dev_ok s" "free_pages (ld_heap s) \<noteq> {}"
    and p: "ptr_ok info p" "\<not> disk_is_zero_block p info" "mem_bytes (ld_mem s) a 16 = enc info p"
      "{a..<a + 16} \<inter> page_area (free_pages (ld_heap s)) = {}"
    and ct: "bp_blockct p < MAX_BLOCKCT" and n: "n = phy_block_size info * (bp_blockct p + 1)" "apart s addr n"
    and ov: "{a..<a + 16} \<inter> {addr..<addr + n} = {} \<or> overlay_ok a addr (ptr_data platter info p)"
  shows "\<exists>s'. fba_load_direct hw s a addr = Some (Inr (addr + n, s')) \<and> loaded dev_ok s s' {a..<a + 16} addr (ptr_data platter info p)"
proof -
  define q where "q = p\<lparr>bp_block := bp_block p + bp_blockct p + 1, bp_blockct := 0\<rparr>"
  obtain s' where s': "fba_pass hw s a addr = Some (Inr (addr + n, s'))" "loaded dev_ok s s' {a..<a + 16} addr (ptr_data platter info p)"
    "{a..<a + 16} \<inter> {addr..<addr + n} = {} \<Longrightarrow> mem_bytes (ld_mem s') a 16 = enc info q"
    using fba_pass_ok [OF hw disk ld p, of "bp_blockct p" addr q] ct n by (auto simp: q_def ptr_data_fba [OF disk(1) p(2)] simp del: upt_Suc)
  have len: "length (ptr_data platter info p) = n"
    unfolding n ptr_data_fba [OF disk(1) p(2)] by (rule length_fba_blocks [OF hw(3)])
  have "mem_bytes (ld_mem s') (a + 10) 2 = [0, 0]"
  proof (cases "{a..<a + 16} \<inter> {addr..<addr + n} = {}")
    case True
    have "take 2 (drop 10 (enc info q)) = [0, 0]"
      using disk(1) by (simp add: blockptr_bytes_def disk_type_is_eckd_def q_def be_zero numeral_2_eq_2)
    then show ?thesis using mem_bytes_sub [OF s'(3) [OF True], of 10 2] by simp
  next
    case False
    then have o: "addr \<le> a" "a + 16 \<le> addr + n" "take 2 (drop (a - addr + 10) (ptr_data platter info p)) = [0, 0]"
      using ov len unfolding overlay_ok_def by auto
    have "mem_bytes (ld_mem s') addr (length (ptr_data platter info p)) = ptr_data platter info p"
      by (rule loaded_data [OF s'(2)]) (use n(2) len in \<open>simp add: apart_def\<close>)
    then have "mem_bytes (ld_mem s') (addr + (a - addr + 10)) 2 = take 2 (drop (a - addr + 10) (ptr_data platter info p))"
      by (rule mem_bytes_sub) (use o len in simp)
    moreover have "addr + (a - addr + 10) = a + 10" using o(1) by simp
    ultimately show ?thesis using o(3) by simp
  qed
  then have "read_be (ld_mem s') (a + 10) 2 = 0" by (simp add: read_be_value)
  then show ?thesis using s'(1,2) by (subst fba_load_direct.simps) simp
qed

text \<open>A pointer to more than 129 blocks is loaded in two passes. Of 129 blocks only 128 are loaded.\<close>

lemma fba_load_large:
  assumes hw: "runs_programs hw dev_ok (fba_run dev)" "fba_device platter dev" "\<And>b. length (platter b) = phy_block_size info"
    and disk: "di_type info = disk_type_fba" "disk_ok info"
    and ld: "loader_ok dev_ok s" "free_pages (ld_heap s) \<noteq> {}"
    and p: "ptr_ok info p" "\<not> disk_is_zero_block p info" "mem_bytes (ld_mem s) a 16 = enc info p"
      "{a..<a + 16} \<inter> page_area (free_pages (ld_heap s)) = {}"
    and ct: "MAX_BLOCKCT \<le> bp_blockct p" and n: "n = phy_block_size info * (bp_blockct p + 1)" "apart s addr n"
    and ov: "{a..<a + 16} \<inter> {addr..<addr + n} = {}"
  shows "\<exists>s'. fba_load_direct hw s a addr = Some (Inr (addr + (if bp_blockct p = MAX_BLOCKCT then phy_block_size info * MAX_BLOCKCT else n), s')) \<and>
    loaded dev_ok s s' {a..<a + 16} addr
      (if bp_blockct p = MAX_BLOCKCT then fba_blocks platter (bp_block p) MAX_BLOCKCT else ptr_data platter info p)"
proof -
  let ?sz = "phy_block_size info"
  define q where "q = p\<lparr>bp_block := bp_block p + MAX_BLOCKCT, bp_blockct := bp_blockct p - MAX_BLOCKCT\<rparr>"
  let ?n1 = "?sz * MAX_BLOCKCT" and ?n2 = "?sz * (bp_blockct q + 1)"
  have n12: "n = ?n1 + ?n2" unfolding n(1) add_mult_distrib2 [symmetric] using ct by (simp add: q_def)
  note ar = apart_split [OF n(2) [unfolded n12]] and dj = disjoint_split [OF ov [unfolded n12]]
  have "\<exists>s'. fba_pass hw s a addr = Some (Inr (addr + ?sz * (127 + 1), s')) \<and>
      loaded dev_ok s s' {a..<a + 16} addr (fba_blocks platter (bp_block p) (127 + 1)) \<and>
      ({a..<a + 16} \<inter> {addr..<addr + ?sz * (127 + 1)} = {} \<longrightarrow> mem_bytes (ld_mem s') a 16 = enc info q)"
    by (rule fba_pass_ok [OF hw disk ld p]) (use ct ar(1) in \<open>simp_all add: q_def\<close>)
  then obtain s1 where s1: "fba_pass hw s a addr = Some (Inr (addr + ?n1, s1))"
    "loaded dev_ok s s1 {a..<a + 16} addr (fba_blocks platter (bp_block p) MAX_BLOCKCT)" "mem_bytes (ld_mem s1) a 16 = enc info q"
    using dj(1) by auto
  note k1 = loaded_keeps [OF s1(2)]
  have q: "ptr_ok info q" "\<not> disk_is_zero_block q info" "bp_blockct q < MAX_BLOCKCT"
    using p(1,2) disk ct by (auto simp: q_def ptr_ok_def disk_type_is_eckd_def block_limit_def max_link_count_def ptr_first_def zero_block_iff [OF disk(2)])
  have rest: "read_be (ld_mem s1) (a + 10) 2 = bp_blockct q" by (rule fba_fields(3) [OF disk(2,1) q(1) s1(3)])
  show ?thesis
  proof (cases "bp_blockct p = MAX_BLOCKCT")
    case True
    then have "fba_load_direct hw s a addr = Some (Inr (addr + ?n1, s1))"
      using s1(1) rest by (subst fba_load_direct.simps) (simp add: q_def)
    then show ?thesis using s1(2) True by auto
  next
    case False
    obtain s2 where s2: "fba_load_direct hw s1 a (addr + ?n1) = Some (Inr (addr + ?n1 + ?n2, s2))"
      "loaded dev_ok s1 s2 {a..<a + 16} (addr + ?n1) (ptr_data platter info q)"
      using fba_load_small [OF hw disk k1(1) ld(2) [folded k1(4)] q(1,2) s1(3) p(4) [folded k1(4)] q(3) refl]
        apart_cong [OF k1(4)] ar(2) dj(2) by blast
    have l1: "length (fba_blocks platter (bp_block p) MAX_BLOCKCT) = ?n1" by (rule length_fba_blocks [OF hw(3)])
    have d: "ptr_data platter info p = fba_blocks platter (bp_block p) MAX_BLOCKCT @ ptr_data platter info q"
    proof -
      have "bp_blockct p + 1 = MAX_BLOCKCT + (bp_blockct q + 1)" using ct by (simp add: q_def)
      then show ?thesis
        unfolding ptr_data_fba [OF disk(1) p(2)] ptr_data_fba [OF disk(1) q(2)] by (simp only: fba_blocks_split) (simp add: q_def)
    qed
    have "loaded dev_ok s s2 ({a..<a + 16} \<union> {a..<a + 16}) addr (ptr_data platter info p)"
      unfolding d by (rule loaded_trans [OF s1(2)]) (use s2(2) dj(1) in \<open>simp_all only: l1\<close>)
    moreover have "fba_load_direct hw s a addr = Some (Inr (addr + n, s2))"
      using s1(1) s2(1) rest False ct by (subst fba_load_direct.simps) (simp add: q_def n12 add.assoc)
    ultimately show ?thesis using False by auto
  qed
qed

lemma fba_block_loader:
  assumes "runs_programs hw dev_ok (fba_run dev)" and "fba_device platter dev" and "di_type info = disk_type_fba"
    and "table_disk info" and "phy_block_size info \<le> PAGE_SIZE" and "\<And>b. length (platter b) = phy_block_size info"
  shows "block_loader (fba2 hw) dev_ok info platter (\<lambda>p. bp_blockct p \<noteq> MAX_BLOCKCT)"
proof
  have dok: "disk_ok info" using assms(4) by (simp add: table_disk_def)
  fix p mem a
  assume p: "ptr_ok info p" "\<not> disk_is_zero_block p info" "mem_bytes mem a 16 = enc info p"
  note f = fba_fields [OF dok assms(3) p(1,3)]
  show "extract_length (fba2 hw) mem a = phy_block_size info * (bp_blockct p + 1)"
    unfolding fba2_def disk_module.simps fba_extract_length_def f by simp
  have "0 < bp_block p" "bp_block p < 2 ^ 32"
    using p(1,2) assms(3) by (auto simp: ptr_ok_def disk_type_is_eckd_def ptr_first_def block_limit_def)
  then show "is_zero_block (fba2 hw) mem a" unfolding fba2_def disk_module.simps fba_is_zero_block_def f by simp
next
  fix s p a n addr
  have dok: "disk_ok info" using assms(4) by (simp add: table_disk_def)
  assume a: "loader_ok dev_ok s" "free_pages (ld_heap s) \<noteq> {}" "ptr_ok info p" "\<not> disk_is_zero_block p info"
    "mem_bytes (ld_mem s) a 16 = enc info p" "{a..<a + 16} \<inter> page_area (free_pages (ld_heap s)) = {}"
    and l: "bp_blockct p \<noteq> MAX_BLOCKCT" and n: "n = phy_block_size info * (bp_blockct p + 1)" "apart s addr n"
    and o: "{a..<a + 16} \<inter> {addr..<addr + n} = {} \<or> bp_blockct p = 0 \<and> overlay_ok a addr (ptr_data platter info p)"
  have "\<exists>s'. fba_load_direct hw s a addr = Some (Inr (addr + n, s')) \<and> loaded dev_ok s s' {a..<a + 16} addr (ptr_data platter info p)"
  proof (cases "bp_blockct p < MAX_BLOCKCT")
    case True
    then show ?thesis using fba_load_small [OF assms(1,2,6,3) dok a _ n] o by blast
  next
    case False
    then show ?thesis using fba_load_large [OF assms(1,2,6,3) dok a _ n] o l by auto
  qed
  then show "\<exists>s'. load_direct (fba2 hw) s a addr = Some (Inr (addr + n, s')) \<and> loaded dev_ok s s' {a..<a + 16} addr (ptr_data platter info p)"
    by (simp add: fba2_def)
qed (use assms(4-6) in simp_all)

section \<open>Simulated disks\<close>

text \<open>Disks on simulated channels, with the records that the block pointers name. They implement the contracts above.\<close>

definition eckd_records :: "disk_info \<Rightarrow> platter \<Rightarrow> nat \<Rightarrow> nat \<Rightarrow> nat \<Rightarrow> u8 list option" where
  "eckd_records info platter c h r = Some (platter (chs_block info (c + 65536 * (h div 16)) (h mod 16) r))"

lemma large_volume_address:
  fixes c h :: nat
  assumes "c < 2 ^ 28" and "h < 16"
  shows "(h OR (drop_bit 12 c AND 0xFFF0)) mod 65536 mod 16 = h" and "(h OR (drop_bit 12 c AND 0xFFF0)) mod 65536 div 16 = c div 65536"
proof -
  have m: "n mod 65536 = take_bit 16 n" "n mod 16 = take_bit 4 n" "n div 16 = drop_bit 4 n" "n div 65536 = drop_bit 16 n" for n :: nat
    by (simp_all add: take_bit_eq_mod drop_bit_eq_div)
  have h: "take_bit 4 h = h" "drop_bit 4 h = 0" using assms(2) by (simp_all add: take_bit_nat_eq_self_iff drop_bit_eq_div)
  have c: "take_bit 12 (drop_bit 16 c) = drop_bit 16 c" using assms(1) by (simp add: take_bit_nat_eq_self_iff drop_bit_eq_div)
  show "(h OR (drop_bit 12 c AND 0xFFF0)) mod 65536 mod 16 = h"
    unfolding m by (simp add: take_bit_or take_bit_and h(1))
  have "drop_bit 4 (take_bit 16 (h OR (drop_bit 12 c AND 0xFFF0))) = take_bit 12 (drop_bit 16 c) AND 0xFFF"
    by (simp add: drop_bit_take_bit drop_bit_or drop_bit_and h(2) drop_bit_drop_bit take_bit_and)
  moreover have "take_bit 12 (drop_bit 16 c) AND 0xFFF = take_bit 12 (drop_bit 16 c)"
    using take_bit_eq_mask [of 12 "take_bit 12 (drop_bit 16 c)"] by (simp add: mask_eq_exp_minus_1)
  ultimately show "(h OR (drop_bit 12 c AND 0xFFF0)) mod 65536 div 16 = c div 65536" unfolding m c by simp
qed

lemma eckd_records_device:
  assumes "geo_heads info \<le> 16"
  shows "eckd_device info platter (eckd_records info platter)"
  unfolding eckd_device_def
proof (intro allI impI)
  fix c h r :: nat
  assume a: "c < 2 ^ 28 \<and> h < geo_heads info \<and> 0 < r \<and> r \<le> geo_sectors info"
  have "c mod 65536 + 65536 * (c div 65536) = c" by simp
  then show "eckd_records info platter (c mod 65536) ((h OR (drop_bit 12 c AND 0xFFF0)) mod 65536) r = Some (platter (chs_block info c h r))"
    unfolding eckd_records_def using large_volume_address [of c h] a assms by simp
qed

lemma sim_runs:
  assumes "k < 8" and "\<not> dead (2 ^ k)"
  shows "runs_programs (sim_css run dead) (\<lambda>_. True) run"
  using sim_path_device [of k dead run, OF assms] unfolding runs_programs_def by (auto simp: sim_css_def)

text \<open>A disk with one program: the program table, a component table, a segment table and a component of two blocks.\<close>

definition sample_info :: "disk_type \<Rightarrow> disk_info" where
  "sample_info t = \<lparr>di_type = t, phy_block_size = 512, geo_heads = 15, geo_sectors = 49, geo_start = 0\<rparr>"

definition sample_pointer :: "disk_info \<Rightarrow> disk_blockptr" where
  "sample_pointer info = (disk_blockptr_from_blocknum 4 info)\<lparr>bp_blockct := 1\<rparr>"

definition sample_psw :: nat where
  "sample_psw = 0x000800008000A000"

definition sample_component :: "u8 list" where
  "sample_component = replicate 512 4 @ replicate 512 5"

definition sample_entry :: stage2_entry where
  "sample_entry = (COMPONENT_TYPE_LOAD, 3, sample_component, 0x20000)"

definition sample_platter :: "disk_info \<Rightarrow> platter" where
  "sample_platter info b =
     (if b = 1 then replicate 16 0 @ enc info (disk_blockptr_from_blocknum 2 info) @ replicate 480 0
      else if b = 2 then
        create_component_header COMPONENT_HEADER_IPL @ entry_bytes info sample_entry @
        create_component_entry zero_blockptr COMPONENT_TYPE_EXECUTE sample_psw info LEGACY_BLKPTR_FORMAT_ID @ replicate 416 0
      else if b = 3 then enc info (sample_pointer info) @ replicate 496 0
      else replicate 512 (of_nat b))"

definition sample_loader :: "disk_info \<Rightarrow> scsw loader" where
  "sample_loader info =
     \<lparr>ld_mem = mem_write (\<lambda>_. 0) 0x78 (enc info (disk_blockptr_from_blocknum 1 info)),
      ld_heap = \<lparr>heap_start = 0x8000, heap_stop = 0xC000, heap_mem = replicate MEM_ALLOC_MAX [], mem_page_alloc_vec = replicate MEM_ALLOC_MAX False\<rparr>,
      ld_lpm = 0, ld_dev = sim_status True\<rparr>"

lemma sample_disk:
  assumes "t \<noteq> disk_type_diag"
  shows "disk_ok (sample_info t)" and "table_disk (sample_info t)" and "phy_block_size (sample_info t) \<le> PAGE_SIZE"
  using assms by (auto simp: sample_info_def disk_ok_def table_disk_def)

lemma sample_length:
  assumes "t \<noteq> disk_type_diag"
  shows "length (sample_platter (sample_info t) b) = phy_block_size (sample_info t)"
  using sample_disk(1) [OF assms]
  by (simp add: sample_platter_def sample_entry_def length_blockptr_bytes length_entry create_component_header_def ZIPL_MAGIC_def)
    (simp add: sample_info_def)

lemma sample_pointer_ok:
  assumes "t \<noteq> disk_type_diag"
  shows "ptr_ok (sample_info t) (sample_pointer (sample_info t))" and "\<not> disk_is_zero_block (sample_pointer (sample_info t)) (sample_info t)"
    and "ptr_blocks (sample_info t) (sample_pointer (sample_info t)) = [4, 5]"
  using assms
  by (cases t; simp add: sample_info_def sample_pointer_def ptr_ok_def disk_is_zero_block_def disk_blockptr_from_blocknum_def zero_blockptr_def
    disk_type_is_eckd_def disk_cyl_from_blocknum_def disk_head_from_blocknum_def disk_sec_from_blocknum_def ptr_first_def chs_block_def
    block_limit_def max_link_count_def ptr_blocks_def upt_rec)+

lemma sample_component_ok:
  assumes "t \<noteq> disk_type_diag" and "\<And>p. bp_blockct p = 1 \<Longrightarrow> loadable p"
  shows "stage2_component (sample_platter (sample_info t)) (sample_info t) loadable 3 sample_component"
proof -
  let ?i = "sample_info t"
  have "seg_chain (sample_platter ?i) ?i LEGACY_BLKPTR_FORMAT_ID 3 [sample_pointer ?i]"
    by (rule seg_chain.seg_last) (simp_all add: sample_platter_def sample_info_def seg_slots_def)
  moreover have "ptrs_data (sample_platter ?i) ?i [sample_pointer ?i] = sample_component"
    by (simp add: ptr_data_def sample_pointer_ok [OF assms(1)] sample_platter_def sample_component_def)
  moreover have "blocknum_ok ?i 3" by (simp add: blocknum_ok_def sample_info_def block_limit_def)
  moreover have "loadable (sample_pointer ?i)" by (rule assms(2)) (simp add: sample_pointer_def)
  ultimately show ?thesis
    unfolding stage2_component_def using sample_pointer_ok [OF assms(1)] by (intro conjI exI [of _ "[sample_pointer ?i]"]) simp_all
qed

lemma sample_program:
  assumes "t \<noteq> disk_type_diag" and "\<And>p. bp_blockct p = 1 \<Longrightarrow> loadable p"
  shows "stage2_program (sample_platter (sample_info t)) (sample_info t) loadable 1 0 [sample_entry] sample_psw"
proof -
  let ?i = "sample_info t"
  note dok = sample_disk(1) [OF assms(1)]
  have b: "blocknum_ok ?i 1" "blocknum_ok ?i 2" "phy_block_size ?i = 512" by (simp_all add: blocknum_ok_def sample_info_def block_limit_def)
  have "entry_ok (sample_platter ?i) ?i loadable sample_entry"
    using sample_component_ok [OF assms] by (simp add: sample_entry_def sample_component_def)
  moreover have "take 16 (drop (16 + 16 * 0) (sample_platter ?i 1)) = enc ?i (disk_blockptr_from_blocknum 2 ?i)"
    by (simp add: sample_platter_def length_blockptr_bytes [OF dok])
  moreover have "length (create_component_header COMPONENT_HEADER_IPL) = 32" "take 2 (drop 26 (create_component_header COMPONENT_HEADER_IPL)) = [0, 0]"
    by (simp_all add: create_component_header_def ZIPL_MAGIC_def numeral_2_eq_2)
  then have "take 2 (drop (26 + 16 * 0) (sample_platter ?i 2)) = [0, 0]"
    "take (32 * length [sample_entry] + 32) (drop 32 (sample_platter ?i 2)) = concat (map (entry_bytes ?i) [sample_entry]) @
      create_component_entry zero_blockptr COMPONENT_TYPE_EXECUTE sample_psw ?i LEGACY_BLKPTR_FORMAT_ID"
    by (simp_all add: sample_platter_def sample_entry_def length_entry [OF dok])
  ultimately show ?thesis
    unfolding stage2_program_def using b by (intro conjI exI [of _ 2]) (simp_all add: sample_psw_def)
qed

lemma sample_loader_ok:
  assumes "t \<noteq> disk_type_diag"
  shows "loader_ok (\<lambda>_. True) (sample_loader (sample_info t))" and "3 \<le> card (free_pages (ld_heap (sample_loader (sample_info t))))"
    and "low_heap (ld_heap (sample_loader (sample_info t)))"
    and "mem_bytes (ld_mem (sample_loader (sample_info t))) 0x78 16 = enc (sample_info t) (disk_blockptr_from_blocknum 1 (sample_info t))"
    and "page_area (free_pages (ld_heap (sample_loader (sample_info t)))) = {0x8000..<0xC000}"
proof -
  let ?h = "ld_heap (sample_loader (sample_info t))"
  have pc: "page_count ?h = 4" by (simp add: sample_loader_def page_count_def)
  have "{i. i < (4::nat)} = {0, 1, 2, 3}" by auto
  moreover have "all_pages ?h = (\<lambda>i. heap_start ?h + i * PAGE_SIZE) ` {i. i < 4}" by (auto simp: all_pages_def pc)
  ultimately have ap: "all_pages ?h = {0x8000, 0x9000, 0xA000, 0xB000}" by (simp add: sample_loader_def)
  have "\<not> mem_page_alloc_vec ?h ! i" if "i < 4" for i using that by (simp add: sample_loader_def)
  then have "pages_used ?h = {}" using pc by (auto simp: pages_used_def)
  then have fp: "free_pages ?h = {0x8000, 0x9000, 0xA000, 0xB000}" by (simp add: free_pages_def ap)
  show "3 \<le> card (free_pages ?h)" by (simp add: fp)
  show "page_area (free_pages ?h) = {0x8000..<0xC000}" by (auto simp: fp)
  show "low_heap ?h" by (simp add: low_heap_def ap)
  show "loader_ok (\<lambda>_. True) (sample_loader (sample_info t))" by (simp add: loader_ok_def sample_loader_def heap_ok_def)
  show "mem_bytes (ld_mem (sample_loader (sample_info t))) 0x78 16 = enc (sample_info t) (disk_blockptr_from_blocknum 1 (sample_info t))"
    by (simp add: sample_loader_def length_blockptr_bytes [OF sample_disk(1) [OF assms]])
qed

lemma sample_areas: "entry_area sample_entry \<inter> {0x8000..<0xC000} = {}" "{0x78..<0x78 + 16} \<inter> {0x8000..<0xC000} = ({} :: nat set)"
  by (auto simp: sample_entry_def)

section \<open>Implementations of the loader\<close>

text \<open>Both modules on simulated disks, of which the first path is not operational, implement the loader.\<close>

abbreviation sample_eckd :: "(memory \<times> scsw) css" where
  "sample_eckd \<equiv> sim_css (eckd_run (eckd_records (sample_info disk_type_eckd_cdl) (sample_platter (sample_info disk_type_eckd_cdl)))) (\<lambda>lpm. lpm = 0x80)"

abbreviation sample_fba :: "(memory \<times> scsw) css" where
  "sample_fba \<equiv> sim_css (fba_run (\<lambda>b. Some (sample_platter (sample_info disk_type_fba) b))) (\<lambda>lpm. lpm = 0x80)"

lemma sample_eckd_runs:
  "runs_programs sample_eckd (\<lambda>_. True) (eckd_run (eckd_records (sample_info disk_type_eckd_cdl) (sample_platter (sample_info disk_type_eckd_cdl))))"
  by (rule sim_runs [of 0]) simp_all

lemma sample_eckd_device:
  "eckd_device (sample_info disk_type_eckd_cdl) (sample_platter (sample_info disk_type_eckd_cdl))
     (eckd_records (sample_info disk_type_eckd_cdl) (sample_platter (sample_info disk_type_eckd_cdl)))"
  by (rule eckd_records_device) (simp add: sample_info_def)

lemma sample_fba_runs: "runs_programs sample_fba (\<lambda>_. True) (fba_run (\<lambda>b. Some (sample_platter (sample_info disk_type_fba) b)))"
  by (rule sim_runs [of 0]) simp_all

lemma sample_types: "disk_type_is_eckd (di_type (sample_info disk_type_eckd_cdl))" "di_type (sample_info disk_type_fba) = disk_type_fba"
  by (simp_all add: sample_info_def disk_type_is_eckd_def)

interpretation eckd_loader: block_loader "eckd2 sample_eckd" "\<lambda>_. True" "sample_info disk_type_eckd_cdl"
  "sample_platter (sample_info disk_type_eckd_cdl)" "\<lambda>_. True"
  by (rule eckd_block_loader [OF sample_eckd_runs sample_eckd_device sample_types(1)]) (simp_all add: sample_disk sample_length)

interpretation fba_loader: block_loader "fba2 sample_fba" "\<lambda>_. True" "sample_info disk_type_fba"
  "sample_platter (sample_info disk_type_fba)" "\<lambda>p. bp_blockct p \<noteq> MAX_BLOCKCT"
  by (rule fba_block_loader [OF sample_fba_runs _ sample_types(2)]) (simp_all add: sample_disk sample_length fba_device_def)

section \<open>Properties\<close>

text \<open>
  C3. Stage 2 on an ECKD disk: it reads the program table, the component table of the selected program and the chains
  of segment tables of its components, and returns the PSW of the program with every component in full at its load
  address. All its pages are free again. The device is reached if one of its paths is operational.
\<close>

theorem stage2_start_eckd:
  assumes "runs_programs hw dev_ok (eckd_run dev)" and "eckd_device info platter dev" and "disk_type_is_eckd (di_type info)"
    and "table_disk info" and "phy_block_size info \<le> PAGE_SIZE" and "\<And>b. length (platter b) = phy_block_size info"
    and "stage2_program platter info (\<lambda>_. True) t config_nr es psw"
    and "loader_ok dev_ok s" and "3 \<le> card (free_pages (ld_heap s))" and "low_heap (ld_heap s)"
    and "mem_bytes (ld_mem s) desc 16 = enc info (disk_blockptr_from_blocknum t info)"
    and "{desc..<desc + 16} \<inter> page_area (free_pages (ld_heap s)) = {}"
    and "(\<Union>c \<in> set es. entry_area c) \<inter> page_area (free_pages (ld_heap s)) = {}"
  shows "\<exists>s'. stage2_start hw (eckd2 hw) s desc config_nr = Some (Inr (psw, s')) \<and> same_heap (ld_heap s) (ld_heap s') \<and>
    (\<forall>c \<in> set es. entry_loaded (ld_mem s') c)"
  by (rule stage2_start_ok [OF eckd_block_loader [OF assms(1-6)] assms(1,7-13)])

theorem stage2_start_eckd_witness:
  "\<exists>s'. stage2_start sample_eckd (eckd2 sample_eckd) (sample_loader (sample_info disk_type_eckd_cdl)) 0x78 0 = Some (Inr (sample_psw, s')) \<and>
    mem_bytes (ld_mem s') 0x20000 1024 = replicate 512 4 @ replicate 512 5"
proof -
  let ?i = "sample_info disk_type_eckd_cdl"
  have "\<exists>s'. stage2_start sample_eckd (eckd2 sample_eckd) (sample_loader ?i) 0x78 0 = Some (Inr (sample_psw, s')) \<and>
      same_heap (ld_heap (sample_loader ?i)) (ld_heap s') \<and> (\<forall>c \<in> set [sample_entry]. entry_loaded (ld_mem s') c)"
    by (rule stage2_start_eckd [OF sample_eckd_runs sample_eckd_device sample_types(1) _ _ _ sample_program])
      (simp_all add: sample_disk sample_length sample_loader_ok sample_areas)
  then show ?thesis by (auto simp: sample_entry_def sample_component_def)
qed

text \<open>
  C18. Stage 2 on an FBA disk: the same holds for programs without a pointer to exactly 129 blocks.
\<close>

theorem stage2_start_fba:
  assumes "runs_programs hw dev_ok (fba_run dev)" and "fba_device platter dev" and "di_type info = disk_type_fba"
    and "table_disk info" and "phy_block_size info \<le> PAGE_SIZE" and "\<And>b. length (platter b) = phy_block_size info"
    and "stage2_program platter info (\<lambda>p. bp_blockct p \<noteq> MAX_BLOCKCT) t config_nr es psw"
    and "loader_ok dev_ok s" and "3 \<le> card (free_pages (ld_heap s))" and "low_heap (ld_heap s)"
    and "mem_bytes (ld_mem s) desc 16 = enc info (disk_blockptr_from_blocknum t info)"
    and "{desc..<desc + 16} \<inter> page_area (free_pages (ld_heap s)) = {}"
    and "(\<Union>c \<in> set es. entry_area c) \<inter> page_area (free_pages (ld_heap s)) = {}"
  shows "\<exists>s'. stage2_start hw (fba2 hw) s desc config_nr = Some (Inr (psw, s')) \<and> same_heap (ld_heap s) (ld_heap s') \<and>
    (\<forall>c \<in> set es. entry_loaded (ld_mem s') c)"
  by (rule stage2_start_ok [OF fba_block_loader [OF assms(1-6)] assms(1,7-13)])

theorem stage2_start_fba_witness:
  "\<exists>s'. stage2_start sample_fba (fba2 sample_fba) (sample_loader (sample_info disk_type_fba)) 0x78 0 = Some (Inr (sample_psw, s')) \<and>
    mem_bytes (ld_mem s') 0x20000 1024 = replicate 512 4 @ replicate 512 5"
proof -
  let ?i = "sample_info disk_type_fba"
  have "\<exists>s'. stage2_start sample_fba (fba2 sample_fba) (sample_loader ?i) 0x78 0 = Some (Inr (sample_psw, s')) \<and>
      same_heap (ld_heap (sample_loader ?i)) (ld_heap s') \<and> (\<forall>c \<in> set [sample_entry]. entry_loaded (ld_mem s') c)"
    by (rule stage2_start_fba [OF sample_fba_runs _ sample_types(2) _ _ _ sample_program])
      (simp_all add: sample_disk sample_length sample_loader_ok sample_areas fba_device_def)
  then show ?thesis by (auto simp: sample_entry_def sample_component_def)
qed

text \<open>
  C36. A pointer to 129 blocks on an FBA disk: the module loads the first 128 blocks, finds the count of the rest to be
  zero and returns, so that the last block is missing and what follows is loaded in its place.
\<close>

theorem fba_load_direct_129:
  assumes "runs_programs hw dev_ok (fba_run dev)" and "fba_device platter dev" and "\<And>b. length (platter b) = phy_block_size info"
    and "di_type info = disk_type_fba" and "disk_ok info"
    and "loader_ok dev_ok s" and "free_pages (ld_heap s) \<noteq> {}"
    and "ptr_ok info p" and "\<not> disk_is_zero_block p info" and "bp_blockct p = 128" and "mem_bytes (ld_mem s) a 16 = enc info p"
    and "{a..<a + 16} \<inter> page_area (free_pages (ld_heap s)) = {}"
    and "apart s addr (phy_block_size info * 129)" and "{a..<a + 16} \<inter> {addr..<addr + phy_block_size info * 129} = {}"
  shows "\<exists>s'. fba_load_direct hw s a addr = Some (Inr (addr + phy_block_size info * 128, s')) \<and>
    mem_bytes (ld_mem s') addr (phy_block_size info * 128) = concat (map platter [bp_block p..<bp_block p + 128]) \<and>
    mem_bytes (ld_mem s') (addr + phy_block_size info * 128) (phy_block_size info) =
      mem_bytes (ld_mem s) (addr + phy_block_size info * 128) (phy_block_size info)"
proof -
  let ?d = "fba_blocks platter (bp_block p) 128" and ?sz = "phy_block_size info"
  have "[bp_block p..<bp_block p + 128] = map (\<lambda>i. bp_block p + i) [0..<128]" by (rule nth_equalityI) simp_all
  then have d: "?d = concat (map platter [bp_block p..<bp_block p + 128])" by (simp add: comp_def)
  have len: "length ?d = ?sz * 128" by (rule length_fba_blocks [OF assms(3)])
  have 129: "?sz * 129 = ?sz * 128 + ?sz" by simp
  note ar = apart_split [OF assms(13) [unfolded 129]] and dj = disjoint_split [OF assms(14) [unfolded 129]]
  have "\<exists>s'. fba_load_direct hw s a addr = Some (Inr (addr + ?sz * 128, s')) \<and> loaded dev_ok s s' {a..<a + 16} addr ?d"
    using fba_load_large [OF assms(1-9,11,12), of "?sz * 129" addr] assms(10,13,14) by simp
  then obtain s' where s': "fba_load_direct hw s a addr = Some (Inr (addr + ?sz * 128, s'))" "loaded dev_ok s s' {a..<a + 16} addr ?d"
    by blast
  have "mem_bytes (ld_mem s') addr (length ?d) = ?d" by (rule loaded_data [OF s'(2)]) (use ar(1) len in \<open>simp add: apart_def\<close>)
  moreover have "mem_bytes (ld_mem s') (addr + ?sz * 128) ?sz = mem_bytes (ld_mem s) (addr + ?sz * 128) ?sz"
    by (rule loaded_frame [OF s'(2)]) (use ar(2) dj(2) len in \<open>auto simp: apart_def\<close>)
  ultimately show ?thesis using s'(1) len unfolding d by auto
qed

text \<open>The blocks that are read in the witness have their number in each byte.\<close>

definition big_pointer :: disk_blockptr where
  "big_pointer = zero_blockptr\<lparr>bp_block := 7, bp_size := 512, bp_blockct := 128\<rparr>"

abbreviation plain_fba :: "(memory \<times> scsw) css" where
  "plain_fba \<equiv> sim_css (fba_run (\<lambda>b. Some (replicate 512 (of_nat b)))) (\<lambda>_. False)"

theorem fba_load_direct_129_witness:
  "\<exists>s'. fba_load_direct plain_fba ((sample_loader (sample_info disk_type_fba))\<lparr>ld_mem := mem_write (\<lambda>_. 0xFF) 0x100 (enc (sample_info disk_type_fba) big_pointer)\<rparr>) 0x100 0x20000 =
      Some (Inr (0x30000, s')) \<and> mem_bytes (ld_mem s') 0x30000 512 = replicate 512 0xFF"
proof -
  let ?i = "sample_info disk_type_fba"
  let ?s = "(sample_loader ?i)\<lparr>ld_mem := mem_write (\<lambda>_. 0xFF) 0x100 (enc ?i big_pointer)\<rparr>"
  have t: "disk_type_fba \<noteq> disk_type_diag" by simp
  have run: "runs_programs plain_fba (\<lambda>_. True) (fba_run (\<lambda>b. Some (replicate 512 (of_nat b))))" by (rule sim_runs [of 0]) simp_all
  have p: "ptr_ok ?i big_pointer" "\<not> disk_is_zero_block big_pointer ?i"
    by (simp_all add: ptr_ok_def big_pointer_def zero_blockptr_def sample_info_def disk_is_zero_block_def disk_type_is_eckd_def
      block_limit_def max_link_count_def ptr_first_def)
  have h: "free_pages (ld_heap ?s) \<noteq> {}" using sample_loader_ok(2) [OF t] by auto
  have "{0x100..<0x100 + 16} \<inter> {0x8000..<0xC000} = ({} :: nat set)" "{0x20000..<0x20000 + 512 * 129} \<inter> {0x8000..<0xC000} = ({} :: nat set)"
    "{0x100..<0x100 + 16} \<inter> {0x20000..<0x20000 + 512 * 129} = ({} :: nat set)" by auto
  then have "\<exists>s'. fba_load_direct plain_fba ?s 0x100 0x20000 = Some (Inr (0x20000 + phy_block_size ?i * 128, s')) \<and>
      mem_bytes (ld_mem s') 0x20000 (phy_block_size ?i * 128) = concat (map (\<lambda>b. replicate 512 (of_nat b)) [bp_block big_pointer..<bp_block big_pointer + 128]) \<and>
      mem_bytes (ld_mem s') (0x20000 + phy_block_size ?i * 128) (phy_block_size ?i) = mem_bytes (ld_mem ?s) (0x20000 + phy_block_size ?i * 128) (phy_block_size ?i)"
    by (intro fba_load_direct_129 [OF run _ _ sample_types(2) sample_disk(1) [OF t] _ h p])
      (use sample_loader_ok [OF t] in \<open>simp_all add: fba_device_def sample_info_def loader_ok_def big_pointer_def apart_def length_blockptr_bytes [OF sample_disk(1) [OF t], unfolded sample_info_def]\<close>)
  moreover have "mem_bytes (ld_mem ?s) 0x30000 512 = replicate 512 0xFF"
    by (rule mem_bytes_eq) (simp_all add: mem_write_def length_blockptr_bytes [OF sample_disk(1) [OF t]])
  ultimately show ?thesis by (auto simp: sample_info_def)
qed

lemma component_for_stage2:
  "component_on_disk platter info LEGACY_BLKPTR_FORMAT_ID b bytes \<Longrightarrow> stage2_component platter info (\<lambda>_. True) b bytes"
  by (auto simp: component_on_disk_def stage2_component_def ptrs_data_def)

text \<open>
  C4. Installer and loader fit together: when the installer has written a buffer as a component of the bootmap, stage 2
  finds it through the entry that the installer made, and loads the buffer to the address in the entry, padded with
  zeros to full blocks. \<open>d\<close> is the content of the bootmap on the disk when the installer is done.
\<close>

theorem component_installed_and_loaded:
  assumes "table_disk info" and "info = dev_base dev mirror_id" and "appendable (bs_mfd bis)"
    and "on_platter platter (env_bootmap_map env) (dev_fs_block_size dev) info d"
    and "hole_ok platter info (env_empty_blocks env mirror_id)"
    and "dev_align dev mod phy_block_size info = 0" and "\<And>n. dev_fs_block_size dev = Some n \<Longrightarrow> n mod phy_block_size info = 0"
    and "fs_block_aligned_by_id c \<Longrightarrow> dev_fs_block_size dev \<noteq> None"
    and "\<not> (skip_prepare_device bis \<and> skip_prepare_blocklist bis mirror_id)" and "fst (bs_comp_reg bis c menu_idx) = 0" and "buffer \<noteq> []"
    and "add_component_buffer env dev bis buffer load_address c menu_idx mirror_id LEGACY_BLKPTR_FORMAT_ID = Inr (bis', entry)"
    and "keeps_blocks (phy_block_size info) (fd_data (bs_mfd bis')) d" and "component_type_by_id c = COMPONENT_TYPE_LOAD"
    and "runs_programs hw dev_ok (eckd_run records)" and "eckd_device info platter records" and "disk_type_is_eckd (di_type info)"
    and "phy_block_size info \<le> PAGE_SIZE" and "\<And>b. length (platter b) = phy_block_size info"
    and "loader_ok dev_ok s" and "2 \<le> card (free_pages (ld_heap s))" and "low_heap (ld_heap s)"
    and "mem_bytes (ld_mem s) e 32 = entry" and "{e..<e + 16} \<inter> page_area (free_pages (ld_heap s)) = {}"
    and "apart s load_address (length (padded (phy_block_size info) buffer))"
  shows "\<exists>s'. entry_type (ld_mem s) e = component_type_code COMPONENT_TYPE_LOAD \<and>
    load_blocklist (eckd2 hw) s e (entry_compdat (ld_mem s) e) =
      Some (Inr (load_address + length (padded (phy_block_size info) buffer), s')) \<and>
    mem_bytes (ld_mem s') load_address (length (padded (phy_block_size info) buffer)) = padded (phy_block_size info) buffer"
proof -
  let ?data = "padded (phy_block_size info) buffer"
  have dok: "disk_ok info" using assms(1) by (simp add: table_disk_def)
  obtain b where b: "entry = create_component_entry (disk_blockptr_from_blocknum b info) (component_type_by_id c) load_address info LEGACY_BLKPTR_FORMAT_ID"
    "component_on_disk platter info LEGACY_BLKPTR_FORMAT_ID b ?data"
    using component_buffer_ok(1) [OF assms(1-13)] by blast
  have m: "mem_bytes (ld_mem s) e 32 = create_component_entry (disk_blockptr_from_blocknum b info) COMPONENT_TYPE_LOAD load_address info LEGACY_BLKPTR_FORMAT_ID"
    using assms(14,23) b(1) by simp
  have "load_address < 2 ^ 64" using assms(25) by (simp add: apart_def)
  note cd = entry_compdat_of [OF dok m this] and pt = entry_pointer_of [OF dok m component_type.distinct(1) [symmetric]]
  obtain s' where "load_blocklist (eckd2 hw) s e load_address = Some (Inr (load_address + length ?data, s'))" "loaded dev_ok s s' {e..<e + 16} load_address ?data"
    using block_loader.load_blocklist_ok [OF eckd_block_loader [OF assms(15-17,1,18,19)] component_for_stage2 [OF b(2)] assms(20-22) pt assms(24,25)] by blast
  moreover have "mem_bytes (ld_mem s') load_address (length ?data) = ?data"
    by (rule loaded_data [OF \<open>loaded dev_ok s s' {e..<e + 16} load_address ?data\<close>]) (use assms(25) in \<open>simp add: apart_def\<close>)
  ultimately show ?thesis using cd entry_type_of [OF dok m] by auto
qed

text \<open>A bootmap on a raw disk with blocks of 32 bytes; block 1 is the empty block.\<close>

definition tiny_info :: disk_info where
  "tiny_info = \<lparr>di_type = disk_type_eckd_cdl, phy_block_size = 32, geo_heads = 15, geo_sectors = 49, geo_start = 0\<rparr>"

definition tiny_env :: zipl_env where
  "tiny_env = \<lparr>env_file = (\<lambda>_. None), env_bootmap_map = \<lparr>premap_ok = True, fiemap_at = (\<lambda>_. FiemapFailed), fibmap_at = (\<lambda>_. None)\<rparr>,
     env_bootmap_on_device = True, env_empty_blocks = (\<lambda>_. disk_blockptr_from_blocknum 1 tiny_info),
     env_secure_boot_supported = False, env_stage3_path = []\<rparr>"

definition tiny_dev :: device_info where
  "tiny_dev = \<lparr>dev_fs_block_size = None, dev_align = 32, dev_base = (\<lambda>_. tiny_info)\<rparr>"

definition tiny_bis :: install_set where
  "tiny_bis = \<lparr>bs_mfd = \<lparr>fd_data = replicate 64 0, fd_pos = 64, fd_room = 1000, simulate_write = False\<rparr>, skip_prepare_device = False,
     skip_prepare_blocklist = (\<lambda>_. False), bs_components = (\<lambda>_ _ _. \<lparr>pc_loc_addr = 0, pc_loc_size = 0, pc_list = [], pc_count = 0\<rparr>),
     bs_comp_reg = (\<lambda>_ _. (0, 0)), bs_tables = (\<lambda>_ _. zero_blockptr)\<rparr>"

definition tiny_file :: "u8 list" where
  "tiny_file = replicate 64 0 @ [1, 2, 3] @ replicate 29 0 @ enc tiny_info (disk_blockptr_from_blocknum 2 tiny_info) @ replicate 16 0"

definition tiny_platter :: platter where
  "tiny_platter b = file_block tiny_file 32 b"

lemma tiny_simps:
  "phy_block_size tiny_info = 32" "di_type tiny_info = disk_type_eckd_cdl" "geo_start tiny_info = 0" "geo_heads tiny_info = 15" "geo_sectors tiny_info = 49"
  by (simp_all add: tiny_info_def)

lemma tiny_disk: "disk_ok tiny_info" "table_disk tiny_info" "disk_type_is_eckd (di_type tiny_info)" "b < 1000 \<Longrightarrow> blocknum_ok tiny_info b"
  by (simp_all add: disk_ok_def table_disk_def tiny_simps disk_type_is_eckd_def blocknum_ok_def)

lemma tiny_enc: "length (enc tiny_info p) = 16" "enc tiny_info zero_blockptr = replicate 16 0"
  "\<not> disk_is_zero_block (disk_blockptr_from_blocknum 2 tiny_info) tiny_info"
  using length_blockptr_bytes [OF tiny_disk(1)] zero_blockptr_bytes [OF tiny_disk(1)] blockptr_from_blocknum(3) [OF tiny_disk(1,4), of 2] by simp_all

lemma tiny_component:
  "\<exists>bis'. add_component_buffer tiny_env tiny_dev tiny_bis [1, 2, 3] 0x20000 COMPONENT_ID_PARAMETERS 0 0 LEGACY_BLKPTR_FORMAT_ID =
     Inr (bis', create_component_entry (disk_blockptr_from_blocknum 3 tiny_info) COMPONENT_TYPE_LOAD 0x20000 tiny_info LEGACY_BLKPTR_FORMAT_ID) \<and>
   fd_data (bs_mfd bis') = tiny_file"
  by (simp add: add_component_buffer_def add_component_buffer_base_def tiny_env_def tiny_dev_def tiny_bis_def tiny_simps tiny_enc
    disk_write_block_buffer_align_def disk_write_block_aligned_base_def align_up_def misc_write_or_simulate_def
    disk_get_blocknum_def fs_block_aligned_by_id_def write_segment_table_def register_list_def set_location_def set_component_def
    set_comp_reg_def disk_compact_blocklist_def add_segment_table_def get_blockptr_size_def disk_type_is_eckd_def
    disk_write_block_aligned_def bootmap_store_blockptr_def put_bytes_def file_put_def tiny_file_def Let_def)

lemma tiny_platter_blocks: "tiny_platter 0 = replicate 32 0" "tiny_platter 1 = replicate 32 0" "length (tiny_platter b) = 32"
proof -
  show "tiny_platter 0 = replicate 32 0" "tiny_platter 1 = replicate 32 0" by (simp_all add: tiny_platter_def file_block_def tiny_file_def)
  show "length (tiny_platter b) = 32" by (simp add: tiny_platter_def file_block_def)
qed

lemma tiny_on_platter: "on_platter tiny_platter (env_bootmap_map tiny_env) (dev_fs_block_size tiny_dev) tiny_info tiny_file"
proof -
  have len: "length tiny_file = 128" by (simp add: tiny_file_def tiny_enc)
  show ?thesis
    using tiny_platter_blocks(1) by (auto simp: on_platter_def tiny_simps block_count_def tiny_dev_def disk_get_blocknum_def tiny_disk(4) len tiny_platter_def)
qed

theorem component_installed_and_loaded_witness:
  "\<exists>bis' entry s'.
     add_component_buffer tiny_env tiny_dev tiny_bis [1, 2, 3] 0x20000 COMPONENT_ID_PARAMETERS 0 0 LEGACY_BLKPTR_FORMAT_ID = Inr (bis', entry) \<and>
     load_blocklist (eckd2 (sim_css (eckd_run (eckd_records tiny_info tiny_platter)) (\<lambda>_. False)))
       ((sample_loader (sample_info disk_type_fba))\<lparr>ld_mem := mem_write (\<lambda>_. 0) 0x100 entry\<rparr>) 0x100 0x20000 = Some (Inr (0x20020, s')) \<and>
     mem_bytes (ld_mem s') 0x20000 32 = [1, 2, 3] @ replicate 29 0"
proof -
  let ?hw = "sim_css (eckd_run (eckd_records tiny_info tiny_platter)) (\<lambda>_. False)"
  let ?entry = "create_component_entry (disk_blockptr_from_blocknum 3 tiny_info) COMPONENT_TYPE_LOAD 0x20000 tiny_info LEGACY_BLKPTR_FORMAT_ID"
  let ?s = "(sample_loader (sample_info disk_type_fba))\<lparr>ld_mem := mem_write (\<lambda>_. 0) 0x100 ?entry\<rparr>"
  obtain bis' where b: "add_component_buffer tiny_env tiny_dev tiny_bis [1, 2, 3] 0x20000 COMPONENT_ID_PARAMETERS 0 0 LEGACY_BLKPTR_FORMAT_ID =
      Inr (bis', ?entry)" "fd_data (bs_mfd bis') = tiny_file"
    using tiny_component by blast
  have run: "runs_programs ?hw (\<lambda>_. True) (eckd_run (eckd_records tiny_info tiny_platter))" by (rule sim_runs [of 0]) simp_all
  have m: "mem_bytes (ld_mem ?s) 0x100 32 = ?entry" by (simp add: length_entry [OF tiny_disk(1)])
  have cd: "entry_compdat (ld_mem ?s) 0x100 = 0x20000" by (rule entry_compdat_of [OF tiny_disk(1) m]) simp
  note ld = sample_loader_ok [of disk_type_fba, simplified]
  have pad: "padded (phy_block_size tiny_info) [1, 2, 3] = [1, 2, 3] @ replicate 29 0" by (simp add: padded_def tiny_simps block_count_def)
  have ar: "{0x100..<0x100 + 16} \<inter> {0x8000..<0xC000} = ({} :: nat set)" "{0x20000..<0x20020} \<inter> {0x8000..<0xC000} = ({} :: nat set)" by auto
  have hole: "hole_ok tiny_platter tiny_info (env_empty_blocks tiny_env 0)"
    using tiny_disk(4) [of 1] tiny_platter_blocks(2) by (auto simp: hole_ok_def tiny_env_def tiny_simps intro!: exI [of _ 1])
  have "\<exists>s'. entry_type (ld_mem ?s) 0x100 = component_type_code COMPONENT_TYPE_LOAD \<and>
      load_blocklist (eckd2 ?hw) ?s 0x100 (entry_compdat (ld_mem ?s) 0x100) =
        Some (Inr (0x20000 + length (padded (phy_block_size tiny_info) [1, 2, 3 :: u8]), s')) \<and>
      mem_bytes (ld_mem s') 0x20000 (length (padded (phy_block_size tiny_info) [1, 2, 3 :: u8])) = padded (phy_block_size tiny_info) [1, 2, 3]"
  proof (rule component_installed_and_loaded [OF tiny_disk(2) _ _ tiny_on_platter hole _ _ _ _ _ _ b(1) _ _ run])
    show "eckd_device tiny_info tiny_platter (eckd_records tiny_info tiny_platter)" by (rule eckd_records_device) (simp add: tiny_simps)
    show "apart ?s 0x20000 (length (padded (phy_block_size tiny_info) [1, 2, 3 :: u8]))" using ld ar by (simp add: apart_def pad)
  qed (use ld ar m in \<open>simp_all add: tiny_dev_def tiny_bis_def appendable_def tiny_simps disk_type_is_eckd_def fs_block_aligned_by_id_def b(2) tiny_disk tiny_platter_blocks loader_ok_def\<close>)
  then show ?thesis using b(1) unfolding cd pad by auto
qed

lemma write_segment_entry:
  assumes "write_segment_table env dev bis a c menu_idx mirror_id fid = Inr (bis', entry)"
  shows "\<exists>p. entry = create_component_entry p (component_type_by_id c) a (dev_base dev mirror_id) fid"
  using assms by (auto simp: write_segment_table_def Let_def rbind_def split: sum.splits if_splits)

lemma file_range_entry:
  assumes "add_component_file_range env dev bis src reg a trailer add_files c menu_idx mirror_id fid = Inr (bis', entry)"
  shows "\<exists>p. entry = create_component_entry p (component_type_by_id c) a (dev_base dev mirror_id) fid"
proof -
  obtain b where "write_segment_table env dev b a c menu_idx mirror_id fid = Inr (bis', entry)"
    using assms unfolding add_component_file_range_def Let_def rbind_Inr by blast
  then show ?thesis by (rule write_segment_entry)
qed

text \<open>
  C37. Segment files: the entry that the installer makes for a segment file has the type of the final entry, without a
  block pointer. Stage 2 loads nothing for it and takes the load address of the segment for the PSW of the program.
\<close>

theorem segment_not_loaded:
  assumes "add_component_file env dev bis segment segment_addr 0 add_files COMPONENT_ID_SEGMENT_FILE 0 mirror_id LEGACY_BLKPTR_FORMAT_ID = Inr (bis', entry)"
    and "disk_ok (dev_base dev mirror_id)" and "segment_addr < 2 ^ 64" and "mem_bytes (ld_mem s) e 32 = entry"
  shows "take 16 entry = replicate 16 0 \<and> load_components m s e = Some (Inr (e, s)) \<and> entry_compdat (ld_mem s) e = segment_addr"
proof -
  obtain p where p: "entry = create_component_entry p COMPONENT_TYPE_EXECUTE segment_addr (dev_base dev mirror_id) LEGACY_BLKPTR_FORMAT_ID"
    using assms(1) file_range_entry by (fastforce simp: add_component_file_def Let_def split: if_splits)
  have "entry_type (ld_mem s) e = 1" using entry_type_of [OF assms(2)] assms(4) p by simp
  then have "load_components m s e = Some (Inr (e, s))" by (subst load_components.simps) simp
  moreover have "take 16 entry = replicate 16 0" by (simp add: p create_component_entry_def)
  ultimately show ?thesis using entry_compdat_of [OF assms(2) _ assms(3)] assms(4) p by simp
qed

definition segment_env :: zipl_env where
  "segment_env = tiny_env\<lparr>env_file := (\<lambda>_. Some \<lparr>file_bytes = [1, 2, 3], file_map = env_bootmap_map tiny_env, file_on_device = True\<rparr>)\<rparr>"

lemma segment_entry:
  "\<exists>bis'. add_component_file segment_env tiny_dev tiny_bis ''data'' 0x20000 0 True COMPONENT_ID_SEGMENT_FILE 0 0 LEGACY_BLKPTR_FORMAT_ID =
     Inr (bis', create_component_entry (disk_blockptr_from_blocknum 3 tiny_info) COMPONENT_TYPE_EXECUTE 0x20000 tiny_info LEGACY_BLKPTR_FORMAT_ID)"
  by (simp add: add_component_file_def add_component_file_range_def segment_env_def tiny_env_def tiny_dev_def tiny_bis_def tiny_simps tiny_enc
    disk_write_block_buffer_align_def disk_write_block_aligned_base_def align_up_def misc_write_or_simulate_def
    disk_get_blocknum_def fs_block_aligned_by_id_def write_segment_table_def register_list_def set_location_def set_component_def
    set_comp_reg_def disk_compact_blocklist_def add_segment_table_def get_blockptr_size_def disk_type_is_eckd_def
    disk_write_block_aligned_def bootmap_store_blockptr_def put_bytes_def file_put_def Let_def)

theorem segment_not_loaded_witness:
  "\<exists>bis' entry.
     add_component_file segment_env tiny_dev tiny_bis ''data'' 0x20000 0 True COMPONENT_ID_SEGMENT_FILE 0 0 LEGACY_BLKPTR_FORMAT_ID = Inr (bis', entry) \<and>
     load_components (eckd2 sample_eckd) ((sample_loader tiny_info)\<lparr>ld_mem := mem_write (\<lambda>_. 0) 0x100 entry\<rparr>) 0x100 =
       Some (Inr (0x100, (sample_loader tiny_info)\<lparr>ld_mem := mem_write (\<lambda>_. 0) 0x100 entry\<rparr>))"
proof -
  let ?entry = "create_component_entry (disk_blockptr_from_blocknum 3 tiny_info) COMPONENT_TYPE_EXECUTE 0x20000 tiny_info LEGACY_BLKPTR_FORMAT_ID"
  obtain bis' where b: "add_component_file segment_env tiny_dev tiny_bis ''data'' 0x20000 0 True COMPONENT_ID_SEGMENT_FILE 0 0 LEGACY_BLKPTR_FORMAT_ID = Inr (bis', ?entry)"
    using segment_entry by blast
  have m: "mem_bytes (ld_mem ((sample_loader tiny_info)\<lparr>ld_mem := mem_write (\<lambda>_. 0) 0x100 ?entry\<rparr>)) 0x100 32 = ?entry"
    by (simp add: length_entry [OF tiny_disk(1)])
  have "disk_ok (dev_base tiny_dev 0)" by (simp add: tiny_dev_def tiny_disk(1))
  then show ?thesis using segment_not_loaded [OF b _ _ m, where m = "eckd2 sample_eckd"] b by auto
qed

end
