(* ===== verification/Spec2Isabelle.thy ===== *)
theory Spec2Isabelle
  imports Util_List Vtoc_Disk Vtoc_Freespace Mem_Map Envblk_Sites Envblk_Edit Boot_Cmdline Boot_Secure Boot_Menu Boot_Disks
begin

text \<open>
  Verification of s390-tools.

  s390-tools is the package of user space tools for Linux on IBM Z. The development covers six parts of it
  and how they work together: the doubly linked list of \<^verbatim>\<open>libutil\<close>, the volume labels of \<^verbatim>\<open>libvtoc\<close>, the memory
  map of \<^verbatim>\<open>zgetdump\<close>, the environment block of \<^verbatim>\<open>zipl\<close> with its editor, the bootmap that the installer of \<^verbatim>\<open>zipl\<close>
  writes, and the boot loader of \<^verbatim>\<open>zipl\<close>.

  \<^bold>\<open>Lists.\<close> \<^verbatim>\<open>Util_List\<close> models \<^verbatim>\<open>libutil/util_list.c\<close>. The memory is a store of nodes, a list is its head and
  the offset of the node in an entry, and each function updates the store link by link. The lemmas show that
  the store represents a sequence of entries, and what each operation does to the sequence.

  \<^bold>\<open>Volume labels.\<close> The theories \<^verbatim>\<open>Vtoc_*\<close> model \<^verbatim>\<open>libvtoc/vtoc.c\<close> with the structures of \<^verbatim>\<open>lib/vtoc.h\<close> as
  records of machine words. \<^verbatim>\<open>Vtoc_Ebcdic\<close> has the code page tables, \<^verbatim>\<open>Vtoc_Labels\<close> the packed addresses and
  the functions that fill labels, \<^verbatim>\<open>Vtoc_Disk\<close> the layout of the labels in bytes and their I/O on a device.
  \<^verbatim>\<open>Vtoc_Free5\<close> and \<^verbatim>\<open>Vtoc_Free7\<close> have the two formats of free-space labels and \<^verbatim>\<open>Vtoc_Freespace\<close> the function
  that selects one of them. Both formats share the interface of \<^verbatim>\<open>Vtoc_Extents\<close>: slots that stand for intervals
  of tracks, with merging and cutting as operations on the set of free tracks.

  \<^bold>\<open>Memory of a dump.\<close> \<^verbatim>\<open>Mem_Chunk\<close> and \<^verbatim>\<open>Mem_Map\<close> model \<^verbatim>\<open>zdump/dfi_mem_chunk.c\<close> and the function \<^verbatim>\<open>kdump_init\<close>
  of \<^verbatim>\<open>zdump/dfi.c\<close>: a physical and a virtual memory, each a list of chunks with a cache for the last chunk that
  was found. Reads may loop for ever on an inconsistent map, hence they are partial functions, and that they
  return is proved for consistent maps. Pointers to freed chunks are values of their own, so that a use of one
  is visible.

  \<^bold>\<open>Environment block.\<close> \<^verbatim>\<open>C_Strings\<close> has buffers with checked access. \<^verbatim>\<open>Envblk\<close> translates
  \<^verbatim>\<open>zipl/src/envblk.c\<close>; an access outside of a buffer is the fault \<^verbatim>\<open>BufferOverrun\<close>. \<^verbatim>\<open>Envblk_Ops\<close> relates setting,
  removing and scanning to association lists of names and values, \<^verbatim>\<open>Envblk_Import\<close> does so for the import of a
  file, and \<^verbatim>\<open>Envblk_Sites\<close> for the namespaces of sites. \<^verbatim>\<open>Envblk_Edit\<close> adds the program \<^verbatim>\<open>zipl/src/zipl-editenv.c\<close>
  on top and sequences of its invocations.

  \<^bold>\<open>Boot loader.\<close> \<^verbatim>\<open>Boot_Libc\<close> and \<^verbatim>\<open>Boot_Printf\<close> model \<^verbatim>\<open>zipl/boot/libc.c\<close> and \<^verbatim>\<open>zipl/boot/ebcdic.c\<close>: strings, the
  page allocator, formatted output and number parsing. \<^verbatim>\<open>Boot_Ebcdic\<close> has the conversion table, \<^verbatim>\<open>Boot_Menu\<close> the
  dialog of stage 2, \<^verbatim>\<open>Boot_Env\<close> and \<^verbatim>\<open>Boot_Cmdline\<close> the part of \<^verbatim>\<open>zipl/boot/stage3.c\<close> that reads the environment
  block and builds the command line of the kernel, and \<^verbatim>\<open>Boot_Secure\<close> its secure boot checks. The character
  constants of the boot loader are EBCDIC codes because it is compiled for code page 1047.

  \<^bold>\<open>Bootmap.\<close> \<^verbatim>\<open>Zipl_Disk\<close> models the part of \<^verbatim>\<open>zipl/src/disk.c\<close> and \<^verbatim>\<open>zipl/src/fs-map.c\<close> that maps files to blocks,
  writes aligned blocks and compacts block lists. \<^verbatim>\<open>Zipl_Bootmap\<close> models how \<^verbatim>\<open>zipl/src/bootmap.c\<close> builds segment
  tables, components, programs and the program table in the bootmap file. The state is the installation set with
  the file; the answers of the mapping ioctls and the files of the system are parameters. The lemmas show that the
  chain of segment tables on the disk has the blocks of the component, in order and with holes replaced.

  \<^bold>\<open>Loader.\<close> \<^verbatim>\<open>Boot_Memory\<close> has the memory as a function of addresses. \<^verbatim>\<open>Boot_Cio\<close> models \<^verbatim>\<open>zipl/boot/cio.c\<close>, with the
  I/O instructions as parameter. \<^verbatim>\<open>Boot_Stage2\<close> models \<^verbatim>\<open>zipl/boot/stage2.c\<close> and its disk modules \<^verbatim>\<open>zipl/boot/eckd2.c\<close>
  and \<^verbatim>\<open>zipl/boot/fba2.c\<close>; the locale \<^verbatim>\<open>block_loader\<close> has the laws of a disk module. \<^verbatim>\<open>Boot_Disks\<close> states what the
  channel programs do on a disk, proves the laws for both modules and shows that stage 2 loads whole programs.

  \<^bold>\<open>Composition.\<close> Dumps and labels use the list and word lemmas of the prelude. The boot loader reads the block
  that the installer and the editor write: \<^verbatim>\<open>Boot_Cmdline\<close> states what the kernel gets after an invocation of
  the editor. \<^verbatim>\<open>Boot_Disks\<close> composes installer and loader: what the installer wrote as a component is what stage 2
  loads.

  \<^bold>\<open>Properties.\<close> The refinement lemmas relate each component to its abstract view: sequences, sets of tracks,
  partial maps of addresses, association lists, rendered text. The invariants are the well-formedness of the
  store, of labels, of memory maps and of blocks. Several theorems establish defects: a dangling cache, overruns
  in \<^verbatim>\<open>envblk_set\<close>, in the import of site sections and in the editor, text that is lost from the parameter
  line, reads behind the load parameter, segment files that are never loaded, a block that is missing on FBA disks,
  a busy device that is taken for an enabled one, and wrong blocks of large extents.

  \<^bold>\<open>Bounds.\<close> Word arithmetic wraps as in the code, and the lemmas state the bounds under which it is exact.
  There is no fuel: loops are structural or well-founded recursion, or partial functions with results in the
  option type where they may not end.

  \<^bold>\<open>Not modelled.\<close> Calls of the kernel, of the firmware and of devices are parameters or left out; the hypotheses
  on them have witnesses with concrete devices. Messages are left out where nothing depends on them. Memory
  allocation succeeds, except in the page allocator of the boot loader. Of the installer, the scanner of the
  configuration file with the tables of jobs is left out, and so are the detection of devices and the installation
  of the boot records, which consist of system calls and helper scripts. Of the loader, the dump tools, the service
  calls to the console and the assembler stages are left out. The other tools of the package work through system
  calls, kernel interfaces or external libraries; their components are listed with the reason in the manifest of
  the development.
\<close>

end
